(* ===== verification/WT_Prelude.thy ===== *)
theory WT_Prelude
  imports Main "HOL-Library.Word" "HOL-Library.Multiset" "HOL-Library.Sublist"
begin

text \<open>
  Shared vocabulary of the development: the machine-integer types of the Rust
  sources, the result type that models \<^verbatim>\<open>Result<T, E>\<close>, the two collections of
  rules the component theories fill, and lemmas on lists, words and multisets
  that several components use.

  Conventions.  \<^verbatim>\<open>u8\<close>, \<^verbatim>\<open>u16\<close>, \<^verbatim>\<open>u32\<close> and \<^verbatim>\<open>u64\<close> are words of that length.
  \<^verbatim>\<open>i64\<close> is \<^typ>\<open>int\<close>, with casts and saturation written out where the source
  has them.  \<^verbatim>\<open>usize\<close>, which only counts elements that exist in memory, is
  \<^typ>\<open>nat\<close>.
\<close>

section \<open>Types\<close>

type_synonym u8 = "8 word"
type_synonym u16 = "16 word"
type_synonym u32 = "32 word"
type_synonym u64 = "64 word"
type_synonym i64 = int
type_synonym usize = nat

text \<open>\<^verbatim>\<open>Result<T, E>\<close>: \<open>Inl\<close> is the error.\<close>

type_synonym ('e, 'a) result = "'e + 'a"

abbreviation Ok :: "'a \<Rightarrow> ('e, 'a) result" where
  "Ok \<equiv> Inr"

abbreviation Err :: "'e \<Rightarrow> ('e, 'a) result" where
  "Err \<equiv> Inl"

definition i64_max :: int where
  "i64_max = 2 ^ 63 - 1"

definition i64_min :: int where
  "i64_min = - (2 ^ 63)"

definition in_i64 :: "int \<Rightarrow> bool" where
  "in_i64 n \<longleftrightarrow> i64_min \<le> n \<and> n \<le> i64_max"

named_theorems wt_defs \<open>definitions that component proofs unfold\<close>
named_theorems wt_pres \<open>an operation keeps an invariant or an abstraction\<close>

section \<open>Machine integers\<close>

text \<open>\<^verbatim>\<open>checked_add\<close> and \<^verbatim>\<open>checked_sub\<close> on an unsigned word.\<close>

definition checked_add :: "'a::len word \<Rightarrow> 'a word \<Rightarrow> 'a word option" where
  "checked_add a b =
     (if unat a + unat b < 2 ^ LENGTH('a) then Some (a + b) else None)"

definition checked_sub :: "'a::len word \<Rightarrow> 'a word \<Rightarrow> 'a word option" where
  "checked_sub a b = (if b \<le> a then Some (a - b) else None)"

definition saturating_sub :: "'a::len word \<Rightarrow> 'a word \<Rightarrow> 'a word" where
  "saturating_sub a b = (if b \<le> a then a - b else 0)"

definition saturating_mul :: "'a::len word \<Rightarrow> 'a word \<Rightarrow> 'a word" where
  "saturating_mul a b =
     (if unat a * unat b < 2 ^ LENGTH('a) then a * b else - 1)"

lemma unat_lt_u8 [simp]: "unat (x :: u8) < 256"
  using unsigned_less [of x] by simp

lemma unat_of_nat_small:
  "n < 2 ^ LENGTH('a) \<Longrightarrow> unat (of_nat n :: 'a::len word) = n"
  by (simp add: unat_of_nat take_bit_nat_eq_self)

lemma checked_add_Some_iff:
  "checked_add a b = Some c \<longleftrightarrow> unat c = unat a + unat (b :: 'a::len word)"
proof
  assume "checked_add a b = Some c"
  then show "unat c = unat a + unat b"
    by (auto simp: checked_add_def unat_add_lem split: if_splits)
next
  assume eq: "unat c = unat a + unat b"
  then have "unat a + unat b < 2 ^ LENGTH('a)"
    by (metis unsigned_less)
  moreover from this have "unat (a + b) = unat c"
    using eq by (simp add: unat_add_lem)
  ultimately show "checked_add a b = Some c"
    by (simp add: checked_add_def word_unat_eq_iff)
qed

lemma checked_sub_Some_iff:
  "checked_sub a b = Some c \<longleftrightarrow> unat a = unat c + unat (b :: 'a::len word)"
proof
  assume "checked_sub a b = Some c"
  then have "b \<le> a" "c = a - b"
    by (auto simp: checked_sub_def split: if_splits)
  then show "unat a = unat c + unat b"
    by (simp add: unat_sub word_le_nat_alt)
next
  assume eq: "unat a = unat c + unat b"
  then have le: "b \<le> a"
    by (simp add: word_le_nat_alt)
  then have "unat (a - b) = unat c"
    using eq by (simp add: unat_sub)
  with le show "checked_sub a b = Some c"
    by (simp add: checked_sub_def word_unat_eq_iff)
qed

lemma saturating_sub_of_nat:
  assumes "n \<le> m" "m < 2 ^ LENGTH('a)"
  shows "saturating_sub (of_nat m :: 'a::len word) (of_nat n) = of_nat (m - n)"
  using assms
  by (simp add: saturating_sub_def word_le_nat_alt unat_of_nat_small of_nat_diff)

section \<open>Lists\<close>

lemma filter_notin_key_take:
  assumes "distinct (map f xs)"
  shows "filter (\<lambda>x. f x \<notin> f ` set (take n xs)) xs = drop n xs"
proof -
  let ?P = "\<lambda>x. f x \<notin> f ` set (take n xs)"
  have "distinct (map f (take n xs) @ map f (drop n xs))"
    using assms by (simp flip: map_append)
  then have "?P x" if "x \<in> set (drop n xs)" for x
    using that by (metis disjoint_iff distinct_append image_eqI list.set_map)
  then have "filter ?P (drop n xs) = drop n xs"
    by (simp add: filter_id_conv)
  moreover have "filter ?P (take n xs) = []"
    by (auto simp: filter_empty_conv)
  ultimately have "filter ?P (take n xs @ drop n xs) = drop n xs"
    unfolding filter_append by simp
  then show ?thesis
    by simp
qed

lemma distinct_length_le_card:
  assumes "distinct xs" "set xs \<subseteq> A" "finite A"
  shows "length xs \<le> card A"
  using assms by (metis card_mono distinct_card)

lemma take_drop_append [simp]: "take n xs @ drop n xs @ ys = xs @ ys"
  by (metis append.assoc append_take_drop_id)

lemma mset_take_drop: "mset (take n xs) + mset (drop n xs) = mset xs"
  by (metis append_take_drop_id mset_append)

text \<open>Splitting a list at the first occurrence of a separator.\<close>

lemma takeWhile_neq_append: "c \<notin> set xs \<Longrightarrow> takeWhile (\<lambda>x. x \<noteq> c) (xs @ ys) = xs @ takeWhile (\<lambda>x. x \<noteq> c) ys"
  by (induction xs) auto

lemma dropWhile_neq_append: "c \<notin> set xs \<Longrightarrow> dropWhile (\<lambda>x. x \<noteq> c) (xs @ ys) = dropWhile (\<lambda>x. x \<noteq> c) ys"
  by (induction xs) auto

lemma split_at_first: "c \<in> set xs \<Longrightarrow> takeWhile (\<lambda>x. x \<noteq> c) xs @ c # tl (dropWhile (\<lambda>x. x \<noteq> c) xs) = xs"
  by (induction xs) auto

lemmas at_separator = takeWhile_neq_append dropWhile_neq_append

end
