(* ===== verification/Samples.thy ===== *)
theory Samples
  imports WT_Prelude
begin

text \<open>
  What a capture source produces: \<^verbatim>\<open>crates/wiretap-model/src/sample.rs\<close>.  The
  three kinds of sample, the direction tag with its printer and its
  case-insensitive parser, and the accessors every other component uses.
\<close>

section \<open>Directions\<close>

datatype Direction = Rx | Tx

definition Direction_as_str :: "Direction \<Rightarrow> string" where
  "Direction_as_str d = (case d of Rx \<Rightarrow> ''rx'' | Tx \<Rightarrow> ''tx'')"

text \<open>\<^verbatim>\<open>u8::to_ascii_lowercase\<close> and \<^verbatim>\<open>str::eq_ignore_ascii_case\<close> of the standard
  library: equality after mapping \<^verbatim>\<open>A-Z\<close> to \<^verbatim>\<open>a-z\<close>, byte by byte.\<close>

definition ascii_lower :: "char \<Rightarrow> char" where
  "ascii_lower c =
     (let n = (of_char c :: nat) in if 65 \<le> n \<and> n \<le> 90 then char_of (n + 32) else c)"

definition eq_ignore_ascii_case :: "string \<Rightarrow> string \<Rightarrow> bool" where
  "eq_ignore_ascii_case s t \<longleftrightarrow> map ascii_lower s = map ascii_lower t"

definition Direction_from_str :: "string \<Rightarrow> Direction option" where
  "Direction_from_str s =
     (if eq_ignore_ascii_case s ''rx'' then Some Rx
      else if eq_ignore_ascii_case s ''tx'' then Some Tx
      else None)"

lemma Direction_round_trip: "Direction_from_str (Direction_as_str d) = Some d"
  by (cases d) (simp_all add: Direction_from_str_def Direction_as_str_def
      eq_ignore_ascii_case_def ascii_lower_def)

lemma eq_ignore_ascii_case_sym:
  "eq_ignore_ascii_case s t = eq_ignore_ascii_case t s"
  by (auto simp: eq_ignore_ascii_case_def)

section \<open>Samples\<close>

text \<open>\<^verbatim>\<open>SourceId\<close>: the bus number a GVRET client sees.\<close>

datatype SourceId = SourceId (bus_no: u8)

record CanSample =
  c_ts_us :: i64
  c_arb_id :: u32
  c_extended :: bool
  c_is_fd :: bool
  c_rtr :: "u8 option"
  c_brs :: bool
  c_esi :: bool
  c_data :: "u8 list"
  c_bus :: SourceId
  c_dir :: Direction

record ModbusSample =
  m_ts_us :: i64
  m_bus :: SourceId
  m_unit :: u8
  m_func :: u8
  m_crc_valid :: bool
  m_raw :: "u8 list"

record SerialSample =
  r_ts_us :: i64
  r_bus :: SourceId
  r_seq :: u32
  r_data :: "u8 list"

datatype Sample = Can CanSample | Modbus ModbusSample | Serial SerialSample

text \<open>The protocol tag, re-exported by the model crate.\<close>

datatype Protocol = P_Can | P_ModbusRtu | P_Serial

definition sample_ts_us :: "Sample \<Rightarrow> i64" where
  "sample_ts_us s = (case s of Can c \<Rightarrow> c_ts_us c | Modbus m \<Rightarrow> m_ts_us m | Serial r \<Rightarrow> r_ts_us r)"

definition sample_bus :: "Sample \<Rightarrow> SourceId" where
  "sample_bus s = (case s of Can c \<Rightarrow> c_bus c | Modbus m \<Rightarrow> m_bus m | Serial r \<Rightarrow> r_bus r)"

definition sample_protocol :: "Sample \<Rightarrow> Protocol" where
  "sample_protocol s = (case s of Can _ \<Rightarrow> P_Can | Modbus _ \<Rightarrow> P_ModbusRtu | Serial _ \<Rightarrow> P_Serial)"

lemma sample_accessors [simp]:
  "sample_ts_us (Can c) = c_ts_us c" "sample_ts_us (Modbus m) = m_ts_us m"
  "sample_ts_us (Serial r) = r_ts_us r"
  "sample_bus (Can c) = c_bus c" "sample_bus (Modbus m) = m_bus m"
  "sample_bus (Serial r) = r_bus r"
  "sample_protocol (Can c) = P_Can" "sample_protocol (Modbus m) = P_ModbusRtu"
  "sample_protocol (Serial r) = P_Serial"
  by (simp_all add: sample_ts_us_def sample_bus_def sample_protocol_def)

text \<open>What \<^verbatim>\<open>CanSample\<close>'s field comments promise: a remote frame carries no data,
  and the bit-rate-switch and error-state flags occur only with \<^verbatim>\<open>is_fd\<close>.\<close>

definition can_wf :: "CanSample \<Rightarrow> bool" where
  "can_wf c \<longleftrightarrow>
     (c_rtr c \<noteq> None \<longrightarrow> c_data c = [] \<and> \<not> c_is_fd c) \<and>
     (c_brs c \<longrightarrow> c_is_fd c) \<and> (c_esi c \<longrightarrow> c_is_fd c)"

definition sample_wf :: "Sample \<Rightarrow> bool" where
  "sample_wf s = (case s of Can c \<Rightarrow> can_wf c | Modbus _ \<Rightarrow> True
                    | Serial r \<Rightarrow> unat (r_seq r) < 2 ^ 31)"

end
