(* ===== verification/Archive_Queue.thy ===== *)
theory Archive_Queue
  imports Samples
begin

text \<open>
  The producer end of the archive: \<^verbatim>\<open>Archive\<close> and \<^verbatim>\<open>Counters\<close> of
  \<^verbatim>\<open>crates/wiretap-server/src/archive.rs\<close>, with the bounded channel and the stop signal
  between producers and worker.

  Producers run concurrently with the worker.  The model carries a script of what the
  rest of the process does: before every operation the worker performs on the channel
  or the stop signal, the next entry of the script happens (any number of frames
  offered, the stop signal, its sender dropped, every producer gone, time passing).
  Every interleaving of producers with the worker is such a script, and the theorems
  quantify over all of them.
\<close>

section \<open>State\<close>

record Counters =
  enqueued :: u64
  written :: u64
  dropped :: u64
  cached :: u64
  cache_recovered :: u64
  connected_flag :: bool
  last_ack_ms :: u64
  cache_pending :: u64

definition zero_counters :: Counters where
  "zero_counters =
     \<lparr> enqueued = 0, written = 0, dropped = 0, cached = 0, cache_recovered = 0,
       connected_flag = False, last_ack_ms = 0, cache_pending = 0 \<rparr>"

text \<open>The stop signal: a watch channel the worker has seen nothing of, one with a value it
  has not seen, one whose value it has seen, and one whose sender is gone.\<close>

datatype stop_signal = Quiet | Signalled | Seen | Gone

datatype event = Offer Sample | StopSent | StopDropped | SendersGone | Elapse nat

text \<open>Why the worker could not keep a batch.\<close>

datatype drop_reason = CacheFull u64 | CacheWrite string

text \<open>The log lines, with the numbers they carry.\<close>

datatype log_line =
    L_recovered nat nat
  | L_high_water int nat nat
  | L_queue_full nat nat u64
  | L_after_shutdown
  | L_restored
  | L_write_error string
  | L_reconnecting string
  | L_unavailable
  | L_draining u64
  | L_drain_complete
  | L_cache_read_error string
  | L_cache_reset_error string
  | L_cache_delete_error string
  | L_dropping drop_reason nat
  | L_drained nat
  | L_queue_at nat nat
  | L_flush_failed string
  | L_flushed_db nat
  | L_flushed_cache nat
  | L_stats nat nat
  | L_closed u64 u64 u64 u64 u64

text \<open>The channel and everything the two ends share.  \<open>accepted\<close> and \<open>offered\<close> are history
  variables: every frame the channel took, in order, and the number of frames handed
  to \<^verbatim>\<open>enqueue\<close> before the channel closed.\<close>

record chan =
  queue :: "Sample list"
  capacity :: usize
  rx_closed :: bool
  stop :: stop_signal
  script :: "event list list"
  now :: nat
  counters :: Counters
  last_bucket :: int
  last_full_log :: "nat option"
  closed_reported :: bool
  log :: "log_line list"
  accepted :: "Sample list"
  offered :: nat

section \<open>The handle\<close>

definition DROPS_PER_CLOCK_CHECK :: u64 where
  "DROPS_PER_CLOCK_CHECK = 1024"

text \<open>Milliseconds.\<close>

definition FULL_LOG_INTERVAL :: nat where
  "FULL_LOG_INTERVAL = 5000"

definition say :: "log_line \<Rightarrow> chan \<Rightarrow> chan" where
  "say l ch = ch\<lparr> log := log ch @ [l] \<rparr>"

definition depth :: "chan \<Rightarrow> usize \<times> usize" where
  "depth ch = (length (queue ch), capacity ch)"

definition occupancy_pct :: "chan \<Rightarrow> u8" where
  "occupancy_pct ch =
     (let (sz, cap) = depth ch; pct = sz * 100 div cap in
      if pct < 256 then of_nat pct else 100)"

definition bucket_of :: "usize \<Rightarrow> usize \<Rightarrow> int" where
  "bucket_of sz cap =
     (if cap \<le> sz then 100
      else if cap * 95 \<le> sz * 100 then 95
      else if cap * 80 \<le> sz * 100 then 80
      else - 1)"

definition warn_thresholds :: "chan \<Rightarrow> chan" where
  "warn_thresholds ch =
     (let (sz, cap) = depth ch; bucket = bucket_of sz cap in
      if last_bucket ch = bucket then ch
      else say (if bucket = - 1 then L_recovered sz cap else L_high_water bucket sz cap)
             (ch\<lparr> last_bucket := bucket \<rparr>))"

definition log_queue_full :: "u64 \<Rightarrow> chan \<Rightarrow> chan" where
  "log_queue_full prior ch =
     (if prior mod DROPS_PER_CLOCK_CHECK \<noteq> 0 then ch
      else if (case last_full_log ch of None \<Rightarrow> False | Some t \<Rightarrow> now ch - t < FULL_LOG_INTERVAL) then ch
      else let (sz, cap) = depth ch in
           say (L_queue_full sz cap (dropped (counters ch))) (ch\<lparr> last_full_log := Some (now ch) \<rparr>))"

definition report_closed :: "chan \<Rightarrow> chan" where
  "report_closed ch =
     (if closed_reported ch then ch else say L_after_shutdown (ch\<lparr> closed_reported := True \<rparr>))"

text \<open>\<^verbatim>\<open>try_send\<close> refuses a closed channel first, then a full one.\<close>

definition enqueue :: "Sample \<Rightarrow> chan \<Rightarrow> chan" where
  "enqueue sample ch =
     (if rx_closed ch then report_closed ch
      else let ch = ch\<lparr> offered := offered ch + 1 \<rparr> in
        if capacity ch \<le> length (queue ch) then
          log_queue_full (dropped (counters ch))
            (ch\<lparr> counters := (counters ch)\<lparr> dropped := dropped (counters ch) + 1 \<rparr> \<rparr>)
        else
          warn_thresholds
            (ch\<lparr> queue := queue ch @ [sample], accepted := accepted ch @ [sample],
                counters := (counters ch)\<lparr> enqueued := enqueued (counters ch) + 1 \<rparr> \<rparr>))"

definition is_closed :: "chan \<Rightarrow> bool" where
  "is_closed ch = rx_closed ch"

section \<open>The receiver\<close>

definition happen :: "event \<Rightarrow> chan \<Rightarrow> chan" where
  "happen e ch =
     (case e of
        Offer s \<Rightarrow> enqueue s ch
      | StopSent \<Rightarrow> (if stop ch = Gone then ch else ch\<lparr> stop := Signalled \<rparr>)
      | StopDropped \<Rightarrow> ch\<lparr> stop := Gone \<rparr>
      | SendersGone \<Rightarrow> ch\<lparr> rx_closed := True \<rparr>
      | Elapse ms \<Rightarrow> ch\<lparr> now := now ch + ms \<rparr>)"

definition tick :: "chan \<Rightarrow> chan" where
  "tick ch =
     (case script ch of
        [] \<Rightarrow> ch
      | es # rest \<Rightarrow> fold happen es (ch\<lparr> script := rest \<rparr>))"

definition pop :: "chan \<Rightarrow> Sample option \<times> chan" where
  "pop ch = (case queue ch of [] \<Rightarrow> (None, ch) | s # rest \<Rightarrow> (Some s, ch\<lparr> queue := rest \<rparr>))"

definition try_recv :: "chan \<Rightarrow> Sample option \<times> chan" where
  "try_recv ch = pop (tick ch)"

definition rx_len :: "chan \<Rightarrow> usize \<times> chan" where
  "rx_len ch = (let ch = tick ch in (length (queue ch), ch))"

definition rx_close :: "chan \<Rightarrow> chan" where
  "rx_close ch = ch\<lparr> rx_closed := True \<rparr>"

definition stop_ready :: "chan \<Rightarrow> bool" where
  "stop_ready ch \<longleftrightarrow> stop ch = Signalled \<or> stop ch = Gone"

definition stop_seen :: "chan \<Rightarrow> chan" where
  "stop_seen ch = ch\<lparr> stop := (if stop ch = Signalled then Seen else stop ch) \<rparr>"

text \<open>The race in \<^verbatim>\<open>next_batch\<close>: the stop signal first, then a frame within the flush
  interval, which has passed when the queue is still empty.\<close>

definition recv_or_stop :: "chan \<Rightarrow> Sample option \<times> chan" where
  "recv_or_stop ch =
     (let ch = tick ch in
      if stop_ready ch then pop (rx_close (stop_seen ch)) else pop ch)"

text \<open>Frames still to be offered, which bounds the worker's draining loops.\<close>

definition offers :: "event list list \<Rightarrow> nat" where
  "offers ess = length (filter (\<lambda>e. \<exists>s. e = Offer s) (concat ess))"

section \<open>What the operations leave alone\<close>

lemma say_simps [simp]:
  "queue (say l ch) = queue ch" "capacity (say l ch) = capacity ch" "rx_closed (say l ch) = rx_closed ch"
  "stop (say l ch) = stop ch" "script (say l ch) = script ch" "now (say l ch) = now ch"
  "counters (say l ch) = counters ch" "accepted (say l ch) = accepted ch" "offered (say l ch) = offered ch"
  by (simp_all add: say_def)

lemma report_simps [simp]:
  "queue (warn_thresholds ch) = queue ch" "capacity (warn_thresholds ch) = capacity ch"
  "rx_closed (warn_thresholds ch) = rx_closed ch" "stop (warn_thresholds ch) = stop ch"
  "script (warn_thresholds ch) = script ch" "counters (warn_thresholds ch) = counters ch"
  "accepted (warn_thresholds ch) = accepted ch" "offered (warn_thresholds ch) = offered ch"
  "queue (log_queue_full n ch) = queue ch" "capacity (log_queue_full n ch) = capacity ch"
  "rx_closed (log_queue_full n ch) = rx_closed ch" "stop (log_queue_full n ch) = stop ch"
  "script (log_queue_full n ch) = script ch" "counters (log_queue_full n ch) = counters ch"
  "accepted (log_queue_full n ch) = accepted ch" "offered (log_queue_full n ch) = offered ch"
  "queue (report_closed ch) = queue ch" "capacity (report_closed ch) = capacity ch"
  "rx_closed (report_closed ch) = rx_closed ch" "stop (report_closed ch) = stop ch"
  "script (report_closed ch) = script ch" "counters (report_closed ch) = counters ch"
  "accepted (report_closed ch) = accepted ch" "offered (report_closed ch) = offered ch"
  by (simp_all add: warn_thresholds_def log_queue_full_def report_closed_def Let_def depth_def)

text \<open>What the rest of the process may do between two operations of the worker: frames join
  the end of the queue and are counted, further frames are refused and counted.\<close>

definition grows :: "chan \<Rightarrow> chan \<Rightarrow> bool" where
  "grows ch ch' \<longleftrightarrow>
     (\<exists>new refused.
        queue ch' = queue ch @ new \<and> accepted ch' = accepted ch @ new \<and>
        offered ch' = offered ch + length new + refused \<and>
        offers (script ch') + length new + refused \<le> offers (script ch) \<and>
        counters ch' = (counters ch)\<lparr> enqueued := enqueued (counters ch) + of_nat (length new),
                                       dropped := dropped (counters ch) + of_nat refused \<rparr>) \<and>
     capacity ch' = capacity ch \<and>
     (length (queue ch) \<le> capacity ch \<longrightarrow> length (queue ch') \<le> capacity ch) \<and>
     (rx_closed ch \<longrightarrow> rx_closed ch' \<and> queue ch' = queue ch)"

lemma growsE:
  assumes "grows ch ch'"
  obtains new refused where
    "queue ch' = queue ch @ new" "accepted ch' = accepted ch @ new"
    "offered ch' = offered ch + length new + refused"
    "offers (script ch') + length new + refused \<le> offers (script ch)"
    "counters ch' = (counters ch)\<lparr> enqueued := enqueued (counters ch) + of_nat (length new),
                                   dropped := dropped (counters ch) + of_nat refused \<rparr>"
    "capacity ch' = capacity ch"
    "length (queue ch) \<le> capacity ch \<longrightarrow> length (queue ch') \<le> capacity ch"
    "rx_closed ch \<longrightarrow> rx_closed ch' \<and> queue ch' = queue ch"
  using assms unfolding grows_def by blast

lemma grows_refl: "grows ch ch"
  unfolding grows_def by (intro conjI exI [of _ "[]"] exI [of _ 0]) auto

lemma grows_trans:
  assumes "grows a b" "grows b c"
  shows "grows a c"
proof -
  obtain n1 r1 where 1: "queue b = queue a @ n1" "accepted b = accepted a @ n1"
    "offered b = offered a + length n1 + r1"
    "offers (script b) + length n1 + r1 \<le> offers (script a)"
    "counters b = (counters a)\<lparr> enqueued := enqueued (counters a) + of_nat (length n1),
                                dropped := dropped (counters a) + of_nat r1 \<rparr>"
    "capacity b = capacity a"
    "length (queue a) \<le> capacity a \<longrightarrow> length (queue b) \<le> capacity a"
    "rx_closed a \<longrightarrow> rx_closed b \<and> queue b = queue a"
    using assms(1) by (rule growsE)
  obtain n2 r2 where 2: "queue c = queue b @ n2" "accepted c = accepted b @ n2"
    "offered c = offered b + length n2 + r2"
    "offers (script c) + length n2 + r2 \<le> offers (script b)"
    "counters c = (counters b)\<lparr> enqueued := enqueued (counters b) + of_nat (length n2),
                                dropped := dropped (counters b) + of_nat r2 \<rparr>"
    "capacity c = capacity b"
    "length (queue b) \<le> capacity b \<longrightarrow> length (queue c) \<le> capacity b"
    "rx_closed b \<longrightarrow> rx_closed c \<and> queue c = queue b"
    using assms(2) by (rule growsE)
  show ?thesis
    unfolding grows_def
    by (intro conjI exI [of _ "n1 @ n2"] exI [of _ "r1 + r2"]) (use 1 2 in \<open>auto simp: add_ac\<close>)
qed

text \<open>One event, with the offer it may be removed from the script beforehand.\<close>

definition offers1 :: "event \<Rightarrow> nat" where
  "offers1 e = (case e of Offer _ \<Rightarrow> 1 | _ \<Rightarrow> 0)"

lemma happen_script [simp]: "script (happen e ch) = script ch"
  by (simp add: happen_def enqueue_def Let_def split: event.split)

lemma happen_new:
  "\<exists>new refused.
     queue (happen e ch) = queue ch @ new \<and> accepted (happen e ch) = accepted ch @ new \<and>
     offered (happen e ch) = offered ch + length new + refused \<and> length new + refused \<le> offers1 e \<and>
     counters (happen e ch) = (counters ch)\<lparr> enqueued := enqueued (counters ch) + of_nat (length new),
                                             dropped := dropped (counters ch) + of_nat refused \<rparr>"
proof (cases "\<exists>s. e = Offer s \<and> \<not> rx_closed ch \<and> length (queue ch) < capacity ch")
  case True
  then obtain s where "e = Offer s" "\<not> rx_closed ch" "length (queue ch) < capacity ch"
    by blast
  then show ?thesis
    by (intro exI [of _ "[s]"] exI [of _ 0])
      (simp add: happen_def enqueue_def offers1_def)
next
  case False
  show ?thesis
  proof (cases "\<exists>s. e = Offer s \<and> \<not> rx_closed ch")
    case True
    with False show ?thesis
      by (intro exI [of _ "[]"] exI [of _ 1])
        (auto simp: happen_def enqueue_def offers1_def Let_def)
  next
    case nope: False
    then show ?thesis
      by (intro exI [of _ "[]"] exI [of _ 0])
        (auto simp: happen_def enqueue_def Let_def split: event.split)
  qed
qed

lemma happen_frame:
  "capacity (happen e ch) = capacity ch"
  "length (queue ch) \<le> capacity ch \<Longrightarrow> length (queue (happen e ch)) \<le> capacity ch"
  "rx_closed ch \<Longrightarrow> rx_closed (happen e ch) \<and> queue (happen e ch) = queue ch"
  by (auto simp: happen_def enqueue_def Let_def split: event.split)

lemma offers_Cons: "offers (es # ess) = sum_list (map offers1 es) + offers ess"
proof -
  have "length (filter (\<lambda>e. \<exists>s. e = Offer s) es) = sum_list (map offers1 es)"
    by (induction es) (auto simp: offers1_def split: event.split)
  then show ?thesis
    by (simp add: offers_def)
qed

lemma offers_Nil [simp]: "offers [] = 0"
  by (simp add: offers_def)

lemma fold_happen_grows:
  assumes "script ch = rest"
  shows "\<exists>ch0. ch0 = ch\<lparr> script := es # rest \<rparr> \<and> grows ch0 (fold happen es ch)"
  using assms
proof (induction es arbitrary: ch)
  case Nil
  then show ?case
    by (auto simp: grows_def offers_Cons)
next
  case (Cons e es)
  let ?c = "happen e ch"
  have "grows (ch\<lparr> script := (e # es) # rest \<rparr>) (?c\<lparr> script := es # rest \<rparr>)"
    using happen_new [of e ch] happen_frame [where e = e and ch = ch] by (fastforce simp: grows_def offers_Cons)
  moreover have "grows (?c\<lparr> script := es # rest \<rparr>) (fold happen es ?c)"
    using Cons.IH [of ?c] Cons.prems by auto
  ultimately show ?case
    using grows_trans by auto
qed

lemma tick_grows: "grows ch (tick ch)"
proof (cases "script ch")
  case (Cons es rest)
  then have eq: "ch\<lparr> script := es # rest \<rparr> = ch"
    by simp
  have "grows (ch\<lparr> script := es # rest \<rparr>) (tick ch)"
    using fold_happen_grows [of "ch\<lparr> script := rest \<rparr>" rest es] Cons by (simp add: tick_def)
  then show ?thesis
    by (simp only: eq)
qed (simp add: tick_def grows_refl)

text \<open>Nothing enters the queue but what the script offers.\<close>

definition incoming :: "chan \<Rightarrow> Sample set" where
  "incoming ch = set (queue ch) \<union> {s. \<exists>es \<in> set (script ch). Offer s \<in> set es}"

lemma tick_incoming: "incoming (tick ch) \<subseteq> incoming ch"
proof -
  have one: "set (queue (happen e c)) \<subseteq> set (queue c) \<union> {s. e = Offer s}" for e c
    by (auto simp: happen_def enqueue_def Let_def split: event.splits if_splits)
  have "set (queue (fold happen es c)) \<subseteq> set (queue c) \<union> {s. Offer s \<in> set es}" for es c
  proof (induction es arbitrary: c)
    case (Cons e es)
    then show ?case
      using one [of e c] Cons [of "happen e c"] by fastforce
  qed simp
  moreover have "script (fold happen es c) = script c" for es c
    by (induction es arbitrary: c) simp_all
  ultimately show ?thesis
    by (cases "script ch") (fastforce simp: tick_def incoming_def)+
qed

section \<open>Threshold reports\<close>

lemma bucket_cases: "bucket_of n c \<in> {- 1, 80, 95, 100}"
  by (simp add: bucket_of_def)

lemma bucket_of_full: "bucket_of n c = 100 \<longleftrightarrow> c \<le> n"
  by (simp add: bucket_of_def)

lemma occupancy_bound:
  assumes "length (queue ch) \<le> capacity ch" "0 < capacity ch"
  shows "unat (occupancy_pct ch) = length (queue ch) * 100 div capacity ch"
    "unat (occupancy_pct ch) \<le> 100"
proof -
  let ?p = "length (queue ch) * 100 div capacity ch"
  have "?p \<le> capacity ch * 100 div capacity ch"
    using assms(1) by (intro div_le_mono) simp
  then have le: "?p \<le> 100"
    using assms(2) by simp
  then have "unat (of_nat ?p :: u8) = ?p"
    by (intro unat_of_nat_small) simp
  with le show "unat (occupancy_pct ch) = ?p" "unat (occupancy_pct ch) \<le> 100"
    by (simp_all add: occupancy_pct_def depth_def)
qed

text \<open>The threshold reports of a log, as the buckets they announce; a recovery is \<open>-1\<close>.\<close>

definition report_of :: "log_line \<Rightarrow> int list" where
  "report_of l =
     (case l of L_recovered _ _ \<Rightarrow> [- 1] | L_high_water b _ _ \<Rightarrow> [b] | _ \<Rightarrow> [])"

definition reports :: "chan \<Rightarrow> int list" where
  "reports ch = concat (map report_of (log ch))"

text \<open>No threshold is reported twice in a row, and the last report is the bucket on record.\<close>

definition reports_ok :: "chan \<Rightarrow> bool" where
  "reports_ok ch \<longleftrightarrow>
     distinct_adj (- 1 # reports ch) \<and> last (- 1 # reports ch) = last_bucket ch"

lemma reports_snoc: "reports (say l ch) = reports ch @ report_of l"
  by (simp add: reports_def say_def)

lemma distinct_adj_snoc:
  "distinct_adj (x # xs) \<Longrightarrow> last (x # xs) \<noteq> y \<Longrightarrow> distinct_adj (x # xs @ [y])"
  by (metis append_Cons distinct_adj_append_iff distinct_adj_singleton list.sel(1) list.discI)

lemma reports_ok_warn:
  assumes "reports_ok ch"
  shows "reports_ok (warn_thresholds ch)"
proof -
  let ?b = "bucket_of (length (queue ch)) (capacity ch)"
  show ?thesis
  proof (cases "last_bucket ch = ?b")
    case True
    with assms show ?thesis
      by (simp add: warn_thresholds_def depth_def)
  next
    case False
    let ?l = "if ?b = - 1 then L_recovered (length (queue ch)) (capacity ch)
              else L_high_water ?b (length (queue ch)) (capacity ch)"
    have w: "warn_thresholds ch = say ?l (ch\<lparr> last_bucket := ?b \<rparr>)"
      using False by (simp add: warn_thresholds_def depth_def Let_def)
    have "reports (warn_thresholds ch) = reports ch @ [?b]"
      unfolding w reports_snoc by (simp add: report_of_def reports_def)
    moreover have "last_bucket (warn_thresholds ch) = ?b"
      unfolding w by (simp add: say_def)
    ultimately show ?thesis
      using assms False distinct_adj_snoc [of "- 1" "reports ch" ?b] by (simp add: reports_ok_def)
  qed
qed

lemma reports_ok_cong:
  "reports ch' = reports ch \<Longrightarrow> last_bucket ch' = last_bucket ch \<Longrightarrow> reports_ok ch' = reports_ok ch"
  by (simp add: reports_ok_def)

lemma reports_ok_upd [simp]:
  "reports_ok (c\<lparr> offered := n \<rparr>) = reports_ok c" "reports_ok (c\<lparr> counters := k \<rparr>) = reports_ok c"
  "reports_ok (c\<lparr> queue := q \<rparr>) = reports_ok c" "reports_ok (c\<lparr> accepted := q \<rparr>) = reports_ok c"
  "reports_ok (c\<lparr> stop := t \<rparr>) = reports_ok c" "reports_ok (c\<lparr> rx_closed := b \<rparr>) = reports_ok c"
  "reports_ok (c\<lparr> now := n \<rparr>) = reports_ok c"
  by (rule reports_ok_cong; simp add: reports_def)+

lemma reports_ok_enqueue: "reports_ok ch \<Longrightarrow> reports_ok (enqueue s ch)"
proof -
  assume ok: "reports_ok ch"
  have full: "reports_ok (log_queue_full n c) = reports_ok c" for n c
    by (rule reports_ok_cong)
      (simp_all add: log_queue_full_def Let_def depth_def say_def reports_def report_of_def)
  have late: "reports_ok (report_closed c) = reports_ok c" for c
    by (rule reports_ok_cong)
      (simp_all add: report_closed_def say_def reports_def report_of_def)
  show ?thesis
    using ok by (auto simp: enqueue_def Let_def full late intro!: reports_ok_warn)
qed

text \<open>However frames arrive, the handle never reports the same threshold twice in a row:
  each of 80, 95 and 100 percent is reported when the queue first enters it and a
  recovery once when it falls back.\<close>

theorem thresholds_reported_once:
  assumes "reports_ok ch"
  shows "distinct_adj (- 1 # reports (fold happen es ch))"
proof -
  have "reports_ok (happen e c)" if "reports_ok c" for e c
    using that by (simp add: happen_def reports_ok_enqueue split: event.split)
  then have "reports_ok (fold happen es ch)"
    using assms by (induction es arbitrary: ch) simp_all
  then show ?thesis
    by (simp add: reports_ok_def)
qed

definition fresh_chan :: "usize \<Rightarrow> event list list \<Rightarrow> chan" where
  "fresh_chan cap ess =
     \<lparr> queue = [], capacity = max cap 1, rx_closed = False, stop = Quiet, script = ess, now = 0,
       counters = zero_counters, last_bucket = - 1, last_full_log = None, closed_reported = False,
       log = [], accepted = [], offered = 0 \<rparr>"

lemma fresh_chan_reports: "reports_ok (fresh_chan n ess)"
  by (simp add: fresh_chan_def reports_ok_def reports_def)

definition ex_frame :: Sample where
  "ex_frame = Serial \<lparr> r_ts_us = 0, r_bus = SourceId 0, r_seq = 1, r_data = [1, 2] \<rparr>"

theorem thresholds_reported_once_witness:
  "distinct_adj (- 1 # reports (fold happen (replicate 6 (Offer ex_frame)) (fresh_chan 5 [])))"
  by (rule thresholds_reported_once [OF fresh_chan_reports])

end
