(* ===== verification/Frame_Cache.thy ===== *)
theory Frame_Cache
  imports Samples
begin

text \<open>
  The interface \<^verbatim>\<open>FrameCache\<close> of \<^verbatim>\<open>crates/wiretap-server/src/cache.rs\<close>: a durable
  queue of frames waiting for the gateway.  The trait's methods are the locale's
  operations; its comments are the laws, stated over the frames the store holds,
  oldest first.  An operation that reports an error leaves the frames as they
  were.  The batcher and the disk cache's callers are verified against this
  locale; the SQLite store of \<^verbatim>\<open>Sqlite_Cache\<close> is proved to satisfy it.
\<close>

record Cached =
  cached_id :: i64
  cached_sample :: Sample

text \<open>A client's view: appends, and drains that take the oldest frames and then forget
  them.  A call reports whether it succeeded.\<close>

datatype cache_call = CallAppend "Sample list" | CallDrain usize

definition run_call :: "('c \<Rightarrow> Sample list \<Rightarrow> (string, usize) result \<times> 'c)
    \<Rightarrow> ('c \<Rightarrow> usize \<Rightarrow> (string, Cached list) result \<times> 'c)
    \<Rightarrow> ('c \<Rightarrow> Cached list \<Rightarrow> (string, unit) result \<times> 'c) \<Rightarrow> cache_call \<Rightarrow> 'c \<Rightarrow> bool \<times> 'c" where
  "run_call app old rem x c =
     (case x of
        CallAppend fs \<Rightarrow> (case app c fs of (r, c) \<Rightarrow> (\<not> isl r, c))
      | CallDrain n \<Rightarrow>
          (case old c n of
             (Inl e, c) \<Rightarrow> (False, c)
           | (Inr xs, c) \<Rightarrow> (case rem c xs of (r, c) \<Rightarrow> (\<not> isl r, c))))"

fun cache_calls :: "('c \<Rightarrow> Sample list \<Rightarrow> (string, usize) result \<times> 'c)
    \<Rightarrow> ('c \<Rightarrow> usize \<Rightarrow> (string, Cached list) result \<times> 'c)
    \<Rightarrow> ('c \<Rightarrow> Cached list \<Rightarrow> (string, unit) result \<times> 'c)
    \<Rightarrow> cache_call list \<Rightarrow> 'c \<Rightarrow> bool list \<times> 'c" where
  "cache_calls app old rem [] c = ([], c)"
| "cache_calls app old rem (x # xs) c =
     (let (ok, c) = run_call app old rem x c; (oks, c) = cache_calls app old rem xs c in (ok # oks, c))"

text \<open>The abstract queue, told which calls succeeded.\<close>

fun fifo_calls :: "cache_call list \<Rightarrow> bool list \<Rightarrow> Sample list \<Rightarrow> Sample list" where
  "fifo_calls (x # xs) (ok # oks) q =
     fifo_calls xs oks
       (if ok then (case x of CallAppend fs \<Rightarrow> q @ fs | CallDrain n \<Rightarrow> drop n q) else q)"
| "fifo_calls _ _ q = q"

definition call_ok :: "(Sample \<Rightarrow> bool) \<Rightarrow> cache_call \<Rightarrow> bool" where
  "call_ok carry x = (case x of CallAppend fs \<Rightarrow> \<forall>s \<in> set fs. carry s | CallDrain n \<Rightarrow> n < 2 ^ 63)"

locale frame_cache =
  fixes append_op :: "'c \<Rightarrow> Sample list \<Rightarrow> (string, usize) result \<times> 'c"
    and oldest_op :: "'c \<Rightarrow> usize \<Rightarrow> (string, Cached list) result \<times> 'c"
    and remove_op :: "'c \<Rightarrow> Cached list \<Rightarrow> (string, unit) result \<times> 'c"
    and count_op :: "'c \<Rightarrow> (string, u64) result \<times> 'c"
    and reset_op :: "'c \<Rightarrow> (string, unit) result \<times> 'c"
    and held :: "'c \<Rightarrow> Cached list"
    and inv :: "'c \<Rightarrow> bool"
    and carry :: "Sample \<Rightarrow> bool"
  assumes inv_distinct: "inv c \<Longrightarrow> distinct (map cached_id (held c))"
    and append_ok: "inv c \<Longrightarrow> \<forall>s \<in> set fs. carry s \<Longrightarrow> append_op c fs = (Inr n, c') \<Longrightarrow>
      inv c' \<and> n = length fs \<and>
      (\<exists>new. held c' = held c @ new \<and> map cached_sample new = fs)"
    and append_err: "inv c \<Longrightarrow> append_op c fs = (Inl e, c') \<Longrightarrow> inv c' \<and> held c' = held c"
    and oldest_ok: "inv c \<Longrightarrow> n < 2 ^ 63 \<Longrightarrow> oldest_op c n = (Inr xs, c') \<Longrightarrow>
      inv c' \<and> held c' = held c \<and> xs = take n (held c)"
    and oldest_err: "inv c \<Longrightarrow> oldest_op c n = (Inl e, c') \<Longrightarrow> inv c' \<and> held c' = held c"
    and remove_ok: "inv c \<Longrightarrow> remove_op c xs = (Inr u, c') \<Longrightarrow>
      inv c' \<and> held c' = filter (\<lambda>x. cached_id x \<notin> cached_id ` set xs) (held c)"
    and remove_err: "inv c \<Longrightarrow> remove_op c xs = (Inl e, c') \<Longrightarrow> inv c' \<and> held c' = held c"
    and count_ok: "inv c \<Longrightarrow> count_op c = (Inr m, c') \<Longrightarrow>
      inv c' \<and> held c' = held c \<and> unat m = length (held c)"
    and count_err: "inv c \<Longrightarrow> count_op c = (Inl e, c') \<Longrightarrow> inv c' \<and> held c' = held c"
    and reset_empty: "inv c \<Longrightarrow> held c = [] \<Longrightarrow> reset_op c = (r, c') \<Longrightarrow> inv c' \<and> held c' = []"
begin

lemma inv_append: "inv c \<Longrightarrow> \<forall>s \<in> set fs. carry s \<Longrightarrow> append_op c fs = (r, c') \<Longrightarrow> inv c'"
  by (cases r) (auto dest: append_ok append_err)

lemma append_samples:
  assumes "inv c" "\<forall>s \<in> set fs. carry s" "append_op c fs = (r, c')"
  shows "map cached_sample (held c') =
           map cached_sample (held c) @ (case r of Inl _ \<Rightarrow> [] | Inr _ \<Rightarrow> fs)"
  using assms append_ok [OF assms(1,2)] append_err [OF assms(1)]
  by (cases r) fastforce+

lemma oldest_held: "inv c \<Longrightarrow> n < 2 ^ 63 \<Longrightarrow> oldest_op c n = (r, c') \<Longrightarrow> inv c' \<and> held c' = held c"
  by (cases r) (auto dest: oldest_ok oldest_err)

lemma count_held: "inv c \<Longrightarrow> count_op c = (r, c') \<Longrightarrow> inv c' \<and> held c' = held c"
  by (cases r) (auto dest: count_ok count_err)

lemma inv_remove: "inv c \<Longrightarrow> remove_op c xs = (r, c') \<Longrightarrow> inv c'"
  by (cases r) (auto dest: remove_ok remove_err)

text \<open>Removing a prefix that \<^verbatim>\<open>oldest\<close> returned leaves exactly the rest.\<close>

lemma remove_prefix:
  assumes "inv c" "remove_op c (take n (held c)) = (r, c')"
  shows "held c' = (case r of Inl _ \<Rightarrow> held c | Inr _ \<Rightarrow> drop n (held c))"
proof (cases r)
  case (Inr u)
  then show ?thesis
    using assms remove_ok [OF assms(1)] filter_notin_key_take [OF inv_distinct [OF assms(1)]]
    by simp
qed (use assms remove_err in auto)

lemma count_zero: "inv c \<Longrightarrow> count_op c = (Inr 0, c') \<Longrightarrow> held c' = []"
  by (metis count_ok length_0_conv unat_0)

lemma run_call_fifo:
  assumes "inv c" "call_ok carry x" "run_call append_op oldest_op remove_op x c = (ok, c')"
  shows "inv c' \<and> map cached_sample (held c') = fifo_calls [x] [ok] (map cached_sample (held c))"
proof (cases x)
  case (CallAppend fs)
  obtain r c1 where r: "append_op c fs = (r, c1)"
    by (cases "append_op c fs")
  have carry: "\<forall>s \<in> set fs. carry s"
    using assms(2) CallAppend by (simp add: call_ok_def)
  show ?thesis
    using append_samples [OF assms(1) carry r] inv_append [OF assms(1) carry r] r assms(3) CallAppend
    by (cases r) (auto simp: run_call_def)
next
  case (CallDrain n)
  obtain r c1 where r: "oldest_op c n = (r, c1)"
    by (cases "oldest_op c n")
  have n: "n < 2 ^ 63"
    using assms(2) CallDrain by (simp add: call_ok_def)
  note o = oldest_held [OF assms(1) n r]
  show ?thesis
  proof (cases r)
    case (Inl e)
    then show ?thesis
      using o r assms(3) CallDrain by (auto simp: run_call_def)
  next
    case (Inr xs)
    then have xs: "xs = take n (held c1)"
      using oldest_ok [OF assms(1) n] r o by simp
    obtain d c2 where d: "remove_op c1 xs = (d, c2)"
      by (cases "remove_op c1 xs")
    show ?thesis
      using o r Inr d xs assms(3) CallDrain remove_prefix [of c1 n d c2] inv_remove [of c1 xs d c2]
      by (cases d) (auto simp: run_call_def drop_map)
  qed
qed

lemma cache_calls_fifo:
  assumes "inv c" "\<forall>x \<in> set xs. call_ok carry x"
    and "cache_calls append_op oldest_op remove_op xs c = (oks, c')"
  shows "map cached_sample (held c') = fifo_calls xs oks (map cached_sample (held c)) \<and> inv c'"
  using assms
proof (induction xs arbitrary: c oks)
  case (Cons x xs)
  obtain ok c1 where ok: "run_call append_op oldest_op remove_op x c = (ok, c1)"
    by (cases "run_call append_op oldest_op remove_op x c")
  with Cons show ?case
    using run_call_fifo [of c x ok c1] by (auto simp: Let_def split: prod.splits)
qed auto

end

end
