(* ===== verification/F64.thy ===== *)
theory F64
  imports WT_Prelude Complex_Main "HOL-Library.Log_Nat"
begin

text \<open>
  The double-precision arithmetic the disk cache's timestamps go through.  A
  finite \<^verbatim>\<open>f64\<close> is the rational it denotes and an operation is the exact rational
  result rounded to 53 significant bits, ties to even, which is what IEEE 754
  prescribes away from overflow and subnormals; a timestamp in seconds is zero or
  between a millionth and ten to the thirteenth in magnitude, so neither occurs
  here.  \<^verbatim>\<open>f64::round\<close> rounds ties away from zero and \<^verbatim>\<open>as i64\<close> saturates.
\<close>

section \<open>Rounding\<close>

definition ilog2 :: "rat \<Rightarrow> int" where
  "ilog2 x =
     (let (n, d) = quotient_of x; k = bitlen n - bitlen d in
      if 2 powi k \<le> x then k else k - 1)"

definition round_even :: "rat \<Rightarrow> int" where
  "round_even x =
     (let f = \<lfloor>x\<rfloor>; r = x - of_int f in
      if r < 1 / 2 then f
      else if 1 / 2 < r then f + 1
      else if even f then f else f + 1)"

definition f64_round :: "rat \<Rightarrow> rat" where
  "f64_round x =
     (if x = 0 then 0
      else let e = ilog2 \<bar>x\<bar> - 52 in of_int (round_even (x / 2 powi e)) * 2 powi e)"

definition f64_round_away :: "rat \<Rightarrow> int" where
  "f64_round_away x = (if 0 \<le> x then \<lfloor>x + 1 / 2\<rfloor> else - \<lfloor>- x + 1 / 2\<rfloor>)"

definition f64_as_i64 :: "int \<Rightarrow> i64" where
  "f64_as_i64 n = max i64_min (min i64_max n)"

definition i64_as_f64 :: "i64 \<Rightarrow> rat" where
  "i64_as_f64 n = f64_round (of_int n)"

definition f64_mul :: "rat \<Rightarrow> rat \<Rightarrow> rat" where
  "f64_mul x y = f64_round (x * y)"

definition f64_div :: "rat \<Rightarrow> rat \<Rightarrow> rat" where
  "f64_div x y = f64_round (x / y)"

section \<open>Error bounds\<close>

lemma quotient_of_pos:
  assumes "0 < x" "quotient_of x = (n, d)"
  shows "0 < n" "0 < d" "x = of_int n / of_int d"
proof -
  show d: "0 < d" and x: "x = of_int n / of_int d"
    using assms(2) by (simp_all add: quotient_of_denom_pos quotient_of_div)
  show "0 < n"
    using assms(1) d x by (simp add: zero_less_divide_iff)
qed

lemma powi2_bitlen:
  assumes "0 < (n :: int)"
  shows "2 powi (bitlen n - 1) \<le> (of_int n :: rat)" "(of_int n :: rat) < 2 powi bitlen n"
proof -
  have b: "2 ^ nat (bitlen n - 1) \<le> n" "n < 2 ^ nat (bitlen n)"
    using bitlen_bounds [OF assms] by auto
  have pos: "1 \<le> bitlen n"
    using assms by (simp add: bitlen_ge_iff_power)
  have "(2 powi (bitlen n - 1) :: rat) = of_int (2 ^ nat (bitlen n - 1))"
    "(2 powi bitlen n :: rat) = of_int (2 ^ nat (bitlen n))"
    using pos by (simp_all add: power_int_def)
  then show "2 powi (bitlen n - 1) \<le> (of_int n :: rat)" "(of_int n :: rat) < 2 powi bitlen n"
    using b by (simp_all only: of_int_le_iff of_int_less_iff)
qed

lemma ilog2_bounds:
  assumes "0 < x"
  shows "2 powi ilog2 x \<le> x" "x < 2 powi (ilog2 x + 1)"
proof -
  obtain n d where q: "quotient_of x = (n, d)"
    by (cases "quotient_of x")
  note p = quotient_of_pos [OF assms q]
  define k where "k = bitlen n - bitlen d"
  have lo: "2 powi (k - 1) \<le> x"
  proof -
    have "(2 powi (k - 1) :: rat) * of_int d \<le> 2 powi (k - 1) * 2 powi bitlen d"
      using powi2_bitlen(2) [OF p(2)] by (intro mult_left_mono) auto
    also have "\<dots> = 2 powi (bitlen n - 1)"
      by (simp add: k_def flip: power_int_add)
    also have "\<dots> \<le> of_int n"
      by (rule powi2_bitlen(1) [OF p(1)])
    finally show ?thesis
      using p(2,3) by (simp add: pos_le_divide_eq)
  qed
  have hi: "x < 2 powi (k + 1)"
  proof -
    have "of_int n < (2 powi bitlen n :: rat)"
      by (rule powi2_bitlen(2) [OF p(1)])
    also have "\<dots> = 2 powi (k + 1) * 2 powi (bitlen d - 1)"
      by (simp add: k_def flip: power_int_add)
    also have "\<dots> \<le> 2 powi (k + 1) * of_int d"
      using powi2_bitlen(1) [OF p(2)] by (intro mult_left_mono) auto
    finally show ?thesis
      using p(2,3) by (simp add: pos_divide_less_eq)
  qed
  have il: "ilog2 x = (if 2 powi k \<le> x then k else k - 1)"
    by (simp add: ilog2_def q k_def)
  show "2 powi ilog2 x \<le> x" "x < 2 powi (ilog2 x + 1)"
    using lo hi by (auto simp: il)
qed

lemma powi2_less_imp:
  assumes "2 powi a < (2 powi b :: rat)"
  shows "a < b"
proof (rule ccontr)
  assume "\<not> a < b"
  then have "2 powi b \<le> (2 powi a :: rat)"
    by (simp add: power_int_increasing)
  with assms show False
    by simp
qed

lemma round_even_error: "\<bar>of_int (round_even x) - x\<bar> \<le> 1 / 2"
proof -
  have "of_int \<lfloor>x\<rfloor> \<le> x" "x < of_int \<lfloor>x\<rfloor> + 1"
    by linarith+
  then show ?thesis
    by (auto simp: round_even_def Let_def abs_le_iff)
qed

lemma round_even_int [simp]: "round_even (of_int n) = n"
  by (simp add: round_even_def)

lemma f64_round_error:
  assumes "\<bar>x\<bar> < 2 powi k"
  shows "\<bar>f64_round x - x\<bar> \<le> 2 powi (k - 54)"
proof (cases "x = 0")
  case False
  define e where "e = ilog2 \<bar>x\<bar> - 52"
  have "2 powi ilog2 \<bar>x\<bar> < (2 powi k :: rat)"
    using ilog2_bounds(1) [of "\<bar>x\<bar>"] False assms by simp
  then have "ilog2 \<bar>x\<bar> < k"
    by (rule powi2_less_imp)
  then have e: "e - 1 \<le> k - 54"
    by (simp add: e_def)
  let ?u = "2 powi e :: rat"
  have u: "0 < ?u"
    by simp
  have "f64_round x - x = (of_int (round_even (x / ?u)) - x / ?u) * ?u"
    using False by (simp add: f64_round_def e_def Let_def algebra_simps)
  then have "\<bar>f64_round x - x\<bar> = \<bar>of_int (round_even (x / ?u)) - x / ?u\<bar> * ?u"
    by (simp add: abs_mult)
  also have "\<dots> \<le> 1 / 2 * ?u"
    by (intro mult_right_mono round_even_error) simp
  also have "\<dots> = 2 powi (e - 1)"
    by (simp add: power_int_diff)
  also have "\<dots> \<le> 2 powi (k - 54)"
    using e by (simp add: power_int_increasing)
  finally show ?thesis .
qed (simp add: f64_round_def)

lemma f64_round_exact:
  assumes "\<bar>n\<bar> < 2 ^ 53"
  shows "f64_round (of_int n) = of_int n"
proof (cases "n = 0")
  case False
  let ?x = "of_int n :: rat"
  define e where "e = ilog2 \<bar>?x\<bar> - 52"
  have "\<bar>?x\<bar> < of_int (2 ^ 53)"
    using assms by (simp only: of_int_less_iff flip: of_int_abs)
  then have "2 powi ilog2 \<bar>?x\<bar> < (2 powi 53 :: rat)"
    using ilog2_bounds(1) [of "\<bar>?x\<bar>"] False by (simp add: power_int_def)
  then have "ilog2 \<bar>?x\<bar> < 53"
    by (rule powi2_less_imp)
  then have e: "e \<le> 0"
    by (simp add: e_def)
  have "?x / 2 powi e = of_int (n * 2 ^ nat (- e))"
    using e by (cases "e = 0") (simp_all add: power_int_def power_one_over)
  then have "of_int (round_even (?x / 2 powi e)) * 2 powi e = ?x / 2 powi e * 2 powi e"
    by (simp only: round_even_int)
  then show ?thesis
    using False by (simp add: f64_round_def e_def)
qed (simp add: f64_round_def)

lemma f64_round_away_near:
  assumes "\<bar>x - of_int n\<bar> < 1 / 2"
  shows "f64_round_away x = n"
proof (cases "0 \<le> x")
  case True
  then have "\<lfloor>x + 1 / 2\<rfloor> = n"
    using assms by (intro floor_unique) linarith+
  with True show ?thesis
    by (simp add: f64_round_away_def)
next
  case False
  then have "\<lfloor>- x + 1 / 2\<rfloor> = - n"
    using assms by (intro floor_unique; unfold of_int_minus abs_less_iff; linarith)
  with False show ?thesis
    by (simp add: f64_round_away_def)
qed

end
