(* ===== verification/Batcher.thy ===== *)
theory Batcher
  imports Archive_Queue Frame_Cache F64
begin

text \<open>
  The worker behind the archive queue: \<^verbatim>\<open>Batcher\<close> of
  \<^verbatim>\<open>crates/wiretap-server/src/archive.rs\<close>, function by function.

  The source is generic over the traits \<^verbatim>\<open>BatchSink\<close> and \<^verbatim>\<open>FrameCache\<close>; here the two
  trait dictionaries and the library's backoff timer are the fields of the record
  \<open>ops\<close>, an argument of every function.  The worker's state is the record \<open>batcher\<close>;
  \<open>lost\<close> is a history variable, the frames the worker has counted as dropped.
\<close>

section \<open>Traits\<close>

datatype SinkError = Failed string | Closed string

definition sink_why :: "SinkError \<Rightarrow> string" where
  "sink_why e = (case e of Failed why \<Rightarrow> why | Closed why \<Rightarrow> why)"

record WriteError =
  delivered :: usize
  cause :: SinkError

definition write_error_from :: "SinkError \<Rightarrow> WriteError" where
  "write_error_from c = \<lparr> delivered = 0, cause = c \<rparr>"

type_synonym sink_result = "(SinkError, unit) result"
type_synonym write_result = "(WriteError, unit) result"

record ('s, 'c, 'b) ops =
  s_connect :: "'s \<Rightarrow> sink_result \<times> 's"
  s_write_batch :: "'s \<Rightarrow> Sample list \<Rightarrow> write_result \<times> 's"
  s_keep_alive :: "'s \<Rightarrow> sink_result \<times> 's"
  s_close :: "'s \<Rightarrow> 's"
  c_append :: "'c \<Rightarrow> Sample list \<Rightarrow> (string, usize) result \<times> 'c"
  c_oldest :: "'c \<Rightarrow> usize \<Rightarrow> (string, Cached list) result \<times> 'c"
  c_remove :: "'c \<Rightarrow> Cached list \<Rightarrow> (string, unit) result \<times> 'c"
  c_count :: "'c \<Rightarrow> (string, u64) result \<times> 'c"
  c_size_bytes :: "'c \<Rightarrow> u64"
  c_is_full :: "'c \<Rightarrow> bool"
  c_reset :: "'c \<Rightarrow> (string, unit) result \<times> 'c"
  bo_next :: "'b \<Rightarrow> nat \<times> 'b"
  bo_reset :: "'b \<Rightarrow> 'b"

section \<open>State\<close>

record ('s, 'c, 'b) batcher =
  ch :: chan
  sink :: 's
  cache :: 'c
  backoff :: 'b
  batch_size :: usize
  flush_threshold :: rat
  connected :: bool
  sink_down :: bool
  draining_cache :: bool
  stats_interval :: nat
  last_stats :: nat
  lost :: "Sample list"

text \<open>\<^verbatim>\<open>channel\<close>: the queue and its two ends, over the configured sizes.\<close>

record Batching =
  bt_size :: usize
  bt_flush_interval :: rat
  bt_queue_size :: usize
  bt_cache_path :: string
  bt_cache_origin :: "string option"
  bt_cache_max_mb :: u64
  bt_queue_flush_pct :: u8
  bt_legacy_cache_path :: "string option"

definition channel :: "'s \<Rightarrow> 'c \<Rightarrow> 'b \<Rightarrow> Batching \<Rightarrow> nat \<Rightarrow> event list list \<Rightarrow> ('s, 'c, 'b) batcher" where
  "channel snk cch bo batching stats_ms ess =
     \<lparr> ch = fresh_chan (bt_queue_size batching) ess,
       sink = snk, cache = cch, backoff = bo,
       batch_size = max (bt_size batching) 1,
       flush_threshold = f64_div (of_nat (unat (bt_queue_flush_pct batching))) 100,
       connected = False, sink_down = False, draining_cache = False,
       stats_interval = stats_ms, last_stats = 0, lost = [] \<rparr>"

definition logs :: "log_line \<Rightarrow> ('s, 'c, 'b) batcher \<Rightarrow> ('s, 'c, 'b) batcher" where
  "logs l st = st\<lparr> ch := say l (ch st) \<rparr>"

definition bump :: "(Counters \<Rightarrow> Counters) \<Rightarrow> ('s, 'c, 'b) batcher \<Rightarrow> ('s, 'c, 'b) batcher" where
  "bump f st = st\<lparr> ch := (ch st)\<lparr> counters := f (counters (ch st)) \<rparr> \<rparr>"

section \<open>The worker\<close>

text \<open>A count of the cache, with the default the caller gives for a failure.\<close>

definition count_or :: "('s, 'c, 'b) ops \<Rightarrow> u64 \<Rightarrow> ('s, 'c, 'b) batcher \<Rightarrow> u64 \<times> ('s, 'c, 'b) batcher" where
  "count_or P d st =
     (case c_count P (cache st) of
        (Inl _, c) \<Rightarrow> (d, st\<lparr> cache := c \<rparr>)
      | (Inr n, c) \<Rightarrow> (n, st\<lparr> cache := c \<rparr>))"

definition report :: "('s, 'c, 'b) ops \<Rightarrow> ('s, 'c, 'b) batcher \<Rightarrow> ('s, 'c, 'b) batcher" where
  "report P st =
     (let (n, st) = count_or P 0 st in
      bump (\<lambda>k. k\<lparr> connected_flag := connected st, cache_pending := n \<rparr>) st)"

definition written_frames :: "usize \<Rightarrow> ('s, 'c, 'b) batcher \<Rightarrow> ('s, 'c, 'b) batcher" where
  "written_frames n st =
     (let st = bump (\<lambda>k. k\<lparr> written := written k + of_nat n \<rparr>) st in
      if 0 < n then bump (\<lambda>k. k\<lparr> last_ack_ms := of_nat (now (ch st)) \<rparr>) st else st)"

definition maybe_log_stats :: "('s, 'c, 'b) ops \<Rightarrow> ('s, 'c, 'b) batcher \<Rightarrow> ('s, 'c, 'b) batcher" where
  "maybe_log_stats P st =
     (if stats_interval st = 0 \<or> now (ch st) - last_stats st < stats_interval st then st
      else
        let (len, c) = rx_len (ch st);
            st = st\<lparr> last_stats := now (ch st), ch := c \<rparr>;
            (pending, st) = count_or P 0 st
        in logs (L_stats len (unat pending)) st)"

definition queue_finished :: "('s, 'c, 'b) batcher \<Rightarrow> bool \<times> ('s, 'c, 'b) batcher" where
  "queue_finished st =
     (let c = tick (ch st) in (rx_closed c \<and> queue c = [], st\<lparr> ch := c \<rparr>))"

text \<open>The stop signal and the backoff race, the signal first.\<close>

definition wait_to_retry :: "('s, 'c, 'b) ops \<Rightarrow> ('s, 'c, 'b) batcher \<Rightarrow> bool \<times> ('s, 'c, 'b) batcher" where
  "wait_to_retry P st =
     (let (finished, st) = queue_finished st in
      if finished then (False, st)
      else
        let c = tick (ch st) in
        if stop_ready c then (False, st\<lparr> ch := rx_close (stop_seen c) \<rparr>)
        else
          let (d, b) = bo_next P (backoff st) in
          (True, st\<lparr> ch := c\<lparr> now := now c + d \<rparr>, backoff := b \<rparr>))"

primrec fill_batch :: "nat \<Rightarrow> Sample list \<Rightarrow> chan \<Rightarrow> Sample list \<times> chan" where
  "fill_batch 0 batch c = (batch, c)"
| "fill_batch (Suc room) batch c =
     (case try_recv c of
        (None, c) \<Rightarrow> (batch, c)
      | (Some s, c) \<Rightarrow> fill_batch room (batch @ [s]) c)"

definition next_batch :: "('s, 'c, 'b) batcher \<Rightarrow> Sample list \<times> ('s, 'c, 'b) batcher" where
  "next_batch st =
     (case recv_or_stop (ch st) of
        (None, c) \<Rightarrow> ([], st\<lparr> ch := c \<rparr>)
      | (Some s, c) \<Rightarrow>
          (let (batch, c) = fill_batch (batch_size st - 1) [s] c in (batch, st\<lparr> ch := c \<rparr>)))"

definition cache_batch :: "('s, 'c, 'b) ops \<Rightarrow> Sample list \<Rightarrow> ('s, 'c, 'b) batcher
    \<Rightarrow> usize \<times> ('s, 'c, 'b) batcher" where
  "cache_batch P batch st =
     (let (stored, c) =
        (if c_is_full P (cache st)
         then (Err (CacheFull (c_size_bytes P (cache st) div (1024 * 1024))), cache st)
         else map_prod (map_sum CacheWrite id) id (c_append P (cache st) batch));
        st = st\<lparr> cache := c \<rparr>
      in case stored of
           Inr n \<Rightarrow> (n, bump (\<lambda>k. k\<lparr> cached := cached k + of_nat n \<rparr>) st)
         | Inl why \<Rightarrow>
             (0, bump (\<lambda>k. k\<lparr> dropped := dropped k + of_nat (length batch) \<rparr>)
                   (logs (L_dropping why (length batch)) (st\<lparr> lost := lost st @ batch \<rparr>))))"

lemma pop_decreases:
  assumes "try_recv c = (Some s, c')"
  shows "length (queue c') + offers (script c') < length (queue c) + offers (script c)"
proof -
  obtain new refused where g: "queue (tick c) = queue c @ new"
      "offers (script (tick c)) + length new + refused \<le> offers (script c)"
    using tick_grows [of c] by (rule growsE)
  moreover have "queue (tick c) = s # queue c'" "script c' = script (tick c)"
    using assms by (auto simp: try_recv_def pop_def split: list.splits)
  ultimately have "length (queue c) + length new = Suc (length (queue c'))"
    by (metis length_Cons length_append)
  with g(2) \<open>script c' = script (tick c)\<close> show ?thesis
    by simp
qed

function take_queued :: "chan \<Rightarrow> Sample list \<times> chan" where
  "take_queued c =
     (case try_recv c of
        (None, c') \<Rightarrow> ([], c')
      | (Some s, c') \<Rightarrow> (let (rest, c'') = take_queued c' in (s # rest, c'')))"
  by pat_completeness auto
termination
  by (relation "measure (\<lambda>c. length (queue c) + offers (script c))")
    (auto dest!: pop_decreases [OF sym])

declare take_queued.simps [simp del]

fun chunks :: "nat \<Rightarrow> 'a list \<Rightarrow> 'a list list" where
  "chunks n xs = (if xs = [] \<or> n = 0 then [] else take n xs # chunks n (drop n xs))"

declare chunks.simps [simp del]

fun cache_chunks :: "('s, 'c, 'b) ops \<Rightarrow> Sample list list \<Rightarrow> ('s, 'c, 'b) batcher
    \<Rightarrow> usize \<times> ('s, 'c, 'b) batcher" where
  "cache_chunks P [] st = (0, st)"
| "cache_chunks P (chunk # more_chunks) st =
     (let (n, st) = cache_batch P chunk st; (m, st) = cache_chunks P more_chunks st in (n + m, st))"

definition drain_queue_to_cache :: "('s, 'c, 'b) ops \<Rightarrow> ('s, 'c, 'b) batcher \<Rightarrow> ('s, 'c, 'b) batcher" where
  "drain_queue_to_cache P st =
     (let (queued, c) = take_queued (ch st);
          (n, st) = cache_chunks P (chunks (batch_size st) queued) (st\<lparr> ch := c \<rparr>)
      in if 0 < n then logs (L_drained n) st else st)"

definition spill_if_queue_filling :: "('s, 'c, 'b) ops \<Rightarrow> ('s, 'c, 'b) batcher \<Rightarrow> ('s, 'c, 'b) batcher" where
  "spill_if_queue_filling P st =
     (if flush_threshold st \<le> 0 then st
      else
        let (len, c) = rx_len (ch st);
            st = st\<lparr> ch := c \<rparr>;
            ratio = f64_div (f64_round (of_nat len)) (f64_round (of_nat (capacity c)))
        in if flush_threshold st \<le> ratio
           then drain_queue_to_cache P (logs (L_queue_at len (capacity c)) st)
           else st)"

definition fail :: "('s, 'c, 'b) ops \<Rightarrow> SinkError \<Rightarrow> Sample list \<Rightarrow> ('s, 'c, 'b) batcher
    \<Rightarrow> bool \<times> ('s, 'c, 'b) batcher" where
  "fail P e batch st =
     (let is_closed = (case e of Closed _ \<Rightarrow> True | Failed _ \<Rightarrow> False);
          st = logs (if is_closed then L_reconnecting (sink_why e) else L_write_error (sink_why e)) st;
          st = st\<lparr> sink := s_close P (sink st), connected := False \<rparr>;
          st = (if \<not> is_closed \<and> \<not> sink_down st then logs L_unavailable (st\<lparr> sink_down := True \<rparr>) else st);
          st = (if batch \<noteq> [] then snd (cache_batch P batch st) else st)
      in if is_closed then (True, st)
         else wait_to_retry P (drain_queue_to_cache P st))"

text \<open>The half of \<^verbatim>\<open>drain_cache\<close> that writes what was read.\<close>

definition write_cached :: "('s, 'c, 'b) ops \<Rightarrow> Cached list \<Rightarrow> ('s, 'c, 'b) batcher
    \<Rightarrow> (SinkError, bool) result \<times> ('s, 'c, 'b) batcher" where
  "write_cached P cached_frames st =
     (let frames = map cached_sample cached_frames;
          (res, snk) = s_write_batch P (sink st) frames;
          n = (case res of Inl e \<Rightarrow> delivered e | Inr _ \<Rightarrow> length frames);
          (gone, c) = c_remove P (cache st) (take n cached_frames);
          st = st\<lparr> sink := snk, cache := c \<rparr>;
          st = (case gone of Inl e \<Rightarrow> logs (L_cache_delete_error e) st | Inr _ \<Rightarrow> st);
          st = bump (\<lambda>k. k\<lparr> cache_recovered := cache_recovered k + of_nat n \<rparr>) (written_frames n st)
      in case res of Inl e \<Rightarrow> (Err (cause e), st) | Inr _ \<Rightarrow> (Ok True, st))"

definition drain_cache :: "('s, 'c, 'b) ops \<Rightarrow> ('s, 'c, 'b) batcher
    \<Rightarrow> (SinkError, bool) result \<times> ('s, 'c, 'b) batcher" where
  "drain_cache P st =
     (let (pending, st) = count_or P 1 st in
      if \<not> draining_cache st \<and> pending = 0 then (Ok False, st)
      else case c_oldest P (cache st) (batch_size st) of
        (Inl e, c) \<Rightarrow> (Ok False, logs (L_cache_read_error e) (st\<lparr> cache := c \<rparr>))
      | (Inr cached_frames, c) \<Rightarrow>
          (let st = st\<lparr> cache := c \<rparr> in
           if cached_frames = [] then
             (if draining_cache st then
                let st = logs L_drain_complete (st\<lparr> draining_cache := False \<rparr>);
                    (r, c) = c_reset P (cache st);
                    st = st\<lparr> cache := c \<rparr>
                in (Ok False, case r of Inl e \<Rightarrow> logs (L_cache_reset_error e) st | Inr _ \<Rightarrow> st)
              else (Ok False, st))
           else
             write_cached P cached_frames
               (if draining_cache st then st
                else logs (L_draining pending) (st\<lparr> draining_cache := True \<rparr>))))"

text \<open>One pass of the loop in \<^verbatim>\<open>run\<close>; the flag says whether it goes on.\<close>

definition establish :: "('s, 'c, 'b) ops \<Rightarrow> ('s, 'c, 'b) batcher
    \<Rightarrow> sink_result \<times> ('s, 'c, 'b) batcher" where
  "establish P st =
     (if connected st then (Ok (), st)
      else case s_connect P (sink st) of
        (Inl e, snk) \<Rightarrow> (Err e, st\<lparr> sink := snk \<rparr>)
      | (Inr _, snk) \<Rightarrow>
          (let st = st\<lparr> sink := snk, connected := True, backoff := bo_reset P (backoff st) \<rparr> in
           (Ok (), if sink_down st then logs L_restored (st\<lparr> sink_down := False \<rparr>) else st)))"

definition forward_batch :: "('s, 'c, 'b) ops \<Rightarrow> Sample list \<Rightarrow> ('s, 'c, 'b) batcher
    \<Rightarrow> bool \<times> ('s, 'c, 'b) batcher" where
  "forward_batch P batch st =
     (case s_write_batch P (sink st) batch of
        (Inl e, snk) \<Rightarrow>
          fail P (cause e) (drop (delivered e) batch) (written_frames (delivered e) (st\<lparr> sink := snk \<rparr>))
      | (Inr _, snk) \<Rightarrow> (True, written_frames (length batch) (st\<lparr> sink := snk \<rparr>)))"

definition serve_queue :: "('s, 'c, 'b) ops \<Rightarrow> ('s, 'c, 'b) batcher \<Rightarrow> bool \<times> ('s, 'c, 'b) batcher" where
  "serve_queue P st =
     (let (batch, st) = next_batch st in
      if batch = [] then
        let (finished, st) = queue_finished st in
        if finished then (False, st)
        else case s_keep_alive P (sink st) of
               (Inl e, snk) \<Rightarrow> fail P e [] (st\<lparr> sink := snk \<rparr>)
             | (Inr _, snk) \<Rightarrow> (True, st\<lparr> sink := snk \<rparr>)
      else forward_batch P batch st)"

definition pass :: "('s, 'c, 'b) ops \<Rightarrow> ('s, 'c, 'b) batcher \<Rightarrow> bool \<times> ('s, 'c, 'b) batcher" where
  "pass P st =
     (let st = spill_if_queue_filling P (maybe_log_stats P (report P st)) in
      case establish P st of
        (Inl e, st) \<Rightarrow> fail P e [] st
      | (Inr _, st) \<Rightarrow>
          (case drain_cache P st of
             (Inl e, st) \<Rightarrow> fail P e [] st
           | (Inr True, st) \<Rightarrow> (True, st)
           | (Inr False, st) \<Rightarrow> serve_queue P st))"

text \<open>What the queue still held at the end goes to the sink if it is there.\<close>

definition flush_to_sink :: "('s, 'c, 'b) ops \<Rightarrow> Sample list \<Rightarrow> ('s, 'c, 'b) batcher
    \<Rightarrow> usize \<times> ('s, 'c, 'b) batcher" where
  "flush_to_sink P remaining st =
     (let (flushed, st) =
        (if connected st then
           (case s_write_batch P (sink st) remaining of
              (Inr _, snk) \<Rightarrow> (length remaining, st\<lparr> sink := snk \<rparr>)
            | (Inl e, snk) \<Rightarrow>
                (delivered e, logs (L_flush_failed (sink_why (cause e))) (st\<lparr> sink := snk \<rparr>)))
         else (0, st))
      in if 0 < flushed
         then (flushed, logs (L_flushed_db flushed)
                 (bump (\<lambda>k. k\<lparr> written := written k + of_nat flushed \<rparr>) st))
         else (flushed, st))"

definition flush_remaining :: "('s, 'c, 'b) ops \<Rightarrow> Sample list \<Rightarrow> ('s, 'c, 'b) batcher
    \<Rightarrow> ('s, 'c, 'b) batcher" where
  "flush_remaining P remaining st =
     (let (flushed, st) = flush_to_sink P remaining st;
          unflushed = drop flushed remaining
      in if unflushed = [] then st
         else let (n, st) = cache_batch P unflushed st in
              (if 0 < n then logs (L_flushed_cache n) st else st))"

definition shutdown_flush :: "('s, 'c, 'b) ops \<Rightarrow> ('s, 'c, 'b) batcher \<Rightarrow> ('s, 'c, 'b) batcher" where
  "shutdown_flush P st =
     (let (remaining, c) = take_queued (ch st);
          st = st\<lparr> ch := c \<rparr>;
          st = (if remaining = [] then st else flush_remaining P remaining st);
          st = st\<lparr> sink := s_close P (sink st) \<rparr>;
          (pending, st) = count_or P 0 st;
          k = counters (ch st)
      in logs (L_closed (written k) (cached k) (cache_recovered k) (dropped k) pending) st)"

text \<open>The loop, with a bound on its passes: \<^term>\<open>None\<close> is a worker still in the loop.\<close>

fun run :: "nat \<Rightarrow> ('s, 'c, 'b) ops \<Rightarrow> ('s, 'c, 'b) batcher \<Rightarrow> ('s, 'c, 'b) batcher option" where
  "run 0 P st = None"
| "run (Suc n) P st =
     (case pass P st of
        (True, st) \<Rightarrow> run n P st
      | (False, st) \<Rightarrow> Some (shutdown_flush P st))"

text \<open>The worker after \<open>n\<close> passes, wherever it has got to.\<close>

fun passes :: "nat \<Rightarrow> ('s, 'c, 'b) ops \<Rightarrow> ('s, 'c, 'b) batcher \<Rightarrow> ('s, 'c, 'b) batcher" where
  "passes 0 P st = st"
| "passes (Suc n) P st =
     (case pass P st of (True, st) \<Rightarrow> passes n P st | (False, st) \<Rightarrow> shutdown_flush P st)"

end
