(* ===== verification/Batcher_Flow.thy ===== *)
theory Batcher_Flow
  imports Batcher
begin

text \<open>
  What the archive worker promises, as a small state machine, and the proof that the
  code of \<^verbatim>\<open>Batcher\<close> implements it.

  A \<open>view\<close> says where every frame is: acknowledged by the sink, in the disk cache, in
  the worker's hands, in the queue, or lost; \<open>flow\<close> lists the ways a frame may move.
  With its flag set it is the machine of a cache whose reads and deletes succeed, and
  then a frame in hand is delivered only when nothing older waits in the cache.  The
  locale \<open>archiver\<close> proves that every pass of the worker is a sequence of such moves.
\<close>

section \<open>The abstract machine\<close>

record view =
  v_stored :: "Sample list"
  v_cached :: "Sample list"
  v_hand :: "Sample list"
  v_queue :: "Sample list"
  v_lost :: "Sample list"
  v_accepted :: "Sample list"
  v_refused :: nat
  n_enqueued :: u64
  n_written :: u64
  n_dropped :: u64
  n_cached :: u64
  n_recovered :: u64

inductive flow :: "bool \<Rightarrow> view \<Rightarrow> view \<Rightarrow> bool" for g where
  arrive: "flow g v (v\<lparr> v_queue := v_queue v @ [x], v_accepted := v_accepted v @ [x],
                       n_enqueued := n_enqueued v + 1 \<rparr>)"
| refuse: "flow g v (v\<lparr> v_refused := Suc (v_refused v), n_dropped := n_dropped v + 1 \<rparr>)"
| take_up: "v_queue v = x # q \<Longrightarrow> flow g v (v\<lparr> v_hand := v_hand v @ [x], v_queue := q \<rparr>)"
| deliver: "d \<le> length (v_hand v) \<Longrightarrow> (g \<longrightarrow> v_cached v = []) \<Longrightarrow>
    flow g v (v\<lparr> v_stored := v_stored v @ take d (v_hand v), v_hand := drop d (v_hand v),
                n_written := n_written v + of_nat d \<rparr>)"
| spill: "v_hand v = b @ rest \<Longrightarrow>
    flow g v (v\<lparr> v_cached := v_cached v @ b, v_hand := rest, n_cached := n_cached v + of_nat (length b) \<rparr>)"
| lose: "v_hand v = b @ rest \<Longrightarrow>
    flow g v (v\<lparr> v_lost := v_lost v @ b, v_hand := rest, n_dropped := n_dropped v + of_nat (length b) \<rparr>)"
| drain: "d \<le> length (v_cached v) \<Longrightarrow> k = 0 \<or> k = d \<Longrightarrow> (g \<longrightarrow> k = d) \<Longrightarrow>
    flow g v (v\<lparr> v_stored := v_stored v @ take d (v_cached v), v_cached := drop k (v_cached v),
                n_written := n_written v + of_nat d, n_recovered := n_recovered v + of_nat d \<rparr>)"

abbreviation flows :: "bool \<Rightarrow> view \<Rightarrow> view \<Rightarrow> bool" where
  "flows g \<equiv> (flow g)\<^sup>*\<^sup>*"

lemma flow_weaken: "flow g v v' \<Longrightarrow> flow False v v'"
  by (induction rule: flow.induct) (auto intro: flow.intros)

text \<open>No frame disappears: whatever was somewhere or has been accepted since is stored,
  cached, in hand, queued or counted lost.\<close>

definition all_of :: "view \<Rightarrow> Sample multiset" where
  "all_of v = mset (v_stored v) + mset (v_cached v) + mset (v_hand v) + mset (v_queue v) + mset (v_lost v)"

definition kept :: "view \<Rightarrow> view \<Rightarrow> bool" where
  "kept v v' \<longleftrightarrow>
     (\<exists>new. v_accepted v' = v_accepted v @ new \<and> all_of v + mset new \<subseteq># all_of v')"

text \<open>The counters are exact: they count what moved, modulo \<open>2 ^ 64\<close>.\<close>

definition counted :: "view \<Rightarrow> view \<Rightarrow> bool" where
  "counted v v' \<longleftrightarrow>
     n_enqueued v' - of_nat (length (v_accepted v')) = n_enqueued v - of_nat (length (v_accepted v)) \<and>
     n_written v' - of_nat (length (v_stored v')) = n_written v - of_nat (length (v_stored v)) \<and>
     n_dropped v' - of_nat (v_refused v' + length (v_lost v')) =
       n_dropped v - of_nat (v_refused v + length (v_lost v))"

text \<open>With the cache reading and deleting, the frames stand in the order they were
  accepted in, with the lost ones missing.\<close>

definition line :: "view \<Rightarrow> Sample list" where
  "line v = v_stored v @ v_cached v @ v_hand v @ v_queue v"

definition in_order :: "view \<Rightarrow> view \<Rightarrow> bool" where
  "in_order v v' \<longleftrightarrow>
     (\<exists>new. v_accepted v' = v_accepted v @ new \<and> subseq (line v') (line v @ new) \<and>
            length (v_lost v) + length (line v) + length new = length (v_lost v') + length (line v') \<and>
            n_cached v' - n_recovered v' - of_nat (length (v_cached v')) =
              n_cached v - n_recovered v - of_nat (length (v_cached v)))"

lemma kept_refl: "kept v v"
  by (simp add: kept_def)

lemma kept_trans:
  assumes "kept a b" "kept b c"
  shows "kept a c"
proof -
  obtain m n where mn: "v_accepted b = v_accepted a @ m" "all_of a + mset m \<subseteq># all_of b"
      "v_accepted c = v_accepted b @ n" "all_of b + mset n \<subseteq># all_of c"
    using assms by (auto simp: kept_def)
  have "all_of a + mset m + mset n \<subseteq># all_of c"
    using mn by (meson subset_mset.add_right_mono subset_mset.order_trans)
  with mn show ?thesis
    unfolding kept_def by (intro exI [of _ "m @ n"]) (simp add: add.assoc)
qed

lemma flow_kept: "flow g v v' \<Longrightarrow> kept v v'"
proof (induction rule: flow.induct)
  case (drain d v k)
  have "mset (v_cached v) \<subseteq># mset (take d (v_cached v)) + mset (drop k (v_cached v))"
    using drain(2) mset_take_drop [of d "v_cached v"] by auto
  then show ?case
    by (simp add: kept_def all_of_def add_ac)
next
  case (deliver d v)
  then show ?case
    using mset_take_drop [of d "v_hand v"] by (simp add: kept_def all_of_def add_ac)
qed (simp_all add: kept_def all_of_def add_ac)

lemma flow_counted: "flow g v v' \<Longrightarrow> counted v v'"
  by (induction rule: flow.induct) (auto simp: counted_def algebra_simps)

lemma flow_in_order: "flow True v v' \<Longrightarrow> in_order v v'"
proof (induction rule: flow.induct)
  case (drain d v k)
  then show ?case
    by (simp add: in_order_def line_def algebra_simps flip: of_nat_diff)
next
  case (deliver d v)
  then show ?case
    by (simp add: in_order_def line_def)
next
  case (lose v b rest)
  have "subseq (rest @ v_queue v) (b @ rest @ v_queue v)"
    by (rule list_emb_append2) simp
  then have "subseq ((v_stored v @ v_cached v) @ rest @ v_queue v)
      ((v_stored v @ v_cached v) @ b @ rest @ v_queue v)"
    by (rule list_emb_append_mono [OF subseq_order.order_refl])
  with lose show ?case
    by (simp add: in_order_def line_def)
qed (auto simp: in_order_def line_def algebra_simps)

text \<open>The three carry over to any number of moves.\<close>

lemma counted_trans: "counted a b \<Longrightarrow> counted b c \<Longrightarrow> counted a c"
  by (simp add: counted_def)

lemma in_order_trans:
  assumes "in_order a b" "in_order b c"
  shows "in_order a c"
proof -
  obtain m n where mn: "v_accepted b = v_accepted a @ m" "subseq (line b) (line a @ m)"
      "v_accepted c = v_accepted b @ n" "subseq (line c) (line b @ n)"
    using assms by (auto simp: in_order_def)
  have "subseq (line c) (line a @ m @ n)"
    using mn(2,4) by (metis append.assoc list_emb_append_mono subseq_order.dual_order.refl
        subseq_order.order_trans)
  with mn(1,3) assms show ?thesis
    unfolding in_order_def by (intro exI [of _ "m @ n"]) auto
qed

lemma flows_kept: "flows g v v' \<Longrightarrow> kept v v'"
  by (induction rule: rtranclp_induct) (auto intro: kept_refl kept_trans flow_kept)

lemma flows_counted: "flows g v v' \<Longrightarrow> counted v v'"
  by (induction rule: rtranclp_induct) (auto simp: counted_def [of v v] intro: counted_trans flow_counted)

lemma flows_in_order: "flows True v v' \<Longrightarrow> in_order v v'"
proof (induction rule: rtranclp_induct)
  case base
  then show ?case
    by (simp add: in_order_def)
qed (auto intro: in_order_trans flow_in_order)

text \<open>Compound moves.\<close>

lemma flows_arrive:
  "flows g v (v\<lparr> v_queue := v_queue v @ new, v_accepted := v_accepted v @ new,
              n_enqueued := n_enqueued v + of_nat (length new) \<rparr>)"
proof (induction new rule: rev_induct)
  case (snoc x new)
  then show ?case
    using flow.arrive [of g "v\<lparr> v_queue := v_queue v @ new, v_accepted := v_accepted v @ new,
              n_enqueued := n_enqueued v + of_nat (length new) \<rparr>" x]
    by (auto simp: algebra_simps elim!: rtranclp.rtrancl_into_rtrancl)
qed simp

lemma flows_refuse:
  "flows g v (v\<lparr> v_refused := v_refused v + n, n_dropped := n_dropped v + of_nat n \<rparr>)"
proof (induction n)
  case (Suc n)
  then show ?case
    using flow.refuse [of g "v\<lparr> v_refused := v_refused v + n, n_dropped := n_dropped v + of_nat n \<rparr>"]
    by (auto simp: algebra_simps elim!: rtranclp.rtrancl_into_rtrancl)
qed simp

section \<open>The interfaces the worker relies on\<close>

text \<open>\<^verbatim>\<open>BatchSink\<close>: a write that succeeds has stored the batch, one that fails says how much
  of it was stored, and nothing else stores anything.\<close>

locale batch_sink =
  fixes connect_op :: "'s \<Rightarrow> sink_result \<times> 's"
    and write_op :: "'s \<Rightarrow> Sample list \<Rightarrow> write_result \<times> 's"
    and keep_alive_op :: "'s \<Rightarrow> sink_result \<times> 's"
    and close_op :: "'s \<Rightarrow> 's"
    and stored :: "'s \<Rightarrow> Sample list"
  assumes write_ok: "write_op s b = (Inr u, s') \<Longrightarrow> stored s' = stored s @ b"
    and write_err: "write_op s b = (Inl e, s') \<Longrightarrow>
      delivered e \<le> length b \<and> stored s' = stored s @ take (delivered e) b"
    and connect_stored: "connect_op s = (r, s') \<Longrightarrow> stored s' = stored s"
    and keep_alive_stored: "keep_alive_op s = (r, s') \<Longrightarrow> stored s' = stored s"
    and close_stored: "stored (close_op s) = stored s"
begin

text \<open>How many frames a write delivered, and that it stored exactly those.\<close>

lemma write_delivers:
  assumes "write_op s b = (r, s')"
  obtains d where "d = (case r of Inl e \<Rightarrow> delivered e | Inr _ \<Rightarrow> length b)" "d \<le> length b"
    "stored s' = stored s @ take d b"
proof (cases r)
  case (Inl e)
  then show ?thesis
    using assms that write_err by simp
next
  case (Inr u)
  then show ?thesis
    using assms that write_ok by simp
qed

end

locale archiver =
  snk: batch_sink "s_connect P" "s_write_batch P" "s_keep_alive P" "s_close P" stored +
  fc: frame_cache "c_append P" "c_oldest P" "c_remove P" "c_count P" "c_reset P" held cinv carry
  for P :: "('s, 'c, 'b) ops" and stored :: "'s \<Rightarrow> Sample list" and held :: "'c \<Rightarrow> Cached list"
    and cinv :: "'c \<Rightarrow> bool" and carry :: "Sample \<Rightarrow> bool"

definition view_of :: "('s \<Rightarrow> Sample list) \<Rightarrow> ('c \<Rightarrow> Cached list) \<Rightarrow> Sample list
    \<Rightarrow> ('s, 'c, 'b) batcher \<Rightarrow> view" where
  "view_of stored held hand st =
     \<lparr> v_stored = stored (sink st),
       v_cached = map cached_sample (held (cache st)),
       v_hand = hand,
       v_queue = queue (ch st),
       v_lost = lost st,
       v_accepted = accepted (ch st),
       v_refused = offered (ch st) - length (accepted (ch st)),
       n_enqueued = enqueued (counters (ch st)),
       n_written = written (counters (ch st)),
       n_dropped = dropped (counters (ch st)),
       n_cached = cached (counters (ch st)),
       n_recovered = cache_recovered (counters (ch st)) \<rparr>"

text \<open>What holds of the worker between any two of its steps.\<close>

definition worker_ok :: "('c \<Rightarrow> bool) \<Rightarrow> (Sample \<Rightarrow> bool) \<Rightarrow> ('s, 'c, 'b) batcher \<Rightarrow> bool" where
  "worker_ok cinv carry st \<longleftrightarrow>
     cinv (cache st) \<and> (\<forall>s \<in> incoming (ch st). carry s) \<and>
     0 < batch_size st \<and> batch_size st < 2 ^ 63 \<and>
     length (accepted (ch st)) \<le> offered (ch st) \<and>
     length (queue (ch st)) \<le> capacity (ch st)"

text \<open>The cache's reads and deletes succeed while it holds frames.\<close>

definition reads_ok :: "('s, 'c, 'b) ops \<Rightarrow> ('c \<Rightarrow> Cached list) \<Rightarrow> ('c \<Rightarrow> bool) \<Rightarrow> bool" where
  "reads_ok P held cinv \<longleftrightarrow>
     (\<forall>c. cinv c \<and> held c \<noteq> [] \<longrightarrow>
        (\<forall>n. \<not> isl (fst (c_oldest P c n))) \<and> (\<forall>xs. \<not> isl (fst (c_remove P c xs))))"

lemma concat_chunks: "0 < n \<Longrightarrow> concat (chunks n xs) = xs"
proof (induction n xs rule: chunks.induct)
  case (1 n xs)
  then show ?case
    by (subst chunks.simps) auto
qed

lemma written_simps [simp]:
  "sink (written_frames n st) = sink st" "cache (written_frames n st) = cache st"
  "connected (written_frames n st) = connected st" "batch_size (written_frames n st) = batch_size st"
  "sink (bump f st) = sink st" "cache (bump f st) = cache st" "sink (logs l st) = sink st"
  "cache (logs l st) = cache st" "connected (logs l st) = connected st"
  "connected (bump f st) = connected st" "draining_cache (logs l st) = draining_cache st"
  "batch_size (logs l st) = batch_size st" "sink_down (logs l st) = sink_down st"
  by (simp_all add: written_frames_def bump_def logs_def Let_def)

lemma connected_cache_batch: "connected (snd (cache_batch P b st)) = connected st"
  by (auto simp: cache_batch_def Let_def split: sum.split prod.split)

lemma connected_cache_chunks: "connected (snd (cache_chunks P bs st)) = connected st"
proof (induction bs arbitrary: st)
  case (Cons b bs)
  obtain n st1 where "cache_batch P b st = (n, st1)"
    by (cases "cache_batch P b st")
  then show ?case
    using connected_cache_batch [of P b st] Cons [of st1] by (auto simp: Let_def split: prod.splits)
qed simp

lemma connected_drain: "connected (drain_queue_to_cache P st) = connected st"
proof -
  obtain qs c where q: "take_queued (ch st) = (qs, c)"
    by (cases "take_queued (ch st)")
  show ?thesis
    using q connected_cache_chunks [of P "chunks (batch_size st) qs" "st\<lparr> ch := c \<rparr>"]
    by (auto simp: drain_queue_to_cache_def Let_def split: prod.splits)
qed

lemma connected_wait: "connected (snd (wait_to_retry P st)) = connected st"
  by (simp add: wait_to_retry_def queue_finished_def Let_def split: prod.split)

lemma fail_disconnects: "fail P e b st = (r, st') \<Longrightarrow> \<not> connected st'"
  by (auto simp: fail_def Let_def connected_cache_batch split: if_splits
      dest!: arg_cong [where f = "\<lambda>x. connected (snd x)"] simp: connected_wait connected_drain)

text \<open>Once the queue is closed and empty it stays so.\<close>

lemma finished_stays:
  assumes "rx_closed c" "queue c = []"
  shows "rx_closed (tick c)" "queue (tick c) = []" "fst (take_queued c) = []"
proof -
  show t: "rx_closed (tick c)" "queue (tick c) = []"
    using tick_grows [of c] assms by (auto elim!: growsE)
  then show "fst (take_queued c) = []"
    by (simp add: take_queued.simps [of c] try_recv_def pop_def)
qed

text \<open>The loop is left with the sink closed or with nothing more to come.\<close>

lemma pass_leaves:
  assumes "pass P st = (False, st')"
  shows "\<not> connected st' \<or> rx_closed (ch st') \<and> queue (ch st') = []"
  using assms
  by (auto simp: pass_def serve_queue_def forward_batch_def queue_finished_def Let_def
      dest: fail_disconnects split: prod.splits sum.splits bool.splits if_splits)

context archiver
begin

abbreviation "view \<equiv> view_of stored held"
abbreviation "ok \<equiv> worker_ok cinv carry"

text \<open>A step of the worker with \<open>a\<close> in hand before and \<open>b\<close> after.\<close>

definition moves :: "bool \<Rightarrow> Sample list \<Rightarrow> ('s, 'c, 'b) batcher \<Rightarrow> Sample list \<Rightarrow> ('s, 'c, 'b) batcher \<Rightarrow> bool"
  where "moves g a st b st' \<longleftrightarrow>
    (ok st \<and> (\<forall>s \<in> set a. carry s) \<longrightarrow>
       ok st' \<and> (\<forall>s \<in> set b. carry s) \<and> flows g (view a st) (view b st'))"

lemma moves_refl: "moves g a st a st"
  by (simp add: moves_def)

lemma moves_trans: "moves g a st b st1 \<Longrightarrow> moves g b st1 c st2 \<Longrightarrow> moves g a st c st2"
  unfolding moves_def by (meson rtranclp_trans)

text \<open>Logging, and the fields of the state the view does not show.\<close>

lemma moves_same: "view a st' = view a st \<Longrightarrow> (ok st \<Longrightarrow> ok st') \<Longrightarrow> moves g a st a st'"
  unfolding moves_def by (metis rtranclp.rtrancl_refl)

lemma moves_log: "moves g a st a (logs l st)"
  by (rule moves_same) (simp_all add: view_of_def worker_ok_def logs_def incoming_def)

lemma moves_flags:
  "moves g a st a (st\<lparr> sink_down := x \<rparr>)" "moves g a st a (st\<lparr> connected := x \<rparr>)"
  "moves g a st a (st\<lparr> draining_cache := x \<rparr>)" "moves g a st a (st\<lparr> backoff := y \<rparr>)"
  "moves g a st a (st\<lparr> last_stats := z \<rparr>)"
  by (rule moves_same; simp add: view_of_def worker_ok_def)+

lemma tick_flows:
  assumes "ok st"
  shows "flows g (view a st) (view a (st\<lparr> ch := tick (ch st) \<rparr>))"
proof -
  let ?c = "ch st" and ?t = "tick (ch st)" and ?v = "view a st"
  obtain new refused where t: "queue ?t = queue ?c @ new" "accepted ?t = accepted ?c @ new"
    "offered ?t = offered ?c + length new + refused"
    "counters ?t = (counters ?c)\<lparr> enqueued := enqueued (counters ?c) + of_nat (length new),
                                 dropped := dropped (counters ?c) + of_nat refused \<rparr>"
    using tick_grows [of ?c] by (rule growsE)
  let ?u = "?v\<lparr> v_queue := v_queue ?v @ new, v_accepted := v_accepted ?v @ new,
              n_enqueued := n_enqueued ?v + of_nat (length new) \<rparr>"
  let ?w = "?u\<lparr> v_refused := v_refused ?u + refused, n_dropped := n_dropped ?u + of_nat refused \<rparr>"
  have "flows g ?v ?w"
    by (rule rtranclp_trans [OF flows_arrive flows_refuse])
  moreover have "?w = view a (st\<lparr> ch := ?t \<rparr>)"
    using t assms by (simp add: view_of_def worker_ok_def)
  ultimately show ?thesis
    by (simp only:)
qed

lemma moves_tick: "moves g a st a (st\<lparr> ch := tick (ch st) \<rparr>)"
proof -
  have "ok (st\<lparr> ch := tick (ch st) \<rparr>)" if "ok st"
    using that tick_incoming [of "ch st"] tick_grows [of "ch st"]
    by (auto simp: worker_ok_def elim!: growsE)
  then show ?thesis
    unfolding moves_def by (blast intro: tick_flows)
qed

lemma moves_chan:
  assumes "queue c = queue (ch st)" "accepted c = accepted (ch st)" "offered c = offered (ch st)"
    "script c = script (ch st)" "counters c = counters (ch st)" "capacity c = capacity (ch st)"
  shows "moves g a st a (st\<lparr> ch := c \<rparr>)"
  using assms by (intro moves_same) (simp_all add: view_of_def worker_ok_def incoming_def)

lemma moves_pop:
  assumes "pop (ch st) = (r, c)"
  shows "moves g a st (a @ (case r of None \<Rightarrow> [] | Some s \<Rightarrow> [s])) (st\<lparr> ch := c \<rparr>)"
proof (cases "queue (ch st)")
  case Nil
  then show ?thesis
    using assms by (auto simp: pop_def moves_refl)
next
  case (Cons x q)
  then have r: "r = Some x" "c = (ch st)\<lparr> queue := q \<rparr>"
    using assms by (auto simp: pop_def)
  have "flow g (view a st) (view (a @ [x]) (st\<lparr> ch := c \<rparr>))"
    using flow.take_up [of "view a st" x q g] Cons r by (simp add: view_of_def)
  moreover have "ok (st\<lparr> ch := c \<rparr>)" "carry x" if "ok st"
    using r Cons that by (auto simp: worker_ok_def incoming_def)
  ultimately show ?thesis
    using r by (auto simp: moves_def)
qed

lemma moves_try_recv:
  assumes "try_recv (ch st) = (r, c)"
  shows "moves g a st (a @ (case r of None \<Rightarrow> [] | Some s \<Rightarrow> [s])) (st\<lparr> ch := c \<rparr>)"
  using moves_trans [OF moves_tick moves_pop [of "st\<lparr> ch := tick (ch st) \<rparr>" r c]] assms
  by (simp add: try_recv_def)

lemma moves_fill_batch:
  "fill_batch n b (ch st) = (b', c) \<Longrightarrow> moves g b st b' (st\<lparr> ch := c \<rparr>)"
proof (induction n arbitrary: b st)
  case 0
  then show ?case
    by (auto simp: moves_refl)
next
  case (Suc n)
  obtain r c1 where r: "try_recv (ch st) = (r, c1)"
    by (cases "try_recv (ch st)")
  note m = moves_try_recv [OF r, of g b]
  show ?case
  proof (cases r)
    case None
    then show ?thesis
      using Suc.prems r m by auto
  next
    case (Some s)
    then have "fill_batch n (b @ [s]) (ch (st\<lparr> ch := c1 \<rparr>)) = (b', c)"
      using Suc.prems r by simp
    from Suc.IH [OF this] show ?thesis
      using m Some by (auto intro: moves_trans)
  qed
qed

lemma moves_take_queued:
  "take_queued (ch st) = (qs, c) \<Longrightarrow> moves g a st (a @ qs) (st\<lparr> ch := c \<rparr>)"
proof (induction "length (queue (ch st)) + offers (script (ch st))" arbitrary: a st qs rule: less_induct)
  case less
  obtain r c1 where r: "try_recv (ch st) = (r, c1)"
    by (cases "try_recv (ch st)")
  note m = moves_try_recv [OF r, of g a]
  show ?case
  proof (cases r)
    case None
    then show ?thesis
      using less.prems r m by (simp add: take_queued.simps [of "ch st"])
  next
    case (Some s)
    obtain qs1 where q: "take_queued c1 = (qs1, c)" "qs = s # qs1"
      using less.prems r Some by (auto simp: take_queued.simps [of "ch st"] split: prod.splits)
    have "moves g (a @ [s]) (st\<lparr> ch := c1 \<rparr>) ((a @ [s]) @ qs1) (st\<lparr> ch := c \<rparr>)"
      using less.hyps [of "st\<lparr> ch := c1 \<rparr>" qs1 "a @ [s]"] pop_decreases r Some q(1) by simp
    then show ?thesis
      using m Some q(2) by (auto intro: moves_trans)
  qed
qed

lemma moves_recv_or_stop:
  assumes "recv_or_stop (ch st) = (r, c)"
  shows "moves g [] st (case r of None \<Rightarrow> [] | Some s \<Rightarrow> [s]) (st\<lparr> ch := c \<rparr>)"
proof -
  let ?t = "st\<lparr> ch := tick (ch st) \<rparr>"
  let ?s = "?t\<lparr> ch := rx_close (stop_seen (ch ?t)) \<rparr>"
  have "moves g [] ?t [] ?s"
    by (rule moves_chan) (simp_all add: rx_close_def stop_seen_def)
  then have "moves g [] st [] ?s" "moves g [] st [] ?t"
    using moves_tick moves_trans by blast+
  moreover have "pop (ch ?s) = (r, c) \<or> pop (ch ?t) = (r, c)"
    using assms by (auto simp: recv_or_stop_def Let_def split: if_splits)
  ultimately show ?thesis
    using moves_trans [OF _ moves_pop [of ?s r c g "[]"]] moves_trans [OF _ moves_pop [of ?t r c g "[]"]]
    by auto
qed

lemma moves_next_batch:
  assumes "next_batch st = (b, st')"
  shows "moves g [] st b st'"
proof -
  obtain r c where r: "recv_or_stop (ch st) = (r, c)"
    by (cases "recv_or_stop (ch st)")
  note m = moves_recv_or_stop [OF r, of g]
  show ?thesis
  proof (cases r)
    case None
    then show ?thesis
      using assms r m by (auto simp: next_batch_def)
  next
    case (Some s)
    obtain b1 c1 where f: "fill_batch (batch_size st - 1) [s] c = (b1, c1)"
      by (cases "fill_batch (batch_size st - 1) [s] c")
    have "moves g [s] (st\<lparr> ch := c \<rparr>) b1 (st\<lparr> ch := c1 \<rparr>)"
      using moves_fill_batch [of _ _ "st\<lparr> ch := c \<rparr>" b1 c1] f by simp
    then show ?thesis
      using assms r Some f m by (auto simp: next_batch_def intro: moves_trans)
  qed
qed

text \<open>A prefix of what is in hand goes to the disk cache or is lost.\<close>

lemma moves_cache_batch:
  assumes "cache_batch P b st = (n, st')"
  shows "moves g (b @ rest) st rest st'"
proof -
  show ?thesis
    unfolding moves_def
  proof (intro impI)
    assume pre: "ok st \<and> (\<forall>s \<in> set (b @ rest). carry s)"
    then have inv: "cinv (cache st)" and carry: "\<forall>s \<in> set b. carry s"
      by (auto simp: worker_ok_def)
    consider (full) "c_is_full P (cache st)" | (tried) r c where "\<not> c_is_full P (cache st)" "c_append P (cache st) b = (r, c)"
      by (cases "c_append P (cache st) b") auto
    then have "\<exists>c. cinv c \<and>
       ((\<exists>why. st' = bump (\<lambda>k. k\<lparr> dropped := dropped k + of_nat (length b) \<rparr>)
                   (logs (L_dropping why (length b)) (st\<lparr> cache := c, lost := lost st @ b \<rparr>)) \<and>
               map cached_sample (held c) = map cached_sample (held (cache st))) \<or>
        (st' = bump (\<lambda>k. k\<lparr> cached := cached k + of_nat (length b) \<rparr>) (st\<lparr> cache := c \<rparr>) \<and>
               map cached_sample (held c) = map cached_sample (held (cache st)) @ b))"
    proof cases
      case full
      then show ?thesis
        using assms inv by (intro exI [of _ "cache st"]) (auto simp: cache_batch_def Let_def)
    next
      case tried
      then show ?thesis
        using assms fc.append_samples [OF inv carry tried(2)] fc.inv_append [OF inv carry tried(2)]
          fc.append_ok [OF inv carry]
        by (intro exI [of _ c]) (cases r, auto simp: cache_batch_def Let_def)
    qed
    then obtain c where c: "cinv c" "(\<exists>why. st' = bump (\<lambda>k. k\<lparr> dropped := dropped k + of_nat (length b) \<rparr>)
                   (logs (L_dropping why (length b)) (st\<lparr> cache := c, lost := lost st @ b \<rparr>)) \<and>
               map cached_sample (held c) = map cached_sample (held (cache st))) \<or>
        (st' = bump (\<lambda>k. k\<lparr> cached := cached k + of_nat (length b) \<rparr>) (st\<lparr> cache := c \<rparr>) \<and>
               map cached_sample (held c) = map cached_sample (held (cache st)) @ b)"
      by blast
    have "flow g (view (b @ rest) st) (view rest st')"
      using c(2) flow.lose [of "view (b @ rest) st" b rest g] flow.spill [of "view (b @ rest) st" b rest g]
      by (auto simp: view_of_def bump_def logs_def)
    moreover have "incoming (ch st') = incoming (ch st)"
      using c(2) by (auto simp: bump_def logs_def incoming_def)
    then have "ok st'"
      using c pre by (auto simp: worker_ok_def bump_def logs_def)
    ultimately show "ok st' \<and> (\<forall>s \<in> set rest. carry s) \<and> flows g (view (b @ rest) st) (view rest st')"
      using pre by auto
  qed
qed

lemma moves_cache_chunks:
  "cache_chunks P bs st = (n, st') \<Longrightarrow> moves g (concat bs @ rest) st rest st'"
proof (induction bs arbitrary: st n)
  case (Cons b bs)
  obtain k st1 m where "cache_batch P b st = (k, st1)" "cache_chunks P bs st1 = (m, st')"
    using Cons.prems by (auto simp: Let_def split: prod.splits)
  then show ?case
    using moves_cache_batch [of b st k st1 g "concat bs @ rest"] Cons.IH by (auto intro: moves_trans)
qed (simp add: moves_refl)

lemma moves_drain_queue: "moves g [] st [] (drain_queue_to_cache P st)"
proof -
  obtain qs c where q: "take_queued (ch st) = (qs, c)"
    by (cases "take_queued (ch st)")
  let ?st = "st\<lparr> ch := c \<rparr>"
  obtain n st1 where c: "cache_chunks P (chunks (batch_size st) qs) ?st = (n, st1)"
    by (cases "cache_chunks P (chunks (batch_size st) qs) ?st")
  have "moves g [] st qs ?st"
    using moves_take_queued [OF q, of g "[]"] by simp
  moreover have "moves g qs ?st [] st1" if "0 < batch_size st"
    using moves_cache_chunks [OF c, of g "[]"] that by (simp add: concat_chunks)
  ultimately have "moves g [] st [] st1"
    using moves_trans by (metis moves_def worker_ok_def)
  then show ?thesis
    using q c moves_log [of g "[]" st1] by (auto simp: drain_queue_to_cache_def intro: moves_trans)
qed

lemma moves_spill: "moves g [] st [] (spill_if_queue_filling P st)"
proof -
  let ?t = "st\<lparr> ch := tick (ch st) \<rparr>"
  have "moves g [] st [] (drain_queue_to_cache P (logs l ?t))" for l
    using moves_tick moves_log moves_drain_queue moves_trans by metis
  then show ?thesis
    using moves_tick [of g "[]" st] moves_refl [of g "[]" st]
    by (auto simp: spill_if_queue_filling_def rx_len_def Let_def)
qed

lemma moves_cache_read:
  assumes "ok st \<Longrightarrow> cinv c \<and> held c = held (cache st)"
  shows "moves g a st a (st\<lparr> cache := c \<rparr>)"
  unfolding moves_def
proof (intro impI)
  assume "ok st \<and> (\<forall>s \<in> set a. carry s)"
  then show "ok (st\<lparr> cache := c \<rparr>) \<and> (\<forall>s \<in> set a. carry s) \<and>
      flows g (view a st) (view a (st\<lparr> cache := c \<rparr>))"
    using assms by (simp add: worker_ok_def view_of_def)
qed

lemma moves_bump:
  assumes "\<And>k. enqueued (f k) = enqueued k \<and> written (f k) = written k \<and> dropped (f k) = dropped k \<and>
      cached (f k) = cached k \<and> cache_recovered (f k) = cache_recovered k"
  shows "moves g a st a (bump f st)"
  using assms by (intro moves_same) (simp_all add: view_of_def worker_ok_def bump_def incoming_def)

lemma moves_count:
  assumes "count_or P d st = (n, st')"
  shows "moves g a st a st'" "held (cache st') = held (cache st) \<or> \<not> ok st"
proof -
  obtain r c where r: "c_count P (cache st) = (r, c)"
    by (cases "c_count P (cache st)")
  have st': "st' = st\<lparr> cache := c \<rparr>"
    using assms r by (cases r) (auto simp: count_or_def)
  have c: "cinv c \<and> held c = held (cache st)" if "ok st"
    using that fc.count_held [OF _ r] by (simp add: worker_ok_def)
  then show "moves g a st a st'"
    unfolding st' by (rule moves_cache_read)
  show "held (cache st') = held (cache st) \<or> \<not> ok st"
    using c st' by auto
qed

lemma moves_report: "moves g a st a (report P st)"
proof -
  obtain n st1 where c: "count_or P 0 st = (n, st1)"
    by (cases "count_or P 0 st")
  have "moves g a st1 a (bump (\<lambda>k. k\<lparr> connected_flag := connected st1, cache_pending := n \<rparr>) st1)"
    by (rule moves_bump) simp
  then show ?thesis
    using moves_count(1) [OF c] c by (auto simp: report_def intro: moves_trans)
qed

lemma moves_stats: "moves g a st a (maybe_log_stats P st)"
proof -
  let ?u = "st\<lparr> last_stats := now (ch st), ch := tick (ch st) \<rparr>"
  obtain n st1 where c: "count_or P 0 ?u = (n, st1)"
    by (cases "count_or P 0 ?u")
  have "moves g a st a ?u"
    using moves_trans [OF moves_flags(5) moves_tick [of g a "st\<lparr> last_stats := now (ch st) \<rparr>"]] by simp
  then have "moves g a st a (logs l st1)" for l
    using moves_count(1) [OF c] moves_log moves_trans by metis
  then show ?thesis
    using c by (auto simp: maybe_log_stats_def rx_len_def Let_def moves_refl)
qed

lemma moves_sink:
  assumes "stored snk = stored (sink st)"
  shows "moves g a st a (st\<lparr> sink := snk \<rparr>)"
  using assms by (intro moves_same) (simp_all add: view_of_def worker_ok_def)

lemma moves_finished:
  "queue_finished st = (r, st') \<Longrightarrow> moves g a st a st'"
  using moves_tick [of g a st] by (auto simp: queue_finished_def Let_def)

lemma moves_wait: "wait_to_retry P st = (r, st') \<Longrightarrow> moves g [] st [] st'"
proof -
  assume w: "wait_to_retry P st = (r, st')"
  obtain f st1 where f: "queue_finished st = (f, st1)"
    by (cases "queue_finished st")
  let ?t = "st1\<lparr> ch := tick (ch st1) \<rparr>"
  have t: "moves g [] st [] ?t"
    using moves_finished [OF f] moves_tick moves_trans by blast
  have "moves g [] ?t [] (?t\<lparr> ch := rx_close (stop_seen (ch ?t)) \<rparr>)"
    by (rule moves_chan) (simp_all add: rx_close_def stop_seen_def)
  moreover have "moves g [] ?t [] (?t\<lparr> ch := (ch ?t)\<lparr> now := n \<rparr>, backoff := b \<rparr>)" for n b
    by (rule moves_trans [OF moves_chan moves_flags(4)]) simp_all
  ultimately show ?thesis
    using w f t moves_finished [OF f, of g "[]"]
    by (auto simp: wait_to_retry_def Let_def split: if_splits prod.splits dest: moves_trans [OF t])
qed

lemma moves_fail:
  assumes "fail P e b st = (r, st')"
  shows "moves g b st [] st'"
proof -
  define clsd where "clsd = (case e of Closed _ \<Rightarrow> True | Failed _ \<Rightarrow> False)"
  define l where "l = logs (if clsd then L_reconnecting (sink_why e) else L_write_error (sink_why e)) st"
  define c where "c = l\<lparr> sink := s_close P (sink l), connected := False \<rparr>"
  define d where "d = (if \<not> clsd \<and> \<not> sink_down c then logs L_unavailable (c\<lparr> sink_down := True \<rparr>) else c)"
  define bb where "bb = (if b \<noteq> [] then snd (cache_batch P b d) else d)"
  have res: "(r, st') = (if clsd then (True, bb) else wait_to_retry P (drain_queue_to_cache P bb))"
    unfolding assms [symmetric] fail_def Let_def clsd_def l_def c_def d_def bb_def ..
  have "moves g b l b (l\<lparr> sink := s_close P (sink l) \<rparr>)"
    by (rule moves_sink) (simp add: snk.close_stored)
  then have "moves g b l b c"
    unfolding c_def using moves_flags(2) by (rule moves_trans)
  moreover have "moves g b c b d"
    unfolding d_def using moves_trans [OF moves_flags(1) moves_log] moves_refl by auto
  moreover have "moves g b d [] bb"
    unfolding bb_def
    using moves_cache_batch [of b d "fst (cache_batch P b d)" "snd (cache_batch P b d)" g "[]"]
    by (auto simp: moves_refl)
  ultimately have bm: "moves g b st [] bb"
    using moves_log [of g b st] moves_trans unfolding l_def by meson
  show ?thesis
  proof (cases clsd)
    case True
    with res bm show ?thesis
      by simp
  next
    case False
    then have "wait_to_retry P (drain_queue_to_cache P bb) = (r, st')"
      using res by simp
    then show ?thesis
      using moves_trans [OF bm moves_trans [OF moves_drain_queue moves_wait]] by blast
  qed
qed

text \<open>A write of what is in hand, with its count.\<close>

lemma moves_deliver:
  assumes "s_write_batch P (sink st) b = (r, snk)"
    and "n = (case r of Inl e \<Rightarrow> delivered e | Inr _ \<Rightarrow> length b)"
    and "g \<Longrightarrow> held (cache st) = []"
  shows "moves g b st (drop n b) (written_frames n (st\<lparr> sink := snk \<rparr>))"
proof -
  have n: "n \<le> length b" "stored snk = stored (sink st) @ take n b"
    using snk.write_delivers [OF assms(1)] assms(2) by auto
  have "flow g (view b st) (view (drop n b) (written_frames n (st\<lparr> sink := snk \<rparr>)))"
    using flow.deliver [of n "view b st" g] n assms(3)
    by (auto simp: view_of_def written_frames_def bump_def Let_def)
  then show ?thesis
    unfolding moves_def
    by (auto simp: worker_ok_def written_frames_def bump_def Let_def incoming_def dest: in_set_dropD)
qed

lemma moves_forward_batch:
  assumes "forward_batch P b st = (r, st')" "g \<Longrightarrow> held (cache st) = []"
  shows "moves g b st [] st'"
proof -
  obtain x snk where x: "s_write_batch P (sink st) b = (x, snk)"
    by (cases "s_write_batch P (sink st) b")
  show ?thesis
  proof (cases x)
    case (Inl e)
    have "moves g b st (drop (delivered e) b) (written_frames (delivered e) (st\<lparr> sink := snk \<rparr>))"
      using moves_deliver [OF x, of "delivered e"] Inl assms(2) by simp
    moreover have "fail P (cause e) (drop (delivered e) b) (written_frames (delivered e) (st\<lparr> sink := snk \<rparr>)) = (r, st')"
      using assms(1) x Inl by (simp add: forward_batch_def)
    ultimately show ?thesis
      using moves_fail moves_trans by blast
  next
    case (Inr u)
    then show ?thesis
      using moves_deliver [OF x, of "length b"] assms x by (simp add: forward_batch_def)
  qed
qed

text \<open>A batch read from the cache is written and forgotten; a delete that fails leaves the
  frames cached as well as stored.\<close>

lemma moves_write_cached:
  assumes "write_cached P xs st = (r, st')" "ok st \<Longrightarrow> xs = take m (held (cache st))"
    and "g \<Longrightarrow> reads_ok P held cinv" "xs \<noteq> []"
  shows "moves g [] st [] st'"
  unfolding moves_def
proof (intro impI)
  assume pre: "ok st \<and> (\<forall>s \<in> set []. carry s)"
  then have inv: "cinv (cache st)" and xs: "xs = take m (held (cache st))"
    using assms(2) by (auto simp: worker_ok_def)
  let ?fs = "map cached_sample xs" and ?H = "held (cache st)"
  obtain w snk where w: "s_write_batch P (sink st) ?fs = (w, snk)"
    by (cases "s_write_batch P (sink st) ?fs")
  define n where "n = (case w of Inl e \<Rightarrow> delivered e | Inr _ \<Rightarrow> length ?fs)"
  have n: "n \<le> length xs" "stored snk = stored (sink st) @ take n ?fs"
    using snk.write_delivers [OF w] n_def by auto
  have nm: "n \<le> m" "n \<le> length ?H"
    using xs n(1) by simp_all
  then have tk: "take n xs = take n ?H" "take n ?fs = take n (map cached_sample ?H)" "n \<le> length ?H"
    using xs by (simp_all add: take_map)
  obtain d c where d: "c_remove P (cache st) (take n ?H) = (d, c)"
    by (cases "c_remove P (cache st) (take n ?H)")
  have held: "held c = drop (if isl d then 0 else n) ?H" "cinv c"
    using fc.remove_prefix [OF inv d] fc.inv_remove [OF inv d] by (cases d; simp)+
  have "\<not> isl d" if g
    using assms(3) [OF that] d inv xs assms(4) unfolding reads_ok_def by (metis fst_conv take_Nil)
  note drain = flow.drain [of n "view [] st" "if isl d then 0 else n" g]
  let ?s1 = "st\<lparr> sink := snk, cache := c \<rparr>"
  let ?s2 = "case d of Inl e \<Rightarrow> logs (L_cache_delete_error e) ?s1 | Inr _ \<Rightarrow> ?s1"
  have st': "st' = bump (\<lambda>k. k\<lparr> cache_recovered := cache_recovered k + of_nat n \<rparr>) (written_frames n ?s2)"
    using assms(1) w d tk(1) by (cases w) (auto simp: write_cached_def Let_def n_def)
  have "flow g (view [] st) (view [] st')"
    using drain tk n(2) held \<open>g \<Longrightarrow> \<not> isl d\<close> unfolding st'
    by (cases d) (auto simp: view_of_def written_frames_def bump_def logs_def Let_def drop_map take_map)
  moreover have "ok st'"
    using pre held(2) unfolding st'
    by (cases d) (auto simp: worker_ok_def written_frames_def bump_def logs_def Let_def incoming_def)
  ultimately show "ok st' \<and> (\<forall>s \<in> set []. carry s) \<and> flows g (view [] st) (view [] st')"
    by auto
qed

lemma movesI: "(ok st \<Longrightarrow> moves g a st b st') \<Longrightarrow> moves g a st b st'"
  by (auto simp: moves_def)

lemma moves_ok: "moves g [] st [] st' \<Longrightarrow> ok st \<Longrightarrow> ok st'"
  by (simp add: moves_def)

lemma oldest_of_ok:
  assumes "ok st" "c_oldest P (cache st) (batch_size st) = (x, c)"
  shows "cinv c" "held c = held (cache st)" "x = Inr xs \<Longrightarrow> xs = take (batch_size st) (held c)"
    "x = Inr [] \<Longrightarrow> held c = []"
proof -
  have inv: "cinv (cache st)" "batch_size st < 2 ^ 63" "0 < batch_size st"
    using assms(1) by (auto simp: worker_ok_def)
  note o = fc.oldest_held [OF inv(1,2) assms(2)]
  then show "cinv c" "held c = held (cache st)"
    by simp_all
  show tk: "x = Inr xs \<Longrightarrow> xs = take (batch_size st) (held c)" for xs
    using fc.oldest_ok [OF inv(1,2)] assms(2) o by simp
  show "x = Inr [] \<Longrightarrow> held c = []"
    using tk [of "[]"] inv(3) by simp
qed

lemma moves_drain_done:
  assumes "held (cache st) = []" "c_reset P (cache st) = (y, c)"
  shows "moves g [] st [] (case y of Inl e \<Rightarrow> logs (L_cache_reset_error e) (st\<lparr> cache := c \<rparr>) | Inr _ \<Rightarrow> st\<lparr> cache := c \<rparr>)"
proof -
  have "moves g [] st [] (st\<lparr> cache := c \<rparr>)"
    using fc.reset_empty [OF _ assms] assms(1) by (intro moves_cache_read) (auto simp: worker_ok_def)
  then show ?thesis
    by (cases y) (auto intro: moves_trans moves_log)
qed

lemma moves_drain_cache:
  assumes "drain_cache P st = (r, st')" "g \<Longrightarrow> reads_ok P held cinv"
  shows "moves g [] st [] st'"
proof (rule movesI)
  assume "ok st"
  obtain pending st1 where p: "count_or P 1 st = (pending, st1)"
    by (cases "count_or P 1 st")
  have m1: "moves g [] st [] st1"
    by (rule moves_count(1) [OF p])
  then have ok1: "ok st1"
    using \<open>ok st\<close> moves_ok by blast
  obtain x c where x: "c_oldest P (cache st1) (batch_size st1) = (x, c)"
    by (cases "c_oldest P (cache st1) (batch_size st1)")
  note o = oldest_of_ok [OF ok1 x]
  define st2 where "st2 = st1\<lparr> cache := c \<rparr>"
  have m2: "moves g [] st [] st2"
    unfolding st2_def using m1 moves_cache_read o(1,2) moves_trans by blast
  have c2: "cache st2 = c" "batch_size st2 = batch_size st1" "draining_cache st2 = draining_cache st1"
    by (simp_all add: st2_def)
  consider (idle) "\<not> draining_cache st1 \<and> pending = 0"
    | (unread) e where "\<not> (\<not> draining_cache st1 \<and> pending = 0)" "x = Inl e"
    | (emptied) "\<not> (\<not> draining_cache st1 \<and> pending = 0)" "x = Inr []" "draining_cache st1"
    | (none) "\<not> (\<not> draining_cache st1 \<and> pending = 0)" "x = Inr []" "\<not> draining_cache st1"
    | (some) xs where "\<not> (\<not> draining_cache st1 \<and> pending = 0)" "x = Inr xs" "xs \<noteq> []"
    by (cases x) auto
  then show "moves g [] st [] st'"
  proof cases
    case idle
    then show ?thesis
      using assms(1) p m1 by (auto simp: drain_cache_def)
  next
    case unread
    then show ?thesis
      using assms(1) p x moves_trans [OF m2 moves_log] by (auto simp: drain_cache_def Let_def st2_def)
  next
    case none
    then show ?thesis
      using assms(1) p x m2 by (auto simp: drain_cache_def Let_def st2_def)
  next
    case emptied
    define st3 where "st3 = logs L_drain_complete (st2\<lparr> draining_cache := False \<rparr>)"
    obtain y c3 where y: "c_reset P (cache st3) = (y, c3)"
      by (cases "c_reset P (cache st3)")
    have m3: "moves g [] st [] st3"
      unfolding st3_def by (rule moves_trans [OF m2 moves_trans [OF moves_flags(3) moves_log]])
    have "held (cache st3) = []"
      using o(4) emptied(2) by (simp add: st3_def c2)
    note moves_trans [OF m3 moves_drain_done [OF this y]]
    moreover have "st' = (case y of Inl e \<Rightarrow> logs (L_cache_reset_error e) (st3\<lparr> cache := c3 \<rparr>) | Inr _ \<Rightarrow> st3\<lparr> cache := c3 \<rparr>)"
      using assms(1) p x emptied y by (auto simp: drain_cache_def Let_def st3_def st2_def split: sum.split)
    ultimately show ?thesis
      by simp
  next
    case some
    define st3 where "st3 = (if draining_cache st2 then st2 else logs (L_draining pending) (st2\<lparr> draining_cache := True \<rparr>))"
    have m3: "moves g [] st [] st3"
      unfolding st3_def using m2 moves_trans [OF m2 moves_trans [OF moves_flags(3) moves_log]] by simp
    have "write_cached P xs st3 = (r, st')"
      using assms(1) p x some by (auto simp: drain_cache_def Let_def st3_def st2_def)
    moreover have "xs = take (batch_size st1) (held (cache st3))"
      using o(3) some(2) by (simp add: st3_def c2)
    ultimately show ?thesis
      using moves_trans [OF m3 moves_write_cached] assms(2) some(3) by blast
  qed
qed

text \<open>With the cache readable, a drain that reports nothing to do has left it empty.\<close>

lemma drain_cache_leaves_none:
  assumes "ok st" "reads_ok P held cinv" "drain_cache P st = (Inr False, st')"
  shows "held (cache st') = []"
proof -
  obtain pending st1 where p: "count_or P 1 st = (pending, st1)"
    by (cases "count_or P 1 st")
  have ok1: "ok st1"
    using moves_ok [OF moves_count(1) [OF p] assms(1)] .
  have h1: "held (cache st1) = held (cache st)"
    using moves_count(2) [OF p] assms(1) by simp
  obtain x c where x: "c_oldest P (cache st1) (batch_size st1) = (x, c)"
    by (cases "c_oldest P (cache st1) (batch_size st1)")
  note o = oldest_of_ok [OF ok1 x]
  have zero: "held (cache st) = []" if "pending = 0"
    using that p assms(1) fc.count_zero [of "cache st"] fc.count_held [of "cache st"]
    by (auto simp: count_or_def worker_ok_def split: prod.splits sum.splits)
  have True_only: "b" if "write_cached P xs s = (Inr b, s')" for xs s b s'
    using that by (auto simp: write_cached_def Let_def split: prod.splits sum.splits)
  have readable: "x \<noteq> Inl e" if "held (cache st) \<noteq> []" for e
    using assms(2) x that h1 ok1 unfolding reads_ok_def worker_ok_def by (metis fst_conv sum.disc(1))
  show ?thesis
  proof (cases "held (cache st) = []")
    case True
    then have "held c = []"
      using o(2) h1 by simp
    moreover have "held c' = []" if "c_reset P c = (y, c')" for y c'
      using fc.reset_empty [OF o(1) calculation that] by simp
    ultimately show ?thesis
      using assms(3) p x h1 True o(3) True_only
      by (auto simp: drain_cache_def Let_def split: if_splits sum.splits prod.splits)
  next
    case False
    then have "pending \<noteq> 0" "x \<noteq> Inr []"
      using zero o(2,4) h1 by auto
    then show ?thesis
      using assms(3) p x readable [OF False] True_only
      by (cases x) (auto simp: drain_cache_def Let_def split: if_splits)
  qed
qed

lemma moves_establish:
  assumes "establish P st = (r, st')"
  shows "moves g [] st [] st'" "cache st' = cache st" "r = Inr u \<Longrightarrow> connected st'"
proof -
  have "moves g [] st [] st' \<and> cache st' = cache st \<and> (\<forall>u. r = Inr u \<longrightarrow> connected st')"
  proof (cases "connected st")
    case True
    then show ?thesis
      using assms by (auto simp: establish_def moves_refl)
  next
    case False
    obtain x snk where x: "s_connect P (sink st) = (x, snk)"
      by (cases "s_connect P (sink st)")
    define st1 where "st1 = st\<lparr> sink := snk \<rparr>"
    define st2 where "st2 = st1\<lparr> connected := True, backoff := bo_reset P (backoff st) \<rparr>"
    have m1: "moves g [] st [] st1"
      unfolding st1_def using snk.connect_stored [OF x] by (rule moves_sink)
    have m2: "moves g [] st [] st2"
      unfolding st2_def by (rule moves_trans [OF m1 moves_trans [OF moves_flags(2) moves_flags(4)]])
    have m3: "moves g [] st [] (logs L_restored (st2\<lparr> sink_down := False \<rparr>))"
      by (rule moves_trans [OF m2 moves_trans [OF moves_flags(1) moves_log]])
    show ?thesis
    proof (cases x)
      case (Inl e)
      then show ?thesis
        using assms False x m1 by (auto simp: establish_def st1_def)
    next
      case (Inr u)
      then have "st' = (if sink_down st2 then logs L_restored (st2\<lparr> sink_down := False \<rparr>) else st2)" "r = Inr ()"
        using assms False x by (auto simp: establish_def st1_def st2_def Let_def)
      with m2 m3 show ?thesis
        by (simp add: st1_def st2_def)
    qed
  qed
  then show "moves g [] st [] st'" "cache st' = cache st" "r = Inr u \<Longrightarrow> connected st'"
    by simp_all
qed

lemma next_batch_cache:
  "next_batch st = (b, st') \<Longrightarrow> cache st' = cache st \<and> connected st' = connected st"
  by (auto simp: next_batch_def split: prod.splits option.splits)

lemma moves_serve_queue:
  assumes "serve_queue P st = (r, st')" "g \<Longrightarrow> held (cache st) = []"
  shows "moves g [] st [] st'"
proof -
  obtain b st1 where b: "next_batch st = (b, st1)"
    by (cases "next_batch st")
  note m1 = moves_next_batch [OF b, of g]
  show ?thesis
  proof (cases "b = []")
    case False
    then have "forward_batch P b st1 = (r, st')"
      using assms(1) b by (simp add: serve_queue_def)
    then show ?thesis
      using moves_trans [OF m1 moves_forward_batch] next_batch_cache [OF b] assms(2) by metis
  next
    case True
    obtain f st2 where f: "queue_finished st1 = (f, st2)"
      by (cases "queue_finished st1")
    have m2: "moves g [] st [] st2"
      using m1 True moves_finished [OF f] moves_trans by blast
    obtain x snk where x: "s_keep_alive P (sink st2) = (x, snk)"
      by (cases "s_keep_alive P (sink st2)")
    have m3: "moves g [] st [] (st2\<lparr> sink := snk \<rparr>)"
      using m2 moves_sink snk.keep_alive_stored [OF x] moves_trans by blast
    consider "f" "st' = st2" | e where "\<not> f" "fail P e [] (st2\<lparr> sink := snk \<rparr>) = (r, st')"
      | "\<not> f" "st' = st2\<lparr> sink := snk \<rparr>"
      using assms(1) b True f x by (cases x) (auto simp: serve_queue_def split: if_splits)
    then show ?thesis
      using m2 m3 moves_fail moves_trans by cases blast+
  qed
qed

lemma moves_pass:
  assumes "pass P st = (r, st')" "g \<Longrightarrow> reads_ok P held cinv"
  shows "moves g [] st [] st'"
proof (rule movesI)
  assume "ok st"
  define st1 where "st1 = spill_if_queue_filling P (maybe_log_stats P (report P st))"
  have m1: "moves g [] st [] st1"
    unfolding st1_def by (rule moves_trans [OF moves_report moves_trans [OF moves_stats moves_spill]])
  obtain x st2 where x: "establish P st1 = (x, st2)"
    by (cases "establish P st1")
  have m2: "moves g [] st [] st2"
    by (rule moves_trans [OF m1 moves_establish(1) [OF x]])
  obtain y st3 where y: "drain_cache P st2 = (y, st3)"
    by (cases "drain_cache P st2")
  have m3: "moves g [] st [] st3"
    by (rule moves_trans [OF m2 moves_drain_cache [OF y assms(2)]])
  have ok2: "ok st2"
    using moves_ok [OF m2 \<open>ok st\<close>] .
  consider e where "fail P e [] st2 = (r, st')" | e where "fail P e [] st3 = (r, st')"
    | "st' = st3" | "y = Inr False" "serve_queue P st3 = (r, st')"
    using assms(1) x y by (cases x; cases y) (auto simp: pass_def st1_def split: bool.splits)
  then show "moves g [] st [] st'"
  proof cases
    case 4
    then show ?thesis
      using moves_trans [OF m3 moves_serve_queue] drain_cache_leaves_none [OF ok2] y assms(2) by blast
  qed (use m2 m3 moves_fail moves_trans in blast)+
qed

lemma moves_flush_to_sink:
  assumes "flush_to_sink P b st = (n, st')" "g \<Longrightarrow> \<not> connected st"
  shows "moves g b st (drop n b) st'"
proof (cases "connected st")
  case False
  then show ?thesis
    using assms by (auto simp: flush_to_sink_def moves_refl)
next
  case True
  obtain x snk where x: "s_write_batch P (sink st) b = (x, snk)"
    by (cases "s_write_batch P (sink st) b")
  define d where "d = (case x of Inl e \<Rightarrow> delivered e | Inr _ \<Rightarrow> length b)"
  have d: "d \<le> length b" "stored snk = stored (sink st) @ take d b"
    using snk.write_delivers [OF x] d_def by auto
  have n: "n = d"
    using assms(1) True x by (cases x) (auto simp: flush_to_sink_def d_def Let_def split: if_splits)
  have "view (drop n b) st' = (view b st)\<lparr> v_stored := v_stored (view b st) @ take d (v_hand (view b st)),
      v_hand := drop d (v_hand (view b st)), n_written := n_written (view b st) + of_nat d \<rparr>"
    using assms(1) True x d n
    by (cases x) (auto simp: flush_to_sink_def d_def view_of_def logs_def bump_def Let_def split: if_splits)
  moreover have "d \<le> length (v_hand (view b st))" "g \<longrightarrow> v_cached (view b st) = []"
    using d(1) assms(2) True by (auto simp: view_of_def)
  ultimately have "flow g (view b st) (view (drop n b) st')"
    using flow.deliver [of d "view b st" g] by (simp only:)
  moreover have "incoming (ch st') = incoming (ch st)"
    using assms(1) True x
    by (cases x) (auto simp: flush_to_sink_def logs_def bump_def Let_def incoming_def split: if_splits)
  then have "ok st' = ok st"
    using assms(1) True x
    by (cases x) (auto simp: flush_to_sink_def worker_ok_def logs_def bump_def Let_def split: if_splits)
  ultimately show ?thesis
    unfolding moves_def by (auto dest: in_set_dropD)
qed

lemma moves_flush_remaining:
  assumes "g \<Longrightarrow> \<not> connected st"
  shows "moves g b st [] (flush_remaining P b st)"
proof -
  obtain n st1 where f: "flush_to_sink P b st = (n, st1)"
    by (cases "flush_to_sink P b st")
  have m1: "moves g b st (drop n b) st1"
    using f assms by (rule moves_flush_to_sink)
  obtain m st2 where c: "cache_batch P (drop n b) st1 = (m, st2)"
    by (cases "cache_batch P (drop n b) st1")
  have m2: "moves g b st [] st2"
    using moves_trans [OF m1 moves_cache_batch [OF c, of g "[]", simplified]] .
  show ?thesis
    using f c m1 m2 moves_trans [OF m2 moves_log]
    by (cases "drop n b = []") (simp_all add: flush_remaining_def Let_def)
qed

lemma moves_shutdown:
  assumes "g \<Longrightarrow> \<not> connected st \<or> rx_closed (ch st) \<and> queue (ch st) = []"
  shows "moves g [] st [] (shutdown_flush P st)"
proof -
  obtain rem c where t: "take_queued (ch st) = (rem, c)"
    by (cases "take_queued (ch st)")
  define st1 where "st1 = st\<lparr> ch := c \<rparr>"
  have m1: "moves g [] st rem st1"
    using moves_take_queued [OF t, of g "[]"] by (simp add: st1_def)
  define st2 where "st2 = (if rem = [] then st1 else flush_remaining P rem st1)"
  have "rem = []" if g "connected st"
    using assms that finished_stays(3) [of "ch st"] t by simp
  then have "moves g rem st1 [] st2"
    unfolding st2_def using moves_flush_remaining [of g st1 rem] moves_refl by (auto simp: st1_def)
  with m1 have m2: "moves g [] st [] st2"
    by (rule moves_trans)
  define st3 where "st3 = st2\<lparr> sink := s_close P (sink st2) \<rparr>"
  have m3: "moves g [] st [] st3"
    unfolding st3_def using m2 moves_sink [OF snk.close_stored] by (rule moves_trans)
  obtain n st4 where n: "count_or P 0 st3 = (n, st4)"
    by (cases "count_or P 0 st3")
  have m4: "moves g [] st [] st4"
    using m3 moves_count(1) [OF n] by (rule moves_trans)
  obtain l where "shutdown_flush P st = logs l st4"
    using t n unfolding shutdown_flush_def st1_def st2_def st3_def by (auto simp: Let_def)
  then show ?thesis
    using moves_trans [OF m4 moves_log] by simp
qed

text \<open>Any number of passes, the final flush included.\<close>

lemma moves_passes:
  assumes "g \<Longrightarrow> reads_ok P held cinv"
  shows "moves g [] st [] (passes n P st)"
proof (induction n arbitrary: st)
  case (Suc n)
  obtain r st1 where p: "pass P st = (r, st1)"
    by (cases "pass P st")
  note m = moves_pass [OF p assms]
  show ?case
  proof (cases r)
    case True
    then show ?thesis
      using moves_trans [OF m Suc] p by simp
  next
    case False
    then show ?thesis
      using moves_trans [OF m moves_shutdown] pass_leaves [of P st st1] p by simp
  qed
qed (simp add: moves_refl)

end

end
