(* ===== verification/Wire.thy ===== *)
theory Wire
  imports Samples
begin

text \<open>
  How a sample crosses the ingest protocol: \<^verbatim>\<open>crates/wiretap-server/src/wire.rs\<close>.

  The CAN frame type and the record codec belong to the libraries \<^verbatim>\<open>wslib_can\<close>
  and \<^verbatim>\<open>wslib_wiretap_protocol\<close>, which are not part of the repository.  They are
  the fields of the parameter record \<open>wslib\<close>, over an abstract frame type
  \<^typ>\<open>'f\<close> and an abstract type \<^typ>\<open>'k\<close> for the part of a CAN record's fields the
  sources never look at.  What the code relies on is stated by the predicates
  \<open>can_laws\<close>, \<open>record_laws\<close> and \<open>store_laws\<close>.
\<close>

section \<open>The libraries\<close>

text \<open>\<^verbatim>\<open>RecordFields\<close>, with the variants and fields the source names.\<close>

datatype 'k RecordFields =
    RF_Can (rf_rest: 'k) (rf_transmitted: bool)
  | RF_Modbus u8 u8 bool bool
  | RF_RawSerial u32 bool

text \<open>A record as the sender builds it, and as the receiver's parser returns it.\<close>

record 'k BatchRecord =
  br_ts_us :: u64
  br_fields :: "'k RecordFields"
  br_bus :: u8
  br_payload :: "u8 list"

record Record =
  rec_kind :: u8
  rec_bus :: u8
  rec_id_flags :: u32
  rec_flags :: u8
  rec_payload :: "u8 list"

record ('f, 'k) wslib =
  cf_remote :: "u8 \<Rightarrow> u32 \<Rightarrow> bool \<Rightarrow> u8 \<Rightarrow> 'f"
  cf_data_frame :: "u8 \<Rightarrow> u32 \<Rightarrow> bool \<Rightarrow> bool \<Rightarrow> bool \<Rightarrow> u8 list \<Rightarrow> 'f"
  cf_set_esi :: "bool \<Rightarrow> 'f \<Rightarrow> 'f"
  cf_arb_id :: "'f \<Rightarrow> u32"
  cf_extended :: "'f \<Rightarrow> bool"
  cf_fd :: "'f \<Rightarrow> bool"
  cf_rtr :: "'f \<Rightarrow> bool"
  cf_brs :: "'f \<Rightarrow> bool"
  cf_esi :: "'f \<Rightarrow> bool"
  cf_data :: "'f \<Rightarrow> u8 list"
  cf_dlc :: "'f \<Rightarrow> u8"
  rf_from_can :: "'f \<Rightarrow> bool \<Rightarrow> 'k RecordFields"
  rf_to_can :: "'k RecordFields \<Rightarrow> u8 \<Rightarrow> u8 list \<Rightarrow> 'f option"
  rf_from_wire :: "u8 \<Rightarrow> u32 \<Rightarrow> u8 \<Rightarrow> 'k RecordFields"
  can_flags_of :: "'f \<Rightarrow> bool \<Rightarrow> u8"
  flags_contain :: "u8 \<Rightarrow> u8 \<Rightarrow> bool"
  flag_RTR :: u8
  flag_BRS :: u8
  flag_ESI :: u8
  modbus_id :: "u8 \<Rightarrow> u8 \<Rightarrow> u32"
  modbus_unit_func :: "u32 \<Rightarrow> u8 \<times> u8"
  proto_as_str :: "Protocol \<Rightarrow> string"
  proto_parse :: "string \<Rightarrow> Protocol option"

section \<open>The code\<close>

text \<open>A capture timestamp as the protocol carries it: \<^verbatim>\<open>ts.max(0) as u64\<close>.\<close>

definition wire_ts_us :: "Sample \<Rightarrow> u64" where
  "wire_ts_us s = word_of_int (max (sample_ts_us s) 0)"

definition can_frame :: "('f, 'k) wslib \<Rightarrow> CanSample \<Rightarrow> 'f" where
  "can_frame L c =
     cf_set_esi L (c_esi c)
       (case c_rtr c of
          Some dlc \<Rightarrow> cf_remote L (bus_no (c_bus c)) (c_arb_id c) (c_extended c) dlc
        | None \<Rightarrow> cf_data_frame L (bus_no (c_bus c)) (c_arb_id c) (c_extended c)
                    (c_is_fd c) (c_brs c) (c_data c))"

definition can_sample :: "('f, 'k) wslib \<Rightarrow> 'f \<Rightarrow> i64 \<Rightarrow> SourceId \<Rightarrow> Direction \<Rightarrow> CanSample" where
  "can_sample L frame ts_us bus dir =
     \<lparr> c_ts_us = ts_us,
       c_arb_id = cf_arb_id L frame,
       c_extended = cf_extended L frame,
       c_is_fd = cf_fd L frame,
       c_rtr = (if cf_rtr L frame then Some (cf_dlc L frame) else None),
       c_brs = cf_brs L frame,
       c_esi = cf_esi L frame,
       c_data = cf_data L frame,
       c_bus = bus,
       c_dir = dir \<rparr>"

definition parts :: "('f, 'k) wslib \<Rightarrow> Sample \<Rightarrow> 'k RecordFields \<times> u8 list" where
  "parts L s =
     (case s of
        Can c \<Rightarrow> (rf_from_can L (can_frame L c) (c_dir c = Tx), c_data c)
      | Modbus m \<Rightarrow> (RF_Modbus (m_unit m) (m_func m) (m_crc_valid m) False, m_raw m)
      | Serial r \<Rightarrow> (RF_RawSerial (r_seq r) False, r_data r))"

definition wire_record :: "('f, 'k) wslib \<Rightarrow> Sample \<Rightarrow> 'k BatchRecord" where
  "wire_record L s =
     (let (fields, payload) = parts L s in
      \<lparr> br_ts_us = wire_ts_us s, br_fields = fields,
        br_bus = bus_no (sample_bus s), br_payload = payload \<rparr>)"

text \<open>\<^verbatim>\<open>decode\<close>: \<open>None\<close> is the panic of \<^verbatim>\<open>.expect("a CAN record")\<close>.\<close>

definition wire_decode :: "('f, 'k) wslib \<Rightarrow> i64 \<Rightarrow> Record \<Rightarrow> Sample option" where
  "wire_decode L ts_us r =
     (let bus = SourceId (rec_bus r);
          fields = rf_from_wire L (rec_kind r) (rec_id_flags r) (rec_flags r)
      in case fields of
           RF_Can _ transmitted \<Rightarrow>
             (case rf_to_can L fields (rec_bus r) (rec_payload r) of
                None \<Rightarrow> None
              | Some frame \<Rightarrow>
                  Some (Can (can_sample L frame ts_us bus (if transmitted then Tx else Rx))))
         | RF_Modbus unit func crc_valid _ \<Rightarrow>
             Some (Modbus \<lparr> m_ts_us = ts_us, m_bus = bus, m_unit = unit, m_func = func,
                            m_crc_valid = crc_valid, m_raw = rec_payload r \<rparr>)
         | RF_RawSerial seq _ \<Rightarrow>
             Some (Serial \<lparr> r_ts_us = ts_us, r_bus = bus, r_seq = seq, r_data = rec_payload r \<rparr>))"

section \<open>What the code relies on\<close>

text \<open>Payload lengths a CAN frame can have.\<close>

definition can_len_ok :: "bool \<Rightarrow> nat \<Rightarrow> bool" where
  "can_len_ok fd n \<longleftrightarrow> n \<le> 8 \<or> fd \<and> n \<in> {12, 16, 20, 24, 32, 48, 64}"

definition can_id_ok :: "bool \<Rightarrow> u32 \<Rightarrow> bool" where
  "can_id_ok ext i \<longleftrightarrow> unat i < (if ext then 2 ^ 29 else 2 ^ 11)"

definition can_ok :: "CanSample \<Rightarrow> bool" where
  "can_ok c \<longleftrightarrow> can_wf c \<and> can_id_ok (c_extended c) (c_arb_id c) \<and>
     can_len_ok (c_is_fd c) (length (c_data c)) \<and>
     (case c_rtr c of None \<Rightarrow> True | Some d \<Rightarrow> unat d \<le> 8)"

definition sample_ok :: "Sample \<Rightarrow> bool" where
  "sample_ok s = (case s of Can c \<Rightarrow> can_ok c | _ \<Rightarrow> sample_wf s)"

text \<open>The constructors of a CAN frame return a frame with the fields they were given,
  and setting the error-state flag changes nothing else.\<close>

definition can_laws :: "('f, 'k) wslib \<Rightarrow> bool" where
  "can_laws L \<longleftrightarrow>
     (\<forall>b i x d. can_id_ok x i \<longrightarrow> unat d \<le> 8 \<longrightarrow>
        (let f = cf_set_esi L False (cf_remote L b i x d) in
           cf_arb_id L f = i \<and> cf_extended L f = x \<and> \<not> cf_fd L f \<and> cf_rtr L f \<and>
           \<not> cf_brs L f \<and> \<not> cf_esi L f \<and> cf_data L f = [] \<and> cf_dlc L f = d)) \<and>
     (\<forall>b i x fd s e p. can_id_ok x i \<longrightarrow> can_len_ok fd (length p) \<longrightarrow> (s \<or> e \<longrightarrow> fd) \<longrightarrow>
        (let f = cf_set_esi L e (cf_data_frame L b i x fd s p) in
           cf_arb_id L f = i \<and> cf_extended L f = x \<and> cf_fd L f = fd \<and> \<not> cf_rtr L f \<and>
           cf_brs L f = s \<and> cf_esi L f = e \<and> cf_data L f = p))"

text \<open>A CAN record's fields with its payload rebuild the frame they were made from, as
  far as a reader of the frame can tell, and record who transmitted it.\<close>

definition same_frame :: "('f, 'k) wslib \<Rightarrow> 'f \<Rightarrow> 'f \<Rightarrow> bool" where
  "same_frame L f g \<longleftrightarrow>
     cf_arb_id L f = cf_arb_id L g \<and> cf_extended L f = cf_extended L g \<and>
     cf_fd L f = cf_fd L g \<and> cf_rtr L f = cf_rtr L g \<and> cf_brs L f = cf_brs L g \<and>
     cf_esi L f = cf_esi L g \<and> cf_data L f = cf_data L g \<and> cf_dlc L f = cf_dlc L g"

definition record_laws :: "('f, 'k) wslib \<Rightarrow> bool" where
  "record_laws L \<longleftrightarrow>
     (\<forall>f tx. \<exists>k. rf_from_can L f tx = RF_Can k tx) \<and>
     (\<forall>f tx b. \<exists>g. rf_to_can L (rf_from_can L f tx) b (cf_data L f) = Some g \<and> same_frame L g f)"

text \<open>The record the receiver parses carries the fields the sender encoded.\<close>

definition carries :: "('f, 'k) wslib \<Rightarrow> 'k BatchRecord \<Rightarrow> u64 \<times> Record \<Rightarrow> bool" where
  "carries L b p \<longleftrightarrow>
     fst p = br_ts_us b \<and> rec_bus (snd p) = br_bus b \<and> rec_payload (snd p) = br_payload b \<and>
     rf_from_wire L (rec_kind (snd p)) (rec_id_flags (snd p)) (rec_flags (snd p)) = br_fields b"

text \<open>The flag byte answers for the frame's flags, a Modbus id unpacks to the unit and
  function code it was packed from, and a protocol tag parses back.\<close>

definition store_laws :: "('f, 'k) wslib \<Rightarrow> bool" where
  "store_laws L \<longleftrightarrow>
     (\<forall>f tx. flags_contain L (can_flags_of L f tx) (flag_RTR L) = cf_rtr L f \<and>
             flags_contain L (can_flags_of L f tx) (flag_BRS L) = cf_brs L f \<and>
             flags_contain L (can_flags_of L f tx) (flag_ESI L) = cf_esi L f) \<and>
     (\<forall>u fn. modbus_unit_func L (modbus_id L u fn) = (u, fn)) \<and>
     (\<forall>p. proto_parse L (proto_as_str L p) = Some p)"

section \<open>Round trip\<close>

definition clamp_ts :: "Sample \<Rightarrow> Sample" where
  "clamp_ts s =
     (case s of
        Can c \<Rightarrow> Can (c\<lparr> c_ts_us := max (c_ts_us c) 0 \<rparr>)
      | Modbus m \<Rightarrow> Modbus (m\<lparr> m_ts_us := max (m_ts_us m) 0 \<rparr>)
      | Serial r \<Rightarrow> Serial (r\<lparr> r_ts_us := max (r_ts_us r) 0 \<rparr>))"

lemma clamp_ts_id [simp]: "0 \<le> sample_ts_us s \<Longrightarrow> clamp_ts s = s"
  by (cases s) (simp_all add: clamp_ts_def)

lemma can_frame_fields:
  assumes "can_laws L" "can_ok c"
  defines "f \<equiv> can_frame L c"
  shows "cf_arb_id L f = c_arb_id c" "cf_extended L f = c_extended c"
    "cf_fd L f = c_is_fd c" "cf_rtr L f \<longleftrightarrow> c_rtr c \<noteq> None" "cf_brs L f = c_brs c"
    "cf_esi L f = c_esi c" "cf_data L f = c_data c"
    "c_rtr c = Some d \<Longrightarrow> cf_dlc L f = d"
  using assms
  by (auto simp: can_laws_def can_ok_def can_wf_def can_frame_def Let_def split: option.splits)

lemma can_sample_of_frame:
  assumes "can_laws L" "can_ok c" "same_frame L g (can_frame L c)"
  shows "can_sample L g t b d =
           c\<lparr> c_ts_us := t, c_bus := b, c_dir := d \<rparr>"
proof -
  note f = can_frame_fields [OF assms(1,2)]
  have "c_rtr c = (if cf_rtr L g then Some (cf_dlc L g) else None)"
    using assms(3) f(4) f(8) by (cases "c_rtr c") (auto simp: same_frame_def)
  then show ?thesis
    using assms(3) f(1-7) by (simp add: can_sample_def same_frame_def)
qed

lemma wire_ts_int:
  assumes "in_i64 (sample_ts_us s)"
  shows "uint (wire_ts_us s) = max (sample_ts_us s) 0"
  using assms
  by (simp add: wire_ts_us_def in_i64_def i64_max_def uint_word_of_int take_bit_int_eq_self)

lemma wire_decode_record:
  assumes "can_laws L" "record_laws L" "sample_ok s" "in_i64 (sample_ts_us s)"
    and "carries L (wire_record L s) (ts, r)"
  shows "wire_decode L (uint ts) r = Some (clamp_ts s)"
proof (cases s)
  case (Can c)
  then have ok: "can_ok c"
    using assms(3) by (simp add: sample_ok_def)
  note f = can_frame_fields [OF assms(1) ok]
  let ?tx = "c_dir c = Tx"
  obtain k where k: "rf_from_can L (can_frame L c) ?tx = RF_Can k ?tx"
    using assms(2) unfolding record_laws_def by metis
  obtain g where g: "rf_to_can L (RF_Can k ?tx) (rec_bus r) (c_data c) = Some g"
      "same_frame L g (can_frame L c)"
    using assms(2) k f(7) unfolding record_laws_def by metis
  have "(if ?tx then Tx else Rx) = c_dir c"
    by (cases "c_dir c") auto
  then show ?thesis
    using assms(4,5) Can k g can_sample_of_frame [OF assms(1) ok g(2)]
    by (simp add: wire_decode_def carries_def wire_record_def parts_def clamp_ts_def wire_ts_int)
next
  case (Modbus m)
  then show ?thesis
    using assms(4,5)
    by (simp add: wire_decode_def carries_def wire_record_def parts_def clamp_ts_def wire_ts_int)
next
  case (Serial r')
  then show ?thesis
    using assms(4,5)
    by (simp add: wire_decode_def carries_def wire_record_def parts_def clamp_ts_def wire_ts_int)
qed

text \<open>C38: a batch of well-formed samples, encoded by the forwarding side, carried by the
  protocol and decoded by the receiving side, comes back sample for sample and in
  order; the only change is that a timestamp before the epoch is clamped to it.\<close>

theorem wire_batch_round_trip:
  assumes "can_laws L" "record_laws L"
    and "\<forall>s \<in> set ss. sample_ok s \<and> in_i64 (sample_ts_us s)"
    and "list_all2 (carries L) (map (wire_record L) ss) rs"
  shows "map (\<lambda>(ts, r). wire_decode L (uint ts) r) rs = map (\<lambda>s. Some (clamp_ts s)) ss"
  using assms(3,4)
proof (induction ss arbitrary: rs)
  case (Cons s ss)
  then obtain ts r rs' where rs: "rs = (ts, r) # rs'"
      "carries L (wire_record L s) (ts, r)" "list_all2 (carries L) (map (wire_record L) ss) rs'"
    by (auto simp: list_all2_Cons1)
  with Cons show ?case
    using wire_decode_record [OF assms(1,2)] by simp
qed simp

text \<open>A concrete library for the witnesses: a frame is its fields, and a record packs the
  CAN flags into its id and flag fields.\<close>

record RefFrame =
  ref_id :: u32
  ref_ext :: bool
  ref_fd :: bool
  ref_rtr :: bool
  ref_brs :: bool
  ref_esi :: bool
  ref_payload :: "u8 list"
  ref_dlc :: u8

definition bit_of :: "bool \<Rightarrow> u8 \<Rightarrow> u8" where
  "bit_of b w = (if b then w else 0)"

definition ref_lib :: "(RefFrame, RefFrame) wslib" where
  "ref_lib =
     \<lparr> cf_remote = (\<lambda>b i x d. \<lparr> ref_id = i, ref_ext = x, ref_fd = False, ref_rtr = True,
          ref_brs = False, ref_esi = False, ref_payload = [], ref_dlc = d \<rparr>),
       cf_data_frame = (\<lambda>b i x fd s p. \<lparr> ref_id = i, ref_ext = x, ref_fd = fd, ref_rtr = False,
          ref_brs = s, ref_esi = False, ref_payload = p, ref_dlc = of_nat (length p) \<rparr>),
       cf_set_esi = (\<lambda>e f. f\<lparr> ref_esi := e \<rparr>),
       cf_arb_id = ref_id, cf_extended = ref_ext, cf_fd = ref_fd, cf_rtr = ref_rtr,
       cf_brs = ref_brs, cf_esi = ref_esi, cf_data = ref_payload, cf_dlc = ref_dlc,
       rf_from_can = (\<lambda>f tx. RF_Can (f\<lparr> ref_payload := [] \<rparr>) tx),
       rf_to_can = (\<lambda>r b p. case r of RF_Can f tx \<Rightarrow> Some (f\<lparr> ref_payload := p \<rparr>) | _ \<Rightarrow> None),
       rf_from_wire = (\<lambda>k i fl. if k = 0 then RF_Can \<lparr> ref_id = i, ref_ext = False, ref_fd = False,
            ref_rtr = False, ref_brs = False, ref_esi = False, ref_payload = [],
            ref_dlc = drop_bit 1 fl \<rparr> (bit fl 0)
          else if k = 1 then RF_Modbus (ucast (drop_bit 8 i)) (ucast i) (fl = 1) False
                               else RF_RawSerial i False),
       can_flags_of = (\<lambda>f tx. bit_of (ref_rtr f) 1 + bit_of (ref_brs f) 2 + bit_of (ref_esi f) 4),
       flags_contain = (\<lambda>a b. and a b = b),
       flag_RTR = 1, flag_BRS = 2, flag_ESI = 4,
       modbus_id = (\<lambda>u f. push_bit 8 (ucast u) + ucast f),
       modbus_unit_func = (\<lambda>i. (ucast (drop_bit 8 i), ucast i)),
       proto_as_str = (\<lambda>p. case p of P_Can \<Rightarrow> ''can'' | P_ModbusRtu \<Rightarrow> ''modbus_rtu'' | P_Serial \<Rightarrow> ''serial''),
       proto_parse = (\<lambda>s. if s = ''can'' then Some P_Can else if s = ''modbus_rtu'' \<or> s = ''modbus'' then Some P_ModbusRtu
                         else if s = ''serial'' then Some P_Serial else None) \<rparr>"

lemma ref_lib_can_laws: "can_laws ref_lib"
  by (simp add: can_laws_def ref_lib_def Let_def)

lemma ref_lib_record_laws: "record_laws ref_lib"
  by (simp add: record_laws_def ref_lib_def same_frame_def)

lemma ref_modbus_id:
  "(ucast (drop_bit 8 (push_bit 8 (ucast u) + ucast f :: u32)) :: u8) = u"
  "(ucast (push_bit 8 (ucast u) + ucast f :: u32) :: u8) = f" for u f :: u8
proof -
  have "push_bit 8 (ucast u) + ucast f = (or (push_bit 8 (ucast u)) (ucast f) :: u32)"
    by (rule disjunctive_add) (auto simp: bit_simps dest: bit_imp_le_length)
  moreover have "\<not> bit f (8 + n)" for n
    using bit_imp_le_length [of f "8 + n"] by auto
  ultimately show "(ucast (drop_bit 8 (push_bit 8 (ucast u) + ucast f :: u32)) :: u8) = u"
    "(ucast (push_bit 8 (ucast u) + ucast f :: u32) :: u8) = f"
    by (auto intro!: bit_eqI simp: bit_simps)
qed

lemma ref_lib_store_laws: "store_laws ref_lib"
proof -
  have "\<forall>f tx. flags_contain ref_lib (can_flags_of ref_lib f tx) (flag_RTR ref_lib) = cf_rtr ref_lib f \<and>
           flags_contain ref_lib (can_flags_of ref_lib f tx) (flag_BRS ref_lib) = cf_brs ref_lib f \<and>
           flags_contain ref_lib (can_flags_of ref_lib f tx) (flag_ESI ref_lib) = cf_esi ref_lib f"
    by (simp add: ref_lib_def bit_of_def)
  moreover have "\<forall>u fn. modbus_unit_func ref_lib (modbus_id ref_lib u fn) = (u, fn)"
    by (simp add: ref_lib_def ref_modbus_id)
  moreover have "\<forall>p. proto_parse ref_lib (proto_as_str ref_lib p) = Some p"
    by (simp add: ref_lib_def split: Protocol.splits)
  ultimately show ?thesis
    by (simp add: store_laws_def)
qed

definition ex_can :: Sample where
  "ex_can = Can \<lparr> c_ts_us = 1700000000000008, c_arb_id = 291, c_extended = False, c_is_fd = False,
                  c_rtr = None, c_brs = False, c_esi = False, c_data = [170], c_bus = SourceId 1,
                  c_dir = Tx \<rparr>"

definition ex_modbus :: Sample where
  "ex_modbus = Modbus \<lparr> m_ts_us = 1700000000000009, m_bus = SourceId 2, m_unit = 0, m_func = 96,
                        m_crc_valid = False, m_raw = [0, 96, 0, 5] \<rparr>"

definition ex_serial :: Sample where
  "ex_serial = Serial \<lparr> r_ts_us = - 4, r_bus = SourceId 3, r_seq = 7, r_data = [85] \<rparr>"

definition ex_records :: "(u64 \<times> Record) list" where
  "ex_records =
     [(1700000000000008, \<lparr> rec_kind = 0, rec_bus = 1, rec_id_flags = 291, rec_flags = 3,
                           rec_payload = [170] \<rparr>),
      (1700000000000009, \<lparr> rec_kind = 1, rec_bus = 2, rec_id_flags = 96, rec_flags = 0,
                           rec_payload = [0, 96, 0, 5] \<rparr>),
      (0, \<lparr> rec_kind = 2, rec_bus = 3, rec_id_flags = 7, rec_flags = 0, rec_payload = [85] \<rparr>)]"

lemmas ex_sample_defs = ex_can_def ex_modbus_def ex_serial_def

lemma ex_samples_ok:
  "\<forall>s \<in> set [ex_can, ex_modbus, ex_serial]. sample_ok s \<and> in_i64 (sample_ts_us s)"
  by (simp add: ex_sample_defs sample_ok_def sample_wf_def in_i64_def i64_max_def i64_min_def
      can_ok_def can_wf_def can_id_ok_def can_len_ok_def)

lemma ex_records_carry:
  "list_all2 (carries ref_lib) (map (wire_record ref_lib) [ex_can, ex_modbus, ex_serial]) ex_records"
  by (simp add: ex_sample_defs ex_records_def carries_def wire_record_def parts_def wire_ts_us_def
      can_frame_def ref_lib_def bit_simps)

theorem wire_batch_round_trip_witness:
  "map (\<lambda>(ts, r). wire_decode ref_lib (uint ts) r) ex_records =
     [Some ex_can, Some ex_modbus, Some (clamp_ts ex_serial)]"
  using wire_batch_round_trip [OF ref_lib_can_laws ref_lib_record_laws ex_samples_ok ex_records_carry]
  by (simp add: ex_can_def ex_modbus_def)

end
