(* ===== verification/Cache_Codec.thy ===== *)
theory Cache_Codec
  imports Wire F64
begin

text \<open>
  The rows of the disk cache: \<^verbatim>\<open>to_secs\<close>, \<^verbatim>\<open>from_secs\<close>, the parameters of the
  \<^verbatim>\<open>INSERT\<close> in \<^verbatim>\<open>append\<close> and the row reader of \<^verbatim>\<open>oldest\<close>, all of
  \<^verbatim>\<open>crates/wiretap-server/src/cache.rs\<close>.

  SQL values and the conversions between them and Rust types are rusqlite's;
  they are the fields of the parameter \<open>sqlconv\<close> over an abstract value type
  \<^typ>\<open>'v\<close>, with \<open>conv_laws\<close> saying that a value reads back as it was bound.
\<close>

section \<open>Timestamps\<close>

definition to_secs :: "i64 \<Rightarrow> rat" where
  "to_secs ts_us = f64_div (i64_as_f64 ts_us) 1000000"

definition from_secs :: "rat \<Rightarrow> i64" where
  "from_secs ts = f64_as_i64 (f64_round_away (f64_mul ts 1000000))"

lemma secs_round_trip:
  assumes "\<bar>ts\<bar> < 2 ^ 32 * 1000000"
  shows "from_secs (to_secs ts) = ts"
proof -
  let ?x = "of_int ts / 1000000 :: rat"
  define s where "s = to_secs ts"
  have exact: "i64_as_f64 ts = of_int ts"
    unfolding i64_as_f64_def using assms by (intro f64_round_exact) simp
  have ts: "\<bar>of_int ts :: rat\<bar> < 4294967296000000"
  proof -
    have "(of_int \<bar>ts\<bar> :: rat) < of_int (2 ^ 32 * 1000000)"
      using assms by (simp only: of_int_less_iff)
    then show ?thesis
      by simp
  qed
  then have "\<bar>?x\<bar> < 2 powi 32"
    by (simp add: power_int_def)
  from f64_round_error [OF this] have "\<bar>s - ?x\<bar> \<le> 1 / 4194304"
    by (simp add: s_def to_secs_def f64_div_def exact power_int_def power_one_over)
  then have p: "\<bar>s * 1000000 - of_int ts\<bar> \<le> 1000000 / 4194304"
    by (simp add: abs_le_iff field_simps)
  have "\<bar>s * 1000000\<bar> < 4503599627370496"
    using p ts by linarith
  then have "\<bar>s * 1000000\<bar> < 2 powi 52"
    by (simp add: power_int_def)
  from f64_round_error [OF this] have "\<bar>f64_mul s 1000000 - s * 1000000\<bar> \<le> 1 / 4"
    by (simp add: f64_mul_def power_int_def power_one_over)
  with p have "\<bar>f64_mul s 1000000 - of_int ts\<bar> < 1 / 2"
    by linarith
  then have "f64_round_away (f64_mul s 1000000) = ts"
    by (rule f64_round_away_near)
  then show ?thesis
    using assms by (simp add: from_secs_def f64_as_i64_def i64_min_def i64_max_def s_def)
qed

text \<open>C39: a timestamp up to the year 2106 in microseconds survives the cache's \<^verbatim>\<open>REAL\<close>
  column of seconds exactly.\<close>

theorem cache_timestamp_exact:
  assumes "\<bar>ts\<bar> < 2 ^ 32 * 1000000"
  shows "from_secs (to_secs ts) = ts"
  using assms by (rule secs_round_trip)

theorem cache_timestamp_exact_witness:
  "from_secs (to_secs 1700000000000009) = 1700000000000009"
  using cache_timestamp_exact [of 1700000000000009] by simp

text \<open>The bound is sharp in its order of magnitude: a timestamp eleven microseconds
  after 2^32 seconds (February 2106) comes back one microsecond later, although the
  comment on \<^verbatim>\<open>to_secs\<close> places the first failure in the 23rd century.\<close>

theorem cache_timestamp_drifts_in_2106:
  "from_secs (to_secs 4294967296000011) = 4294967296000012"
  by code_simp

section \<open>Rows\<close>

record 'v sqlconv =
  put_f64 :: "rat \<Rightarrow> 'v"
  put_bool :: "bool \<Rightarrow> 'v"
  put_u8 :: "u8 \<Rightarrow> 'v"
  put_u32 :: "u32 \<Rightarrow> 'v"
  put_i64 :: "i64 \<Rightarrow> 'v"
  put_blob :: "u8 list \<Rightarrow> 'v"
  put_str :: "string \<Rightarrow> 'v"
  put_null :: 'v
  get_f64 :: "'v \<Rightarrow> (string, rat) result"
  get_bool :: "'v \<Rightarrow> (string, bool) result"
  get_u8 :: "'v \<Rightarrow> (string, u8) result"
  get_u32 :: "'v \<Rightarrow> (string, u32) result"
  get_blob :: "'v \<Rightarrow> (string, u8 list) result"
  get_opt_bool :: "'v \<Rightarrow> (string, bool option) result"
  get_opt_u8 :: "'v \<Rightarrow> (string, u8 option) result"
  get_str_ref :: "'v \<Rightarrow> string option"

record 'v row =
  q_ts :: 'v
  q_extended :: 'v
  q_is_fd :: 'v
  q_arb_id :: 'v
  q_dlc :: 'v
  q_data :: 'v
  q_bus :: 'v
  q_dir :: 'v
  q_protocol :: 'v
  q_crc_valid :: 'v
  q_flags :: 'v

definition put_opt_bool :: "'v sqlconv \<Rightarrow> bool option \<Rightarrow> 'v" where
  "put_opt_bool V b = (case b of None \<Rightarrow> put_null V | Some x \<Rightarrow> put_bool V x)"

definition encode_row :: "'v sqlconv \<Rightarrow> ('f, 'k) wslib \<Rightarrow> Sample \<Rightarrow> 'v row" where
  "encode_row V L s =
     (case s of
        Can c \<Rightarrow>
          (let frame = can_frame L c in
           \<lparr> q_ts = put_f64 V (to_secs (c_ts_us c)),
             q_extended = put_bool V (c_extended c),
             q_is_fd = put_bool V (c_is_fd c),
             q_arb_id = put_u32 V (c_arb_id c),
             q_dlc = put_u8 V (cf_dlc L frame),
             q_data = put_blob V (c_data c),
             q_bus = put_u8 V (bus_no (c_bus c)),
             q_dir = put_str V (Direction_as_str (c_dir c)),
             q_protocol = put_str V (proto_as_str L (sample_protocol s)),
             q_crc_valid = put_opt_bool V None,
             q_flags = put_u8 V (can_flags_of L frame False) \<rparr>)
      | Modbus m \<Rightarrow>
          \<lparr> q_ts = put_f64 V (to_secs (m_ts_us m)),
            q_extended = put_bool V False,
            q_is_fd = put_bool V False,
            q_arb_id = put_u32 V (modbus_id L (m_unit m) (m_func m)),
            q_dlc = put_i64 V (int (length (m_raw m))),
            q_data = put_blob V (m_raw m),
            q_bus = put_u8 V (bus_no (m_bus m)),
            q_dir = put_str V (Direction_as_str Rx),
            q_protocol = put_str V (proto_as_str L (sample_protocol s)),
            q_crc_valid = put_opt_bool V (Some (m_crc_valid m)),
            q_flags = put_null V \<rparr>
      | Serial r \<Rightarrow>
          \<lparr> q_ts = put_f64 V (to_secs (r_ts_us r)),
            q_extended = put_bool V False,
            q_is_fd = put_bool V False,
            q_arb_id = put_u32 V (r_seq r),
            q_dlc = put_i64 V (int (length (r_data r))),
            q_data = put_blob V (r_data r),
            q_bus = put_u8 V (bus_no (r_bus r)),
            q_dir = put_str V (Direction_as_str Rx),
            q_protocol = put_str V (proto_as_str L (sample_protocol s)),
            q_crc_valid = put_opt_bool V None,
            q_flags = put_null V \<rparr>)"

text \<open>The \<^verbatim>\<open>?\<close> operator on a plain result.\<close>

definition try_r :: "('e, 'a) result \<Rightarrow> ('a \<Rightarrow> ('e, 'b) result) \<Rightarrow> ('e, 'b) result" where
  "try_r m f = (case m of Inl e \<Rightarrow> Err e | Inr a \<Rightarrow> f a)"

lemma try_r_simps [simp]: "try_r (Inr a) f = f a" "try_r (Inl e) f = Inl e"
  by (simp_all add: try_r_def)

definition decode_can :: "'v sqlconv \<Rightarrow> ('f, 'k) wslib \<Rightarrow> i64 \<Rightarrow> SourceId \<Rightarrow> 'v row
    \<Rightarrow> (string, Sample) result" where
  "decode_can V L ts_us bus r =
     try_r (get_opt_u8 V (q_flags r)) (\<lambda>fl.
       let flags = (case fl of None \<Rightarrow> 0 | Some x \<Rightarrow> x) in
       try_r (get_bool V (q_extended r)) (\<lambda>extended.
       try_r (get_bool V (q_is_fd r)) (\<lambda>is_fd.
       try_r (if flags_contain L flags (flag_RTR L)
              then map_sum id Some (get_u8 V (q_dlc r)) else Ok None) (\<lambda>rtr.
       try_r (get_u32 V (q_arb_id r)) (\<lambda>arb_id.
       try_r (get_blob V (q_data r)) (\<lambda>data.
       Ok (Can \<lparr> c_ts_us = ts_us, c_arb_id = arb_id, c_extended = extended, c_is_fd = is_fd,
                 c_rtr = rtr,
                 c_brs = flags_contain L flags (flag_BRS L),
                 c_esi = flags_contain L flags (flag_ESI L),
                 c_data = data, c_bus = bus,
                 c_dir = (case get_str_ref V (q_dir r) of
                            None \<Rightarrow> Rx
                          | Some t \<Rightarrow> (case Direction_from_str t of None \<Rightarrow> Rx | Some d \<Rightarrow> d)) \<rparr>)))))))"

definition decode_row :: "'v sqlconv \<Rightarrow> ('f, 'k) wslib \<Rightarrow> 'v row \<Rightarrow> (string, Sample) result" where
  "decode_row V L r =
     try_r (get_f64 V (q_ts r)) (\<lambda>secs.
     try_r (get_u8 V (q_bus r)) (\<lambda>b.
       let ts_us = from_secs secs; bus = SourceId b in
       case Option.bind (get_str_ref V (q_protocol r)) (proto_parse L) of
         Some P_ModbusRtu \<Rightarrow>
           try_r (get_u32 V (q_arb_id r)) (\<lambda>i.
           try_r (get_opt_bool V (q_crc_valid r)) (\<lambda>crc.
           try_r (get_blob V (q_data r)) (\<lambda>raw.
             let (unit, func) = modbus_unit_func L i in
             Ok (Modbus \<lparr> m_ts_us = ts_us, m_bus = bus, m_unit = unit, m_func = func,
                          m_crc_valid = (case crc of None \<Rightarrow> False | Some c \<Rightarrow> c),
                          m_raw = raw \<rparr>))))
       | Some P_Serial \<Rightarrow>
           try_r (get_u32 V (q_arb_id r)) (\<lambda>seq.
           try_r (get_blob V (q_data r)) (\<lambda>data.
             Ok (Serial \<lparr> r_ts_us = ts_us, r_bus = bus, r_seq = seq, r_data = data \<rparr>)))
       | None \<Rightarrow> Err ''no sample for protocol''
       | Some P_Can \<Rightarrow> decode_can V L ts_us bus r))"

definition conv_laws :: "'v sqlconv \<Rightarrow> bool" where
  "conv_laws V \<longleftrightarrow>
     (\<forall>x. get_f64 V (put_f64 V x) = Ok x) \<and> (\<forall>x. get_bool V (put_bool V x) = Ok x) \<and>
     (\<forall>x. get_u8 V (put_u8 V x) = Ok x) \<and> (\<forall>x. get_u32 V (put_u32 V x) = Ok x) \<and>
     (\<forall>x. get_blob V (put_blob V x) = Ok x) \<and> (\<forall>x. get_str_ref V (put_str V x) = Some x) \<and>
     (\<forall>x. get_opt_bool V (put_bool V x) = Ok (Some x)) \<and> get_opt_bool V (put_null V) = Ok None \<and>
     (\<forall>x. get_opt_u8 V (put_u8 V x) = Ok (Some x)) \<and> get_opt_u8 V (put_null V) = Ok None"

text \<open>What the cache keeps exactly: a well-formed sample captured before 2106.\<close>

definition cacheable :: "Sample \<Rightarrow> bool" where
  "cacheable s \<longleftrightarrow> sample_ok s \<and> \<bar>sample_ts_us s\<bar> < 2 ^ 32 * 1000000"

lemma decode_can_encode:
  assumes "conv_laws V" "can_laws L" "store_laws L" "cacheable (Can c)"
  shows "decode_can V L (c_ts_us c) (c_bus c) (encode_row V L (Can c)) = Ok (Can c)"
proof -
  have ok: "can_ok c"
    using assms(4) by (simp add: cacheable_def sample_ok_def)
  note f = can_frame_fields [OF assms(2) ok]
  show ?thesis
    using assms(1,3) f
    by (cases "c_rtr c")
      (simp_all add: decode_can_def encode_row_def conv_laws_def store_laws_def Let_def
        Direction_round_trip)
qed

lemma decode_row_encode:
  assumes "conv_laws V" "can_laws L" "store_laws L" "cacheable s"
  shows "decode_row V L (encode_row V L s) = Ok s"
proof (cases s)
  case (Can c)
  have r: "get_f64 V (q_ts (encode_row V L (Can c))) = Ok (to_secs (c_ts_us c))"
    "get_u8 V (q_bus (encode_row V L (Can c))) = Ok (bus_no (c_bus c))"
    "Option.bind (get_str_ref V (q_protocol (encode_row V L (Can c)))) (proto_parse L) = Some P_Can"
    using assms(1,3) by (simp_all add: encode_row_def conv_laws_def store_laws_def Let_def)
  have "from_secs (to_secs (c_ts_us c)) = c_ts_us c"
    using assms(4) Can by (simp add: cacheable_def secs_round_trip)
  then show ?thesis
    using decode_can_encode [OF assms(1-3)] assms(4) by (simp add: Can decode_row_def r)
next
  case (Modbus m)
  then show ?thesis
    using assms by (simp add: decode_row_def encode_row_def conv_laws_def store_laws_def
        put_opt_bool_def cacheable_def secs_round_trip)
next
  case (Serial r)
  then show ?thesis
    using assms by (simp add: decode_row_def encode_row_def conv_laws_def store_laws_def
        put_opt_bool_def cacheable_def secs_round_trip)
qed

text \<open>A concrete SQL value type for the witnesses.\<close>

datatype sqlval = SNull | SInteger int | SReal rat | SText string | SBlob "u8 list"

definition ref_conv :: "sqlval sqlconv" where
  "ref_conv =
     \<lparr> put_f64 = SReal, put_bool = (\<lambda>b. SInteger (if b then 1 else 0)),
       put_u8 = (\<lambda>x. SInteger (uint x)), put_u32 = (\<lambda>x. SInteger (uint x)), put_i64 = SInteger,
       put_blob = SBlob, put_str = SText, put_null = SNull,
       get_f64 = (\<lambda>v. case v of SReal x \<Rightarrow> Ok x | _ \<Rightarrow> Err ''type''),
       get_bool = (\<lambda>v. case v of SInteger n \<Rightarrow> Ok (n \<noteq> 0) | _ \<Rightarrow> Err ''type''),
       get_u8 = (\<lambda>v. case v of SInteger n \<Rightarrow> if 0 \<le> n \<and> n < 256 then Ok (word_of_int n) else Err ''range''
                            | _ \<Rightarrow> Err ''type''),
       get_u32 = (\<lambda>v. case v of SInteger n \<Rightarrow> if 0 \<le> n \<and> n < 4294967296 then Ok (word_of_int n) else Err ''range''
                            | _ \<Rightarrow> Err ''type''),
       get_blob = (\<lambda>v. case v of SBlob b \<Rightarrow> Ok b | _ \<Rightarrow> Err ''type''),
       get_opt_bool = (\<lambda>v. case v of SNull \<Rightarrow> Ok None | SInteger n \<Rightarrow> Ok (Some (n \<noteq> 0)) | _ \<Rightarrow> Err ''type''),
       get_opt_u8 = (\<lambda>v. case v of SNull \<Rightarrow> Ok None
                            | SInteger n \<Rightarrow> if 0 \<le> n \<and> n < 256 then Ok (Some (word_of_int n)) else Err ''range''
                            | _ \<Rightarrow> Err ''type''),
       get_str_ref = (\<lambda>v. case v of SText t \<Rightarrow> Some t | _ \<Rightarrow> None) \<rparr>"

lemma uint_bounds_8: "uint (x :: u8) < 256"
  using unsigned_less [of x] by simp

lemma uint_bounds_32: "uint (x :: u32) < 4294967296"
  using unsigned_less [of x] by simp

lemma ref_conv_laws: "conv_laws ref_conv"
  by (simp add: conv_laws_def ref_conv_def uint_bounds_8 uint_bounds_32)

text \<open>C37: a sample of any kind written to the cache's table reads back as the same
  sample: every field, the remote frame's length code and the transmit direction
  included.\<close>

theorem cache_row_round_trip:
  assumes "conv_laws V" "can_laws L" "store_laws L" "cacheable s"
  shows "decode_row V L (encode_row V L s) = Ok s"
  using assms by (rule decode_row_encode)

lemma ex_can_cacheable: "cacheable ex_can"
  using ex_samples_ok by (simp add: cacheable_def) (simp add: ex_can_def)

theorem cache_row_round_trip_witness:
  "decode_row ref_conv ref_lib (encode_row ref_conv ref_lib ex_can) = Ok ex_can"
  by (rule cache_row_round_trip [OF ref_conv_laws ref_lib_can_laws ref_lib_store_laws ex_can_cacheable])

end
