(* ===== verification/Sqlite_Cache.thy ===== *)
theory Sqlite_Cache
  imports Frame_Cache Cache_Codec
begin

text \<open>
  \<^verbatim>\<open>SqliteCache\<close> of \<^verbatim>\<open>crates/wiretap-server/src/cache.rs\<close>: opening, adopting an
  older install's cache, and the methods of the \<^verbatim>\<open>FrameCache\<close> trait.

  SQLite and the file system are a parameter, the record \<open>engine\<close>, whose fields
  are the calls the source makes, each acting on an abstract world \<^typ>\<open>'w\<close> (the
  disk and the connections on it) and reporting what it returned.  Nothing is
  assumed about which calls fail.  The locale \<open>sqlite_engine\<close> states the
  documented behaviour the code relies on.
\<close>

section \<open>The parameter\<close>

type_synonym path = string

datatype Conn = ConnFile path | ConnMemory

datatype stmt = StInsert | StSelect | StDelete nat | StTableInfo

datatype rm_result = RmOk | RmNotFound | RmErr string

type_synonym ('a, 'w) io = "(string, 'a) result \<times> 'w"

record ('v, 'w) engine =
  e_open :: "path \<Rightarrow> 'w \<Rightarrow> (unit, 'w) io"
  e_open_memory :: "'w \<Rightarrow> (unit, 'w) io"
  e_drop :: "Conn \<Rightarrow> 'w \<Rightarrow> 'w"
  e_is_readonly :: "Conn \<Rightarrow> 'w \<Rightarrow> (bool, 'w) io"
  e_pragma :: "Conn \<Rightarrow> string \<Rightarrow> string \<Rightarrow> 'w \<Rightarrow> (unit, 'w) io"
  e_create_table :: "Conn \<Rightarrow> 'w \<Rightarrow> (unit, 'w) io"
  e_has_column :: "Conn \<Rightarrow> string \<Rightarrow> 'w \<Rightarrow> (bool, 'w) io"
  e_add_columns :: "Conn \<Rightarrow> string list \<Rightarrow> 'w \<Rightarrow> (unit, 'w) io"
  e_prepare :: "Conn \<Rightarrow> stmt \<Rightarrow> 'w \<Rightarrow> (unit, 'w) io"
  e_begin :: "Conn \<Rightarrow> 'w \<Rightarrow> (unit, 'w) io"
  e_insert :: "Conn \<Rightarrow> 'v row \<Rightarrow> 'w \<Rightarrow> (unit, 'w) io"
  e_commit :: "Conn \<Rightarrow> 'w \<Rightarrow> (unit, 'w) io"
  e_rollback :: "Conn \<Rightarrow> 'w \<Rightarrow> 'w"
  e_select :: "Conn \<Rightarrow> i64 \<Rightarrow> 'w \<Rightarrow> ((i64 \<times> 'v row) list, 'w) io"
  e_delete :: "Conn \<Rightarrow> i64 list \<Rightarrow> 'w \<Rightarrow> (usize, 'w) io"
  e_count :: "Conn \<Rightarrow> 'w \<Rightarrow> (i64, 'w) io"
  e_exists :: "path \<Rightarrow> 'w \<Rightarrow> bool"
  e_create_dir_all :: "path \<Rightarrow> 'w \<Rightarrow> (unit, 'w) io"
  e_remove_file :: "path \<Rightarrow> 'w \<Rightarrow> rm_result \<times> 'w"
  e_rename :: "path \<Rightarrow> path \<Rightarrow> 'w \<Rightarrow> (unit, 'w) io"
  e_file_len :: "path \<Rightarrow> 'w \<Rightarrow> u64 option"

text \<open>\<^verbatim>\<open>?\<close> on a call that acts on the world.\<close>

definition try_io :: "('a, 'w) io \<Rightarrow> ('a \<Rightarrow> 'w \<Rightarrow> ('b, 'w) io) \<Rightarrow> ('b, 'w) io" where
  "try_io m f = (case m of (Inl e, w) \<Rightarrow> (Err e, w) | (Inr a, w) \<Rightarrow> f a w)"

lemma try_io_simps [simp]:
  "try_io (Inr a, w) f = f a w" "try_io (Inl e, w) f = (Inl e, w)"
  by (simp_all add: try_io_def)

lemma try_ioE:
  assumes "try_io m f = (r, w')"
  obtains e where "m = (Inl e, w')" "r = Inl e"
  | a w1 where "m = (Inr a, w1)" "f a w1 = (r, w')"
  using assms by (cases m; cases "fst m") auto

section \<open>The code\<close>

definition ADOPT_BATCH :: usize where
  "ADOPT_BATCH = 1000"

record SqliteCache =
  conn :: Conn
  sc_path :: path
  max_bytes :: u64
  rows :: u64

definition SIDECARS :: "string list" where
  "SIDECARS = [''-wal'', ''-shm'']"

definition sidecar :: "path \<Rightarrow> string \<Rightarrow> path" where
  "sidecar path sfx = path @ sfx"

definition cache_files :: "path \<Rightarrow> path list" where
  "cache_files path = path # map (sidecar path) SIDECARS"

definition count_rows :: "('v, 'w) engine \<Rightarrow> Conn \<Rightarrow> 'w \<Rightarrow> (u64, 'w) io" where
  "count_rows E cn w = try_io (e_count E cn w) (\<lambda>n w. (Ok (word_of_int (max n 0)), w))"

fun unlink_files :: "('v, 'w) engine \<Rightarrow> path list \<Rightarrow> 'w \<Rightarrow> (unit, 'w) io" where
  "unlink_files E [] w = (Ok (), w)"
| "unlink_files E (f # fs) w =
     (case e_remove_file E f w of
        (RmErr e, w) \<Rightarrow> (Err (''cannot remove '' @ f @ '': '' @ e), w)
      | (_, w) \<Rightarrow> unlink_files E fs w)"

definition unlink :: "('v, 'w) engine \<Rightarrow> path \<Rightarrow> 'w \<Rightarrow> (unit, 'w) io" where
  "unlink E path w = unlink_files E (cache_files path) w"

text \<open>The columns added since the Python's schema, each group with its test column.\<close>

definition widenings :: "(string \<times> string list) list" where
  "widenings = [(''protocol'', [''protocol'', ''crc_valid'']), (''flags'', [''flags''])]"

fun widen :: "('v, 'w) engine \<Rightarrow> Conn \<Rightarrow> (string \<times> string list) list \<Rightarrow> 'w \<Rightarrow> (unit, 'w) io" where
  "widen E cn [] w = (Ok (), w)"
| "widen E cn ((column, added) # cols) w =
     try_io (e_prepare E cn StTableInfo w) (\<lambda>_ w.
     try_io (e_has_column E cn column w) (\<lambda>widened w.
       if widened then widen E cn cols w
       else try_io (e_add_columns E cn added w) (\<lambda>_ w. widen E cn cols w)))"

definition open_steps :: "('v, 'w) engine \<Rightarrow> Conn \<Rightarrow> 'w \<Rightarrow> (unit, 'w) io" where
  "open_steps E cn w =
     try_io (e_is_readonly E cn w) (\<lambda>ro w.
       if ro then (Err ''opened read-only'', w)
       else
         try_io (e_pragma E cn ''journal_mode'' ''WAL'' w) (\<lambda>_ w.
         try_io (e_pragma E cn ''synchronous'' ''NORMAL'' w) (\<lambda>_ w.
         try_io (e_create_table E cn w) (\<lambda>_ w.
         widen E cn widenings w))))"

text \<open>A connection that an early return drops is closed.\<close>

definition open_conn :: "('v, 'w) engine \<Rightarrow> path \<Rightarrow> 'w \<Rightarrow> (Conn, 'w) io" where
  "open_conn E path w =
     try_io (e_open E path w) (\<lambda>_ w.
       case open_steps E (ConnFile path) w of
         (Inl e, w) \<Rightarrow> (Err e, e_drop E (ConnFile path) w)
       | (Inr _, w) \<Rightarrow> (Ok (ConnFile path), w))"

text \<open>\<^verbatim>\<open>Path::parent\<close>, for a path without \<^verbatim>\<open>.\<close> components: what precedes the last
  separator.\<close>

definition path_parent :: "path \<Rightarrow> path option" where
  "path_parent p =
     (let body = rev (dropWhile (\<lambda>c. c = CHR ''/'') (rev p)) in
      if body = [] then None
      else let dir = rev (dropWhile (\<lambda>c. c \<noteq> CHR ''/'') (rev body)) in
           if dir = [] then Some []
           else let d = rev (dropWhile (\<lambda>c. c = CHR ''/'') (rev dir)) in
                Some (if d = [] then ''/'' else d))"

definition create_parent :: "('v, 'w) engine \<Rightarrow> path \<Rightarrow> 'w \<Rightarrow> (unit, 'w) io" where
  "create_parent E path w =
     (case path_parent path of
        None \<Rightarrow> (Ok (), w)
      | Some parent \<Rightarrow>
          (if parent = [] then (Ok (), w)
           else case e_create_dir_all E parent w of
                  (Inl e, w) \<Rightarrow> (Err (''cannot create '' @ parent @ '': '' @ e), w)
                | (Inr _, w) \<Rightarrow> (Ok (), w)))"

definition sq_open :: "('v, 'w) engine \<Rightarrow> path \<Rightarrow> u64 \<Rightarrow> 'w \<Rightarrow> (SqliteCache, 'w) io" where
  "sq_open E path max_mb w =
     try_io (create_parent E path w) (\<lambda>_ w.
     try_io (open_conn E path w) (\<lambda>cn w.
       case count_rows E cn w of
         (Inl e, w) \<Rightarrow> (Err e, e_drop E cn w)
       | (Inr n, w) \<Rightarrow>
           (Ok \<lparr> conn = cn, sc_path = path,
                 max_bytes = saturating_mul max_mb (1024 * 1024), rows = n \<rparr>, w)))"

text \<open>The trait's methods act on the cache and the world together.\<close>

type_synonym 'w sq = "SqliteCache \<times> 'w"

fun insert_all :: "('v, 'w) engine \<Rightarrow> Conn \<Rightarrow> 'v row list \<Rightarrow> 'w \<Rightarrow> (unit, 'w) io" where
  "insert_all E cn [] w = (Ok (), w)"
| "insert_all E cn (r # rs) w = try_io (e_insert E cn r w) (\<lambda>_ w. insert_all E cn rs w)"

text \<open>A transaction dropped before its commit succeeded is rolled back.\<close>

definition sq_append :: "('v, 'w) engine \<Rightarrow> 'v sqlconv \<Rightarrow> ('f, 'k) wslib \<Rightarrow> 'w sq \<Rightarrow> Sample list
    \<Rightarrow> (string, usize) result \<times> 'w sq" where
  "sq_append E V L cw frames =
     (let (c, w) = cw; cn = conn c in
      if frames = [] then (Ok 0, c, w)
      else case e_begin E cn w of
        (Inl e, w) \<Rightarrow> (Err e, c, w)
      | (Inr _, w) \<Rightarrow>
          (case try_io (e_prepare E cn StInsert w)
                  (\<lambda>_ w. insert_all E cn (map (encode_row V L) frames) w) of
             (Inl e, w) \<Rightarrow> (Err e, c, e_rollback E cn w)
           | (Inr _, w) \<Rightarrow>
               (case e_commit E cn w of
                  (Inl e, w) \<Rightarrow> (Err e, c, e_rollback E cn w)
                | (Inr _, w) \<Rightarrow>
                    (Ok (length frames), c\<lparr> rows := rows c + of_nat (length frames) \<rparr>, w))))"

fun read_rows :: "'v sqlconv \<Rightarrow> ('f, 'k) wslib \<Rightarrow> (i64 \<times> 'v row) list \<Rightarrow> (string, Cached list) result"
  where
  "read_rows V L [] = Ok []"
| "read_rows V L ((i, r) # rs) =
     try_r (decode_row V L r) (\<lambda>s.
     try_r (read_rows V L rs) (\<lambda>out.
       Ok (\<lparr> cached_id = i, cached_sample = s \<rparr> # out)))"

definition sq_oldest :: "('v, 'w) engine \<Rightarrow> 'v sqlconv \<Rightarrow> ('f, 'k) wslib \<Rightarrow> 'w sq \<Rightarrow> usize
    \<Rightarrow> (string, Cached list) result \<times> 'w sq" where
  "sq_oldest E V L cw limit =
     (let (c, w) = cw in
      case try_io (e_prepare E (conn c) StSelect w)
             (\<lambda>_ w. e_select E (conn c) (int limit) w) of
        (Inl e, w) \<Rightarrow> (Err e, c, w)
      | (Inr rs, w) \<Rightarrow> (read_rows V L rs, c, w))"

definition sq_remove :: "('v, 'w) engine \<Rightarrow> 'w sq \<Rightarrow> Cached list \<Rightarrow> (string, unit) result \<times> 'w sq" where
  "sq_remove E cw frames =
     (let (c, w) = cw in
      if frames = [] then (Ok (), c, w)
      else case try_io (e_prepare E (conn c) (StDelete (length frames)) w)
                  (\<lambda>_ w. e_delete E (conn c) (map cached_id frames) w) of
             (Inl e, w) \<Rightarrow> (Err e, c, w)
           | (Inr removed, w) \<Rightarrow>
               (Ok (), c\<lparr> rows := saturating_sub (rows c) (of_nat removed) \<rparr>, w))"

definition sq_count :: "'w sq \<Rightarrow> (string, u64) result \<times> 'w sq" where
  "sq_count cw = (Ok (rows (fst cw)), cw)"

definition sq_size_bytes :: "('v, 'w) engine \<Rightarrow> 'w sq \<Rightarrow> u64" where
  "sq_size_bytes E cw =
     sum_list (map (\<lambda>f. case e_file_len E f (snd cw) of None \<Rightarrow> 0 | Some n \<Rightarrow> n)
                   (cache_files (sc_path (fst cw))))"

definition sq_is_full :: "('v, 'w) engine \<Rightarrow> 'w sq \<Rightarrow> bool" where
  "sq_is_full E cw \<longleftrightarrow> max_bytes (fst cw) \<le> sq_size_bytes E cw"

definition sq_reset :: "('v, 'w) engine \<Rightarrow> 'w sq \<Rightarrow> (string, unit) result \<times> 'w sq" where
  "sq_reset E cw =
     (let (c, w) = cw in
      case e_open_memory E w of
        (Inl e, w) \<Rightarrow> (Err e, c, w)
      | (Inr _, w) \<Rightarrow>
          (let w = e_drop E (conn c) w; c = c\<lparr> conn := ConnMemory \<rparr> in
           case unlink E (sc_path c) w of
             (Inl e, w) \<Rightarrow> (Err e, c, w)
           | (Inr _, w) \<Rightarrow>
               (case open_conn E (sc_path c) w of
                  (Inl e, w) \<Rightarrow> (Err e, c, w)
                | (Inr cn, w) \<Rightarrow> (Ok (), c\<lparr> conn := cn, rows := 0 \<rparr>, w))))"

definition sq_delete :: "('v, 'w) engine \<Rightarrow> SqliteCache \<Rightarrow> 'w \<Rightarrow> (unit, 'w) io" where
  "sq_delete E c w = unlink E (sc_path c) (e_drop E (conn c) w)"

text \<open>Sidecars go, whether or not they can be removed.\<close>

fun remove_quietly :: "('v, 'w) engine \<Rightarrow> path list \<Rightarrow> 'w \<Rightarrow> 'w" where
  "remove_quietly E [] w = w"
| "remove_quietly E (f # fs) w = remove_quietly E fs (snd (e_remove_file E f w))"

definition take_over :: "('v, 'w) engine \<Rightarrow> SqliteCache \<Rightarrow> SqliteCache \<Rightarrow> 'w
    \<Rightarrow> (string, bool) result \<times> 'w sq" where
  "take_over E c other w =
     (let source = sc_path other; n = rows other; w = e_drop E (conn other) w in
      case e_open_memory E w of
        (Inl e, w) \<Rightarrow> (Err e, c, w)
      | (Inr _, w) \<Rightarrow>
          (let w = e_drop E (conn c) w; c = c\<lparr> conn := ConnMemory \<rparr>;
               w = remove_quietly E (map (sidecar (sc_path c)) SIDECARS) w in
           case e_rename E source (sc_path c) w of
             (renamed, w) \<Rightarrow>
               (case open_conn E (sc_path c) w of
                  (Inl e, w) \<Rightarrow> (Err e, c, w)
                | (Inr cn, w) \<Rightarrow>
                    (Ok (\<not> isl renamed),
                     c\<lparr> conn := cn, rows := (if \<not> isl renamed then n else 0) \<rparr>, w))))"

text \<open>The copying loop.  \<^verbatim>\<open>None\<close> is a loop that does not end.\<close>

partial_function (option) adopt_copy :: "('v, 'w) engine \<Rightarrow> 'v sqlconv \<Rightarrow> ('f, 'k) wslib
    \<Rightarrow> SqliteCache \<Rightarrow> SqliteCache \<Rightarrow> 'w
    \<Rightarrow> ((string, unit) result \<times> SqliteCache \<times> SqliteCache \<times> 'w) option" where
  "adopt_copy E V L c old w =
     (case sq_oldest E V L (old, w) ADOPT_BATCH of
        (Inl e, old, w) \<Rightarrow> Some (Err e, c, old, w)
      | (Inr batch, old, w) \<Rightarrow>
          (if batch = [] then Some (Ok (), c, old, w)
           else case sq_append E V L (c, w) (map cached_sample batch) of
                  (Inl e, c, w) \<Rightarrow> Some (Err e, c, old, w)
                | (Inr _, c, w) \<Rightarrow>
                    (case sq_remove E (old, w) batch of
                       (Inl e, old, w) \<Rightarrow> Some (Err e, c, old, w)
                     | (Inr _, old, w) \<Rightarrow> adopt_copy E V L c old w)))"

definition adopt_rest :: "('v, 'w) engine \<Rightarrow> 'v sqlconv \<Rightarrow> ('f, 'k) wslib
    \<Rightarrow> SqliteCache \<Rightarrow> SqliteCache \<Rightarrow> u64 \<Rightarrow> 'w \<Rightarrow> ((string, u64) result \<times> 'w sq) option" where
  "adopt_rest E V L c old moved w =
     (case adopt_copy E V L c old w of
        None \<Rightarrow> None
      | Some (Inl e, c, old, w) \<Rightarrow> Some (Err e, c, e_drop E (conn old) w)
      | Some (Inr _, c, old, w) \<Rightarrow>
          (case sq_delete E old w of
             (Inl e, w) \<Rightarrow> Some (Err e, c, w)
           | (Inr _, w) \<Rightarrow> Some (Ok moved, c, w)))"

definition adopt :: "('v, 'w) engine \<Rightarrow> 'v sqlconv \<Rightarrow> ('f, 'k) wslib \<Rightarrow> 'w sq \<Rightarrow> path
    \<Rightarrow> ((string, u64) result \<times> 'w sq) option" where
  "adopt E V L cw legacy =
     (let (c, w) = cw in
      if \<not> e_exists E legacy w \<or> legacy = sc_path c then Some (Ok 0, c, w)
      else case sq_open E legacy (- 1) w of
        (Inl e, w) \<Rightarrow> Some (Err e, c, w)
      | (Inr old, w) \<Rightarrow>
          (let moved = rows old in
           if moved = 0 then
             (case sq_delete E old w of
                (Inl e, w) \<Rightarrow> Some (Err e, c, w)
              | (Inr _, w) \<Rightarrow> Some (Ok 0, c, w))
           else if rows c = 0 then
             (case take_over E c old w of
                (Inl e, c, w) \<Rightarrow> Some (Err e, c, w)
              | (Inr True, c, w) \<Rightarrow> Some (Ok moved, c, w)
              | (Inr False, c, w) \<Rightarrow>
                  (case sq_open E legacy (- 1) w of
                     (Inl e, w) \<Rightarrow> Some (Err e, c, w)
                   | (Inr old, w) \<Rightarrow> adopt_rest E V L c old moved w))
           else adopt_rest E V L c old moved w))"

section \<open>What the code relies on\<close>

text \<open>
  \<open>tables w p\<close> is the \<^verbatim>\<open>frames\<close> table of the database file \<open>p\<close> (\<^term>\<open>None\<close>: no such
  table), \<open>pending w p\<close> the rows of its open transaction, and \<open>clean w p\<close> says that no
  connection holds the file, so that its write-ahead log is checkpointed into it.
\<close>

definition fresh_id :: "i64 \<Rightarrow> (i64 \<times> 'v row) list \<Rightarrow> bool" where
  "fresh_id i t \<longleftrightarrow> 0 < i \<and> i < 2 ^ 63 \<and> (\<forall>j \<in> fst ` set t. j < i)"

locale sqlite_engine =
  fixes E :: "('v, 'w) engine"
    and tables :: "'w \<Rightarrow> path \<Rightarrow> (i64 \<times> 'v row) list option"
    and pending :: "'w \<Rightarrow> path \<Rightarrow> (i64 \<times> 'v row) list"
    and clean :: "'w \<Rightarrow> path \<Rightarrow> bool"
  assumes keep_open: "tables (snd (e_open E p w)) = tables w"
    and keep_open_memory: "tables (snd (e_open_memory E w)) = tables w"
    and keep_drop: "tables (e_drop E cn w) = tables w"
    and keep_is_readonly: "tables (snd (e_is_readonly E cn w)) = tables w"
    and keep_pragma: "tables (snd (e_pragma E cn a b w)) = tables w"
    and keep_has_column: "tables (snd (e_has_column E cn a w)) = tables w"
    and keep_add_columns: "tables (snd (e_add_columns E cn l w)) = tables w"
    and keep_prepare: "tables (snd (e_prepare E cn st w)) = tables w"
    and keep_pending: "pending (snd (e_prepare E cn st w)) = pending w"
    and keep_begin: "tables (snd (e_begin E cn w)) = tables w"
    and keep_insert: "tables (snd (e_insert E cn r w)) = tables w"
    and keep_rollback: "tables (e_rollback E cn w) = tables w"
    and keep_select: "tables (snd (e_select E cn n w)) = tables w"
    and keep_count: "tables (snd (e_count E cn w)) = tables w"
    and keep_create_dir: "tables (snd (e_create_dir_all E d w)) = tables w"
    and memory_has_no_table: "st \<noteq> StTableInfo \<Longrightarrow> isl (fst (e_prepare E ConnMemory st w))"
    and begin_ok: "fst (e_begin E (ConnFile p) w) = Inr u \<Longrightarrow> pending (snd (e_begin E (ConnFile p) w)) p = []"
    and insert_ok: "e_insert E (ConnFile p) r w = (Inr u, w') \<Longrightarrow> tables w p = Some t \<Longrightarrow>
      \<exists>i. fresh_id i (t @ pending w p) \<and> pending w' p = pending w p @ [(i, r)]"
    and commit_ok: "e_commit E (ConnFile p) w = (Inr u, w') \<Longrightarrow> tables w p = Some t \<Longrightarrow>
      tables w' = (tables w)(p := Some (t @ pending w p))"
    and commit_err: "e_commit E (ConnFile p) w = (Inl e, w') \<Longrightarrow> tables w' = tables w"
    and select_ok: "e_select E (ConnFile p) n w = (Inr rs, w') \<Longrightarrow> tables w p = Some t \<Longrightarrow> 0 \<le> n \<Longrightarrow>
      rs = take (nat n) (sort_key fst t)"
    and delete_ok: "e_delete E (ConnFile p) ids w = (Inr m, w') \<Longrightarrow> tables w p = Some t \<Longrightarrow>
      tables w' = (tables w)(p := Some (filter (\<lambda>x. fst x \<notin> set ids) t)) \<and>
      m = length (filter (\<lambda>x. fst x \<in> set ids) t)"
    and delete_err: "e_delete E (ConnFile p) ids w = (Inl e, w') \<Longrightarrow> tables w' = tables w"
    and count_ok: "e_count E (ConnFile p) w = (Inr k, w') \<Longrightarrow> tables w p = Some t \<Longrightarrow> k = int (length t)"
    and create_ok: "e_create_table E (ConnFile p) w = (Inr u, w') \<Longrightarrow>
      tables w' = (tables w)(p := Some (case tables w p of None \<Rightarrow> [] | Some t \<Rightarrow> t))"
    and create_err: "e_create_table E (ConnFile p) w = (Inl e, w') \<Longrightarrow> tables w' = tables w"
    and remove_other: "e_remove_file E f w = (x, w') \<Longrightarrow> p \<noteq> f \<Longrightarrow>
      clean w p \<or> f \<notin> set (cache_files p) \<Longrightarrow> tables w' p = tables w p"
    and remove_none: "e_remove_file E f w = (x, w') \<Longrightarrow> tables w p = None \<Longrightarrow> tables w' p = None"
    and remove_gone: "e_remove_file E f w = (x, w') \<Longrightarrow> x \<in> {RmOk, RmNotFound} \<Longrightarrow> tables w' f = None"
    and remove_err: "e_remove_file E f w = (RmErr e, w') \<Longrightarrow> tables w' f = tables w f"
    and rename_ok: "e_rename E a b w = (Inr u, w') \<Longrightarrow> clean w a \<Longrightarrow> clean w b \<Longrightarrow> a \<noteq> b \<Longrightarrow>
      tables w' = (tables w)(b := tables w a, a := None)"
    and rename_err: "e_rename E a b w = (Inl e, w') \<Longrightarrow> tables w' = tables w"
    and clean_drop: "clean (e_drop E (ConnFile p) w) p"
    and clean_keep: "clean w p \<Longrightarrow> clean (e_drop E cn w) p"
      "clean w p \<Longrightarrow> clean (snd (e_open_memory E w)) p"
      "clean w p \<Longrightarrow> clean (snd (e_remove_file E f w)) p"

section \<open>Invariant and abstraction\<close>

definition read_row :: "'v sqlconv \<Rightarrow> ('f, 'k) wslib \<Rightarrow> i64 \<times> 'v row \<Rightarrow> Cached" where
  "read_row V L x = \<lparr> cached_id = fst x, cached_sample = projr (decode_row V L (snd x)) \<rparr>"

definition ids_ok :: "(i64 \<times> 'v row) list \<Rightarrow> bool" where
  "ids_ok t \<longleftrightarrow> sorted_wrt (<) (map fst t) \<and> (\<forall>i \<in> fst ` set t. 0 < i \<and> i < 2 ^ 63)"

definition table_ok :: "'v sqlconv \<Rightarrow> ('f, 'k) wslib \<Rightarrow> (i64 \<times> 'v row) list \<Rightarrow> bool" where
  "table_ok V L t \<longleftrightarrow> ids_ok t \<and> (\<forall>x \<in> set t. \<not> isl (decode_row V L (snd x)))"

definition sq_held :: "('w \<Rightarrow> path \<Rightarrow> (i64 \<times> 'v row) list option) \<Rightarrow> 'v sqlconv \<Rightarrow> ('f, 'k) wslib
    \<Rightarrow> 'w sq \<Rightarrow> Cached list" where
  "sq_held T V L cw =
     (case conn (fst cw) of
        ConnMemory \<Rightarrow> []
      | ConnFile p \<Rightarrow> (case T (snd cw) p of None \<Rightarrow> [] | Some t \<Rightarrow> map (read_row V L) t))"

definition sq_inv :: "('w \<Rightarrow> path \<Rightarrow> (i64 \<times> 'v row) list option) \<Rightarrow> 'v sqlconv \<Rightarrow> ('f, 'k) wslib
    \<Rightarrow> 'w sq \<Rightarrow> bool" where
  "sq_inv T V L cw \<longleftrightarrow>
     (case conn (fst cw) of
        ConnMemory \<Rightarrow> rows (fst cw) = 0
      | ConnFile p \<Rightarrow> p = sc_path (fst cw) \<and>
          (\<exists>t. T (snd cw) p = Some t \<and> table_ok V L t \<and> rows (fst cw) = of_nat (length t)))"

definition opened :: "('w \<Rightarrow> path \<Rightarrow> (i64 \<times> 'v row) list option) \<Rightarrow> path \<Rightarrow> 'w
    \<Rightarrow> path \<Rightarrow> (i64 \<times> 'v row) list option" where
  "opened T p w = (T w)(p := Some (case T w p of None \<Rightarrow> [] | Some t \<Rightarrow> t))"

lemma ids_ok_snoc: "ids_ok t \<Longrightarrow> fresh_id i t \<Longrightarrow> ids_ok (t @ [(i, r)])"
  by (auto simp: ids_ok_def fresh_id_def sorted_wrt_append)

lemma ids_ok_filter: "ids_ok t \<Longrightarrow> ids_ok (filter P t)"
  by (induction t) (auto simp: ids_ok_def)

lemma ids_ok_distinct: "ids_ok t \<Longrightarrow> distinct (map fst t)"
  by (metis ids_ok_def strict_sorted_iff)

lemma ids_ok_sort: "ids_ok t \<Longrightarrow> sort_key fst t = t"
  by (simp add: ids_ok_def sort_key_id_if_sorted strict_sorted_imp_sorted)

lemma ids_ok_length: "ids_ok t \<Longrightarrow> length t < 2 ^ 64"
proof -
  assume ok: "ids_ok t"
  have "length (map fst t) \<le> card {1..<2 ^ 63 :: int}"
    using ids_ok_distinct [OF ok] ok by (intro distinct_length_le_card) (auto simp: ids_ok_def)
  then show ?thesis
    by simp
qed

lemma read_rows_ok:
  "\<forall>x \<in> set t. \<not> isl (decode_row V L (snd x)) \<Longrightarrow> read_rows V L t = Inr (map (read_row V L) t)"
proof (induction t)
  case (Cons x t)
  then obtain s where "decode_row V L (snd x) = Inr s"
    by (cases "decode_row V L (snd x)") auto
  with Cons show ?case
    by (cases x) (simp add: read_row_def)
qed simp

lemma read_row_id [simp]: "cached_id (read_row V L x) = fst x"
  by (simp add: read_row_def)

locale sqlite_store = sqlite_engine E tables pending clean
  for E :: "('v, 'w) engine"
    and tables :: "'w \<Rightarrow> path \<Rightarrow> (i64 \<times> 'v row) list option"
    and pending :: "'w \<Rightarrow> path \<Rightarrow> (i64 \<times> 'v row) list"
    and clean :: "'w \<Rightarrow> path \<Rightarrow> bool" +
  fixes V :: "'v sqlconv" and L :: "('f, 'k) wslib"
  assumes conv: "conv_laws V" and can: "can_laws L" and store: "store_laws L"
begin

lemmas keep = keep_open keep_open_memory keep_drop keep_is_readonly keep_pragma keep_has_column
  keep_add_columns keep_prepare keep_begin keep_insert keep_rollback keep_select keep_count
  keep_create_dir

lemma insert_all_keep: "tables (snd (insert_all E cn rs w)) = tables w"
proof (induction rs arbitrary: w)
  case (Cons r rs)
  then show ?case
    using keep_insert [of cn r w] by (auto simp: try_io_def split: prod.splits sum.splits)
qed simp

lemma insert_all_ok:
  assumes "insert_all E (ConnFile p) rs w = (Inr u, w')" "tables w p = Some t"
    and "ids_ok (t @ pending w p)"
  shows "\<exists>new. pending w' p = pending w p @ new \<and> map snd new = rs \<and> ids_ok (t @ pending w' p)"
  using assms
proof (induction rs arbitrary: w)
  case (Cons r rs)
  obtain w1 where w1: "e_insert E (ConnFile p) r w = (Inr (), w1)"
      "insert_all E (ConnFile p) rs w1 = (Inr u, w')"
    using Cons.prems(1) by (auto simp: try_io_def split: prod.splits sum.splits)
  obtain i where i: "fresh_id i (t @ pending w p)" "pending w1 p = pending w p @ [(i, r)]"
    using insert_ok [OF w1(1) Cons.prems(2)] by blast
  have "tables w1 p = Some t"
    using keep_insert [of "ConnFile p" r w] w1(1) Cons.prems(2) by simp
  moreover have "ids_ok (t @ pending w1 p)"
    using ids_ok_snoc [OF Cons.prems(3) i(1)] i(2) by simp
  ultimately obtain new where "pending w' p = pending w1 p @ new" "map snd new = rs"
      "ids_ok (t @ pending w' p)"
    using Cons.IH [OF w1(2)] by blast
  then show ?case
    using i(2) by (intro exI [of _ "(i, r) # new"]) simp
qed auto

text \<open>The transaction of \<^verbatim>\<open>append\<close> adds the encoded rows under fresh ids, or nothing.\<close>

lemma append_transaction:
  assumes "conn c = ConnFile p" "tables w p = Some t" "ids_ok t"
    and "sq_append E V L (c, w) fs = (r, c', w')"
  shows "case r of
      Inl _ \<Rightarrow> c' = c \<and> tables w' = tables w
    | Inr n \<Rightarrow> n = length fs \<and> c' = c\<lparr> rows := rows c + of_nat (length fs) \<rparr> \<and>
        (\<exists>new. map snd new = map (encode_row V L) fs \<and> ids_ok (t @ new) \<and>
               tables w' = (tables w)(p := Some (t @ new)))"
proof (cases "fs = []")
  case True
  then have "r = Inr 0" "c' = c" "w' = w"
    using assms(4) by (auto simp: sq_append_def)
  with assms(2,3) True show ?thesis
    by (auto intro!: exI [of _ "[]"])
next
  case False
  obtain b w1 where b: "e_begin E (ConnFile p) w = (b, w1)"
    by (cases "e_begin E (ConnFile p) w")
  have t1: "tables w1 = tables w"
    using keep_begin [of "ConnFile p" w] b by simp
  show ?thesis
  proof (cases b)
    case (Inl e)
    with b False assms(1,4) t1 show ?thesis
      by (auto simp: sq_append_def)
  next
    case (Inr u)
    obtain w2 q where q: "e_prepare E (ConnFile p) StInsert w1 = (q, w2)"
      by (cases "e_prepare E (ConnFile p) StInsert w1")
    have t2: "tables w2 = tables w" and p2: "pending w2 p = []"
      using keep_prepare [of "ConnFile p" StInsert w1] keep_pending [of "ConnFile p" StInsert w1]
        begin_ok [of p w] q b Inr t1 by simp_all
    let ?rs = "map (encode_row V L) fs"
    obtain x w3 where x: "insert_all E (ConnFile p) ?rs w2 = (x, w3)"
      by (cases "insert_all E (ConnFile p) ?rs w2")
    have t3: "tables w3 = tables w"
      using insert_all_keep [of "ConnFile p" ?rs w2] x t2 by simp
    obtain y w4 where y: "e_commit E (ConnFile p) w3 = (y, w4)"
      by (cases "e_commit E (ConnFile p) w3")
    show ?thesis
    proof (cases "\<exists>u1 u2 u3. q = Inr u1 \<and> x = Inr u2 \<and> y = Inr u3")
      case True
      then obtain u2 u3 where xy: "x = Inr u2" "y = Inr u3" "\<exists>u1. q = Inr u1"
        by blast
      obtain new where new: "pending w3 p = new" "map snd new = ?rs" "ids_ok (t @ new)"
        using insert_all_ok [of p ?rs w2 u2 w3 t] x xy t2 p2 assms(2,3) by auto
      have "tables w4 = (tables w)(p := Some (t @ new))"
        using commit_ok [of p w3 u3 w4 t] y xy t3 assms(2) new(1) by simp
      moreover have "r = Inr (length fs)" "w' = w4" "c' = c\<lparr> rows := rows c + of_nat (length fs) \<rparr>"
        using assms(1,4) b Inr q x y xy False by (auto simp: sq_append_def)
      ultimately show ?thesis
        using new by auto
    next
      case nok: False
      have "tables w4 = tables w" if "y = Inl e" for e
        using commit_err [of p w3 e w4] y that t3 by simp
      then show ?thesis
        using nok assms(1,4) b Inr q x y False t2 t3
        by (cases q; cases x; cases y) (auto simp: sq_append_def Let_def keep_rollback)
    qed
  qed
qed

lemma memory_prepare:
  assumes "st \<noteq> StTableInfo"
  obtains e w' where "e_prepare E ConnMemory st w = (Inl e, w')" "tables w' = tables w"
  using memory_has_no_table [OF assms, of w] keep_prepare [of ConnMemory st w]
  by (cases "e_prepare E ConnMemory st w"; cases "fst (e_prepare E ConnMemory st w)") auto

lemma append_memory:
  assumes "conn c = ConnMemory" "fs \<noteq> []" "sq_append E V L (c, w) fs = (r, c', w')"
  shows "isl r \<and> c' = c"
proof (cases "e_begin E ConnMemory w")
  case (Pair b w1)
  obtain e w2 where "e_prepare E ConnMemory StInsert w1 = (Inl e, w2)"
    by (rule memory_prepare [of StInsert w1]) auto
  then show ?thesis
    using assms Pair by (cases b) (auto simp: sq_append_def Let_def)
qed

lemma oldest_memory:
  assumes "conn c = ConnMemory" "sq_oldest E V L (c, w) n = (r, c', w')"
  shows "isl r \<and> c' = c \<and> tables w' = tables w"
proof -
  obtain e w2 where "e_prepare E ConnMemory StSelect w = (Inl e, w2)" "tables w2 = tables w"
    by (rule memory_prepare [of StSelect w]) auto
  with assms show ?thesis
    by (auto simp: sq_oldest_def)
qed

lemma remove_memory:
  assumes "conn c = ConnMemory" "sq_remove E (c, w) xs = (r, c', w')"
  shows "c' = c \<and> tables w' = tables w \<and> (xs \<noteq> [] \<longrightarrow> isl r)"
proof -
  obtain e w2 where "e_prepare E ConnMemory (StDelete (length xs)) w = (Inl e, w2)"
      "tables w2 = tables w"
    by (rule memory_prepare [of "StDelete (length xs)" w]) auto
  with assms show ?thesis
    by (auto simp: sq_remove_def split: if_splits)
qed

lemma keepD:
  "e_open E p w = (r0, w') \<Longrightarrow> tables w' = tables w"
  "e_open_memory E w = (r0, w') \<Longrightarrow> tables w' = tables w"
  "e_is_readonly E cn w = (r1, w') \<Longrightarrow> tables w' = tables w"
  "e_pragma E cn a b w = (r0, w') \<Longrightarrow> tables w' = tables w"
  "e_has_column E cn a w = (r1, w') \<Longrightarrow> tables w' = tables w"
  "e_add_columns E cn l w = (r0, w') \<Longrightarrow> tables w' = tables w"
  "e_prepare E cn st w = (r0, w') \<Longrightarrow> tables w' = tables w"
  "e_select E cn n w = (r2, w') \<Longrightarrow> tables w' = tables w"
  "e_count E cn w = (r3, w') \<Longrightarrow> tables w' = tables w"
  "e_create_dir_all E d w = (r0, w') \<Longrightarrow> tables w' = tables w"
  using keep by (metis snd_conv)+

lemma widen_keep: "widen E cn cols w = (r, w') \<Longrightarrow> tables w' = tables w"
proof (induction cols arbitrary: w)
  case (Cons x cols)
  obtain column added where x: "x = (column, added)"
    by (cases x)
  from Cons.prems show ?case
    unfolding x widen.simps
    by (elim try_ioE; simp split: if_splits) (auto dest!: keepD Cons.IH elim!: try_ioE)
qed simp

text \<open>Opening creates the table where there is none and otherwise leaves the file's rows;
  it never touches another file.\<close>

lemma create_tables:
  assumes "e_create_table E (ConnFile p) w = (r, w')"
  shows "case r of Inl _ \<Rightarrow> tables w' = tables w | Inr _ \<Rightarrow> tables w' = opened tables p w"
  using assms create_ok create_err by (cases r) (auto simp: opened_def)

lemma open_steps_tables:
  assumes "open_steps E (ConnFile p) w = (r, w')"
  shows "case r of Inl _ \<Rightarrow> tables w' \<in> {tables w, opened tables p w}
                 | Inr _ \<Rightarrow> tables w' = opened tables p w"
  using assms unfolding open_steps_def
  apply (elim try_ioE; simp split: if_splits)
  apply (auto dest!: keepD create_tables widen_keep elim!: try_ioE simp: opened_def split: sum.splits)
  done

lemma open_conn_tables:
  assumes "open_conn E p w = (r, w')"
  shows "case r of Inl _ \<Rightarrow> tables w' \<in> {tables w, opened tables p w}
                 | Inr cn \<Rightarrow> cn = ConnFile p \<and> tables w' = opened tables p w"
  using assms unfolding open_conn_def
proof (elim try_ioE)
  fix a w1
  assume w1: "e_open E p w = (Inr a, w1)"
    and r: "(case open_steps E (ConnFile p) w1 of
           (Inl e, w) \<Rightarrow> (Err e, e_drop E (ConnFile p) w)
         | (Inr _, w) \<Rightarrow> (Ok (ConnFile p), w)) = (r, w')"
  obtain x w2 where x: "open_steps E (ConnFile p) w1 = (x, w2)"
    by (cases "open_steps E (ConnFile p) w1")
  show ?thesis
    using open_steps_tables [OF x] r x keepD(1) [OF w1]
    by (cases x) (auto simp: keep_drop opened_def)
qed (auto dest: keepD)

lemma unlink_files_none:
  "unlink_files E fs w = (r, w') \<Longrightarrow> tables w p = None \<Longrightarrow> tables w' p = None"
  by (induction fs arbitrary: w)
    (auto dest: remove_none split: prod.splits rm_result.splits)

lemma unlink_gone:
  assumes "unlink E p w = (Inr u, w')"
  shows "tables w' p = None"
  using assms unfolding unlink_def cache_files_def
  by (auto dest: unlink_files_none [where p = p] remove_gone split: prod.splits rm_result.splits)

lemma unlink_other:
  assumes "unlink E p w = (r, w')" "set (cache_files p) \<inter> set (cache_files q) = {}"
  shows "tables w' q = tables w q"
proof -
  have "tables w' q = tables w q"
    if "unlink_files E fs w = (r, w')" "set fs \<inter> set (cache_files q) = {}" for fs
    using that
  proof (induction fs arbitrary: w)
    case (Cons f fs)
    obtain x w1 where x: "e_remove_file E f w = (x, w1)"
      by (cases "e_remove_file E f w")
    have "tables w1 q = tables w q"
      using Cons.prems(2) remove_other [OF x, of q] by (auto simp: cache_files_def)
    with Cons x show ?case
      by (cases x) auto
  qed simp
  with assms show ?thesis
    by (simp add: unlink_def)
qed

text \<open>The trait's laws hold of the SQLite store.\<close>

abbreviation "sqheld \<equiv> sq_held tables V L"
abbreviation "sqinv \<equiv> sq_inv tables V L"

lemma sq_same:
  assumes "tables w' = tables w"
  shows "sqinv (c, w') = sqinv (c, w)" "sqheld (c, w') = sqheld (c, w)"
  using assms by (simp_all add: sq_inv_def sq_held_def split: Conn.split)

lemma sqinv_file:
  assumes "sqinv (c, w)" "conn c = ConnFile p"
  obtains t where "sc_path c = p" "tables w p = Some t" "table_ok V L t"
    "rows c = of_nat (length t)" "sqheld (c, w) = map (read_row V L) t"
  using assms by (auto simp: sq_inv_def sq_held_def)

lemma encode_decodes: "cacheable s \<Longrightarrow> decode_row V L (encode_row V L s) = Inr s"
  by (rule decode_row_encode [OF conv can store])

lemma new_rows:
  assumes "map snd new = map (encode_row V L) fs" "\<forall>s \<in> set fs. cacheable s"
  shows "map (cached_sample \<circ> read_row V L) new = fs"
    "\<forall>x \<in> set new. \<not> isl (decode_row V L (snd x))"
proof -
  have "map (decode_row V L \<circ> snd) new = map Inr fs"
    using assms(2) by (simp add: encode_decodes assms(1) flip: map_map) (simp add: encode_decodes)
  then show "map (cached_sample \<circ> read_row V L) new = fs"
    "\<forall>x \<in> set new. \<not> isl (decode_row V L (snd x))"
    by (induction new arbitrary: fs) (auto simp: read_row_def)
qed

lemma sq_append_ok:
  assumes "sqinv (c, w)" "\<forall>s \<in> set fs. cacheable s" "sq_append E V L (c, w) fs = (Inr n, c', w')"
  shows "sqinv (c', w') \<and> n = length fs \<and>
    (\<exists>new. sqheld (c', w') = sqheld (c, w) @ new \<and> map cached_sample new = fs)"
proof (cases "conn c")
  case ConnMemory
  then have "fs = []"
    using append_memory [OF _ _ assms(3)] by auto
  with assms show ?thesis
    by (auto simp: sq_append_def)
next
  case (ConnFile p)
  with assms(1) obtain t where t: "sc_path c = p" "tables w p = Some t" "table_ok V L t"
    "rows c = of_nat (length t)" "sqheld (c, w) = map (read_row V L) t"
    by (rule sqinv_file)
  have ids: "ids_ok t"
    using t(3) by (simp add: table_ok_def)
  obtain new where new: "map snd new = map (encode_row V L) fs" "ids_ok (t @ new)"
      "tables w' = (tables w)(p := Some (t @ new))" "n = length fs"
      "c' = c\<lparr> rows := rows c + of_nat (length fs) \<rparr>"
    using append_transaction [OF ConnFile t(2) ids assms(3)] by auto
  have "length new = length fs"
    using new(1) by (metis length_map)
  then show ?thesis
    using new t new_rows [OF new(1) assms(2)] ConnFile
    by (auto simp: sq_inv_def sq_held_def table_ok_def)
qed

lemma sq_append_err:
  assumes "sqinv (c, w)" "sq_append E V L (c, w) fs = (Inl e, c', w')"
  shows "sqinv (c', w') \<and> sqheld (c', w') = sqheld (c, w)"
proof (cases "conn c")
  case ConnMemory
  then have "c' = c"
    using append_memory [OF ConnMemory _ assms(2)] assms(2) by (cases "fs = []") (auto simp: sq_append_def)
  with assms(1) ConnMemory show ?thesis
    by (simp add: sq_inv_def sq_held_def)
next
  case (ConnFile p)
  with assms(1) obtain t where t: "tables w p = Some t" "table_ok V L t"
    by (auto elim: sqinv_file)
  then have "c' = c" "tables w' = tables w"
    using append_transaction [OF ConnFile t(1) _ assms(2)] by (auto simp: table_ok_def)
  with assms(1) show ?thesis
    using sq_same [of w' w] by simp
qed

lemma sq_oldest_held:
  assumes "sqinv (c, w)" "sq_oldest E V L (c, w) n = (r, c', w')"
  shows "sqinv (c', w') \<and> sqheld (c', w') = sqheld (c, w)"
proof -
  have "c' = c" "tables w' = tables w"
    using assms(2) by (auto simp: sq_oldest_def try_io_def dest!: keepD split: prod.splits sum.splits)
  with assms(1) show ?thesis
    using sq_same [of w' w] by simp
qed

lemma sq_oldest_ok:
  assumes "sqinv (c, w)" "sq_oldest E V L (c, w) n = (Inr xs, c', w')"
  shows "xs = take n (sqheld (c, w))"
proof (cases "conn c")
  case ConnMemory
  with assms(2) show ?thesis
    using oldest_memory by fastforce
next
  case (ConnFile p)
  with assms(1) obtain t where t: "tables w p = Some t" "table_ok V L t"
      "sqheld (c, w) = map (read_row V L) t"
    by (rule sqinv_file)
  obtain w1 w2 rs where rs: "e_prepare E (ConnFile p) StSelect w = (Inr (), w1)"
      "e_select E (ConnFile p) (int n) w1 = (Inr rs, w2)" "read_rows V L rs = Inr xs"
    using assms(2) ConnFile
    by (auto simp: sq_oldest_def try_io_def split: prod.splits sum.splits)
  have "rs = take n (sort_key fst t)"
    using select_ok [OF rs(2)] keepD(7) [OF rs(1)] t(1) by simp
  then have "rs = take n t"
    using t(2) by (simp add: table_ok_def ids_ok_sort)
  moreover from this have "read_rows V L rs = Inr (map (read_row V L) rs)"
    using t(2) by (intro read_rows_ok) (auto simp: table_ok_def dest: in_set_takeD)
  ultimately show ?thesis
    using rs(3) t(3) by (simp add: take_map)
qed

lemma sq_remove_cases:
  assumes "sqinv (c, w)" "sq_remove E (c, w) xs = (r, c', w')"
  shows "sqinv (c', w') \<and> sqheld (c', w') =
    (case r of Inl _ \<Rightarrow> sqheld (c, w)
     | Inr _ \<Rightarrow> filter (\<lambda>x. cached_id x \<notin> cached_id ` set xs) (sqheld (c, w)))"
proof (cases "conn c")
  case ConnMemory
  with assms show ?thesis
    using remove_memory [OF ConnMemory assms(2)] sq_same [of w' w]
    by (cases r) (auto simp: sq_held_def)
next
  case (ConnFile p)
  with assms(1) obtain t where t: "sc_path c = p" "tables w p = Some t" "table_ok V L t"
    "rows c = of_nat (length t)" "sqheld (c, w) = map (read_row V L) t"
    by (rule sqinv_file)
  show ?thesis
  proof (cases "xs = []")
    case True
    with assms show ?thesis
      by (auto simp: sq_remove_def)
  next
    case False
    obtain q w1 where q: "e_prepare E (ConnFile p) (StDelete (length xs)) w = (q, w1)"
      by (cases "e_prepare E (ConnFile p) (StDelete (length xs)) w")
    obtain d w2 where d: "e_delete E (ConnFile p) (map cached_id xs) w1 = (d, w2)"
      by (cases "e_delete E (ConnFile p) (map cached_id xs) w1")
    show ?thesis
    proof (cases "\<exists>u m. q = Inr u \<and> d = Inr m")
      case True
      then obtain m where m: "q = Inr ()" "d = Inr m"
        by auto
      let ?t = "filter (\<lambda>x. fst x \<notin> cached_id ` set xs) t"
      have w2: "tables w2 = (tables w)(p := Some ?t)"
          "m = length (filter (\<lambda>x. fst x \<in> cached_id ` set xs) t)"
        using delete_ok [of p "map cached_id xs" w1 m w2 t] d m keepD(7) [OF q] t(2) by auto
      have len: "m + length ?t = length t"
        using sum_length_filter_compl [of "\<lambda>x. fst x \<in> cached_id ` set xs" t] w2(2) by simp
      then have "m \<le> length t" "length ?t = length t - m" "length t < 2 ^ LENGTH(64)"
        using ids_ok_length [of t] t(3) by (simp_all add: table_ok_def)
      then have "saturating_sub (rows c) (of_nat m) = of_nat (length ?t)"
        unfolding t(4) by (simp only: saturating_sub_of_nat)
      moreover have "table_ok V L ?t"
        using t(3) by (auto simp: table_ok_def ids_ok_filter)
      moreover have "r = Inr ()" "c' = c\<lparr> rows := saturating_sub (rows c) (of_nat m) \<rparr>" "w' = w2"
        using assms(2) ConnFile q d m False by (auto simp: sq_remove_def)
      ultimately show ?thesis
        using ConnFile t w2(1) by (simp add: sq_inv_def sq_held_def filter_map comp_def)
    next
      case nok: False
      then have "r \<noteq> Inr ()" "c' = c" "tables w' = tables w"
        using assms(2) ConnFile q d False delete_err [of p _ w1 _ w2] keepD(7) [OF q]
        by (cases q; cases d; auto simp: sq_remove_def)+
      with assms(1) show ?thesis
        using sq_same [of w' w] by (cases r) auto
    qed
  qed
qed

lemma sq_reset_empty:
  assumes "sqinv (c, w)" "sqheld (c, w) = []" "sq_reset E (c, w) = (r, c', w')"
  shows "sqinv (c', w') \<and> sqheld (c', w') = []"
proof -
  have zero: "rows c = 0"
    using assms(1,2) by (auto simp: sq_inv_def sq_held_def split: Conn.splits option.splits)
  obtain m w1 where m: "e_open_memory E w = (m, w1)"
    by (cases "e_open_memory E w")
  let ?w = "e_drop E (conn c) w1" and ?p = "sc_path c"
  obtain u w2 where u: "unlink E ?p ?w = (u, w2)"
    by (cases "unlink E ?p ?w")
  obtain cn w3 where cn: "open_conn E ?p w2 = (cn, w3)"
    by (cases "open_conn E ?p w2")
  show ?thesis
  proof (cases m)
    case (Inl e)
    then have "c' = c" "tables w' = tables w"
      using assms(3) m keepD(2) [OF m] by (auto simp: sq_reset_def)
    with assms(1,2) show ?thesis
      using sq_same [of w' w] by simp
  next
    case (Inr x)
    show ?thesis
    proof (cases "isl u \<or> isl cn")
      case True
      then have "c' = c\<lparr> conn := ConnMemory \<rparr>"
        using assms(3) m u cn Inr by (cases u; cases cn) (auto simp: sq_reset_def Let_def)
      with zero show ?thesis
        by (simp add: sq_inv_def sq_held_def)
    next
      case False
      then obtain y z where yz: "u = Inr y" "cn = Inr z"
        by (cases u; cases cn) auto
      have "tables w2 ?p = None"
        using unlink_gone u yz by simp
      then have "z = ConnFile ?p" "tables w3 ?p = Some []"
        using open_conn_tables [OF cn] yz by (simp_all add: opened_def)
      moreover have "c' = c\<lparr> conn := z, rows := 0 \<rparr>" "w' = w3"
        using assms(3) m u cn Inr yz by (auto simp: sq_reset_def Let_def)
      ultimately show ?thesis
        by (simp add: sq_inv_def sq_held_def table_ok_def ids_ok_def)
    qed
  qed
qed

end

sublocale sqlite_store \<subseteq> fc: frame_cache "sq_append E V L" "sq_oldest E V L" "sq_remove E"
  sq_count "sq_reset E" "sq_held tables V L" "sq_inv tables V L" cacheable
proof (unfold_locales, goal_cases)
  case (1 c)
  then show ?case
    by (auto simp: sq_inv_def sq_held_def table_ok_def comp_def dest: ids_ok_distinct split: Conn.splits)
next
  case (2 c fs n c')
  then show ?case
    using sq_append_ok [of "fst c" "snd c" fs n "fst c'" "snd c'"] by simp
next
  case (3 c fs e c')
  then show ?case
    using sq_append_err [of "fst c" "snd c" fs e "fst c'" "snd c'"] by simp
next
  case (4 c n xs c')
  then show ?case
    using sq_oldest_held [of "fst c" "snd c" n _ "fst c'" "snd c'"]
      sq_oldest_ok [of "fst c" "snd c" n xs "fst c'" "snd c'"] by auto
next
  case (5 c n e c')
  then show ?case
    using sq_oldest_held [of "fst c" "snd c" n _ "fst c'" "snd c'"] by auto
next
  case (6 c xs u c')
  then show ?case
    using sq_remove_cases [of "fst c" "snd c" xs _ "fst c'" "snd c'"] by auto
next
  case (7 c xs e c')
  then show ?case
    using sq_remove_cases [of "fst c" "snd c" xs _ "fst c'" "snd c'"] by auto
next
  case (8 c m c')
  then show ?case
    by (auto simp: sq_count_def sq_inv_def sq_held_def table_ok_def
        dest!: ids_ok_length intro!: unat_of_nat_small split: Conn.splits)
next
  case (9 c e c')
  then show ?case
    by (simp add: sq_count_def)
next
  case (10 c r c')
  then show ?case
    using sq_reset_empty [of "fst c" "snd c" r "fst c'" "snd c'"] by simp
qed

section \<open>An engine in memory\<close>

text \<open>A database per path and a script of faults: each call consumes one entry and fails
  when it is set.  It shows that the laws can hold together with failures at any call,
  and it is where the examples run.\<close>

record ref_world =
  disk :: "path \<Rightarrow> (i64 \<times> sqlval row) list option"
  txn :: "path \<Rightarrow> (i64 \<times> sqlval row) list"
  present :: "path \<Rightarrow> bool"
  faults :: "bool list"

definition guarded :: "(ref_world \<Rightarrow> ('a, ref_world) io) \<Rightarrow> ref_world \<Rightarrow> ('a, ref_world) io" where
  "guarded f w =
     (case faults w of
        [] \<Rightarrow> f w
      | b # bs \<Rightarrow> (if b then (Err ''disk I/O error'', w\<lparr> faults := bs \<rparr>) else f (w\<lparr> faults := bs \<rparr>)))"

definition on_table :: "Conn \<Rightarrow> (path \<Rightarrow> (i64 \<times> sqlval row) list \<Rightarrow> ref_world \<Rightarrow> ('a, ref_world) io)
    \<Rightarrow> ref_world \<Rightarrow> ('a, ref_world) io" where
  "on_table cn f w =
     (case cn of
        ConnMemory \<Rightarrow> (Err ''no such table: frames'', w)
      | ConnFile p \<Rightarrow> (case disk w p of
                        None \<Rightarrow> (Err ''no such table: frames'', w)
                      | Some t \<Rightarrow> f p t w))"

definition next_id :: "(i64 \<times> sqlval row) list \<Rightarrow> i64" where
  "next_id t = fold max (map fst t) 0 + 1"

definition ref_insert :: "path \<Rightarrow> (i64 \<times> sqlval row) list \<Rightarrow> sqlval row \<Rightarrow> ref_world
    \<Rightarrow> (unit, ref_world) io" where
  "ref_insert p t r w =
     (let i = next_id (t @ txn w p) in
      if i < 2 ^ 63 then (Ok (), w\<lparr> txn := (txn w)(p := txn w p @ [(i, r)]) \<rparr>)
      else (Err ''database or disk is full'', w))"

definition ref_engine :: "(sqlval, ref_world) engine" where
  "ref_engine =
     \<lparr> e_open = (\<lambda>p. guarded (\<lambda>w. (Ok (), w\<lparr> present := (present w)(p := True) \<rparr>))),
       e_open_memory = guarded (\<lambda>w. (Ok (), w)),
       e_drop = (\<lambda>cn w. w),
       e_is_readonly = (\<lambda>cn. guarded (\<lambda>w. (Ok False, w))),
       e_pragma = (\<lambda>cn a b. guarded (\<lambda>w. (Ok (), w))),
       e_create_table = (\<lambda>cn. guarded (\<lambda>w. case cn of
            ConnMemory \<Rightarrow> (Ok (), w)
          | ConnFile p \<Rightarrow> (Ok (), w\<lparr> disk := (disk w)(p := Some (case disk w p of None \<Rightarrow> [] | Some t \<Rightarrow> t)) \<rparr>))),
       e_has_column = (\<lambda>cn c. guarded (\<lambda>w. (Ok True, w))),
       e_add_columns = (\<lambda>cn c. guarded (\<lambda>w. (Ok (), w))),
       e_prepare = (\<lambda>cn st. guarded (\<lambda>w. if cn = ConnMemory \<and> st \<noteq> StTableInfo
            then (Err ''no such table: frames'', w) else (Ok (), w))),
       e_begin = (\<lambda>cn. guarded (\<lambda>w. case cn of
            ConnMemory \<Rightarrow> (Ok (), w)
          | ConnFile p \<Rightarrow> (Ok (), w\<lparr> txn := (txn w)(p := []) \<rparr>))),
       e_insert = (\<lambda>cn r. guarded (on_table cn (\<lambda>p t. ref_insert p t r))),
       e_commit = (\<lambda>cn. guarded (on_table cn (\<lambda>p t w.
            (Ok (), w\<lparr> disk := (disk w)(p := Some (t @ txn w p)), txn := (txn w)(p := []) \<rparr>)))),
       e_rollback = (\<lambda>cn w. w),
       e_select = (\<lambda>cn n. guarded (on_table cn (\<lambda>p t w.
            (Ok (if n < 0 then sort_key fst t else take (nat n) (sort_key fst t)), w)))),
       e_delete = (\<lambda>cn ids. guarded (on_table cn (\<lambda>p t w.
            (Ok (length (filter (\<lambda>x. fst x \<in> set ids) t)),
             w\<lparr> disk := (disk w)(p := Some (filter (\<lambda>x. fst x \<notin> set ids) t)) \<rparr>)))),
       e_count = (\<lambda>cn. guarded (on_table cn (\<lambda>p t w. (Ok (int (length t)), w)))),
       e_exists = (\<lambda>p w. present w p),
       e_create_dir_all = (\<lambda>d. guarded (\<lambda>w. (Ok (), w))),
       e_remove_file = (\<lambda>f w. case guarded (\<lambda>w. (Ok (), w\<lparr> disk := (disk w)(f := None),
                                                            present := (present w)(f := False) \<rparr>)) w of
            (Inl e, w) \<Rightarrow> (RmErr e, w) | (Inr _, w') \<Rightarrow> (if present w f then RmOk else RmNotFound, w')),
       e_rename = (\<lambda>a b. guarded (\<lambda>w. (Ok (), w\<lparr> disk := (disk w)(b := disk w a, a := None),
            present := (present w)(b := True, a := False) \<rparr>))),
       e_file_len = (\<lambda>p w. if present w p then Some 4096 else None) \<rparr>"

lemma fold_max_ge: "a \<le> fold max xs a \<and> (\<forall>x \<in> set xs. x \<le> fold max xs a)" for a :: int
proof (induction xs arbitrary: a)
  case (Cons y xs)
  then show ?case
    using Cons [of "max y a"] by fastforce
qed simp

lemma next_id_fresh: "next_id t < 2 ^ 63 \<Longrightarrow> fresh_id (next_id t) t"
  using fold_max_ge [of 0 "map fst t"] by (auto simp: next_id_def fresh_id_def)

interpretation ref: sqlite_store ref_engine disk txn "\<lambda>_ _. True" ref_conv ref_lib
proof (unfold_locales, goal_cases)
  case (18 p r w u w' t)
  then show ?case
    by (auto simp: ref_engine_def guarded_def on_table_def ref_insert_def Let_def
        intro!: next_id_fresh split: list.splits if_splits)
qed (auto simp: ref_engine_def guarded_def on_table_def ref_insert_def Let_def ref_conv_laws
    ref_lib_can_laws ref_lib_store_laws
    split: list.splits Conn.splits option.splits if_splits prod.splits sum.splits)

end
