(* ===== verification/Rust_Text.thy ===== *)
theory Rust_Text
  imports WT_Prelude
begin

text \<open>
  Text as the sources use it: the standard library's formatting and splitting of strings.
  A string is ASCII text, one \<^typ>\<open>char\<close> per byte, so that a length in bytes and one in
  characters are the same number.
\<close>

section \<open>Results\<close>

text \<open>The \<^verbatim>\<open>?\<close> operator.\<close>

definition try_res :: "('e, 'a) result \<Rightarrow> ('a \<Rightarrow> ('e, 'b) result) \<Rightarrow> ('e, 'b) result" where
  "try_res r f = (case r of Inl e \<Rightarrow> Err e | Inr x \<Rightarrow> f x)"

lemma try_res_simps [simp]: "try_res (Inl e) f = Inl e" "try_res (Inr x) f = f x"
  by (simp_all add: try_res_def)

lemma try_res_Inr: "try_res r f = Inr y \<longleftrightarrow> (\<exists>x. r = Inr x \<and> f x = Inr y)"
  by (cases r) auto

lemma map_sum_Inr: "map_sum f id r = Inr y \<longleftrightarrow> r = Inr y"
  by (cases r) auto

section \<open>Numbers\<close>

text \<open>\<^verbatim>\<open>{n}\<close> and \<^verbatim>\<open>{n:x}\<close> of an unsigned number.\<close>

fun dec_digits :: "nat \<Rightarrow> string" where
  "dec_digits n =
     (let d = char_of (48 + n mod 10) in if n < 10 then [d] else dec_digits (n div 10) @ [d])"

declare dec_digits.simps [simp del]

definition hex_digit :: "nat \<Rightarrow> char" where
  "hex_digit n = char_of (if n < 10 then 48 + n else 87 + n)"

fun hex_digits :: "nat \<Rightarrow> string" where
  "hex_digits n = (let d = hex_digit (n mod 16) in if n < 16 then [d] else hex_digits (n div 16) @ [d])"

declare hex_digits.simps [simp del]

text \<open>\<^verbatim>\<open>char::to_digit\<close>, for radices up to 16.\<close>

definition to_digit :: "nat \<Rightarrow> char \<Rightarrow> nat option" where
  "to_digit radix c =
     (let n = (of_char c :: nat);
          d = (if 48 \<le> n \<and> n \<le> 57 then n - 48
               else if 97 \<le> n \<and> n \<le> 102 then n - 87
               else if 65 \<le> n \<and> n \<le> 70 then n - 55 else 16)
      in if d < radix then Some d else None)"

definition dec_value :: "string \<Rightarrow> nat" where
  "dec_value s = fold (\<lambda>c n. 10 * n + (case to_digit 10 c of Some d \<Rightarrow> d | None \<Rightarrow> 0)) s 0"

definition all_digits :: "string \<Rightarrow> bool" where
  "all_digits s \<longleftrightarrow> list_all (\<lambda>c. to_digit 10 c \<noteq> None) s"

text \<open>\<^verbatim>\<open>str::parse::<u8>\<close>: digits, with one plus sign allowed before them.\<close>

definition parse_u8 :: "string \<Rightarrow> u8 option" where
  "parse_u8 s =
     (let ds = (if s \<noteq> [] \<and> hd s = CHR ''+'' then tl s else s) in
      if ds = [] \<or> \<not> all_digits ds \<or> 256 \<le> dec_value ds then None else Some (of_nat (dec_value ds)))"

lemma to_digit_dec: "d < 10 \<Longrightarrow> to_digit 10 (char_of (48 + d)) = Some d"
  by (simp add: to_digit_def)

lemma dec_digits_all: "all_digits (dec_digits n)"
proof (induction n rule: dec_digits.induct)
  case (1 n)
  then show ?case
    by (subst dec_digits.simps) (simp add: Let_def all_digits_def to_digit_dec)
qed

lemma dec_value_snoc: "d < 10 \<Longrightarrow> dec_value (s @ [char_of (48 + d)]) = 10 * dec_value s + d"
  by (simp add: dec_value_def to_digit_dec)

lemma dec_value_digits: "dec_value (dec_digits n) = n"
proof (induction n rule: dec_digits.induct)
  case (1 n)
  have "dec_value [] = 0"
    by (simp add: dec_value_def)
  then show ?case
    using 1 dec_value_snoc [of "n mod 10" "dec_digits (n div 10)"] dec_value_snoc [of n "[]"]
    by (subst dec_digits.simps) (simp add: Let_def)
qed

lemma dec_digits_hd: "dec_digits n \<noteq> []" "hd (dec_digits n) = CHR ''0'' \<longleftrightarrow> n = 0"
proof (atomize (full), induction n rule: dec_digits.induct)
  case (1 n)
  have d: "char_of (48 + m) = CHR ''0'' \<longleftrightarrow> m = 0" if "m < 10" for m :: nat
  proof -
    have of_char_48: "of_char CHR ''0'' = (48 :: nat)"
      by simp
    then have "CHR ''0'' = char_of (48 :: nat)"
      by (metis char_of_char)
    moreover have "of_char (char_of (48 + m) :: char) = 48 + m"
      using that by simp
    ultimately show ?thesis
      by (metis add_0_right add_left_cancel of_char_48)
  qed
  show ?case
  proof (cases "n < 10")
    case True
    then show ?thesis
      using d [of n] by (subst (1 2) dec_digits.simps) (simp add: Let_def)
  next
    case False
    then show ?thesis
      using 1 by (subst (1 2) dec_digits.simps) (simp add: Let_def hd_append)
  qed
qed

lemma dec_digits_not_plus: "hd (dec_digits n) \<noteq> CHR ''+''"
  using dec_digits_all [of n] dec_digits_hd(1) [of n]
  by (cases "dec_digits n") (auto simp: all_digits_def to_digit_def)

lemma parse_dec_digits: "n < 256 \<Longrightarrow> parse_u8 (dec_digits n) = Some (of_nat n)"
  by (simp add: parse_u8_def dec_digits_hd dec_digits_not_plus dec_digits_all dec_value_digits)

section \<open>Strings\<close>

text \<open>\<^verbatim>\<open>{s:?}\<close>: quoted, with what does not print escaped.\<close>

definition debug_char :: "char \<Rightarrow> string" where
  "debug_char c =
     (let n = (of_char c :: nat) in
      if n = 0 then [CHR 0x5C, CHR ''0'']
      else if n = 9 then [CHR 0x5C, CHR ''t'']
      else if n = 10 then [CHR 0x5C, CHR ''n'']
      else if n = 13 then [CHR 0x5C, CHR ''r'']
      else if n = 34 \<or> n = 92 then [CHR 0x5C, c]
      else if n < 32 \<or> n = 127 then [CHR 0x5C, CHR ''u'', CHR 0x7B] @ hex_digits n @ [CHR 0x7D]
      else [c])"

definition debug_str :: "string \<Rightarrow> string" where
  "debug_str s = [CHR 0x22] @ concat (map debug_char s) @ [CHR 0x22]"

text \<open>\<^verbatim>\<open>str::split\<close> at a character: a text without it is one piece.\<close>

fun split_on :: "char \<Rightarrow> string \<Rightarrow> string list" where
  "split_on c [] = [[]]"
| "split_on c (x # xs) =
     (if x = c then [] # split_on c xs
      else case split_on c xs of [] \<Rightarrow> [[x]] | p # ps \<Rightarrow> (x # p) # ps)"

definition is_space :: "char \<Rightarrow> bool" where
  "is_space c = (let n = (of_char c :: nat) in 9 \<le> n \<and> n \<le> 13 \<or> n = 32)"

definition trim :: "string \<Rightarrow> string" where
  "trim s = rev (dropWhile is_space (rev (dropWhile is_space s)))"

definition ascii_upper :: "char \<Rightarrow> char" where
  "ascii_upper c = (let n = (of_char c :: nat) in if 97 \<le> n \<and> n \<le> 122 then char_of (n - 32) else c)"

text \<open>\<^verbatim>\<open>[&str]::join\<close>.\<close>

fun join_with :: "string \<Rightarrow> string list \<Rightarrow> string" where
  "join_with sep [] = []"
| "join_with sep [x] = x"
| "join_with sep (x # y # xs) = x @ sep @ join_with sep (y # xs)"

text \<open>\<^verbatim>\<open>split_once\<close>: at the first occurrence.\<close>

definition split_once :: "char \<Rightarrow> string \<Rightarrow> (string \<times> string) option" where
  "split_once c s =
     (if c \<in> set s then Some (takeWhile (\<lambda>x. x \<noteq> c) s, tl (dropWhile (\<lambda>x. x \<noteq> c) s)) else None)"

lemma split_on_neq_Nil [simp]: "split_on c s \<noteq> []"
  by (induction s) (auto split: list.split)

lemma split_on_free: "p \<in> set (split_on c s) \<Longrightarrow> c \<notin> set p"
  by (induction s arbitrary: p) (auto split: list.splits if_splits)

lemma split_on_whole: "c \<notin> set s \<Longrightarrow> split_on c s = [s]"
  by (induction s) auto

lemma split_on_append: "c \<notin> set s \<Longrightarrow> split_on c (s @ c # t) = s # split_on c t"
  by (induction s) auto

lemma split_join: "(\<And>p. p \<in> set ps \<Longrightarrow> c \<notin> set p) \<Longrightarrow> ps \<noteq> [] \<Longrightarrow> split_on c (join_with [c] ps) = ps"
  by (induction "[c]" ps rule: join_with.induct) (auto simp: split_on_whole split_on_append)

lemma split_once_append: "c \<notin> set s \<Longrightarrow> split_once c (s @ c # t) = Some (s, t)"
  by (simp add: split_once_def at_separator)

end
