(* ===== verification/Catalogues.thy ===== *)
theory Catalogues
  imports Sqlite_Cache Rust_Text
begin

text \<open>
  Which catalogue each framed serial line frames with:
  \<^verbatim>\<open>crates/wiretap-server/src/catalogues.rs\<close>, with \<^verbatim>\<open>LineCatalogue::parse\<close> of
  \<^verbatim>\<open>settings.rs\<close> and \<^verbatim>\<open>blob_sha1\<close> of \<^verbatim>\<open>crates/wiretap-model/src/blob.rs\<close>.

  SHA-1, the Modbus catalogue parser, UTF-8 validation and JSON are library code: the
  fields of \<open>catlib\<close>.  The state directory is a map from paths to contents; writes
  succeed or fail by a script.
\<close>

section \<open>Blobs\<close>

definition bytes_of :: "string \<Rightarrow> u8 list" where
  "bytes_of s = map of_char s"

definition blob_sha1_hex :: "u8 list \<Rightarrow> string" where
  "blob_sha1_hex sha = concat (map (\<lambda>b. [hex_digit (unat b div 16), hex_digit (unat b mod 16)]) sha)"

record 'o catlib =
  sha1 :: "u8 list \<Rightarrow> u8 list"
  rtu_rules :: "u8 list \<Rightarrow> (string, string \<times> 'o) result"
  is_utf8 :: "u8 list \<Rightarrow> bool"
  to_json :: "(string \<rightharpoonup> string) \<Rightarrow> u8 list"
  from_json :: "u8 list \<Rightarrow> (string \<rightharpoonup> string) option"

definition blob_sha1 :: "'o catlib \<Rightarrow> u8 list \<Rightarrow> u8 list" where
  "blob_sha1 A content = sha1 A (bytes_of (''blob '' @ dec_digits (length content)) @ [0] @ content)"

record 'o LineCatalogue =
  lc_path :: path
  lc_name :: string
  lc_sha :: "u8 list"
  lc_rtu :: 'o

definition LineCatalogue_parse :: "'o catlib \<Rightarrow> path \<Rightarrow> u8 list \<Rightarrow> (string, 'o LineCatalogue) result" where
  "LineCatalogue_parse A path text =
     (case rtu_rules A text of
        Inl e \<Rightarrow> Err (''catalog '' @ path @ '': '' @ e)
      | Inr (name, options) \<Rightarrow>
          (if name = [] then Err (''catalog '' @ path @ '': meta.name: Catalogue name must not be empty'')
           else Ok \<lparr> lc_path = path, lc_name = name, lc_sha = blob_sha1 A text, lc_rtu = options \<rparr>))"

section \<open>Lines\<close>

datatype 'o Rules = Gateway string "'o LineCatalogue" | Etc "'o LineCatalogue" | NoRules

definition Rules_catalogue :: "'o Rules \<Rightarrow> 'o LineCatalogue option" where
  "Rules_catalogue r = (case r of Gateway _ c \<Rightarrow> Some c | Etc c \<Rightarrow> Some c | NoRules \<Rightarrow> None)"

definition Rules_source :: "'o Rules \<Rightarrow> string" where
  "Rules_source r =
     (case r of Gateway sha _ \<Rightarrow> ''gateway '' @ take 8 sha | Etc c \<Rightarrow> lc_path c | NoRules \<Rightarrow> ''none'')"

datatype ActiveCatalogue = Assigned_active "u8 list" | Local_active "u8 list" | None_active

definition Rules_active :: "'o Rules \<Rightarrow> ActiveCatalogue" where
  "Rules_active r =
     (case r of Gateway _ c \<Rightarrow> Assigned_active (lc_sha c) | Etc c \<Rightarrow> Local_active (lc_sha c)
      | NoRules \<Rightarrow> None_active)"

datatype Refusal = FetchFailed | HashMismatch | DidNotParse

datatype 'o Update = Assigned string "'o LineCatalogue" | Cleared | Refused "u8 list" Refusal

record 'o Line =
  ln_database :: string
  ln_etc :: "'o LineCatalogue option"
  ln_rules :: "'o Rules"

definition fallback :: "'o LineCatalogue option \<Rightarrow> 'o Rules" where
  "fallback e = (case e of None \<Rightarrow> NoRules | Some c \<Rightarrow> Etc c)"

text \<open>\<open>lines\<close> is the \<^verbatim>\<open>BTreeMap\<close> as its sorted entries; \<open>changes\<close> counts the ticks of the
  watch channel.  \<open>files\<close> and \<open>writes\<close> are the state directory.\<close>

record 'o Catalogues =
  dir :: "path option"
  lines :: "(string \<times> 'o Line) list"
  assigned :: "string \<rightharpoonup> string"
  refused :: "string \<rightharpoonup> (u8 list \<times> Refusal)"
  changes :: nat
  files :: "path \<rightharpoonup> u8 list"
  writes :: "string option list"

definition join :: "path \<Rightarrow> string \<Rightarrow> path" where
  "join d f = d @ ''/'' @ f"

definition ASSIGNMENTS :: string where
  "ASSIGNMENTS = ''assignments.json''"

definition blob_path :: "'o Catalogues \<Rightarrow> string \<Rightarrow> path option" where
  "blob_path k sha = map_option (\<lambda>d. join (join d ''catalogs'') (sha @ ''.toml'')) (dir k)"

definition checked :: "'o catlib \<Rightarrow> string \<Rightarrow> u8 list \<Rightarrow> path \<Rightarrow> (Refusal \<times> string, 'o LineCatalogue) result"
  where
  "checked A sha blob path =
     (let actual = blob_sha1_hex (blob_sha1 A blob) in
      if actual \<noteq> sha then Err (HashMismatch, ''its content hashes to '' @ actual)
      else if \<not> is_utf8 A blob then Err (DidNotParse, ''not UTF-8'')
      else case LineCatalogue_parse A path blob of
             Inl why \<Rightarrow> Err (DidNotParse, why)
           | Inr c \<Rightarrow> Ok c)"

definition cat_cached :: "'o catlib \<Rightarrow> 'o Catalogues \<Rightarrow> string \<Rightarrow> (string, 'o LineCatalogue) result" where
  "cat_cached A k sha =
     (case blob_path k sha of
        None \<Rightarrow> Err ''no state directory''
      | Some path \<Rightarrow>
          (case files k path of
             None \<Rightarrow> Err (path @ '': cannot be read'')
           | Some blob \<Rightarrow> map_sum snd id (checked A sha blob path)))"

definition write_atomically :: "path \<Rightarrow> u8 list \<Rightarrow> 'o Catalogues \<Rightarrow> (string, unit) result \<times> 'o Catalogues" where
  "write_atomically path bytes k =
     (case writes k of
        Some e # rest \<Rightarrow> (Err (path @ '': '' @ e), k\<lparr> writes := rest \<rparr>)
      | None # rest \<Rightarrow> (Ok (), k\<lparr> writes := rest, files := (files k)(path \<mapsto> bytes) \<rparr>)
      | [] \<Rightarrow> (Ok (), k\<lparr> files := (files k)(path \<mapsto> bytes) \<rparr>))"

definition cat_store :: "'o catlib \<Rightarrow> string \<Rightarrow> u8 list \<Rightarrow> 'o Catalogues
    \<Rightarrow> (Refusal \<times> string, 'o LineCatalogue) result \<times> 'o Catalogues" where
  "cat_store A sha blob k =
     (case blob_path k sha of
        None \<Rightarrow> (Err (FetchFailed, ''no state directory''), k)
      | Some path \<Rightarrow>
          (case checked A sha blob path of
             Inl e \<Rightarrow> (Err e, k)
           | Inr c \<Rightarrow>
               (case write_atomically path blob k of
                  (Inl why, k) \<Rightarrow> (Err (FetchFailed, why), k)
                | (Inr _, k) \<Rightarrow> (Ok c, k))))"

definition effective :: "'o Catalogues \<Rightarrow> string \<Rightarrow> 'o Rules option" where
  "effective k interface = map_option ln_rules (map_of (lines k) interface)"

definition owned_by :: "'o Catalogues \<Rightarrow> string \<Rightarrow> string list" where
  "owned_by k database = map fst (filter (\<lambda>(_, l). ln_database l = database) (lines k))"

record Device =
  dv_bus :: u8
  dv_name :: string

record CatalogueStatusEntry =
  se_bus :: u8
  se_active :: ActiveCatalogue
  se_refused :: "(u8 list \<times> Refusal) option"

definition cat_status :: "'o Catalogues \<Rightarrow> Device list \<Rightarrow> CatalogueStatusEntry list" where
  "cat_status k devices =
     map (\<lambda>d. \<lparr> se_bus = dv_bus d,
                se_active = (case effective k (dv_name d) of None \<Rightarrow> None_active | Some r \<Rightarrow> Rules_active r),
                se_refused = refused k (dv_name d) \<rparr>) devices"

definition set_rules :: "string \<Rightarrow> 'o Rules \<Rightarrow> (string \<times> 'o Line) list \<Rightarrow> (string \<times> 'o Line) list" where
  "set_rules i r ls = map (\<lambda>(j, l). (j, if j = i then l\<lparr> ln_rules := r \<rparr> else l)) ls"

text \<open>One update of \<^verbatim>\<open>apply\<close>'s loop; the flag accumulates whether anything changed.\<close>

definition apply_one :: "string \<times> 'o Update \<Rightarrow> bool \<times> 'o Catalogues \<Rightarrow> bool \<times> 'o Catalogues" where
  "apply_one u ck =
     (case (u, ck) of ((interface, update), (changed, k)) \<Rightarrow>
       (case map_of (lines k) interface of
          None \<Rightarrow> (changed, k)
        | Some line \<Rightarrow>
            (case update of
               Refused sha refusal \<Rightarrow>
                 (changed \<or> refused k interface \<noteq> Some (sha, refusal),
                  k\<lparr> refused := (refused k)(interface \<mapsto> (sha, refusal)) \<rparr>)
             | Assigned sha catalogue \<Rightarrow>
                 (changed \<or> refused k interface \<noteq> None \<or> ln_rules line \<noteq> Gateway sha catalogue,
                  k\<lparr> refused := (refused k)(interface := None),
                     assigned := (assigned k)(interface \<mapsto> sha),
                     lines := set_rules interface (Gateway sha catalogue) (lines k) \<rparr>)
             | Cleared \<Rightarrow>
                 (changed \<or> refused k interface \<noteq> None \<or> ln_rules line \<noteq> fallback (ln_etc line),
                  k\<lparr> refused := (refused k)(interface := None),
                     assigned := (assigned k)(interface := None),
                     lines := set_rules interface (fallback (ln_etc line)) (lines k) \<rparr>))))"

definition cat_apply :: "'o catlib \<Rightarrow> (string \<times> 'o Update) list \<Rightarrow> 'o Catalogues \<Rightarrow> 'o Catalogues" where
  "cat_apply A updates k =
     (let before = assigned k;
          (changed, k) = fold apply_one updates (False, k);
          k = (if changed then k\<lparr> changes := changes k + 1 \<rparr> else k)
      in if assigned k = before then k
         else case dir k of
                None \<Rightarrow> k
              | Some d \<Rightarrow> snd (write_atomically (join d ASSIGNMENTS) (to_json A (assigned k)) k))"

section \<open>Starting up\<close>

definition remembered :: "'o catlib \<Rightarrow> (path \<rightharpoonup> u8 list) \<Rightarrow> path \<Rightarrow> string \<rightharpoonup> string" where
  "remembered A fs d =
     (case fs (join d ASSIGNMENTS) of
        None \<Rightarrow> Map.empty
      | Some json \<Rightarrow> (case from_json A json of None \<Rightarrow> Map.empty | Some m \<Rightarrow> m))"

definition remembered_rules :: "'o catlib \<Rightarrow> 'o Catalogues \<Rightarrow> string \<Rightarrow> 'o LineCatalogue option \<Rightarrow> 'o Rules" where
  "remembered_rules A k interface e =
     (case assigned k interface of
        None \<Rightarrow> fallback e
      | Some sha \<Rightarrow>
          (case cat_cached A k sha of Inr c \<Rightarrow> Gateway sha c | Inl _ \<Rightarrow> fallback e))"

definition cat_new :: "'o catlib \<Rightarrow> path option \<Rightarrow> (path \<rightharpoonup> u8 list) \<Rightarrow> string option list
    \<Rightarrow> (string \<times> string \<times> 'o LineCatalogue option) list \<Rightarrow> 'o Catalogues" where
  "cat_new A d fs ws ls =
     (let k = \<lparr> dir = d, lines = [],
                assigned = (case d of None \<Rightarrow> Map.empty | Some p \<Rightarrow> remembered A fs p),
                refused = Map.empty, changes = 0, files = fs, writes = ws \<rparr>
      in k\<lparr> lines := map (\<lambda>(i, db, e). (i, \<lparr> ln_database = db, ln_etc = e,
                                           ln_rules = remembered_rules A k i e \<rparr>)) ls \<rparr>)"

text \<open>The configured lines of a running instance, as a restart is given them.\<close>

definition config_of :: "'o Catalogues \<Rightarrow> (string \<times> string \<times> 'o LineCatalogue option) list" where
  "config_of k = map (\<lambda>(i, l). (i, ln_database l, ln_etc l)) (lines k)"

section \<open>What a restart finds\<close>

text \<open>A line framing with a gateway's catalogue is on record as assigned to it and its blob
  is in the state directory; a line with no assignment uses its fallback.\<close>

definition line_inv :: "'o catlib \<Rightarrow> 'o Catalogues \<Rightarrow> string \<Rightarrow> 'o Line \<Rightarrow> bool" where
  "line_inv A k i l \<longleftrightarrow>
     (\<forall>sha c. ln_rules l = Gateway sha c \<longrightarrow> assigned k i = Some sha \<and> cat_cached A k sha = Ok c) \<and>
     ((\<forall>sha c. ln_rules l \<noteq> Gateway sha c) \<longrightarrow> ln_rules l = fallback (ln_etc l))"

definition cat_inv :: "'o catlib \<Rightarrow> 'o Catalogues \<Rightarrow> bool" where
  "cat_inv A k \<longleftrightarrow>
     distinct (map fst (lines k)) \<and> (\<forall>(i, l) \<in> set (lines k). line_inv A k i l)"

lemma fallback_not_gateway: "fallback e \<noteq> Gateway sha c"
  by (simp add: fallback_def split: option.split)

lemma line_inv_fallback: "ln_rules l = fallback (ln_etc l) \<Longrightarrow> line_inv A k i l"
  by (simp add: line_inv_def fallback_not_gateway)

lemma cat_cached_cong:
  "dir k' = dir k \<Longrightarrow> (\<And>p. blob_path k sha = Some p \<Longrightarrow> files k' p = files k p) \<Longrightarrow>
   cat_cached A k' sha = cat_cached A k sha"
  by (auto simp: cat_cached_def blob_path_def split: option.split)

lemma cat_inv_new:
  assumes "distinct (map fst ls)"
  shows "cat_inv A (cat_new A d fs ws ls)"
proof -
  define k0 :: "'a Catalogues" where "k0 = \<lparr> dir = d, lines = [],
     assigned = (case d of None \<Rightarrow> Map.empty | Some p \<Rightarrow> remembered A fs p),
     refused = Map.empty, changes = 0, files = fs, writes = ws \<rparr>"
  define line where "line = (\<lambda>(i, db, e). (i, \<lparr> ln_database = db, ln_etc = e, ln_rules = remembered_rules A k0 i e \<rparr>))"
  have k: "cat_new A d fs ws ls = k0\<lparr> lines := map line ls \<rparr>"
    by (simp add: cat_new_def k0_def line_def Let_def)
  have "cat_cached A (k0\<lparr> lines := x \<rparr>) sha = cat_cached A k0 sha" for sha x
    by (rule cat_cached_cong) simp_all
  then have "line_inv A (k0\<lparr> lines := x \<rparr>) i \<lparr> ln_database = db, ln_etc = e, ln_rules = remembered_rules A k0 i e \<rparr>"
    for i db e x
    by (auto simp: line_inv_def remembered_rules_def fallback_def split: option.split sum.split)
  moreover have "map fst (map line ls) = map fst ls"
    by (simp add: line_def case_prod_beta)
  then have "distinct (map fst (map line ls))"
    using assms by (simp only:)
  ultimately show ?thesis
    unfolding cat_inv_def k by (auto simp: line_def)
qed

lemma blob_not_assignments: "join (join d ''catalogs'') x \<noteq> join d ASSIGNMENTS"
  by (simp add: join_def ASSIGNMENTS_def)

lemma write_fields [simp]:
  "dir (snd (write_atomically p b k)) = dir k" "lines (snd (write_atomically p b k)) = lines k"
  "assigned (snd (write_atomically p b k)) = assigned k" "refused (snd (write_atomically p b k)) = refused k"
  by (simp_all add: write_atomically_def split: list.split option.split)

lemma write_files:
  "files (snd (write_atomically p b k)) =
     (if isl (fst (write_atomically p b k)) then files k else (files k)(p \<mapsto> b))"
  by (simp add: write_atomically_def split: list.split option.split)

text \<open>Storing a blob writes its own path only.\<close>

lemma cat_store_cases:
  obtains "snd (cat_store A sha blob k) = k"
  | path where "blob_path k sha = Some path" "snd (cat_store A sha blob k) = snd (write_atomically path blob k)"
  by (cases "blob_path k sha"; cases "checked A sha blob (the (blob_path k sha))")
    (auto simp: cat_store_def split: option.split sum.split prod.split)

lemma cat_store_frame:
  "dir (snd (cat_store A sha blob k)) = dir k" "lines (snd (cat_store A sha blob k)) = lines k"
  "assigned (snd (cat_store A sha blob k)) = assigned k"
  "blob_path k sha \<noteq> Some p \<Longrightarrow> files (snd (cat_store A sha blob k)) p = files k p"
  by (cases rule: cat_store_cases [of A sha blob k]; simp add: write_files)+

lemma cat_store_other:
  assumes "isl (cat_cached A k sha)" "cat_cached A k s = Ok c"
  shows "cat_cached A (snd (cat_store A sha blob k)) s = Ok c"
proof -
  have "s \<noteq> sha"
    using assms by auto
  then have "blob_path k sha \<noteq> Some p" if "blob_path k s = Some p" for p
    using that by (auto simp: blob_path_def join_def)
  then have "cat_cached A (snd (cat_store A sha blob k)) s = cat_cached A k s"
    by (intro cat_cached_cong cat_store_frame)
  with assms(2) show ?thesis
    by simp
qed

text \<open>Storing a blob that was not there.\<close>

lemma cat_store_keeps:
  assumes "cat_inv A k" "isl (cat_cached A k sha)"
  shows "cat_inv A (snd (cat_store A sha blob k))"
proof -
  let ?k = "snd (cat_store A sha blob k)"
  have "line_inv A ?k i l" if "line_inv A k i l" for i l
    using that cat_store_other [OF assms(2)] cat_store_frame(3) [of A sha blob k]
    by (auto simp: line_inv_def)
  with assms(1) show ?thesis
    by (auto simp: cat_inv_def cat_store_frame)
qed

text \<open>Applying a session's updates.  An assignment comes with the catalogue its blob in the
  state directory holds.\<close>

definition update_ok :: "'o catlib \<Rightarrow> 'o Catalogues \<Rightarrow> 'o Update \<Rightarrow> bool" where
  "update_ok A k u = (case u of Assigned sha c \<Rightarrow> cat_cached A k sha = Ok c | _ \<Rightarrow> True)"

lemma map_of_map_entries:
  "map_of (map (\<lambda>(j, m). (j, f j m)) xs) i = map_option (f i) (map_of xs i)"
  by (induction xs) auto

lemma set_rules_fst [simp]: "map fst (set_rules i r ls) = map fst ls"
  by (induction ls) (auto simp: set_rules_def)

lemma in_set_rules:
  "(j, l) \<in> set (set_rules i r ls) \<longleftrightarrow>
     (\<exists>l0. (j, l0) \<in> set ls \<and> l = (if j = i then l0\<lparr> ln_rules := r \<rparr> else l0))"
  by (induction ls) (auto simp: set_rules_def)

lemma apply_one_keeps:
  assumes "cat_inv A k" "update_ok A k u"
  shows "cat_inv A (snd (apply_one (i, u) (b, k)))" "files (snd (apply_one (i, u) (b, k))) = files k"
    "dir (snd (apply_one (i, u) (b, k))) = dir k"
    "cat_cached A (snd (apply_one (i, u) (b, k))) sha = cat_cached A k sha"
proof -
  let ?k = "snd (apply_one (i, u) (b, k))"
  show f: "files ?k = files k" "dir ?k = dir k"
    by (auto simp: apply_one_def split: option.split Update.split)
  show c: "cat_cached A ?k sha = cat_cached A k sha" for sha
    by (rule cat_cached_cong) (simp_all add: f)
  have line: "line_inv A ?k j l" if mem: "(j, l) \<in> set (lines ?k)" for j l
  proof -
    have old: "line_inv A k j l0" if "(j, l0) \<in> set (lines k)" for l0
      using assms(1) that by (auto simp: cat_inv_def)
    have keep: "line_inv A ?k j l0" if "(j, l0) \<in> set (lines k)" "assigned ?k j = assigned k j" for l0
      using old [OF that(1)] that(2) by (simp add: line_inv_def c)
    show ?thesis
    proof (cases "map_of (lines k) i")
      case None
      then have "?k = k"
        by (simp add: apply_one_def)
      with mem old show ?thesis
        by simp
    next
      case (Some l1)
      have same: "l0 = l1" if "(i, l0) \<in> set (lines k)" for l0
        using Some that assms(1) by (simp add: cat_inv_def)
      show ?thesis
      proof (cases u)
        case (Assigned sha cat)
        then show ?thesis
          using mem Some keep assms(2) c
          by (auto simp: apply_one_def in_set_rules update_ok_def line_inv_def split: if_splits)
      next
        case Cleared
        then obtain l0 where l0: "(j, l0) \<in> set (lines k)"
            "l = (if j = i then l0\<lparr> ln_rules := fallback (ln_etc l1) \<rparr> else l0)"
          using mem Some by (auto simp: apply_one_def in_set_rules)
        show ?thesis
        proof (cases "j = i")
          case True
          with l0 same show ?thesis
            by (intro line_inv_fallback) auto
        next
          case False
          with l0 keep Cleared Some show ?thesis
            by (simp add: apply_one_def)
        qed
      next
        case (Refused sha r)
        then show ?thesis
          using mem Some keep by (auto simp: apply_one_def)
      qed
    qed
  qed
  moreover have "distinct (map fst (lines ?k))"
    using assms(1) by (auto simp: apply_one_def cat_inv_def split: option.split Update.split)
  ultimately show "cat_inv A ?k"
    by (auto simp: cat_inv_def)
qed

lemma fold_apply_keeps:
  assumes "cat_inv A k" "\<forall>u \<in> snd ` set us. update_ok A k u"
  shows "cat_inv A (snd (fold apply_one us (b, k))) \<and> files (snd (fold apply_one us (b, k))) = files k \<and>
    dir (snd (fold apply_one us (b, k))) = dir k"
  using assms
proof (induction us arbitrary: b k)
  case (Cons u us)
  obtain i x where u: "u = (i, x)"
    by (cases u)
  obtain b1 k1 where k1: "apply_one (i, x) (b, k) = (b1, k1)"
    by (cases "apply_one (i, x) (b, k)")
  note keeps = apply_one_keeps [OF Cons.prems(1), of x i b]
  have "cat_inv A k1" "files k1 = files k" "dir k1 = dir k" "\<And>sha. cat_cached A k1 sha = cat_cached A k sha"
    using keeps Cons.prems(2) u k1 by simp_all
  moreover have "\<forall>y \<in> snd ` set us. update_ok A k1 y"
    using Cons.prems(2) calculation(4) by (auto simp: update_ok_def split: Update.splits)
  ultimately show ?case
    using Cons.IH [of k1 b1] u k1 by simp
qed simp

lemma cat_apply_keeps:
  assumes "cat_inv A k" "\<forall>u \<in> snd ` set us. update_ok A k u"
  shows "cat_inv A (cat_apply A us k)" "dir (cat_apply A us k) = dir k"
proof -
  obtain b1 k1 where k1: "fold apply_one us (False, k) = (b1, k1)"
    by (cases "fold apply_one us (False, k)")
  have inv1: "cat_inv A k1" "dir k1 = dir k"
    using fold_apply_keeps [OF assms, of False] k1 by simp_all
  define k2 where "k2 = (if b1 then k1\<lparr> changes := changes k1 + 1 \<rparr> else k1)"
  have cc: "cat_cached A k2 sha = cat_cached A k1 sha" for sha
    by (rule cat_cached_cong) (simp_all add: k2_def)
  have inv2: "cat_inv A k2" "dir k2 = dir k"
    using inv1 cc by (auto simp: cat_inv_def line_inv_def k2_def split: Rules.splits)
  have res: "cat_apply A us k = (if assigned k2 = assigned k then k2
      else case dir k2 of None \<Rightarrow> k2
           | Some d \<Rightarrow> snd (write_atomically (join d ASSIGNMENTS) (to_json A (assigned k2)) k2))"
    by (simp only: cat_apply_def Let_def k1 prod.case k2_def)
  have "cat_inv A (snd (write_atomically (join d ASSIGNMENTS) x k2))" if "dir k2 = Some d" for d x
  proof -
    have "cat_cached A (snd (write_atomically (join d ASSIGNMENTS) x k2)) sha = cat_cached A k2 sha" for sha
      by (rule cat_cached_cong)
        (auto simp: write_files blob_path_def that blob_not_assignments)
    then show ?thesis
      using inv2 by (auto simp: cat_inv_def line_inv_def split: Rules.splits)
  qed
  then show "cat_inv A (cat_apply A us k)" "dir (cat_apply A us k) = dir k"
    using inv2 res by (auto split: option.split)
qed

text \<open>A restart frames as before.  Whatever catalogues the gateway had assigned, a server
  restarted with the gateway out of reach gives every line the rules it had, as long as
  the state directory holds the assignments.\<close>

theorem restart_frames_as_before:
  assumes "cat_inv A k" "dir k = Some d" "remembered A (files k) d = assigned k"
    and "effective k i = Some r" "assigned k i \<noteq> None \<longrightarrow> (\<exists>sha c. r = Gateway sha c)"
  shows "effective (cat_new A (Some d) (files k) ws (config_of k)) i = Some r"
proof -
  obtain l where l: "map_of (lines k) i = Some l" "ln_rules l = r"
    using assms(4) by (auto simp: effective_def)
  then have inv: "line_inv A k i l"
    using assms(1) by (auto simp: cat_inv_def dest: map_of_SomeD)
  define k0 :: "'a Catalogues" where "k0 = \<lparr> dir = Some d, lines = [], assigned = remembered A (files k) d,
     refused = Map.empty, changes = 0, files = files k, writes = ws \<rparr>"
  have cc: "cat_cached A k0 sha = cat_cached A k sha" for sha
    by (rule cat_cached_cong) (simp_all add: k0_def assms(2))
  have "remembered_rules A k0 i (ln_etc l) = r"
    using inv l(2) assms(3,5) cc
    by (auto simp: remembered_rules_def line_inv_def k0_def fallback_def split: Rules.splits option.splits)
  moreover have "lines (cat_new A (Some d) (files k) ws (config_of k)) =
      map (\<lambda>(j, m). (j, \<lparr> ln_database = ln_database m, ln_etc = ln_etc m,
                          ln_rules = remembered_rules A k0 j (ln_etc m) \<rparr>)) (lines k)"
    by (simp add: cat_new_def config_of_def Let_def k0_def case_prod_beta)
  ultimately show ?thesis
    using l(1) by (simp add: effective_def map_of_map_entries)
qed

text \<open>An instance: one line, a blob and an assignment in the state directory.\<close>

definition ref_catlib :: "unit catlib" where
  "ref_catlib =
     \<lparr> sha1 = (\<lambda>_. [171, 205]), rtu_rules = (\<lambda>t. if t = [] then Err ''empty'' else Ok (''inverter'', ())),
       is_utf8 = (\<lambda>_. True), to_json = (\<lambda>_. [1]),
       from_json = (\<lambda>_. Some [''ttyUSB0'' \<mapsto> ''abcd'']) \<rparr>"

definition ex_files :: "path \<rightharpoonup> u8 list" where
  "ex_files = [''s/assignments.json'' \<mapsto> [1], ''s/catalogs/abcd.toml'' \<mapsto> [7, 8]]"

definition ex_catalogues :: "unit Catalogues" where
  "ex_catalogues = cat_new ref_catlib (Some ''s'') ex_files [] [(''ttyUSB0'', ''can'', None)]"

definition ex_line_catalogue :: "unit LineCatalogue" where
  "ex_line_catalogue =
     \<lparr> lc_path = ''s/catalogs/abcd.toml'', lc_name = ''inverter'', lc_sha = [171, 205], lc_rtu = () \<rparr>"

lemma ex_effective: "effective ex_catalogues ''ttyUSB0'' = Some (Gateway ''abcd'' ex_line_catalogue)"
  by (simp add: effective_def ex_catalogues_def cat_new_def Let_def remembered_rules_def remembered_def
      cat_cached_def blob_path_def join_def ASSIGNMENTS_def ex_files_def ref_catlib_def checked_def
      blob_sha1_def blob_sha1_hex_def hex_digit_def LineCatalogue_parse_def ex_line_catalogue_def
      char_of_def bit_0)

theorem restart_frames_as_before_witness:
  "effective (cat_new ref_catlib (Some ''s'') (files ex_catalogues) [] (config_of ex_catalogues)) ''ttyUSB0''
     = Some (Gateway ''abcd'' ex_line_catalogue)"
proof -
  have "cat_inv ref_catlib ex_catalogues" "dir ex_catalogues = Some ''s''"
      "remembered ref_catlib (files ex_catalogues) ''s'' = assigned ex_catalogues"
    unfolding ex_catalogues_def by (rule cat_inv_new, simp) (simp_all add: cat_new_def Let_def)
  from restart_frames_as_before [OF this ex_effective] show ?thesis
    by simp
qed

end
