(* ===== verification/Forward_Sink.thy ===== *)
theory Forward_Sink
  imports Batcher_Flow Catalogues
begin

text \<open>
  Forwarding to a gateway: \<^verbatim>\<open>ForwardSink\<close> of \<^verbatim>\<open>crates/wiretap-server/src/forward.rs\<close>, the
  one implementation of \<^verbatim>\<open>BatchSink\<close>.

  The protocol codec is a library: its functions and constants are the fields of
  \<open>proto\<close>.  The network is a script: each connect, write and read consumes one entry,
  and an exhausted script is an operation that times out, so every behaviour of a
  gateway is some script.  \<open>fs_acked\<close>, \<open>fs_quarantined\<close> and \<open>fs_settled\<close> are history
  variables: the frames a gateway acknowledged, those put in the dead-letter file, and
  both in the order they were settled.
\<close>

section \<open>The protocol\<close>

record WireFrame =
  wf_mtype :: u8
  wf_body :: "u8 list"
  wf_crc_ok :: bool

record Hello =
  h_version :: u8
  h_key :: string
  h_database :: string
  h_daemon_id :: string
  h_devices :: "Device list"

record HelloAck =
  ha_status :: u8
  ha_accepted_version :: u8
  ha_assignments :: "(u8 \<times> u8 list) list"

record Ack =
  ack_seq :: u32
  ack_status :: u8

record CatalogueGet =
  cg_sha :: "u8 list"
  cg_offset :: u32

record CatalogueChunk =
  cc_sha :: "u8 list"
  cc_offset :: u32
  cc_status :: u8
  cc_data :: "u8 list"

text \<open>\<open>p_frame_at\<close> is \<^verbatim>\<open>take_frame\<close>: a whole message at the front of the buffer, with one less
  than the number of bytes it occupies.\<close>

record 'k proto =
  p_frame_at :: "u8 list \<Rightarrow> (string, (WireFrame \<times> nat) option) result"
  p_hello_v2 :: "string \<Rightarrow> string \<Rightarrow> Hello"
  p_encode_hello :: "Hello \<Rightarrow> (string, u8 list) result"
  p_parse_hello_ack :: "u8 list \<Rightarrow> (string, HelloAck) result"
  p_encode_batch :: "u32 \<Rightarrow> 'k BatchRecord list \<Rightarrow> u8 list \<times> usize"
  p_parse_ack :: "u8 list \<Rightarrow> (string, Ack) result"
  p_parse_close :: "u8 list \<Rightarrow> (string, u8) result"
  p_encode_get :: "CatalogueGet \<Rightarrow> u8 list"
  p_parse_catalogue :: "u8 list \<Rightarrow> (string, CatalogueChunk) result"
  p_next :: "CatalogueChunk \<Rightarrow> CatalogueGet option"
  p_encode_status :: "CatalogueStatusEntry list \<Rightarrow> (string, u8 list) result"
  p_encode_message :: "u8 \<Rightarrow> u8 list \<Rightarrow> u8 list"
  MSG_ACK :: u8
  MSG_HELLO_ACK :: u8
  MSG_CATALOGUE :: u8
  MSG_CLOSE :: u8
  MSG_PING :: u8
  MSG_PONG :: u8
  ACK_OK :: u8
  ACK_OVERLOADED :: u8
  ACK_MALFORMED :: u8
  HELLO_OK :: u8
  HELLO_BAD_VERSION :: u8
  HELLO_UNAVAILABLE :: u8
  HELLO_BAD_DATABASE :: u8
  CATALOGUE_OK :: u8
  CATALOGUE_UNKNOWN :: u8
  CATALOGUE_UNAVAILABLE :: u8
  CLOSE_REASSIGNED :: u8
  PROTO_VERSION :: u8

datatype net_event = NetOk | NetErr string | NetBytes "u8 list"

section \<open>The connection\<close>

text \<open>A connection is what of a reply has arrived; the stream is the script.\<close>

type_synonym conn_rx = "u8 list"

definition timed_out :: "string \<Rightarrow> SinkError" where
  "timed_out what = Failed (''forward: timed out on '' @ what)"

definition io_failed :: "string \<Rightarrow> string \<Rightarrow> SinkError" where
  "io_failed what e = Failed (''forward: '' @ what @ '' failed: '' @ e)"

text \<open>\<^verbatim>\<open>with_timeout\<close> around a connect or a write.\<close>

definition net_do :: "string \<Rightarrow> net_event list \<Rightarrow> sink_result \<times> net_event list" where
  "net_do what net =
     (case net of
        [] \<Rightarrow> (Err (timed_out what), [])
      | NetOk # rest \<Rightarrow> (Ok (), rest)
      | NetErr e # rest \<Rightarrow> (Err (io_failed what e), rest)
      | NetBytes _ # rest \<Rightarrow> (Err (timed_out what), rest))"

definition closed_error :: "'k proto \<Rightarrow> u8 list \<Rightarrow> SinkError" where
  "closed_error Q body =
     (case p_parse_close Q body of
        Inr reason \<Rightarrow>
          (if reason = CLOSE_REASSIGNED Q
           then Closed ''gateway closed the session: catalogue reassigned''
           else Closed (''gateway closed the session (reason '' @ dec_digits (unat reason) @ '')''))
      | Inl e \<Rightarrow> Failed (''forward: malformed CLOSE: '' @ e))"

definition take_frame :: "'k proto \<Rightarrow> conn_rx \<Rightarrow> (string, WireFrame option) result \<times> conn_rx" where
  "take_frame Q rx =
     (if rx = [] then (Ok None, rx)
      else case p_frame_at Q rx of
             Inl e \<Rightarrow> (Err e, rx)
           | Inr None \<Rightarrow> (Ok None, rx)
           | Inr (Some (f, n)) \<Rightarrow> (Ok (Some f), drop (Suc n) rx))"

fun recv_any :: "'k proto \<Rightarrow> net_event list \<Rightarrow> conn_rx
    \<Rightarrow> (SinkError, WireFrame) result \<times> net_event list \<times> conn_rx" where
  "recv_any Q net rx =
     (case take_frame Q rx of
        (Inl e, rx) \<Rightarrow> (Err (Failed (''forward: '' @ e)), net, rx)
      | (Inr (Some frame), rx) \<Rightarrow>
          (if \<not> wf_crc_ok frame then (Err (Failed ''forward: bad CRC from gateway''), net, rx)
           else if wf_mtype frame = MSG_CLOSE Q then (Err (closed_error Q (wf_body frame)), net, rx)
           else (Ok frame, net, rx))
      | (Inr None, rx) \<Rightarrow>
          (case net of
             [] \<Rightarrow> (Err (timed_out ''read''), [], rx)
           | NetErr e # rest \<Rightarrow> (Err (io_failed ''read'' e), rest, rx)
           | NetOk # rest \<Rightarrow> (Err (timed_out ''read''), rest, rx)
           | NetBytes bs # rest \<Rightarrow>
               (if bs = [] then (Err (Failed ''forward: gateway closed connection''), rest, rx)
                else recv_any Q rest (rx @ bs))))"

declare recv_any.simps [simp del]

text \<open>Bytes that have arrived or will: each message read uses some up.\<close>

definition net_bytes :: "net_event list \<Rightarrow> conn_rx \<Rightarrow> nat" where
  "net_bytes net rx = length rx + sum_list (map (\<lambda>e. case e of NetBytes bs \<Rightarrow> length bs | _ \<Rightarrow> 0) net)"

lemma take_frame_shrinks:
  "take_frame Q rx = (Inr (Some f), rx') \<Longrightarrow> length rx' < length rx"
  by (auto simp: take_frame_def split: if_splits sum.splits option.splits)

lemma take_frame_none: "take_frame Q rx = (Inr None, rx') \<Longrightarrow> rx' = rx"
  by (auto simp: take_frame_def split: if_splits sum.splits option.splits)

lemma recv_any_shrinks:
  "recv_any Q net rx = (Inr f, net', rx') \<Longrightarrow>
   net_bytes net' rx' < net_bytes net rx \<and> length net' \<le> length net"
proof (induction Q net rx rule: recv_any.induct)
  case (1 Q net rx)
  obtain t rx1 where t: "take_frame Q rx = (t, rx1)"
    by (cases "take_frame Q rx")
  show ?case
  proof (cases "\<exists>g. t = Inr (Some g)")
    case True
    then obtain g where g: "t = Inr (Some g)"
      by blast
    then have "length rx1 < length rx"
      using t take_frame_shrinks by blast
    with 1(2) t g show ?thesis
      by (auto simp: recv_any.simps [of Q net rx] net_bytes_def split: if_splits)
  next
    case False
    then have "t = Inr None" "rx1 = rx"
      using 1(2) t take_frame_none
      by (auto simp: recv_any.simps [of Q net rx] split: sum.splits option.splits)
    then obtain bs rest where net: "net = NetBytes bs # rest" "bs \<noteq> []"
        "recv_any Q rest (rx @ bs) = (Inr f, net', rx')"
      using 1(2) t by (auto simp: recv_any.simps [of Q net rx] split: list.splits net_event.splits if_splits)
    have "net_bytes net' rx' < net_bytes rest (rx @ bs) \<and> length net' \<le> length rest"
      using "1.IH" [OF t [symmetric] \<open>t = Inr None\<close> refl net(1) refl net(2)] net(3) \<open>rx1 = rx\<close> by simp
    then show ?thesis
      by (simp add: net(1) net_bytes_def)
  qed
qed

text \<open>The next reply that is not a \<^verbatim>\<open>CATALOGUE\<close>.\<close>

function recv :: "'k proto \<Rightarrow> net_event list \<Rightarrow> conn_rx
    \<Rightarrow> (SinkError, WireFrame) result \<times> net_event list \<times> conn_rx" where
  "recv Q net rx =
     (case recv_any Q net rx of
        (Inl e, net', rx') \<Rightarrow> (Err e, net', rx')
      | (Inr frame, net', rx') \<Rightarrow>
          (if wf_mtype frame \<noteq> MSG_CATALOGUE Q then (Ok frame, net', rx') else recv Q net' rx'))"
  by pat_completeness auto
termination
  by (relation "measure (\<lambda>(Q, net, rx). net_bytes net rx)") (auto dest!: recv_any_shrinks [OF sym])

declare recv.simps [simp del]

function recv_catalog :: "'k proto \<Rightarrow> CatalogueGet \<Rightarrow> net_event list \<Rightarrow> conn_rx
    \<Rightarrow> (string, CatalogueChunk) result \<times> net_event list \<times> conn_rx" where
  "recv_catalog Q get net rx =
     (case recv_any Q net rx of
        (Inl e, net', rx') \<Rightarrow> (Err (sink_why e), net', rx')
      | (Inr frame, net', rx') \<Rightarrow>
          (if wf_mtype frame \<noteq> MSG_CATALOGUE Q then (Err (''a reply of type 0x'' @ blob_sha1_hex [wf_mtype frame]), net', rx')
           else case p_parse_catalogue Q (wf_body frame) of
                  Inl e \<Rightarrow> (Err e, net', rx')
                | Inr chunk \<Rightarrow>
                    (if cc_sha chunk = cg_sha get \<and> cc_offset chunk = cg_offset get
                     then (Ok chunk, net', rx')
                     else recv_catalog Q get net' rx')))"
  by pat_completeness auto
termination
  by (relation "measure (\<lambda>(Q, get, net, rx). net_bytes net rx)") (auto dest!: recv_any_shrinks [OF sym])

declare recv_catalog.simps [simp del]

lemma recv_shrinks: "recv Q net rx = (Inr f, net', rx') \<Longrightarrow> length net' \<le> length net"
proof (induction Q net rx rule: recv.induct)
  case (1 Q net rx)
  then show ?case
    by (auto simp: recv.simps [of Q net rx] dest!: recv_any_shrinks split: prod.splits sum.splits if_splits)
      (metis le_trans)
qed

lemma recv_catalog_shrinks:
  "recv_catalog Q get net rx = (Inr f, net', rx') \<Longrightarrow> length net' \<le> length net"
proof (induction Q get net rx rule: recv_catalog.induct)
  case (1 Q get net rx)
  then show ?case
    by (auto simp: recv_catalog.simps [of Q get net rx] dest!: recv_any_shrinks
        split: prod.splits sum.splits if_splits) (metis le_trans)+
qed

text \<open>A whole blob, a chunk at a time.\<close>

function fetch_from :: "'k proto \<Rightarrow> CatalogueGet \<Rightarrow> u8 list \<Rightarrow> net_event list \<Rightarrow> conn_rx
    \<Rightarrow> (string, u8 list) result \<times> net_event list \<times> conn_rx" where
  "fetch_from Q get blob net rx =
     (case net_do ''write'' net of
        (Inl e, net') \<Rightarrow> (Err (sink_why e), net', rx)
      | (Inr _, net') \<Rightarrow>
          (case recv_catalog Q get net' rx of
             (Inl e, net'', rx') \<Rightarrow> (Err e, net'', rx')
           | (Inr chunk, net'', rx') \<Rightarrow>
               (if cc_status chunk = CATALOGUE_UNKNOWN Q then (Err ''the gateway does not have it'', net'', rx')
                else if cc_status chunk = CATALOGUE_UNAVAILABLE Q
                then (Err ''the gateway cannot read it now'', net'', rx')
                else if cc_status chunk \<noteq> CATALOGUE_OK Q then (Err (''CATALOGUE status='' @ dec_digits (unat (cc_status chunk))), net'', rx')
                else case p_next Q chunk of
                       None \<Rightarrow> (Ok (blob @ cc_data chunk), net'', rx')
                     | Some get' \<Rightarrow> fetch_from Q get' (blob @ cc_data chunk) net'' rx')))"
  by pat_completeness auto
termination
  by (relation "measure (\<lambda>(Q, get, blob, net, rx). length net)")
    (auto simp: net_do_def dest!: recv_catalog_shrinks [OF sym] split: list.splits net_event.splits)

declare fetch_from.simps [simp del]

definition fetch :: "'k proto \<Rightarrow> u8 list \<Rightarrow> net_event list \<Rightarrow> conn_rx
    \<Rightarrow> (string, u8 list) result \<times> net_event list \<times> conn_rx" where
  "fetch Q sha net rx = fetch_from Q \<lparr> cg_sha = sha, cg_offset = 0 \<rparr> [] net rx"

section \<open>The sink\<close>

record ('v, 'w, 'f, 'k, 'o) fenv =
  fe_E :: "('v, 'w) engine"
  fe_V :: "'v sqlconv"
  fe_L :: "('f, 'k) wslib"
  fe_Q :: "'k proto"
  fe_A :: "'o catlib"

record ('o, 'w) ForwardSink =
  fs_api_key :: string
  fs_database :: string
  fs_daemon_id :: string
  fs_devices :: "Device list"
  fs_version :: u8
  fs_raw_serial :: bool
  fs_catalogues :: "'o Catalogues"
  fs_seen_changes :: nat
  fs_conn :: "conn_rx option"
  fs_seq :: u32
  fs_dead_letter :: path
  fs_world :: 'w
  fs_net :: "net_event list"
  fs_acked :: "Sample list"
  fs_quarantined :: "Sample list"
  fs_settled :: "Sample list"

text \<open>\<^verbatim>\<open>self.connection()?.send(..)\<close> and \<^verbatim>\<open>conn.recv()\<close> on the stored connection.\<close>

definition not_connected :: SinkError where
  "not_connected = Failed ''forward: not connected''"

definition conn_send :: "('o, 'w) ForwardSink \<Rightarrow> sink_result \<times> ('o, 'w) ForwardSink" where
  "conn_send s =
     (case fs_conn s of
        None \<Rightarrow> (Err not_connected, s)
      | Some _ \<Rightarrow> (case net_do ''write'' (fs_net s) of (r, net) \<Rightarrow> (r, s\<lparr> fs_net := net \<rparr>)))"

definition conn_recv :: "'k proto \<Rightarrow> ('o, 'w) ForwardSink
    \<Rightarrow> (SinkError, WireFrame) result \<times> ('o, 'w) ForwardSink" where
  "conn_recv Q s =
     (case fs_conn s of
        None \<Rightarrow> (Err not_connected, s)
      | Some rx \<Rightarrow>
          (case recv Q (fs_net s) rx of
             (r, net, rx) \<Rightarrow> (r, s\<lparr> fs_net := net, fs_conn := Some rx \<rparr>)))"

definition quarantine :: "('v, 'w, 'f, 'k, 'o) fenv \<Rightarrow> Sample list \<Rightarrow> u32 \<Rightarrow> ('o, 'w) ForwardSink
    \<Rightarrow> sink_result \<times> ('o, 'w) ForwardSink" where
  "quarantine X chunk seq s =
     (let refused = (\<lambda>e. Err (Failed (''forward: batch refused as malformed (seq='' @ dec_digits (unat seq) @
                '') and not quarantined to '' @ fs_dead_letter s @ '': '' @ e))) in
      case sq_open (fe_E X) (fs_dead_letter s) (- 1) (fs_world s) of
        (Inl e, w) \<Rightarrow> (refused e, s\<lparr> fs_world := w \<rparr>)
      | (Inr c, w) \<Rightarrow>
          (case sq_append (fe_E X) (fe_V X) (fe_L X) (c, w) chunk of
             (r, c, w) \<Rightarrow>
               (let s = s\<lparr> fs_world := e_drop (fe_E X) (conn c) w \<rparr> in
                case r of
                  Inl e \<Rightarrow> (refused e, s)
                | Inr _ \<Rightarrow> (Ok (), s\<lparr> fs_quarantined := fs_quarantined s @ chunk,
                                      fs_settled := fs_settled s @ chunk \<rparr>))))"

text \<open>What the gateway's acknowledgement of batch \<open>seq\<close> means for the first \<open>len\<close> samples.\<close>

definition take_ack :: "('v, 'w, 'f, 'k, 'o) fenv \<Rightarrow> Sample list \<Rightarrow> usize \<Rightarrow> u32 \<Rightarrow> WireFrame
    \<Rightarrow> ('o, 'w) ForwardSink \<Rightarrow> (SinkError, usize) result \<times> ('o, 'w) ForwardSink" where
  "take_ack X samples len seq frame s =
     (let Q = fe_Q X in
      if wf_mtype frame \<noteq> MSG_ACK Q then (Err (Failed ''forward: malformed ACK''), s)
      else case p_parse_ack Q (wf_body frame) of
        Inl _ \<Rightarrow> (Err (Failed ''forward: malformed ACK''), s)
      | Inr ack \<Rightarrow>
          (let unread_seq = (ack_seq ack = 0 \<and> ack_status ack = ACK_MALFORMED Q) in
           if ack_seq ack \<noteq> seq \<and> \<not> unread_seq then (Err (Failed (''forward: ACK for seq='' @ dec_digits (unat (ack_seq ack)) @
               '' while awaiting seq='' @ dec_digits (unat seq))), s)
           else if ack_status ack = ACK_OK Q then
             (Ok len, s\<lparr> fs_acked := fs_acked s @ take len samples,
                         fs_settled := fs_settled s @ take len samples \<rparr>)
           else if ack_status ack = ACK_OVERLOADED Q then (Err (Failed ''forward: gateway overloaded''), s)
           else if ack_status ack = ACK_MALFORMED Q then
             (case quarantine X (take len samples) seq s of
                (Inl e, s) \<Rightarrow> (Err e, s)
              | (Inr _, s) \<Rightarrow> (Ok len, s))
           else (Err (Failed (''forward: batch nacked (seq='' @ dec_digits (unat (ack_seq ack)) @
               '' status='' @ dec_digits (unat (ack_status ack)) @ '')'')), s)))"

definition send_chunk :: "('v, 'w, 'f, 'k, 'o) fenv \<Rightarrow> Sample list \<Rightarrow> ('o, 'w) ForwardSink
    \<Rightarrow> (SinkError, usize) result \<times> ('o, 'w) ForwardSink" where
  "send_chunk X samples s =
     (let seq = fs_seq s + 1;
          s = s\<lparr> fs_seq := seq \<rparr>;
          (message, len) = p_encode_batch (fe_Q X) seq (map (wire_record (fe_L X)) samples)
      in case conn_send s of
           (Inl e, s) \<Rightarrow> (Err e, s)
         | (Inr _, s) \<Rightarrow>
             (case conn_recv (fe_Q X) s of
                (Inl e, s) \<Rightarrow> (Err e, s)
              | (Inr frame, s) \<Rightarrow> take_ack X samples len seq frame s))"

definition hello :: "'k proto \<Rightarrow> ('o, 'w) ForwardSink \<Rightarrow> Hello" where
  "hello Q s =
     (let v2 = p_hello_v2 Q (fs_api_key s) (fs_database s) in
      if fs_version s = 2 then v2
      else v2\<lparr> h_version := fs_version s, h_daemon_id := fs_daemon_id s, h_devices := fs_devices s \<rparr>)"

text \<open>A new connection, as its buffer, and what the gateway said to its \<^verbatim>\<open>HELLO\<close>.\<close>

definition handshake :: "'k proto \<Rightarrow> ('o, 'w) ForwardSink \<Rightarrow> net_event list
    \<Rightarrow> (SinkError, conn_rx \<times> HelloAck) result \<times> net_event list" where
  "handshake Q s net =
     (case net_do ''connect'' net of
        (Inl e, net) \<Rightarrow> (Err e, net)
      | (Inr _, net) \<Rightarrow>
          (case p_encode_hello Q (hello Q s) of
             Inl e \<Rightarrow> (Err (Failed (''forward: cannot send HELLO: '' @ e)), net)
           | Inr bytes \<Rightarrow>
               (case net_do ''write'' net of
                  (Inl e, net) \<Rightarrow> (Err e, net)
                | (Inr _, net) \<Rightarrow>
                    (case recv Q net [] of
                       (Inl e, net, _) \<Rightarrow> (Err e, net)
                     | (Inr frame, net, rx) \<Rightarrow>
                         (if wf_mtype frame \<noteq> MSG_HELLO_ACK Q
                          then (Err (Failed ''forward: no HELLO_ACK from gateway''), net)
                          else case p_parse_hello_ack Q (wf_body frame) of
                                 Inl e \<Rightarrow> (Err (Failed (''forward: '' @ e)), net)
                               | Inr ack \<Rightarrow> (Ok (rx, ack), net))))))"

definition may_fall_back :: "'k proto \<Rightarrow> ('o, 'w) ForwardSink \<Rightarrow> HelloAck \<Rightarrow> bool" where
  "may_fall_back Q s ack \<longleftrightarrow>
     ha_status ack = HELLO_BAD_VERSION Q \<and> ha_accepted_version ack = 2 \<and> fs_version s = 3 \<and> \<not> fs_raw_serial s"

text \<open>The catalogue a blob's name stands for, fetched when it is not in the state directory.\<close>

definition catalogue_of :: "('v, 'w, 'f, 'k, 'o) fenv \<Rightarrow> u8 list \<Rightarrow> net_event list \<times> conn_rx \<times> 'o Catalogues
    \<Rightarrow> (Refusal \<times> string, 'o LineCatalogue) result \<times> net_event list \<times> conn_rx \<times> 'o Catalogues" where
  "catalogue_of X sha z =
     (case z of (net, rx, k) \<Rightarrow>
        (let hex = blob_sha1_hex sha in
         case cat_cached (fe_A X) k hex of
           Inr c \<Rightarrow> (Ok c, net, rx, k)
         | Inl _ \<Rightarrow>
             (case fetch (fe_Q X) sha net rx of
                (Inl why, net, rx) \<Rightarrow> (Err (FetchFailed, why), net, rx, k)
              | (Inr blob, net, rx) \<Rightarrow>
                  (case cat_store (fe_A X) hex blob k of (r, k) \<Rightarrow> (r, net, rx, k)))))"

definition assigned_sha :: "('o, 'w) ForwardSink \<Rightarrow> (u8 \<times> u8 list) list \<Rightarrow> string \<Rightarrow> u8 list option" where
  "assigned_sha s assignments interface =
     (case find (\<lambda>d. dv_name d = interface) (fs_devices s) of
        None \<Rightarrow> None
      | Some d \<Rightarrow> map_option snd (find (\<lambda>a. fst a = dv_bus d) assignments))"

primrec pull_updates :: "('v, 'w, 'f, 'k, 'o) fenv \<Rightarrow> (string \<Rightarrow> u8 list option) \<Rightarrow> string list
    \<Rightarrow> net_event list \<times> conn_rx \<times> 'o Catalogues
    \<Rightarrow> (string \<times> 'o Update) list \<times> net_event list \<times> conn_rx \<times> 'o Catalogues" where
  "pull_updates X sha_for [] z = ([], z)"
| "pull_updates X sha_for (i # is) z =
     (let (u, z) =
        (case sha_for i of
           None \<Rightarrow> (Cleared, z)
         | Some sha \<Rightarrow>
             (case catalogue_of X sha z of
                (Inr c, z) \<Rightarrow> (Assigned (blob_sha1_hex sha) c, z)
              | (Inl (refusal, why), z) \<Rightarrow> (Refused sha refusal, z)));
          (us, z) = pull_updates X sha_for is z
      in ((i, u) # us, z))"

definition pull :: "('v, 'w, 'f, 'k, 'o) fenv \<Rightarrow> (u8 \<times> u8 list) list \<Rightarrow> conn_rx \<Rightarrow> ('o, 'w) ForwardSink
    \<Rightarrow> conn_rx \<times> ('o, 'w) ForwardSink" where
  "pull X assignments rx s =
     (case pull_updates X (assigned_sha s assignments) (owned_by (fs_catalogues s) (fs_database s))
             (fs_net s, rx, fs_catalogues s) of
        (us, net, rx, k) \<Rightarrow>
          (rx, s\<lparr> fs_net := net, fs_catalogues := cat_apply (fe_A X) us k \<rparr>))"

definition status_message :: "'k proto \<Rightarrow> ('o, 'w) ForwardSink \<Rightarrow> u8 list option \<times> ('o, 'w) ForwardSink" where
  "status_message Q s =
     (let s = s\<lparr> fs_seen_changes := changes (fs_catalogues s) \<rparr> in
      case p_encode_status Q (cat_status (fs_catalogues s) (fs_devices s)) of
        Inl _ \<Rightarrow> (None, s)
      | Inr bytes \<Rightarrow> (Some bytes, s))"

definition send_status_if_changed :: "'k proto \<Rightarrow> ('o, 'w) ForwardSink \<Rightarrow> sink_result \<times> ('o, 'w) ForwardSink"
  where
  "send_status_if_changed Q s =
     (if fs_version s = 2 \<or> fs_seen_changes s = changes (fs_catalogues s) then (Ok (), s)
      else case status_message Q s of
             (None, s) \<Rightarrow> (Ok (), s)
           | (Some _, s) \<Rightarrow> conn_send s)"

section \<open>\<^verbatim>\<open>BatchSink\<close>\<close>

definition hello_why :: "'k proto \<Rightarrow> ('o, 'w) ForwardSink \<Rightarrow> HelloAck \<Rightarrow> string" where
  "hello_why Q s ack =
     (if ha_status ack = HELLO_BAD_VERSION Q then
        '': this server speaks protocol v'' @ dec_digits (unat (fs_version s)) @ '', the gateway v'' @
        dec_digits (unat (ha_accepted_version ack)) @ ''; upgrade the gateway first''
      else if ha_status ack = HELLO_UNAVAILABLE Q then '': the gateway's database is not available yet''
      else if ha_status ack = HELLO_BAD_DATABASE Q then
        (if fs_database s = [] then
           '': this server names no database, and the gateway key is not pinned to a '' @
           ''capture database; set [forward] database''
         else
           '': the gateway refused database '' @ fs_database s @ '': not one of its capture databases, or '' @
           ''missing while it does not create them'')
      else [])"

definition hello_rejected :: "'k proto \<Rightarrow> ('o, 'w) ForwardSink \<Rightarrow> HelloAck \<Rightarrow> SinkError" where
  "hello_rejected Q s ack =
     Failed (''forward: HELLO rejected (status='' @ dec_digits (unat (ha_status ack)) @ '')'' @ hello_why Q s ack)"

text \<open>Once a gateway has accepted the \<^verbatim>\<open>HELLO\<close>: the catalogues, then their status.\<close>

definition open_session :: "('v, 'w, 'f, 'k, 'o) fenv \<Rightarrow> conn_rx \<Rightarrow> HelloAck \<Rightarrow> ('o, 'w) ForwardSink
    \<Rightarrow> sink_result \<times> ('o, 'w) ForwardSink" where
  "open_session X rx ack s =
     (if fs_version s = 3 then
        (case pull X (ha_assignments ack) rx s of
           (rx, s) \<Rightarrow>
             (case status_message (fe_Q X) s of
                (None, s) \<Rightarrow> (Ok (), s\<lparr> fs_conn := Some rx \<rparr>)
              | (Some _, s) \<Rightarrow>
                  (case net_do ''write'' (fs_net s) of
                     (Inl e, net) \<Rightarrow> (Err e, s\<lparr> fs_net := net \<rparr>)
                   | (Inr _, net) \<Rightarrow> (Ok (), s\<lparr> fs_net := net, fs_conn := Some rx \<rparr>))))
      else (Ok (), s\<lparr> fs_conn := Some rx \<rparr>))"

definition fwd_connect :: "('v, 'w, 'f, 'k, 'o) fenv \<Rightarrow> ('o, 'w) ForwardSink
    \<Rightarrow> sink_result \<times> ('o, 'w) ForwardSink" where
  "fwd_connect X s =
     (let Q = fe_Q X in
      case handshake Q s (fs_net s) of
        (Inl e, net) \<Rightarrow> (Err e, s\<lparr> fs_net := net \<rparr>)
      | (Inr (rx, ack), net) \<Rightarrow>
          (let s = s\<lparr> fs_net := net \<rparr>;
               again = may_fall_back Q s ack;
               s = (if again then s\<lparr> fs_version := 2 \<rparr> else s)
           in case (if again then handshake Q s (fs_net s) else (Ok (rx, ack), fs_net s)) of
                (Inl e, net) \<Rightarrow> (Err e, s\<lparr> fs_net := net \<rparr>)
              | (Inr (rx, ack), net) \<Rightarrow>
                  (let s = s\<lparr> fs_net := net \<rparr> in
                   if ha_status ack \<noteq> HELLO_OK Q then (Err (hello_rejected Q s ack), s)
                   else open_session X rx ack s)))"

lemma conn_send_shrinks:
  "conn_send s = (Inr u, s') \<Longrightarrow> length (fs_net s') < length (fs_net s)"
  by (auto simp: conn_send_def net_do_def split: option.splits list.splits net_event.splits)

lemma conn_recv_shrinks:
  "conn_recv Q s = (Inr u, s') \<Longrightarrow> length (fs_net s') \<le> length (fs_net s)"
  by (auto simp: conn_recv_def dest: recv_shrinks split: option.splits prod.splits)

lemma take_ack_net: "fs_net (snd (take_ack X b n q f s)) = fs_net s"
  by (auto simp: take_ack_def quarantine_def Let_def split: sum.split prod.split)

lemma send_chunk_shrinks:
  assumes "send_chunk X b s = (Inr n, s')"
  shows "length (fs_net s') < length (fs_net s)"
proof -
  obtain f s1 s2 m where c: "conn_send (s\<lparr> fs_seq := fs_seq s + 1 \<rparr>) = (Inr (), s1)"
      "conn_recv (fe_Q X) s1 = (Inr f, s2)" "take_ack X b m (fs_seq s + 1) f s2 = (Inr n, s')"
    using assms by (auto simp: send_chunk_def Let_def split: prod.splits sum.splits)
  have "fs_net s' = fs_net s2"
    using take_ack_net [of X b m "fs_seq s + 1" f s2] c(3) by simp
  then show ?thesis
    using conn_send_shrinks [OF c(1)] conn_recv_shrinks [OF c(2)] by simp
qed

function write_from :: "('v, 'w, 'f, 'k, 'o) fenv \<Rightarrow> Sample list \<Rightarrow> usize \<Rightarrow> ('o, 'w) ForwardSink
    \<Rightarrow> write_result \<times> ('o, 'w) ForwardSink" where
  "write_from X batch done_n s =
     (if done_n < length batch then
        (case send_chunk X (drop done_n batch) s of
           (Inl c, s') \<Rightarrow> (Err \<lparr> delivered = done_n, cause = c \<rparr>, s')
         | (Inr n, s') \<Rightarrow> write_from X batch (done_n + n) s')
      else (Ok (), s))"
  by pat_completeness auto
termination
  by (relation "measure (\<lambda>(X, batch, n, s). length (fs_net s))") (auto dest!: send_chunk_shrinks [OF sym])

declare write_from.simps [simp del]

definition fwd_write_batch :: "('v, 'w, 'f, 'k, 'o) fenv \<Rightarrow> ('o, 'w) ForwardSink \<Rightarrow> Sample list
    \<Rightarrow> write_result \<times> ('o, 'w) ForwardSink" where
  "fwd_write_batch X s batch =
     (case send_status_if_changed (fe_Q X) s of
        (Inl c, s) \<Rightarrow> (Err \<lparr> delivered = 0, cause = c \<rparr>, s)
      | (Inr _, s) \<Rightarrow> write_from X batch 0 s)"

definition fwd_keep_alive :: "('v, 'w, 'f, 'k, 'o) fenv \<Rightarrow> ('o, 'w) ForwardSink
    \<Rightarrow> sink_result \<times> ('o, 'w) ForwardSink" where
  "fwd_keep_alive X s =
     (let Q = fe_Q X in
      case send_status_if_changed Q s of
        (Inl e, s) \<Rightarrow> (Err e, s)
      | (Inr _, s) \<Rightarrow>
          (case conn_send s of
             (Inl e, s) \<Rightarrow> (Err e, s)
           | (Inr _, s) \<Rightarrow>
               (case conn_recv Q s of
                  (Inl e, s) \<Rightarrow> (Err e, s)
                | (Inr frame, s) \<Rightarrow>
                    (if wf_mtype frame \<noteq> MSG_PONG Q
                     then (Err (Failed ''forward: unexpected idle reply''), s) else (Ok (), s)))))"

definition fwd_close :: "('o, 'w) ForwardSink \<Rightarrow> ('o, 'w) ForwardSink" where
  "fwd_close s = s\<lparr> fs_conn := None \<rparr>"

section \<open>The contract\<close>

lemma conn_send_fields:
  "conn_send s = (r, s') \<Longrightarrow> fs_settled s' = fs_settled s \<and> fs_acked s' = fs_acked s \<and>
     fs_quarantined s' = fs_quarantined s \<and> fs_world s' = fs_world s \<and> fs_dead_letter s' = fs_dead_letter s \<and>
     fs_version s' = fs_version s \<and> fs_raw_serial s' = fs_raw_serial s"
  by (auto simp: conn_send_def split: option.splits prod.splits)

lemma conn_recv_fields:
  "conn_recv Q s = (r, s') \<Longrightarrow> fs_settled s' = fs_settled s \<and> fs_acked s' = fs_acked s \<and>
     fs_quarantined s' = fs_quarantined s \<and> fs_world s' = fs_world s \<and> fs_dead_letter s' = fs_dead_letter s \<and>
     fs_version s' = fs_version s \<and> fs_raw_serial s' = fs_raw_serial s"
  by (auto simp: conn_recv_def split: option.splits prod.splits)

lemma status_fields:
  "send_status_if_changed Q s = (r, s') \<Longrightarrow> fs_settled s' = fs_settled s \<and> fs_acked s' = fs_acked s \<and>
     fs_quarantined s' = fs_quarantined s \<and> fs_world s' = fs_world s \<and> fs_dead_letter s' = fs_dead_letter s \<and>
     fs_version s' = fs_version s \<and> fs_raw_serial s' = fs_raw_serial s"
  by (auto simp: send_status_if_changed_def status_message_def Let_def dest!: conn_send_fields
      split: if_splits sum.splits option.splits)

lemma take_ack_settles:
  assumes "take_ack X b m q f s = (r, s')"
  shows "case r of Inl _ \<Rightarrow> fs_settled s' = fs_settled s
                 | Inr n \<Rightarrow> n = m \<and> fs_settled s' = fs_settled s @ take n b"
  using assms
  by (auto simp: take_ack_def quarantine_def Let_def split: if_splits sum.splits prod.splits)

lemma send_chunk_settles:
  assumes "send_chunk X b s = (r, s')"
  shows "case r of Inl _ \<Rightarrow> fs_settled s' = fs_settled s | Inr n \<Rightarrow> fs_settled s' = fs_settled s @ take n b"
proof -
  let ?s = "s\<lparr> fs_seq := fs_seq s + 1 \<rparr>"
  obtain m where m: "m = snd (p_encode_batch (fe_Q X) (fs_seq s + 1) (map (wire_record (fe_L X)) b))"
    by simp
  obtain x s1 where x: "conn_send ?s = (x, s1)"
    by (cases "conn_send ?s")
  obtain y s2 where y: "conn_recv (fe_Q X) s1 = (y, s2)"
    by (cases "conn_recv (fe_Q X) s1")
  have "fs_settled s2 = fs_settled s" "fs_settled s1 = fs_settled s"
    using conn_send_fields [OF x] conn_recv_fields [OF y] by simp_all
  then show ?thesis
    using assms x y take_ack_settles [of X b m "fs_seq s + 1" _ s2 r s'] m
    by (cases x; cases y; cases r) (auto simp: send_chunk_def Let_def split: prod.splits)
qed

lemma write_from_settles:
  "write_from X b n s = (r, s') \<Longrightarrow> n \<le> length b \<Longrightarrow>
   (case r of
      Inl e \<Rightarrow> n \<le> delivered e \<and> delivered e \<le> length b \<and>
               fs_settled s' = fs_settled s @ take (delivered e - n) (drop n b)
    | Inr _ \<Rightarrow> fs_settled s' = fs_settled s @ drop n b)"
proof (induction X b n s rule: write_from.induct)
  case (1 X b n s)
  show ?case
  proof (cases "n < length b")
    case False
    with "1.prems" show ?thesis
      by (auto simp: write_from.simps [of X b n s])
  next
    case True
    obtain x s1 where x: "send_chunk X (drop n b) s = (x, s1)"
      by (cases "send_chunk X (drop n b) s")
    note st = send_chunk_settles [OF x]
    show ?thesis
    proof (cases x)
      case (Inl e)
      with "1.prems" True x st show ?thesis
        by (auto simp: write_from.simps [of X b n s])
    next
      case (Inr k)
      then have w: "write_from X b (n + k) s1 = (r, s')"
        using "1.prems" True x by (simp add: write_from.simps [of X b n s])
      show ?thesis
      proof (cases "n + k \<le> length b")
        case le: True
        note ih = "1.IH" [OF True x [symmetric] Inr w le]
        show ?thesis
        proof (cases r)
          case (Inl e)
          let ?d = "delivered e - (n + k)"
          have d: "n + k \<le> delivered e" "delivered e \<le> length b"
            "fs_settled s' = fs_settled s1 @ take ?d (drop (n + k) b)"
            using ih Inl by simp_all
          have "take (delivered e - n) (drop n b) = take (k + ?d) (drop n b)"
            using d(1) by simp
          also have "\<dots> = take k (drop n b) @ take ?d (drop (n + k) b)"
            by (simp add: take_add add.commute)
          finally show ?thesis
            using d st \<open>x = Inr k\<close> Inl by simp
        next
          case (Inr u)
          with ih st \<open>x = Inr k\<close> show ?thesis
            by (simp add: add.commute) (metis append_take_drop_id drop_drop)
        qed
      next
        case False
        then have "r = Inr ()" "s' = s1"
          using w by (auto simp: write_from.simps [of X b "n + k" s1])
        with False st Inr show ?thesis
          by simp
      qed
    qed
  qed
qed

end
