(* ===== verification/Cache_Adopt.thy ===== *)
theory Cache_Adopt
  imports Sqlite_Cache
begin

text \<open>
  The disk cache at a distance: what any sequence of calls leaves in it, what adopting
  the cache of an older install does to the two files, and the state a failed reset
  leaves.  The definitions are those of \<^verbatim>\<open>Sqlite_Cache\<close>.
\<close>

section \<open>Adopting an older cache\<close>

abbreviation samples_of :: "Cached list \<Rightarrow> Sample list" where
  "samples_of xs \<equiv> map cached_sample xs"

text \<open>After a copy from \<open>old\<close> to \<open>c\<close> the first \<open>k\<close> frames have arrived and the first \<open>j\<close> have
  been removed from the source; \<open>r\<close> is the loop's result.\<close>

definition copied :: "('w \<Rightarrow> path \<Rightarrow> (i64 \<times> 'v row) list option) \<Rightarrow> 'v sqlconv \<Rightarrow> ('f, 'k) wslib
    \<Rightarrow> SqliteCache \<Rightarrow> SqliteCache \<Rightarrow> 'w \<Rightarrow> nat \<Rightarrow> nat
    \<Rightarrow> (string, unit) result \<times> SqliteCache \<times> SqliteCache \<times> 'w \<Rightarrow> bool" where
  "copied T V L c old w j k y \<longleftrightarrow>
     (case y of (r, c', old', w') \<Rightarrow>
        sq_inv T V L (c', w') \<and> sq_inv T V L (old', w') \<and>
        conn c' = conn c \<and> conn old' = conn old \<and>
        sc_path c' = sc_path c \<and> sc_path old' = sc_path old \<and>
        samples_of (sq_held T V L (c', w')) =
          samples_of (sq_held T V L (c, w)) @ take k (samples_of (sq_held T V L (old, w))) \<and>
        sq_held T V L (old', w') = drop j (sq_held T V L (old, w)) \<and>
        j \<le> k \<and> k \<le> j + ADOPT_BATCH \<and>
        (\<not> isl r \<longrightarrow> j = k \<and> length (sq_held T V L (old, w)) \<le> j))"

text \<open>The frames a database file holds, oldest first.\<close>

definition disk_samples :: "('w \<Rightarrow> path \<Rightarrow> (i64 \<times> 'v row) list option) \<Rightarrow> 'v sqlconv
    \<Rightarrow> ('f, 'k) wslib \<Rightarrow> 'w \<Rightarrow> path \<Rightarrow> Sample list" where
  "disk_samples T V L w p =
     (case T w p of None \<Rightarrow> [] | Some t \<Rightarrow> samples_of (map (read_row V L) t))"

context sqlite_store
begin

abbreviation "on_disk \<equiv> disk_samples tables V L"

lemma held_on_disk: "conn c = ConnFile p \<Longrightarrow> samples_of (sqheld (c, w)) = on_disk w p"
  by (simp add: sq_held_def disk_samples_def split: option.split)

lemma on_disk_cong: "tables w' p = tables w p \<Longrightarrow> on_disk w' p = on_disk w p"
  by (simp add: disk_samples_def)

lemma sq_append_frame:
  assumes "sqinv (c, w)" "conn c = ConnFile p" "sq_append E V L (c, w) fs = (r, c', w')"
  shows "(q \<noteq> p \<longrightarrow> tables w' q = tables w q) \<and> conn c' = conn c \<and> sc_path c' = sc_path c"
proof -
  obtain t where t: "tables w p = Some t" "table_ok V L t"
    using assms(1,2) by (rule sqinv_file)
  then show ?thesis
    using append_transaction [OF assms(2) t(1) _ assms(3)]
    by (cases r) (auto simp: table_ok_def)
qed

lemma sq_remove_frame:
  assumes "sqinv (c, w)" "conn c = ConnFile p" "sq_remove E (c, w) xs = (r, c', w')"
  shows "(q \<noteq> p \<longrightarrow> tables w' q = tables w q) \<and> conn c' = conn c \<and> sc_path c' = sc_path c"
proof -
  obtain t where t: "tables w p = Some t"
    using assms(1,2) by (rule sqinv_file)
  have step: "tables w2 q = tables w1 q" if "q \<noteq> p" "tables w1 = tables w"
      "e_delete E (ConnFile p) ids w1 = (d, w2)" for ids d w1 w2
    using that t delete_ok [of p ids w1 _ w2 t] delete_err [of p ids w1 _ w2]
    by (cases d) auto
  obtain d w1 where "try_io (e_prepare E (ConnFile p) (StDelete (length xs)) w)
      (\<lambda>_ w. e_delete E (ConnFile p) (map cached_id xs) w) = (d, w1)"
    by fastforce
  moreover from this have "q \<noteq> p \<longrightarrow> tables w1 q = tables w q"
    by (elim try_ioE) (use keepD(7) step in metis)+
  ultimately show ?thesis
    using assms(2,3) by (cases d) (auto simp: sq_remove_def split: if_splits)
qed

lemma sq_oldest_frame:
  assumes "sq_oldest E V L (c, w) n = (r, c', w')"
  shows "tables w' = tables w \<and> c' = c"
  using assms by (auto simp: sq_oldest_def try_io_def dest!: keepD split: prod.splits sum.splits)

lemma sq_other_table:
  assumes "conn c = ConnFile p" "tables w' p = tables w p"
  shows "sqinv (c, w') = sqinv (c, w)" "sqheld (c, w') = sqheld (c, w)"
  using assms by (simp_all add: sq_inv_def sq_held_def)

lemma store_is_frame_cache:
  "frame_cache (sq_append E V L) (sq_oldest E V L) (sq_remove E) sq_count (sq_reset E)
     (sq_held tables V L) (sq_inv tables V L) cacheable"
  by (rule fc.frame_cache_axioms)

text \<open>One pass of the loop: it stops, with what has been copied so far, or it has moved
  one batch.\<close>

lemma adopt_copy_pass:
  assumes "sqinv (c, w)" "sqinv (old, w)" "conn c = ConnFile p" "conn old = ConnFile q" "p \<noteq> q"
    and "\<forall>s \<in> set (samples_of (sqheld (old, w))). cacheable s"
  shows "(\<exists>j k y. adopt_copy E V L c old w = Some y \<and> copied tables V L c old w j k y) \<or>
    (\<exists>c2 old2 w2. adopt_copy E V L c old w = adopt_copy E V L c2 old2 w2 \<and>
       sqheld (old, w) \<noteq> [] \<and>
       copied tables V L c old w ADOPT_BATCH ADOPT_BATCH (Inl [], c2, old2, w2))"
proof -
  let ?S = "sqheld (old, w)"
  let ?stop = "\<exists>j k y. adopt_copy E V L c old w = Some y \<and> copied tables V L c old w j k y"
  obtain b old1 w1 where b: "sq_oldest E V L (old, w) ADOPT_BATCH = (b, old1, w1)"
    by (metis prod_cases3)
  have o1: "old1 = old" and t1: "tables w1 = tables w"
    using sq_oldest_frame [OF b] by auto
  note s1 = sq_same [OF t1]
  note unf = adopt_copy.simps [of E V L c old w]
  have same: "copied tables V L c old w 0 0 (r, c, old, w1)" if "\<not> isl r \<longrightarrow> ?S = []" for r
    using that assms(1,2) s1 by (simp add: copied_def)
  show ?thesis
  proof (cases "\<exists>xs. b = Inr xs \<and> xs \<noteq> []")
    case False
    then have "\<exists>r. adopt_copy E V L c old w = Some (r, c, old, w1) \<and> (\<not> isl r \<longrightarrow> ?S = [])"
      using unf b o1 sq_oldest_ok [OF assms(2), of ADOPT_BATCH] by (cases b) (auto simp: ADOPT_BATCH_def)
    with same have ?stop
      by blast
    then show ?thesis ..
  next
    case True
    then obtain xs where xs: "b = Inr xs" "xs \<noteq> []"
      by blast
    then have tk: "xs = take ADOPT_BATCH ?S"
      using sq_oldest_ok [OF assms(2)] b by blast
    then have st: "samples_of xs = take ADOPT_BATCH (samples_of ?S)"
      by (simp add: take_map)
    obtain a c2 w2 where a: "sq_append E V L (c, w1) (samples_of xs) = (a, c2, w2)"
      by (metis prod_cases3)
    have inv1: "sqinv (c, w1)" "sqinv (old, w1)"
      using assms s1 by simp_all
    have cach: "\<forall>s \<in> set (samples_of xs). cacheable s"
      using assms(6) tk by (auto dest: in_set_takeD)
    have c2: "sqinv (c2, w2)" "samples_of (sqheld (c2, w2)) =
        samples_of (sqheld (c, w)) @ (case a of Inl _ \<Rightarrow> [] | Inr _ \<Rightarrow> samples_of xs)"
      using fc.append_samples [OF inv1(1) cach a] fc.inv_append [OF inv1(1) cach a] s1 by simp_all
    note fr = sq_append_frame [OF inv1(1) assms(3) a, of q]
    then have "tables w2 q = tables w1 q"
      using assms(5) by simp
    note s2 = sq_other_table [OF assms(4) this]
    obtain d old3 w3 where d: "sq_remove E (old, w2) xs = (d, old3, w3)"
      by (metis prod_cases3)
    have inv2: "sqinv (old, w2)" "sqheld (old, w2) = ?S"
      using s2 inv1 s1 by simp_all
    note fr3 = sq_remove_frame [OF inv2(1) assms(4) d, of p]
    have pc2: "conn c2 = ConnFile p" and "tables w3 p = tables w2 p"
      using fr fr3 assms(3,5) by simp_all
    note s3 = sq_other_table [OF this]
    have old3: "sqinv (old3, w3)"
        "sqheld (old3, w3) = (case d of Inl _ \<Rightarrow> ?S | Inr _ \<Rightarrow> drop ADOPT_BATCH ?S)"
      using fc.remove_prefix [OF inv2(1), of ADOPT_BATCH d "(old3, w3)"] d tk inv2
        fc.inv_remove [OF inv2(1) d] by (simp_all split: sum.split)
    consider (stop) e where "a = Inl e" | (stuck) n e where "a = Inr n" "d = Inl e"
      | (moved) n u where "a = Inr n" "d = Inr u"
      by (cases a; cases d) auto
    then show ?thesis
    proof cases
      case stop
      then have "copied tables V L c old w 0 0 (Inl e, c2, old, w2)"
        using c2 fr inv2 by (simp add: copied_def)
      with stop xs a b o1 unf have ?stop
        by (intro exI conjI) auto
      then show ?thesis ..
    next
      case stuck
      then have "copied tables V L c old w 0 ADOPT_BATCH (Inl e, c2, old3, w3)"
        using c2 fr fr3 old3 s3 st by (simp add: copied_def)
      with stuck xs a b d o1 unf have ?stop
        by (intro exI conjI) auto
      then show ?thesis ..
    next
      case moved
      then have "copied tables V L c old w ADOPT_BATCH ADOPT_BATCH (Inl [], c2, old3, w3)"
        using c2 fr fr3 old3 s3 st by (simp add: copied_def)
      moreover have "adopt_copy E V L c old w = adopt_copy E V L c2 old3 w3"
        using moved xs a b d o1 unf by simp
      moreover have "?S \<noteq> []"
        using tk xs(2) by auto
      ultimately show ?thesis
        by blast
    qed
  qed
qed

lemma copied_trans:
  assumes "copied tables V L c old w ADOPT_BATCH ADOPT_BATCH (x, c2, old2, w2)"
    and "copied tables V L c2 old2 w2 j k y"
  shows "copied tables V L c old w (ADOPT_BATCH + j) (ADOPT_BATCH + k) y"
  using assms by (cases y) (auto simp: copied_def take_add drop_map add.commute)

text \<open>The copying loop ends.  Having succeeded it has moved everything, in order; having
  failed, what is missing from the source is a prefix that has arrived.\<close>

lemma adopt_copy_spec:
  assumes "sqinv (c, w)" "sqinv (old, w)" "conn c = ConnFile p" "conn old = ConnFile q" "p \<noteq> q"
    and "\<forall>s \<in> set (samples_of (sqheld (old, w))). cacheable s"
  shows "\<exists>j k y. adopt_copy E V L c old w = Some y \<and> copied tables V L c old w j k y"
  using assms
proof (induction "length (sqheld (old, w))" arbitrary: c old w rule: less_induct)
  case less
  show ?case
    using adopt_copy_pass [OF less.prems]
  proof (elim disjE exE conjE)
    fix c2 old2 w2
    assume step: "adopt_copy E V L c old w = adopt_copy E V L c2 old2 w2"
      and ne: "sqheld (old, w) \<noteq> []"
      and one: "copied tables V L c old w ADOPT_BATCH ADOPT_BATCH (Inl [], c2, old2, w2)"
    have d: "sqheld (old2, w2) = drop ADOPT_BATCH (sqheld (old, w))"
      using one by (simp add: copied_def)
    then have "length (sqheld (old2, w2)) < length (sqheld (old, w))"
      using ne by (simp add: ADOPT_BATCH_def)
    moreover have "sqinv (c2, w2)" "sqinv (old2, w2)" "conn c2 = ConnFile p" "conn old2 = ConnFile q"
      using one less.prems by (simp_all add: copied_def)
    moreover have "\<forall>s \<in> set (samples_of (sqheld (old2, w2))). cacheable s"
      using less.prems(6) d by (auto dest: in_set_dropD)
    ultimately obtain j k y where "adopt_copy E V L c2 old2 w2 = Some y"
        "copied tables V L c2 old2 w2 j k y"
      using less.hyps less.prems(5) by blast
    with step one show ?thesis
      using copied_trans by metis
  qed blast
qed

lemma sq_open_spec:
  assumes "sq_open E p m w = (r, w')" "tables w p = Some t"
  shows "tables w' = tables w \<and>
    (\<forall>c. r = Inr c \<longrightarrow> conn c = ConnFile p \<and> sc_path c = p \<and> rows c = of_nat (length t))"
proof -
  have "opened tables p w0 = tables w" if "tables w0 = tables w" for w0
    using that assms(2) by (auto simp: opened_def)
  then have oc: "tables w2 = tables w \<and> (\<forall>cn. x = Inr cn \<longrightarrow> cn = ConnFile p)"
    if "open_conn E p w1 = (x, w2)" "tables w1 = tables w" for w1 w2 x
    using open_conn_tables [OF that(1)] that(2) by (cases x) auto
  have cp: "tables w1 = tables w" if "create_parent E p w = (x, w1)" for x w1
    using that by (auto simp: create_parent_def dest: keepD split: option.splits if_splits prod.splits sum.splits)
  have cr: "tables w3 = tables w \<and> (\<forall>n. x = Inr n \<longrightarrow> n = of_nat (length t))"
    if "count_rows E (ConnFile p) w2 = (x, w3)" "tables w2 = tables w" for w2 w3 x
    using that assms(2) count_ok [of p w2 _ w3 t] keepD(9) [of "ConnFile p" w2 _ w3]
    unfolding count_rows_def by (elim try_ioE) auto
  from assms(1) show ?thesis
    unfolding sq_open_def
    by (elim try_ioE)
      (auto dest!: cp oc cr simp: keep_drop split: prod.splits sum.splits)
qed

lemma remove_quietly_keep:
  assumes "p \<notin> set fs" "clean w p"
  shows "tables (remove_quietly E fs w) p = tables w p \<and> clean (remove_quietly E fs w) p"
  using assms
proof (induction fs arbitrary: w)
  case (Cons f fs)
  have "tables (snd (e_remove_file E f w)) p = tables w p"
    using Cons.prems remove_other [of f w "fst (e_remove_file E f w)" "snd (e_remove_file E f w)" p]
    by simp
  with Cons show ?case
    by (simp add: clean_keep)
qed simp

lemma sidecar_neq: "p \<notin> set (map (sidecar p) SIDECARS)"
  by (auto simp: sidecar_def SIDECARS_def)

lemma take_over_spec:
  assumes "sqinv (c, w)" "conn c = ConnFile p" "tables w p = Some []"
    and "conn old = ConnFile q" "sc_path old = q" "tables w q = Some t"
    and "set (cache_files p) \<inter> set (cache_files q) = {}"
    and "take_over E c old w = (r, c', w')"
  shows "(case r of
      Inl _ \<Rightarrow> on_disk w' p @ on_disk w' q = on_disk w q
    | Inr True \<Rightarrow> tables w' p = Some t \<and> tables w' q = None \<and> conn c' = ConnFile p \<and> sc_path c' = p \<and> rows c' = rows old
    | Inr False \<Rightarrow> tables w' p = Some [] \<and> tables w' q = Some t \<and> conn c' = ConnFile p \<and> sc_path c' = p \<and> rows c' = 0)"
proof -
  have sp: "sc_path c = p"
    using assms(1,2) by (rule sqinv_file)
  have pq: "p \<noteq> q"
    using assms(7) by (auto simp: cache_files_def)
  let ?w1 = "e_drop E (ConnFile q) w"
  obtain m w2 where m: "e_open_memory E ?w1 = (m, w2)"
    by (cases "e_open_memory E ?w1")
  have t2: "tables w2 = tables w"
    using keepD(2) [OF m] by (simp add: keep_drop)
  let ?w3 = "e_drop E (ConnFile p) w2"
  let ?fs = "map (sidecar p) SIDECARS"
  let ?w4 = "remove_quietly E ?fs ?w3"
  have "clean w2 q"
    using clean_keep(2) [OF clean_drop, of q w] m by simp
  then have cl: "clean ?w3 q" "clean ?w3 p"
    by (simp_all add: clean_keep clean_drop)
  have qn: "q \<notin> set ?fs"
    using assms(7) by (auto simp: cache_files_def)
  have w4: "tables ?w4 p = Some []" "tables ?w4 q = Some t" "clean ?w4 p" "clean ?w4 q"
    using remove_quietly_keep [OF sidecar_neq cl(2)] remove_quietly_keep [OF qn cl(1)]
      t2 assms(3,6) by (simp_all add: keep_drop)
  obtain x w5 where x: "e_rename E q p ?w4 = (x, w5)"
    by (cases "e_rename E q p ?w4")
  obtain y w6 where y: "open_conn E p w5 = (y, w6)"
    by (cases "open_conn E p w5")
  have w5: "tables w5 p = Some (if isl x then [] else t)" "tables w5 q = (if isl x then Some t else None)"
    using x rename_ok [of q p ?w4 _ w5] rename_err [of q p ?w4 _ w5] w4 pq by (cases x; auto)+
  then have w6: "tables w6 p = tables w5 p" "tables w6 q = tables w5 q"
      "\<And>cn. y = Inr cn \<Longrightarrow> cn = ConnFile p"
    using open_conn_tables [OF y] pq by (cases y; auto simp: opened_def)+
  show ?thesis
    using assms m x y w5 w6 sp t2
    by (cases m; cases y; cases x)
      (auto simp: take_over_def Let_def disk_samples_def)
qed

text \<open>The rest of \<^verbatim>\<open>adopt\<close> once both files are open.\<close>

lemma adopt_rest_spec:
  assumes "sqinv (c, w)" "sqinv (old, w)" "conn c = ConnFile p" "conn old = ConnFile q"
    and "set (cache_files p) \<inter> set (cache_files q) = {}"
    and "\<forall>s \<in> set (on_disk w q). cacheable s"
  shows "\<exists>r c' w'. adopt_rest E V L c old n w = Some (r, c', w') \<and>
    mset (on_disk w p @ on_disk w q) \<subseteq># mset (on_disk w' p @ on_disk w' q) \<and>
    (\<not> isl r \<longrightarrow> r = Inr n \<and> sqinv (c', w') \<and> tables w' q = None \<and>
       samples_of (sqheld (c', w')) = on_disk w p @ on_disk w q)"
proof -
  have pq: "p \<noteq> q"
    using assms(5) by (auto simp: cache_files_def)
  have cach: "\<forall>s \<in> set (samples_of (sqheld (old, w))). cacheable s"
    using assms(6) held_on_disk [OF assms(4)] by simp
  note hd = held_on_disk [OF assms(3)] held_on_disk [OF assms(4)]
  obtain j k r c1 old1 w1 where
      y: "adopt_copy E V L c old w = Some (r, c1, old1, w1)"
      "copied tables V L c old w j k (r, c1, old1, w1)"
    using adopt_copy_spec [OF assms(1-4) pq cach] by (metis prod_cases4)
  have c1: "sqinv (c1, w1)" "conn c1 = ConnFile p" "conn old1 = ConnFile q" "sc_path old1 = sc_path old"
      "j \<le> k" "\<not> isl r \<longrightarrow> j = k \<and> length (sqheld (old, w)) \<le> j"
      "samples_of (sqheld (c1, w1)) = on_disk w p @ take k (on_disk w q)"
      "sqheld (old1, w1) = drop j (sqheld (old, w))"
    using y(2) assms(3,4) hd [of w] by (auto simp: copied_def)
  have d1: "on_disk w1 p = on_disk w p @ take k (on_disk w q)"
      "on_disk w1 q = drop j (on_disk w q)"
    using held_on_disk [OF c1(2), of w1] held_on_disk [OF c1(3), of w1] c1(7,8) hd(2) [of w]
    by (simp_all flip: drop_map)
  have oq: "sc_path old = q"
    using assms(2,4) by (rule sqinv_file)
  have loss1: "mset (on_disk w p @ on_disk w q) \<subseteq># mset (on_disk w1 p @ on_disk w1 q)"
  proof -
    have "drop k (on_disk w q) = drop (k - j) (drop j (on_disk w q))"
      using c1(5) by simp
    then have "mset (drop k (on_disk w q)) \<subseteq># mset (drop j (on_disk w q))"
      using mset_take_drop [of "k - j" "drop j (on_disk w q)"] by (metis mset_subset_eq_add_right)
    then show ?thesis
      using mset_take_drop [of k "on_disk w q"]
      by (simp add: d1) (metis subset_mset.add_left_mono)
  qed
  show ?thesis
  proof (cases r)
    case (Inl e)
    let ?w = "e_drop E (conn old1) w1"
    have "on_disk ?w p = on_disk w1 p" "on_disk ?w q = on_disk w1 q"
      by (simp_all add: disk_samples_def keep_drop)
    then show ?thesis
      using loss1 y(1) Inl by (simp add: adopt_rest_def)
  next
    case (Inr u)
    have "length (on_disk w q) = length (sqheld (old, w))"
      using arg_cong [OF hd(2) [of w], of length] by simp
    then have jk: "take k (on_disk w q) = on_disk w q" "drop j (on_disk w q) = []"
      using c1(6) Inr by simp_all
    obtain x w2 where x: "unlink E q (e_drop E (conn old1) w1) = (x, w2)"
      by (cases "unlink E q (e_drop E (conn old1) w1)")
    have tp: "tables w2 p = tables w1 p"
      using unlink_other [OF x, of p] assms(5) by (simp add: keep_drop Int_commute)
    then have "on_disk w2 p = on_disk w p @ on_disk w q"
      using on_disk_cong [OF tp] d1(1) jk by simp
    moreover have "x = Inr v \<Longrightarrow> tables w2 q = None" for v
      using unlink_gone x by simp
    ultimately show ?thesis
      using y(1) Inr x c1 oq jk sq_other_table [OF c1(2) tp]
      by (cases x) (simp_all add: adopt_rest_def sq_delete_def)
  qed
qed

lemma sqinv_of_table:
  "conn c = ConnFile p \<Longrightarrow> sc_path c = p \<Longrightarrow> tables w p = Some t \<Longrightarrow> table_ok V L t \<Longrightarrow>
   rows c = of_nat (length t) \<Longrightarrow> sqinv (c, w)"
  by (simp add: sq_inv_def)

lemma empty_table_ok [simp]: "table_ok V L []"
  by (simp add: table_ok_def ids_ok_def)

lemma of_nat_length_zero:
  assumes "table_ok V L t"
  shows "(of_nat (length t) :: u64) = 0 \<longleftrightarrow> t = []"
proof -
  have "length t < 2 ^ LENGTH(64)"
    using ids_ok_length [of t] assms by (simp add: table_ok_def)
  then have "unat (of_nat (length t) :: u64) = length t"
    by (rule unat_of_nat_small)
  then have "length t = 0" if "(of_nat (length t) :: u64) = 0"
    using that by simp
  then show ?thesis
    by auto
qed

text \<open>Adoption, whole: it returns; no frame that was in either file is lost, whatever
  fails; and a successful adoption leaves the older file's frames behind the ones
  already held, in order, and the older file gone.\<close>

lemma adopt_spec:
  assumes "sqinv (c, w)" "conn c = ConnFile p" "e_exists E q w"
    and t: "tables w q = Some t" "table_ok V L t" "\<forall>s \<in> set (on_disk w q). cacheable s"
    and dis: "set (cache_files p) \<inter> set (cache_files q) = {}"
  shows "\<exists>r c' w'. adopt E V L (c, w) q = Some (r, c', w') \<and>
    mset (on_disk w p @ on_disk w q) \<subseteq># mset (on_disk w' p @ on_disk w' q) \<and>
    (\<not> isl r \<longrightarrow> r = Inr (of_nat (length t)) \<and> sqinv (c', w') \<and> tables w' q = None \<and>
       samples_of (sqheld (c', w')) = on_disk w p @ on_disk w q)"
proof -
  obtain tp where tp: "sc_path c = p" "tables w p = Some tp" "table_ok V L tp" "rows c = of_nat (length tp)"
    using assms(1,2) by (rule sqinv_file)
  have qp: "q \<noteq> p"
    using dis by (auto simp: cache_files_def)
  obtain x w1 where x: "sq_open E q (- 1) w = (x, w1)"
    by (cases "sq_open E q (- 1) w")
  note o1 = sq_open_spec [OF x t(1)]
  then have d1: "on_disk w1 = on_disk w"
    by (simp add: disk_samples_def fun_eq_iff)
  note unf = adopt_def [of E V L "(c, w)" q]
  show ?thesis
  proof (cases x)
    case (Inl e)
    then show ?thesis
      using unf x assms(3) qp tp(1) d1 by simp
  next
    case (Inr old)
    then have old: "conn old = ConnFile q" "sc_path old = q" "rows old = of_nat (length t)"
      using o1 by auto
    have inv1: "sqinv (c, w1)"
      using assms(1) o1 sq_same [of w1 w] by simp
    have invo: "sqinv (old, w1)"
      using old o1 t by (intro sqinv_of_table) simp_all
    consider (none) "t = []" | (rename) "t \<noteq> []" "tp = []" | (copy) "t \<noteq> []" "tp \<noteq> []"
      by blast
    then show ?thesis
    proof cases
      case none
      obtain y w2 where y: "sq_delete E old w1 = (y, w2)"
        by (cases "sq_delete E old w1")
      have "tables w2 p = tables w p"
        using y unlink_other [of q _ y w2 p] dis old o1
        by (simp add: sq_delete_def keep_drop Int_commute)
      moreover have "y = Inr u \<Longrightarrow> tables w2 q = None" for u
        using y unlink_gone old by (simp add: sq_delete_def)
      ultimately show ?thesis
        using unf x Inr assms(1-3) qp tp(1) none old y t(1) on_disk_cong [of w2 p w]
          held_on_disk [OF assms(2), of w] sq_other_table [OF assms(2), of w2 w]
        by (cases y) (auto simp: disk_samples_def [of _ _ _ _ q] Let_def)
    next
      case copy
      then have "rows old \<noteq> 0" "rows c \<noteq> 0"
        using old tp of_nat_length_zero t(2) by auto
      then show ?thesis
        using unf x Inr assms(3) qp tp(1) adopt_rest_spec [OF inv1 invo assms(2) old(1) dis] t(3) old(3)
        by (simp add: d1 Let_def)
    next
      case rename
      then have nz: "rows old \<noteq> 0" "rows c = 0"
        using old tp of_nat_length_zero t(2) by auto
      obtain y c2 w2 where y: "take_over E c old w1 = (y, c2, w2)"
        by (metis prod_cases3)
      have tabs: "tables w1 p = Some []" "tables w1 q = Some t"
        using o1 tp(2) t(1) rename by simp_all
      note to = take_over_spec [OF inv1 assms(2) tabs(1) old(1,2) tabs(2) dis y]
      have wp: "on_disk w p = []"
        using tp(2) rename by (simp add: disk_samples_def)
      have rest: "adopt E V L (c, w) q = (case (y, c2, w2) of
                (Inl e, c, w) \<Rightarrow> Some (Err e, c, w)
              | (Inr True, c, w) \<Rightarrow> Some (Ok (rows old), c, w)
              | (Inr False, c, w) \<Rightarrow>
                  (case sq_open E q (- 1) w of
                     (Inl e, w) \<Rightarrow> Some (Err e, c, w)
                   | (Inr old', w) \<Rightarrow> adopt_rest E V L c old' (rows old) w))"
        using unf x Inr assms(3) qp tp(1) nz y by (simp add: Let_def)
      consider (err) e where "y = Inl e" | (moved) "y = Inr True" | (again) "y = Inr False"
        by (cases y) auto
      then show ?thesis
      proof cases
        case err
        then show ?thesis
          using rest to d1 wp by (simp flip: mset_append)
      next
        case moved
        then have "sqinv (c2, w2)" "on_disk w2 p = on_disk w q" "conn c2 = ConnFile p"
          using to old t by (auto intro: sqinv_of_table simp: disk_samples_def)
        then show ?thesis
          using rest moved to wp old(3) held_on_disk [of c2 p w2] by simp
      next
        case again
        obtain z w3 where z: "sq_open E q (- 1) w2 = (z, w3)"
          by (cases "sq_open E q (- 1) w2")
        have c2: "conn c2 = ConnFile p" "sc_path c2 = p" "rows c2 = 0" "tables w2 p = Some []"
            "tables w2 q = Some t"
          using to again by simp_all
        note o3 = sq_open_spec [OF z c2(5)]
        have d3: "on_disk w3 p = []" "on_disk w3 q = on_disk w q"
          using o3 c2 t(1) by (simp_all add: disk_samples_def)
        show ?thesis
        proof (cases z)
          case (Inl e)
          then show ?thesis
            using rest again z d3 wp by simp
        next
          case (Inr old3)
          have "sqinv (c2, w3)" "sqinv (old3, w3)" "conn old3 = ConnFile q"
            using o3 c2 Inr t(2) by (auto intro: sqinv_of_table)
          then show ?thesis
            using rest again z Inr adopt_rest_spec [of c2 w3 old3 p q] c2(1) dis t(3) d3 wp old(3)
            by simp
        qed
      qed
    qed
  qed
qed

end

text \<open>C13: adopting an older install's cache never loses a frame, whatever call fails: every
  frame of either file is in one of them afterwards.  It always returns, and when it
  reports success the older file is gone and its frames stand behind those already
  held, in order.\<close>

theorem adopt_never_loses:
  assumes "sqlite_store E tables pending clean V L"
    and "sq_inv tables V L (c, w)" "conn c = ConnFile p" "e_exists E q w"
    and "tables w q = Some t" "table_ok V L t"
    and "\<forall>s \<in> set (disk_samples tables V L w q). cacheable s"
    and "set (cache_files p) \<inter> set (cache_files q) = {}"
  shows "\<exists>r c' w'. adopt E V L (c, w) q = Some (r, c', w') \<and>
    mset (disk_samples tables V L w p @ disk_samples tables V L w q)
      \<subseteq># mset (disk_samples tables V L w' p @ disk_samples tables V L w' q) \<and>
    (\<not> isl r \<longrightarrow> r = Inr (of_nat (length t)) \<and> sq_inv tables V L (c', w') \<and> tables w' q = None \<and>
       samples_of (sq_held tables V L (c', w')) =
         disk_samples tables V L w p @ disk_samples tables V L w q)"
  using assms by (rule sqlite_store.adopt_spec)

definition ex_row :: "Sample \<Rightarrow> sqlval row" where
  "ex_row s = encode_row ref_conv ref_lib s"

definition ex_world :: "bool list \<Rightarrow> ref_world" where
  "ex_world fl =
     \<lparr> disk = [''new.db'' \<mapsto> [], ''old.db'' \<mapsto> [(4, ex_row ex_modbus), (7, ex_row ex_can)]],
       txn = (\<lambda>_. []), present = (\<lambda>p. p \<in> {''new.db'', ''old.db''}), faults = fl \<rparr>"

definition ex_cache :: SqliteCache where
  "ex_cache = \<lparr> conn = ConnFile ''new.db'', sc_path = ''new.db'', max_bytes = 1048576, rows = 0 \<rparr>"

lemma ex_modbus_cacheable: "cacheable ex_modbus"
  using ex_samples_ok by (simp add: cacheable_def) (simp add: ex_modbus_def)

lemma ex_rows_decode:
  "decode_row ref_conv ref_lib (ex_row ex_modbus) = Inr ex_modbus"
  "decode_row ref_conv ref_lib (ex_row ex_can) = Inr ex_can"
  unfolding ex_row_def
  by (simp_all add: ref.encode_decodes ex_modbus_cacheable ex_can_cacheable)

lemma ex_world_facts:
  "sq_inv disk ref_conv ref_lib (ex_cache, ex_world fl)"
  "disk (ex_world fl) ''old.db'' = Some [(4, ex_row ex_modbus), (7, ex_row ex_can)]"
  "table_ok ref_conv ref_lib [(4, ex_row ex_modbus), (7, ex_row ex_can)]"
  "disk_samples disk ref_conv ref_lib (ex_world fl) ''old.db'' = [ex_modbus, ex_can]"
  "e_exists ref_engine ''old.db'' (ex_world fl)"
  by (simp_all add: sq_inv_def ex_cache_def ex_world_def table_ok_def ids_ok_def ex_rows_decode
      disk_samples_def read_row_def ref_engine_def)

theorem adopt_never_loses_witness:
  "\<exists>r c' w'. adopt ref_engine ref_conv ref_lib (ex_cache, ex_world [False, True]) ''old.db'' = Some (r, c', w') \<and>
     mset [ex_modbus, ex_can] \<subseteq># mset (disk_samples disk ref_conv ref_lib w' ''new.db'' @
                                       disk_samples disk ref_conv ref_lib w' ''old.db'')"
proof -
  have "\<forall>s \<in> set (disk_samples disk ref_conv ref_lib (ex_world [False, True]) ''old.db''). cacheable s"
    by (simp add: ex_world_facts ex_modbus_cacheable ex_can_cacheable)
  moreover have "set (cache_files ''new.db'') \<inter> set (cache_files ''old.db'') = {}"
    by (simp add: cache_files_def SIDECARS_def sidecar_def)
  moreover have "disk_samples disk ref_conv ref_lib (ex_world [False, True]) ''new.db'' = []"
    by (simp add: disk_samples_def ex_world_def)
  moreover have "conn ex_cache = ConnFile ''new.db''"
    by (simp add: ex_cache_def)
  ultimately show ?thesis
    using adopt_never_loses [of ref_engine disk txn "\<lambda>_ _. True" ref_conv ref_lib ex_cache
        "ex_world [False, True]" "''new.db''" "''old.db''" "[(4, ex_row ex_modbus), (7, ex_row ex_can)]",
        OF ref.sqlite_store_axioms ex_world_facts(1)]
      ex_world_facts by auto
qed

section \<open>A queue\<close>

text \<open>C12: whatever the engine refuses, the disk cache is a first-in first-out queue: after any
  sequence of appends and drains it holds exactly what the abstract queue holds when
  the refused calls are left out, and its row counter is exact.\<close>

theorem sqlite_cache_is_fifo:
  assumes "sqlite_store E tables pending clean V L" "sq_inv tables V L cw"
    and "\<forall>x \<in> set calls. call_ok cacheable x"
    and "cache_calls (sq_append E V L) (sq_oldest E V L) (sq_remove E) calls cw = (oks, cw')"
  shows "samples_of (sq_held tables V L cw') = fifo_calls calls oks (samples_of (sq_held tables V L cw)) \<and>
    sq_inv tables V L cw' \<and>
    unat (rows (fst cw')) = length (sq_held tables V L cw')"
proof -
  have loc: "frame_cache (sq_append E V L) (sq_oldest E V L) (sq_remove E) sq_count (sq_reset E)
      (sq_held tables V L) (sq_inv tables V L) cacheable"
    using assms(1) by (rule sqlite_store.store_is_frame_cache)
  have "samples_of (sq_held tables V L cw') = fifo_calls calls oks (samples_of (sq_held tables V L cw))"
    and inv: "sq_inv tables V L cw'"
    using frame_cache.cache_calls_fifo [OF loc assms(2-4)] by simp_all
  moreover have "unat (rows (fst cw')) = length (sq_held tables V L cw')"
    using frame_cache.count_ok [OF loc inv] by (simp add: sq_count_def)
  ultimately show ?thesis
    by simp
qed

definition ex_calls :: "cache_call list" where
  "ex_calls = [CallAppend [ex_can], CallAppend [ex_modbus], CallDrain 1]"

theorem sqlite_cache_is_fifo_witness:
  "\<exists>oks cw'. cache_calls (sq_append ref_engine ref_conv ref_lib) (sq_oldest ref_engine ref_conv ref_lib)
       (sq_remove ref_engine) ex_calls (ex_cache, ex_world [True]) = (oks, cw') \<and>
     samples_of (sq_held disk ref_conv ref_lib cw') = fifo_calls ex_calls oks []"
proof -
  obtain oks cw' where run: "cache_calls (sq_append ref_engine ref_conv ref_lib)
       (sq_oldest ref_engine ref_conv ref_lib) (sq_remove ref_engine) ex_calls (ex_cache, ex_world [True])
     = (oks, cw')"
    using prod.exhaust by blast
  moreover have "\<forall>x \<in> set ex_calls. call_ok cacheable x"
    by (simp add: ex_calls_def call_ok_def ex_can_cacheable ex_modbus_cacheable)
  moreover have "sq_held disk ref_conv ref_lib (ex_cache, ex_world [True]) = []"
    by (simp add: sq_held_def ex_cache_def ex_world_def)
  ultimately show ?thesis
    using sqlite_cache_is_fifo [OF ref.sqlite_store_axioms ex_world_facts(1)] by fastforce
qed

section \<open>A reset that fails\<close>

text \<open>Once a reset has failed after closing the database, every later append of a frame
  is refused: the connection is the in-memory placeholder, which has no table, although
  the interface says that reset leaves the store usable.\<close>

theorem failed_reset_refuses_frames:
  assumes "sqlite_store E tables pending clean V L"
    and "fst (e_open_memory E w) = Inr u" "sq_reset E (c, w) = (Inl e, c', w')"
    and "fs \<noteq> []"
  shows "isl (fst (sq_append E V L (c', v) fs)) \<and> fst (snd (sq_append E V L (c', v) fs)) = c'"
proof -
  have "conn c' = ConnMemory"
    using assms(2,3) by (auto simp: sq_reset_def Let_def split: prod.splits sum.splits)
  then show ?thesis
    using sqlite_store.append_memory [OF assms(1) _ assms(4)] by (metis prod.collapse)
qed

theorem failed_reset_refuses_frames_witness:
  "isl (fst (sq_append ref_engine ref_conv ref_lib
     (fst (snd (sq_reset ref_engine (ex_cache, ex_world [False, True]))), ex_world []) [ex_can]))"
  using failed_reset_refuses_frames [OF ref.sqlite_store_axioms, of "ex_world [False, True]" "()"
      ex_cache _ _ _ "[ex_can]" "ex_world []"]
  by (simp add: ref_engine_def guarded_def ex_world_def ex_cache_def sq_reset_def unlink_def
      cache_files_def Let_def)

end
