(* ===== verification/Forward_Contract.thy ===== *)
theory Forward_Contract
  imports Forward_Sink Cache_Adopt
begin

text \<open>
  What the forwarding client promises the worker: the laws of \<open>batch_sink\<close> for
  \<^verbatim>\<open>ForwardSink\<close> of \<^verbatim>\<open>crates/wiretap-server/src/forward.rs\<close>, the accounting of the frames
  it quarantines in the dead-letter file, and what a handshake may change.
\<close>

section \<open>What an operation leaves alone\<close>

lemma pull_fields:
  "pull X as rx s = (rx', s') \<Longrightarrow> fs_settled s' = fs_settled s \<and> fs_acked s' = fs_acked s \<and>
     fs_quarantined s' = fs_quarantined s \<and> fs_world s' = fs_world s \<and> fs_dead_letter s' = fs_dead_letter s \<and>
     fs_version s' = fs_version s \<and> fs_raw_serial s' = fs_raw_serial s"
  by (auto simp: pull_def split: prod.splits)

lemma open_session_fields:
  "open_session X rx ack s = (r, s') \<Longrightarrow> fs_settled s' = fs_settled s \<and> fs_acked s' = fs_acked s \<and>
     fs_quarantined s' = fs_quarantined s \<and> fs_world s' = fs_world s \<and> fs_dead_letter s' = fs_dead_letter s \<and>
     fs_version s' = fs_version s \<and> fs_raw_serial s' = fs_raw_serial s"
  by (auto simp: open_session_def status_message_def Let_def dest!: pull_fields
      split: if_splits sum.splits option.splits prod.splits)

lemma connect_fields:
  "fwd_connect X s = (r, s') \<Longrightarrow> fs_settled s' = fs_settled s \<and> fs_acked s' = fs_acked s \<and>
     fs_quarantined s' = fs_quarantined s \<and> fs_world s' = fs_world s \<and> fs_dead_letter s' = fs_dead_letter s \<and>
     fs_raw_serial s' = fs_raw_serial s"
  by (auto simp: fwd_connect_def Let_def dest!: open_session_fields split: if_splits sum.splits prod.splits)

lemma keep_alive_fields:
  "fwd_keep_alive X s = (r, s') \<Longrightarrow> fs_settled s' = fs_settled s \<and> fs_acked s' = fs_acked s \<and>
     fs_quarantined s' = fs_quarantined s \<and> fs_world s' = fs_world s \<and> fs_dead_letter s' = fs_dead_letter s \<and>
     fs_version s' = fs_version s \<and> fs_raw_serial s' = fs_raw_serial s"
  by (auto simp: fwd_keep_alive_def Let_def dest!: status_fields conn_send_fields conn_recv_fields
      split: if_splits sum.splits prod.splits)

section \<open>The sink's contract\<close>

lemma write_batch_contract:
  assumes "fwd_write_batch X s b = (r, s')"
  shows "case r of
      Inl e \<Rightarrow> delivered e \<le> length b \<and> fs_settled s' = fs_settled s @ take (delivered e) b
    | Inr _ \<Rightarrow> fs_settled s' = fs_settled s @ b"
proof -
  obtain x s1 where x: "send_status_if_changed (fe_Q X) s = (x, s1)"
    by (cases "send_status_if_changed (fe_Q X) s")
  note st = status_fields [OF x]
  show ?thesis
  proof (cases x)
    case (Inl e)
    with assms x st show ?thesis
      by (auto simp: fwd_write_batch_def)
  next
    case (Inr u)
    then have w: "write_from X b 0 s1 = (r, s')"
      using assms x by (simp add: fwd_write_batch_def)
    show ?thesis
      using write_from_settles [OF w] st by (cases r) auto
  qed
qed

interpretation fwd: batch_sink "fwd_connect X" "fwd_write_batch X" "fwd_keep_alive X" fwd_close fs_settled
  for X
proof (unfold_locales, goal_cases)
  case (1 s b u s')
  then show ?case using write_batch_contract [of X s b "Inr u" s'] by simp
next
  case (2 s b e s')
  then show ?case using write_batch_contract [of X s b "Inl e" s'] by simp
next
  case (3 s r s')
  then show ?case by (simp add: connect_fields)
next
  case (4 s r s')
  then show ?case by (simp add: keep_alive_fields)
next
  case (5 s)
  then show ?case by (simp add: fwd_close_def)
qed

text \<open>C4: a batch is settled from the front.  A write that succeeds has had every frame of the
  batch acknowledged or quarantined, in order; one that fails names how many, that
  many are settled and no other, so a caller that keeps the rest loses and repeats none.\<close>

theorem write_batch_settles_prefix:
  "case fwd_write_batch X s b of
     (Inr _, s') \<Rightarrow> fs_settled s' = fs_settled s @ b
   | (Inl e, s') \<Rightarrow> delivered e \<le> length b \<and> fs_settled s' = fs_settled s @ take (delivered e) b"
  using fwd.write_ok [of X s b] fwd.write_err [of X s b]
  by (cases "fwd_write_batch X s b"; cases "fst (fwd_write_batch X s b)") auto

section \<open>Falling back to the older protocol\<close>

text \<open>The protocol is lowered only for a gateway that asks for it.  A connect leaves the
  version as it was, or takes it from 3 to 2, and then the gateway refused the
  \<^verbatim>\<open>HELLO\<close> as a bad version, named version 2, and no line of this server is captured raw,
  which version 2 cannot carry.\<close>

theorem version_falls_back_only_when_asked:
  assumes "fwd_connect X s = (r, s')"
  shows "fs_version s' = fs_version s \<or>
    fs_version s = 3 \<and> fs_version s' = 2 \<and> \<not> fs_raw_serial s \<and>
    (\<exists>rx ack net. handshake (fe_Q X) s (fs_net s) = (Inr (rx, ack), net) \<and>
       ha_status ack = HELLO_BAD_VERSION (fe_Q X) \<and> ha_accepted_version ack = 2)"
  using assms
  by (auto simp: fwd_connect_def may_fall_back_def Let_def dest!: open_session_fields
      split: if_splits sum.splits prod.splits)

section \<open>Catalogues pulled from a gateway\<close>

lemma cat_store_cached:
  assumes "cat_store A sha blob k = (Inr c, k')"
  shows "cat_cached A k' sha = Ok c"
proof -
  obtain path k1 where p: "blob_path k sha = Some path" "checked A sha blob path = Inr c"
      "write_atomically path blob k = (Inr (), k1)" "k' = k1"
    using assms by (auto simp: cat_store_def split: option.splits sum.splits prod.splits)
  then have "files k' path = Some blob" "blob_path k' sha = Some path"
    using write_files [of path blob k] write_fields(1) [of path blob k] by (simp_all add: blob_path_def)
  with p show ?thesis
    by (simp add: cat_cached_def)
qed

lemma catalogue_of_keeps:
  assumes "catalogue_of X sha (net, rx, k) = (r, net', rx', k')" "cat_inv (fe_A X) k"
  shows "cat_inv (fe_A X) k' \<and> (\<forall>u. update_ok (fe_A X) k u \<longrightarrow> update_ok (fe_A X) k' u) \<and>
    (\<forall>c. r = Inr c \<longrightarrow> cat_cached (fe_A X) k' (blob_sha1_hex sha) = Ok c)"
proof (cases "cat_cached (fe_A X) k (blob_sha1_hex sha)")
  case (Inr c)
  with assms show ?thesis
    by (auto simp: catalogue_of_def)
next
  case (Inl e)
  then have miss: "isl (cat_cached (fe_A X) k (blob_sha1_hex sha))"
    by simp
  show ?thesis
    using assms Inl cat_store_keeps [OF assms(2) miss] cat_store_other [OF miss]
      cat_store_cached [of "fe_A X" "blob_sha1_hex sha" _ k]
    by (auto simp: catalogue_of_def Let_def update_ok_def split: prod.splits sum.splits Update.splits)
      (metis snd_conv)+
qed

lemma pull_updates_keeps:
  assumes "pull_updates X f is (net, rx, k) = (us, net', rx', k')" "cat_inv (fe_A X) k"
  shows "cat_inv (fe_A X) k' \<and> (\<forall>u. update_ok (fe_A X) k u \<longrightarrow> update_ok (fe_A X) k' u) \<and>
    (\<forall>u \<in> snd ` set us. update_ok (fe_A X) k' u)"
  using assms
proof (induction "is" arbitrary: net rx k us)
  case (Cons i "is")
  show ?case
  proof (cases "f i")
    case None
    then obtain us1 where "pull_updates X f is (net, rx, k) = (us1, net', rx', k')" "us = (i, Cleared) # us1"
      using Cons.prems(1) by (auto simp: Let_def split: prod.splits)
    with Cons.IH Cons.prems(2) show ?thesis
      by (fastforce simp: update_ok_def)
  next
    case (Some sha)
    obtain r net1 rx1 k1 where c: "catalogue_of X sha (net, rx, k) = (r, net1, rx1, k1)"
      by (metis prod_cases4)
    note keeps = catalogue_of_keeps [OF c Cons.prems(2)]
    obtain us1 u where us: "pull_updates X f is (net1, rx1, k1) = (us1, net', rx', k')" "us = (i, u) # us1"
        "u = (case r of Inr x \<Rightarrow> Assigned (blob_sha1_hex sha) x | Inl (q, why) \<Rightarrow> Refused sha q)"
      using Cons.prems(1) Some c by (auto simp: Let_def split: prod.splits sum.splits)
    have "update_ok (fe_A X) k1 u"
      using keeps us(3) by (auto simp: update_ok_def split: sum.splits prod.splits)
    with Cons.IH [OF us(1)] keeps us(2) show ?thesis
      by auto
  qed
qed simp

lemma pull_keeps:
  assumes "pull X as rx s = (rx', s')" "cat_inv (fe_A X) (fs_catalogues s)"
  shows "cat_inv (fe_A X) (fs_catalogues s')"
proof -
  obtain us net rx1 k where u: "pull_updates X (assigned_sha s as)
      (owned_by (fs_catalogues s) (fs_database s)) (fs_net s, rx, fs_catalogues s) = (us, net, rx1, k)"
    by (metis prod_cases4)
  have "cat_inv (fe_A X) (cat_apply (fe_A X) us k)"
    using pull_updates_keeps [OF u assms(2)] by (intro cat_apply_keeps(1)) auto
  with assms(1) u show ?thesis
    by (auto simp: pull_def)
qed

lemma connect_keeps_catalogues:
  assumes "fwd_connect X s = (r, s')" "cat_inv (fe_A X) (fs_catalogues s)"
  shows "cat_inv (fe_A X) (fs_catalogues s')"
proof -
  have "cat_inv (fe_A X) (fs_catalogues t')"
    if "open_session X rx ack t = (x, t')" "fs_catalogues t = fs_catalogues s" for rx ack t x t'
    using that assms(2) pull_keeps [of X "ha_assignments ack" rx t]
    by (auto simp: open_session_def status_message_def Let_def
        split: if_splits sum.splits option.splits prod.splits)
  with assms show ?thesis
    by (auto simp: fwd_connect_def Let_def split: if_splits sum.splits prod.splits)
qed

text \<open>C34: a line frames only with a catalogue that is the one assigned.  After any connect,
  whatever the gateway sent and whichever writes to the state directory failed, a
  line under a gateway's catalogue has that catalogue's blob in the state directory,
  the blob hashes to the name the gateway assigned and parses to the rules in use.\<close>

theorem gateway_catalogues_are_verified:
  assumes "cat_inv (fe_A X) (fs_catalogues s)" "fwd_connect X s = (r, s')"
    and "effective (fs_catalogues s') i = Some (Gateway sha c)"
  shows "assigned (fs_catalogues s') i = Some sha \<and>
    (\<exists>path blob. blob_path (fs_catalogues s') sha = Some path \<and> files (fs_catalogues s') path = Some blob \<and>
       blob_sha1_hex (blob_sha1 (fe_A X) blob) = sha \<and> LineCatalogue_parse (fe_A X) path blob = Ok c)"
proof -
  obtain l where "(i, l) \<in> set (lines (fs_catalogues s'))" "ln_rules l = Gateway sha c"
    using assms(3) by (auto simp: effective_def dest: map_of_SomeD)
  then have "assigned (fs_catalogues s') i = Some sha" "cat_cached (fe_A X) (fs_catalogues s') sha = Ok c"
    using connect_keeps_catalogues [OF assms(2,1)] by (auto simp: cat_inv_def line_inv_def)
  then show ?thesis
    by (auto simp: cat_cached_def checked_def Let_def split: option.splits sum.splits if_splits)
qed

section \<open>Quarantined frames\<close>

text \<open>The dead-letter file as the accounting sees it: readable, if it is there at all.\<close>

definition letter_ok :: "('w \<Rightarrow> path \<Rightarrow> (i64 \<times> 'v row) list option) \<Rightarrow> 'v sqlconv \<Rightarrow> ('f, 'k) wslib
    \<Rightarrow> 'w \<Rightarrow> path \<Rightarrow> bool" where
  "letter_ok T V L w p = (case T w p of None \<Rightarrow> True | Some t \<Rightarrow> table_ok V L t)"

text \<open>Every settled frame was acknowledged or is in the dead-letter file, behind the frames
  \<open>old\<close> that were there before.\<close>

definition accounted :: "('w \<Rightarrow> path \<Rightarrow> (i64 \<times> 'v row) list option) \<Rightarrow> 'v sqlconv \<Rightarrow> ('f, 'k) wslib
    \<Rightarrow> Sample list \<Rightarrow> ('o, 'w) ForwardSink \<Rightarrow> bool" where
  "accounted T V L old s \<longleftrightarrow>
     letter_ok T V L (fs_world s) (fs_dead_letter s) \<and>
     disk_samples T V L (fs_world s) (fs_dead_letter s) = old @ fs_quarantined s \<and>
     mset (fs_settled s) = mset (fs_acked s) + mset (fs_quarantined s)"

lemma accounted_cong:
  "fs_settled s' = fs_settled s \<and> fs_acked s' = fs_acked s \<and> fs_quarantined s' = fs_quarantined s \<and>
   fs_world s' = fs_world s \<and> fs_dead_letter s' = fs_dead_letter s \<and> R \<Longrightarrow>
   accounted T V L old s \<Longrightarrow> accounted T V L old s'"
  by (simp add: accounted_def)

lemmas exchange_accounted =
  accounted_cong [OF conn_send_fields] accounted_cong [OF conn_recv_fields] accounted_cong [OF status_fields]
  accounted_cong [OF connect_fields] accounted_cong [OF keep_alive_fields]

context sqlite_store
begin

abbreviation "readable \<equiv> letter_ok tables V L"

lemma letter_cong:
  assumes "tables w' p = tables w p \<or> tables w' = opened tables p w"
  shows "readable w' p = readable w p" "on_disk w' p = on_disk w p"
  using assms by (auto simp: letter_ok_def disk_samples_def opened_def split: option.split)

lemma sq_open_letter:
  assumes "sq_open E p m w = (r, w')" "readable w p"
  shows "readable w' p \<and> on_disk w' p = on_disk w p \<and>
    (\<forall>c. r = Inr c \<longrightarrow> conn c = ConnFile p \<and> sqinv (c, w'))"
proof -
  have cp: "tables w1 = tables w" if "create_parent E p w = (x, w1)" for x w1
    using that by (auto simp: create_parent_def dest: keepD split: option.splits if_splits prod.splits sum.splits)
  show ?thesis
    using assms(1) unfolding sq_open_def
  proof (elim try_ioE)
    fix e assume "create_parent E p w = (Inl e, w')" "r = Inl e"
    then show ?thesis
      using cp letter_cong [of w' p w] assms(2) by auto
  next
    fix a w1 e assume c: "create_parent E p w = (Inr a, w1)" and o: "open_conn E p w1 = (Inl e, w')" "r = Inl e"
    show ?thesis
      using open_conn_tables [OF o(1)] cp [OF c] letter_cong [of w' p w1] letter_cong [of w1 p w] o assms(2) by auto
  next
    fix a w1 cn w2
    assume c: "create_parent E p w = (Inr a, w1)" and o: "open_conn E p w1 = (Inr cn, w2)"
      and r: "(case count_rows E cn w2 of (Inl e, w) \<Rightarrow> (Inl e, e_drop E cn w)
         | (Inr n, w) \<Rightarrow> (Inr \<lparr> conn = cn, sc_path = p, max_bytes = saturating_mul m (1024 * 1024), rows = n \<rparr>, w))
         = (r, w')"
    have cn: "cn = ConnFile p" and t2: "tables w2 = opened tables p w1"
      using open_conn_tables [OF o] by auto
    obtain t where t: "tables w2 p = Some t"
      by (simp add: t2 opened_def)
    have same: "readable w2 p" "on_disk w2 p = on_disk w p"
      using letter_cong [of w2 p w1] letter_cong [of w1 p w] t2 cp [OF c] assms(2) by auto
    obtain x w3 where x: "count_rows E cn w2 = (x, w3)"
      by (cases "count_rows E cn w2")
    have t3: "tables w3 = tables w2" and n: "x = Inr n \<Longrightarrow> n = of_nat (length t)" for n
      using x t cn count_ok [of p w2 _ w3 t] keepD(9) [of cn w2 _ w3] unfolding count_rows_def
      by (elim try_ioE; auto)+
    have "table_ok V L t"
      using same(1) t by (simp add: letter_ok_def)
    then show ?thesis
      using r x t t3 n same cn letter_cong [of w3 p w2]
        letter_cong [of "e_drop E cn w3" p w2] sqinv_of_table [of _ p w3 t]
      by (cases x) (auto simp: keep_drop)
  qed
qed

lemma letter_of_cache:
  assumes "conn c = ConnFile p" "sqinv (c, w)"
  shows "readable w p" "on_disk w p = samples_of (sqheld (c, w))"
  using assms by (auto simp: letter_ok_def sq_inv_def held_on_disk)

lemma quarantine_accounted:
  assumes X: "fe_E X = E" "fe_V X = V" "fe_L X = L"
    and "quarantine X chunk q s = (r, s')" "accounted tables V L old s" "\<forall>x \<in> set chunk. cacheable x"
  shows "accounted tables V L old s'"
proof -
  let ?p = "fs_dead_letter s" let ?w = "fs_world s"
  have ok: "readable ?w ?p" "on_disk ?w ?p = old @ fs_quarantined s"
    using assms(5) by (simp_all add: accounted_def)
  obtain x w1 where x: "sq_open E ?p (- 1) ?w = (x, w1)"
    by (cases "sq_open E ?p (- 1) ?w")
  note op = sq_open_letter [OF x ok(1)]
  show ?thesis
  proof (cases x)
    case (Inl e)
    with assms(4,5) X x op show ?thesis
      by (auto simp: quarantine_def accounted_def)
  next
    case (Inr c)
    then have c: "conn c = ConnFile ?p" "sqinv (c, w1)"
      using op by auto
    obtain y c2 w2 where y: "sq_append E V L (c, w1) chunk = (y, c2, w2)"
      by (cases "sq_append E V L (c, w1) chunk") auto
    have c2: "conn c2 = ConnFile ?p"
      using sq_append_frame [OF c(2,1) y, of ?p] c(1) by simp
    have held: "sqinv (c2, w2)"
      "samples_of (sqheld (c2, w2)) = samples_of (sqheld (c, w1)) @ (if isl y then [] else chunk)"
      using sq_append_ok [OF c(2) assms(6)] sq_append_err [OF c(2)] y by (cases y; fastforce)+
    have "readable (e_drop E (conn c2) w2) ?p"
      "on_disk (e_drop E (conn c2) w2) ?p = old @ fs_quarantined s @ (if isl y then [] else chunk)"
      using letter_cong [of "e_drop E (conn c2) w2" ?p w2] letter_of_cache [OF c2 held(1)]
        letter_of_cache [OF c] held(2) op ok by (auto simp: keep_drop)
    with assms(4,5) X x Inr y show ?thesis
      by (cases y) (auto simp: quarantine_def accounted_def Let_def)
  qed
qed

lemma take_ack_accounted:
  assumes X: "fe_E X = E" "fe_V X = V" "fe_L X = L"
    and "take_ack X b n q f s = (r, s')" "accounted tables V L old s" "\<forall>x \<in> set b. cacheable x"
  shows "accounted tables V L old s'"
proof -
  have "\<forall>x \<in> set (take n b). cacheable x"
    using assms(6) by (meson in_set_takeD)
  then show ?thesis
    using assms(4,5) quarantine_accounted [OF X _ assms(5), of "take n b" q]
    by (auto simp: take_ack_def accounted_def Let_def split: if_splits sum.splits prod.splits)
qed

lemma send_chunk_accounted:
  assumes X: "fe_E X = E" "fe_V X = V" "fe_L X = L"
    and "send_chunk X b s = (r, s')" "accounted tables V L old s" "\<forall>x \<in> set b. cacheable x"
  shows "accounted tables V L old s'"
proof -
  let ?s = "s\<lparr> fs_seq := fs_seq s + 1 \<rparr>"
  have s: "accounted tables V L old ?s"
    using assms(5) by (simp add: accounted_def)
  obtain x s1 y s2 where x: "conn_send ?s = (x, s1)" and y: "conn_recv (fe_Q X) s1 = (y, s2)"
    by (cases "conn_send ?s", cases "conn_recv (fe_Q X) (snd (conn_send ?s))") auto
  have s1: "accounted tables V L old s1"
    by (rule exchange_accounted(1) [OF x s])
  have s2: "accounted tables V L old s2"
    by (rule exchange_accounted(2) [OF y s1])
  show ?thesis
    using assms(4) x y s1 s2 take_ack_accounted [OF X _ s2 assms(6)]
    by (cases x; cases y) (auto simp: send_chunk_def Let_def split: prod.splits)
qed

lemma write_from_accounted:
  assumes X: "fe_E X = E" "fe_V X = V" "fe_L X = L"
  shows "write_from X b n s = (r, s') \<Longrightarrow> \<forall>x \<in> set b. cacheable x \<Longrightarrow>
    accounted tables V L old s \<Longrightarrow> accounted tables V L old s'"
  using X
proof (induction X b n s rule: write_from.induct)
  case (1 X b n s)
  show ?case
  proof (cases "n < length b")
    case True
    obtain x s1 where x: "send_chunk X (drop n b) s = (x, s1)"
      by (cases "send_chunk X (drop n b) s")
    have "\<forall>y \<in> set (drop n b). cacheable y"
      using "1.prems"(2) by (meson in_set_dropD)
    then have s1: "accounted tables V L old s1"
      using send_chunk_accounted [OF "1.prems"(4-6) x "1.prems"(3)] by simp
    show ?thesis
      using "1.prems" True x s1 "1.IH" [OF True x [symmetric]]
      by (cases x) (auto simp: write_from.simps [of X b n s])
  qed (use "1.prems" in \<open>auto simp: write_from.simps [of X b n s]\<close>)
qed

lemma write_batch_accounted:
  assumes X: "fe_E X = E" "fe_V X = V" "fe_L X = L"
    and "fwd_write_batch X s b = (r, s')" "\<forall>x \<in> set b. cacheable x" "accounted tables V L old s"
  shows "accounted tables V L old s'"
proof -
  obtain x s1 where x: "send_status_if_changed (fe_Q X) s = (x, s1)"
    by (cases "send_status_if_changed (fe_Q X) s")
  have "accounted tables V L old s1"
    by (rule exchange_accounted(3) [OF x assms(6)])
  then show ?thesis
    using assms(4) x write_from_accounted [OF X _ assms(5)]
    by (cases x) (auto simp: fwd_write_batch_def)
qed

end

text \<open>Any use the worker makes of the sink.\<close>

datatype sink_call = Connect | WriteBatch "Sample list" | KeepAlive | CloseSink

definition sink_step :: "('v, 'w, 'f, 'k, 'o) fenv \<Rightarrow> sink_call \<Rightarrow> ('o, 'w) ForwardSink \<Rightarrow> ('o, 'w) ForwardSink"
  where
  "sink_step X k s =
     (case k of
        Connect \<Rightarrow> snd (fwd_connect X s)
      | WriteBatch b \<Rightarrow> snd (fwd_write_batch X s b)
      | KeepAlive \<Rightarrow> snd (fwd_keep_alive X s)
      | CloseSink \<Rightarrow> fwd_close s)"

text \<open>C5: no frame is settled without a place.  Over any sequence of calls, with any gateway,
  network and disk, the frames a \<^verbatim>\<open>ForwardSink\<close> has settled are exactly those the gateway
  acknowledged and those it wrote to the dead-letter file, which stand in that file in
  order behind what it held before.\<close>

theorem settled_frames_accounted:
  assumes "sqlite_store (fe_E X) tables pending clean (fe_V X) (fe_L X)"
    and "accounted tables (fe_V X) (fe_L X) old s"
    and "\<forall>b. WriteBatch b \<in> set ks \<longrightarrow> (\<forall>x \<in> set b. cacheable x)"
  shows "accounted tables (fe_V X) (fe_L X) old (fold (sink_step X) ks s)"
  using assms(2,3)
proof (induction ks arbitrary: s)
  case (Cons k ks)
  have "accounted tables (fe_V X) (fe_L X) old (sink_step X k s)"
  proof (cases k)
    case (WriteBatch b)
    then show ?thesis
      using sqlite_store.write_batch_accounted [OF assms(1) refl refl refl _ _ Cons.prems(1)] Cons.prems(2)
      by (cases "fwd_write_batch X s b") (auto simp: sink_step_def)
  next
    case Connect
    then show ?thesis
      using exchange_accounted(4) [OF surjective_pairing Cons.prems(1)] by (simp add: sink_step_def)
  next
    case KeepAlive
    then show ?thesis
      using exchange_accounted(5) [OF surjective_pairing Cons.prems(1)] by (simp add: sink_step_def)
  qed (use Cons.prems(1) in \<open>simp add: sink_step_def fwd_close_def accounted_def\<close>)
  then show ?case
    using Cons by simp
qed simp

section \<open>A gateway to talk to\<close>

text \<open>A codec of three-byte messages, a type and two bytes, for the examples.\<close>

definition ref_proto :: "RefFrame proto" where
  "ref_proto =
     \<lparr> p_frame_at = (\<lambda>bs. if length bs < 3 then Ok None
          else Ok (Some (\<lparr> wf_mtype = bs ! 0, wf_body = [bs ! 1, bs ! 2], wf_crc_ok = True \<rparr>, 2))),
       p_hello_v2 = (\<lambda>key db. \<lparr> h_version = 2, h_key = key, h_database = db, h_daemon_id = [], h_devices = [] \<rparr>),
       p_encode_hello = (\<lambda>h. Ok [h_version h]),
       p_parse_hello_ack = (\<lambda>b. Ok \<lparr> ha_status = b ! 0, ha_accepted_version = b ! 1, ha_assignments = [(0, [171, 205])] \<rparr>),
       p_encode_batch = (\<lambda>seq rs. ([], length rs)),
       p_parse_ack = (\<lambda>b. Ok \<lparr> ack_seq = ucast (b ! 0), ack_status = b ! 1 \<rparr>),
       p_parse_close = (\<lambda>b. Ok (b ! 0)),
       p_encode_get = (\<lambda>g. []),
       p_parse_catalogue = (\<lambda>b. Err ''no catalogues''),
       p_next = (\<lambda>c. None),
       p_encode_status = (\<lambda>es. Err ''no status''),
       p_encode_message = (\<lambda>m b. m # b),
       MSG_ACK = 1, MSG_HELLO_ACK = 2, MSG_CATALOGUE = 3, MSG_CLOSE = 4, MSG_PING = 5, MSG_PONG = 6,
       ACK_OK = 0, ACK_OVERLOADED = 1, ACK_MALFORMED = 2,
       HELLO_OK = 0, HELLO_BAD_VERSION = 1, HELLO_UNAVAILABLE = 2, HELLO_BAD_DATABASE = 3,
       CATALOGUE_OK = 0, CATALOGUE_UNKNOWN = 1, CATALOGUE_UNAVAILABLE = 2, CLOSE_REASSIGNED = 0,
       PROTO_VERSION = 3 \<rparr>"

definition ref_fenv :: "(sqlval, ref_world, RefFrame, RefFrame, unit) fenv" where
  "ref_fenv = \<lparr> fe_E = ref_engine, fe_V = ref_conv, fe_L = ref_lib, fe_Q = ref_proto, fe_A = ref_catlib \<rparr>"

definition ex_sink :: "net_event list \<Rightarrow> (unit, ref_world) ForwardSink" where
  "ex_sink net =
     \<lparr> fs_api_key = ''k'', fs_database = ''can'', fs_daemon_id = ''d'', fs_devices = [], fs_version = 3,
       fs_raw_serial = False, fs_catalogues = cat_new ref_catlib None Map.empty [] [], fs_seen_changes = 0,
       fs_conn = None, fs_seq = 0, fs_dead_letter = ''dead.db'', fs_world = ex_world [], fs_net = net,
       fs_acked = [], fs_quarantined = [], fs_settled = [] \<rparr>"

lemma ex_sink_accounted: "accounted disk ref_conv ref_lib [] (ex_sink net)"
  by (simp add: accounted_def letter_ok_def disk_samples_def ex_sink_def ex_world_def)

text \<open>A gateway of the older protocol: it refuses the first \<^verbatim>\<open>HELLO\<close> and takes the second.\<close>

definition ex_old_gateway :: "net_event list" where
  "ex_old_gateway = [NetOk, NetOk, NetBytes [2, 1, 2], NetOk, NetOk, NetBytes [2, 0, 2]]"

lemma ex_falls_back:
  "fs_version (snd (fwd_connect ref_fenv (ex_sink ex_old_gateway))) = 2 \<and>
   fst (fwd_connect ref_fenv (ex_sink ex_old_gateway)) = Inr ()"
  by (simp add: fwd_connect_def handshake_def net_do_def recv.simps recv_any.simps take_frame_def
      ref_fenv_def ref_proto_def ex_sink_def ex_old_gateway_def hello_def may_fall_back_def open_session_def Let_def)

theorem version_falls_back_only_when_asked_witness:
  "fs_version (snd (fwd_connect ref_fenv (ex_sink ex_old_gateway))) = 2 \<and>
   (\<exists>rx ack net. handshake ref_proto (ex_sink ex_old_gateway) ex_old_gateway = (Inr (rx, ack), net) \<and>
      ha_status ack = 1 \<and> ha_accepted_version ack = 2)"
  using version_falls_back_only_when_asked [OF surjective_pairing, of ref_fenv "ex_sink ex_old_gateway"]
    ex_falls_back
  by (simp add: ex_sink_def ref_fenv_def ref_proto_def)

text \<open>A gateway that acknowledges one frame and refuses the next two as malformed.\<close>

definition ex_refusing_gateway :: "net_event list" where
  "ex_refusing_gateway = [NetOk, NetOk, NetBytes [2, 0, 3], NetOk, NetBytes [1, 1, 0], NetOk, NetBytes [1, 2, 2]]"

theorem settled_frames_accounted_witness:
  "accounted disk ref_conv ref_lib []
     (fold (sink_step ref_fenv) [Connect, WriteBatch [ex_can], WriteBatch [ex_modbus, ex_can], CloseSink]
        (ex_sink ex_refusing_gateway))"
  using settled_frames_accounted [of ref_fenv disk txn "\<lambda>_ _. True" "[]" "ex_sink ex_refusing_gateway"
      "[Connect, WriteBatch [ex_can], WriteBatch [ex_modbus, ex_can], CloseSink]"]
    ref.sqlite_store_axioms ex_sink_accounted ex_can_cacheable ex_modbus_cacheable
  by (simp add: ref_fenv_def)

text \<open>A gateway that assigns a line the catalogue the state directory already has.\<close>

definition ex_line_sink :: "(unit, ref_world) ForwardSink" where
  "ex_line_sink = (ex_sink [NetOk, NetOk, NetBytes [2, 0, 3]])
     \<lparr> fs_devices := [\<lparr> dv_bus = 0, dv_name = ''ttyUSB0'' \<rparr>], fs_catalogues := ex_catalogues \<rparr>"

lemma ex_cached: "cat_cached ref_catlib ex_catalogues ''abcd'' = Ok ex_line_catalogue"
  by (simp add: cat_cached_def ex_catalogues_def cat_new_def Let_def blob_path_def join_def ex_files_def
      ref_catlib_def checked_def blob_sha1_def blob_sha1_hex_def hex_digit_def LineCatalogue_parse_def
      ex_line_catalogue_def char_of_def bit_0)

lemma ex_hex: "blob_sha1_hex [171, 205] = ''abcd''"
  by (simp add: blob_sha1_hex_def hex_digit_def char_of_def bit_0)

lemma ex_line_connects:
  "effective (fs_catalogues (snd (fwd_connect ref_fenv ex_line_sink))) ''ttyUSB0'' =
     Some (Gateway ''abcd'' ex_line_catalogue)"
proof -
  have l: "lines ex_catalogues = [(''ttyUSB0'', \<lparr> ln_database = ''can'', ln_etc = None,
      ln_rules = Gateway ''abcd'' ex_line_catalogue \<rparr>)]"
    using ex_effective by (auto simp: effective_def ex_catalogues_def cat_new_def Let_def)
  then show ?thesis
    using ex_cached
    by (simp add: fwd_connect_def handshake_def net_do_def recv.simps recv_any.simps take_frame_def
      ref_fenv_def ref_proto_def ex_sink_def ex_line_sink_def hello_def may_fall_back_def open_session_def
      pull_def status_message_def owned_by_def assigned_sha_def catalogue_of_def ex_hex Let_def
      cat_apply_def apply_one_def set_rules_def effective_def write_fields split: prod.split option.split)
qed

theorem gateway_catalogues_are_verified_witness:
  "\<exists>path blob. blob_path (fs_catalogues (snd (fwd_connect ref_fenv ex_line_sink))) ''abcd'' = Some path \<and>
     files (fs_catalogues (snd (fwd_connect ref_fenv ex_line_sink))) path = Some blob \<and>
     LineCatalogue_parse ref_catlib path blob = Ok ex_line_catalogue"
proof -
  have inv: "cat_inv (fe_A ref_fenv) (fs_catalogues ex_line_sink)"
    by (simp add: ref_fenv_def ex_line_sink_def ex_catalogues_def cat_inv_new)
  show ?thesis
    using gateway_catalogues_are_verified [OF inv surjective_pairing ex_line_connects]
    by (auto simp: ref_fenv_def)
qed

end
