(* ===== verification/Cache_Paths.thy ===== *)
theory Cache_Paths
  imports Batcher Catalogues
begin

text \<open>
  Where a server keeps its caches: \<^verbatim>\<open>Forward\<close> of \<^verbatim>\<open>crates/wiretap-server/src/settings.rs\<close> and
  the functions that derive one pipeline's files from another's.

  A path is a string without \<^verbatim>\<open>.\<close> components, and \<^verbatim>\<open>Path\<close>'s methods are the standard
  library's on such a path.
\<close>

section \<open>Paths\<close>

abbreviation slash :: char where
  "slash \<equiv> CHR ''/''"

abbreviation dot :: char where
  "dot \<equiv> CHR ''.''"

definition strip_slashes :: "path \<Rightarrow> path" where
  "strip_slashes p = rev (dropWhile (\<lambda>c. c = slash) (rev p))"

text \<open>What follows the last separator, and everything before it.\<close>

definition last_part :: "path \<Rightarrow> string" where
  "last_part p = rev (takeWhile (\<lambda>c. c \<noteq> slash) (rev p))"

definition path_file_name :: "path \<Rightarrow> string option" where
  "path_file_name p =
     (let name = last_part (strip_slashes p) in
      if name = [] \<or> name = ''..'' then None else Some name)"

text \<open>A name at its last dot; one with no dot, or none but a leading one, is all stem.\<close>

definition before_dot :: "string \<Rightarrow> string" where
  "before_dot name = rev (tl (dropWhile (\<lambda>c. c \<noteq> dot) (rev name)))"

definition after_dot :: "string \<Rightarrow> string" where
  "after_dot name = rev (takeWhile (\<lambda>c. c \<noteq> dot) (rev name))"

definition split_at_dot :: "string \<Rightarrow> string \<times> string option" where
  "split_at_dot name =
     (if dot \<notin> set name \<or> before_dot name = [] then (name, None)
      else (before_dot name, Some (after_dot name)))"

definition path_file_stem :: "path \<Rightarrow> string option" where
  "path_file_stem p = map_option (\<lambda>n. fst (split_at_dot n)) (path_file_name p)"

definition path_extension :: "path \<Rightarrow> string option" where
  "path_extension p = (case path_file_name p of None \<Rightarrow> None | Some n \<Rightarrow> snd (split_at_dot n))"

definition path_push :: "path \<Rightarrow> path \<Rightarrow> path" where
  "path_push p q =
     (if q \<noteq> [] \<and> hd q = slash then q
      else if p = [] \<or> last p = slash then p @ q
      else p @ [slash] @ q)"

definition path_with_file_name :: "path \<Rightarrow> string \<Rightarrow> path" where
  "path_with_file_name p name =
     (case (path_file_name p, path_parent p) of
        (Some _, Some parent) \<Rightarrow> path_push parent name
      | _ \<Rightarrow> path_push p name)"

section \<open>Forward\<close>

record Forward =
  fd_host :: string
  fd_port :: u16
  fd_api_key :: string
  fd_database :: string
  fd_batching :: Batching
  fd_daemon_id :: string
  fd_devices :: "Device list"
  fd_raw_serial :: bool

definition label_of :: "string \<Rightarrow> string" where
  "label_of database = (if database = [] then ''<pinned>'' else database)"

definition fd_label :: "Forward \<Rightarrow> string" where
  "fd_label f = label_of (fd_database f)"

definition state_dir :: "Forward \<Rightarrow> path" where
  "state_dir f =
     (case path_parent (bt_cache_path (fd_batching f)) of
        Some d \<Rightarrow> (if d = [] then ''.'' else d)
      | None \<Rightarrow> ''.'')"

definition with_stem_suffix :: "path \<Rightarrow> string \<Rightarrow> path" where
  "with_stem_suffix path suf =
     (let stem = (case path_file_stem path of None \<Rightarrow> ''cache'' | Some s \<Rightarrow> s);
          name = (case path_extension path of
                    Some ext \<Rightarrow> stem @ suf @ ''.'' @ ext
                  | None \<Rightarrow> stem @ suf)
      in path_with_file_name path name)"

definition sibling_cache :: "path \<Rightarrow> string \<Rightarrow> path" where
  "sibling_cache path database = with_stem_suffix path (''-'' @ database)"

definition dead_letter_path :: "Batching \<Rightarrow> path" where
  "dead_letter_path b = with_stem_suffix (bt_cache_path b) ''.dead-letter''"

definition for_database :: "Forward \<Rightarrow> string \<Rightarrow> Forward" where
  "for_database f database =
     (if database \<noteq> fd_database f then
        f\<lparr> fd_database := database,
           fd_batching := (fd_batching f)
             \<lparr> bt_cache_path := sibling_cache (bt_cache_path (fd_batching f)) database,
               bt_cache_origin := None, bt_legacy_cache_path := None \<rparr> \<rparr>
      else f)"

section \<open>Names beside a cache\<close>

text \<open>What \<^verbatim>\<open>with_file_name\<close> keeps of a path.\<close>

definition dir_prefix :: "path \<Rightarrow> path" where
  "dir_prefix p =
     (case path_parent p of
        None \<Rightarrow> []
      | Some d \<Rightarrow> (if d = [] \<or> last d = slash then d else d @ [slash]))"

text \<open>A path written plainly: a name behind its directory, no separator doubled or trailing.\<close>

definition plain_path :: "path \<Rightarrow> bool" where
  "plain_path p \<longleftrightarrow> (\<exists>name. path_file_name p = Some name \<and> p = dir_prefix p @ name)"

definition dir_part :: "path \<Rightarrow> path" where
  "dir_part p = rev (dropWhile (\<lambda>c. c \<noteq> slash) (rev p))"

lemma path_parent_eq:
  "path_parent p =
     (if strip_slashes p = [] then None
      else if dir_part (strip_slashes p) = [] then Some []
      else Some (if strip_slashes (dir_part (strip_slashes p)) = [] then [slash]
                 else strip_slashes (dir_part (strip_slashes p))))"
  by (simp only: path_parent_def strip_slashes_def dir_part_def Let_def if_distrib [of Some])

lemma parent_of_named:
  assumes "path_file_name p = Some name"
  shows "path_parent p \<noteq> None"
proof -
  have "last_part [] = []"
    by (simp add: last_part_def)
  then have "strip_slashes p \<noteq> []"
    using assms by (auto simp: path_file_name_def Let_def)
  then show ?thesis
    by (simp add: path_parent_eq)
qed

lemma with_file_name_eq:
  assumes "path_file_name p \<noteq> None" "name \<noteq> []" "hd name \<noteq> slash"
  shows "path_with_file_name p name = dir_prefix p @ name"
proof -
  obtain n d where "path_file_name p = Some n" "path_parent p = Some d"
    using assms(1) parent_of_named by (metis option.exhaust)
  then show ?thesis
    using assms(2,3) by (simp add: path_with_file_name_def path_push_def dir_prefix_def)
qed

lemma strip_last: "xs \<noteq> [] \<Longrightarrow> last xs \<noteq> slash \<Longrightarrow> strip_slashes xs = xs"
  by (cases xs rule: rev_cases) (simp_all add: strip_slashes_def)

lemma name_split:
  assumes "slash \<notin> set name"
  shows "dir_part (d @ name) = dir_part d" "last_part (d @ name) = last_part d @ name"
  using assms by (simp_all add: dir_part_def last_part_def at_separator)

text \<open>A directory as \<open>dir_prefix\<close> gives it.\<close>

definition is_prefix :: "path \<Rightarrow> bool" where
  "is_prefix d \<longleftrightarrow> d = [] \<or> d = [slash] \<or> (\<exists>e. d = e @ [slash] \<and> e \<noteq> [] \<and> last e \<noteq> slash)"

lemma strip_cases: "strip_slashes p = [] \<or> last (strip_slashes p) \<noteq> slash"
proof -
  have "hd (dropWhile (\<lambda>c. c = slash) (rev p)) \<noteq> slash" if "dropWhile (\<lambda>c. c = slash) (rev p) \<noteq> []"
    using hd_dropWhile [OF that] by simp
  then show ?thesis
    by (auto simp: strip_slashes_def last_rev)
qed

lemma dir_prefix_is_prefix: "is_prefix (dir_prefix p)"
proof (cases "path_parent p")
  case (Some d)
  then have "d = [] \<or> d = [slash] \<or> (\<exists>x. d = strip_slashes x \<and> d \<noteq> [])"
    unfolding path_parent_eq by (auto split: if_split_asm)
  then show ?thesis
    using Some strip_cases by (elim disjE exE) (simp_all add: dir_prefix_def is_prefix_def, metis)
qed (simp add: dir_prefix_def is_prefix_def)

lemma named_path:
  assumes "is_prefix d" "name \<noteq> []" "slash \<notin> set name"
  shows "dir_prefix (d @ name) = d" "name \<noteq> ''..'' \<Longrightarrow> path_file_name (d @ name) = Some name"
proof -
  have l: "last name \<noteq> slash"
    using assms(2,3) last_in_set by metis
  have s: "strip_slashes (d @ name) = d @ name"
    using strip_last [of "d @ name"] assms(2) l by simp
  have d: "dir_part d = d" "last_part d = []"
    using assms(1) by (auto simp: is_prefix_def dir_part_def last_part_def)
  show "name \<noteq> ''..'' \<Longrightarrow> path_file_name (d @ name) = Some name"
    using assms(2) by (simp add: path_file_name_def s name_split [OF assms(3)] d)
  have p: "path_parent (d @ name) = (if d = [] then Some [] else Some (if strip_slashes d = [] then [slash] else strip_slashes d))"
    using assms(2) by (simp add: path_parent_eq s name_split [OF assms(3)] d)
  consider "d = []" | "d = [slash]" | e where "d = e @ [slash]" "e \<noteq> []" "last e \<noteq> slash"
    using assms(1) by (auto simp: is_prefix_def)
  then show "dir_prefix (d @ name) = d"
  proof cases
    case 3
    then have "strip_slashes d = e"
      using strip_last [of e] by (simp add: strip_slashes_def)
    with 3 p show ?thesis
      by (simp add: dir_prefix_def)
  qed (use p in \<open>simp_all add: dir_prefix_def strip_slashes_def\<close>)
qed

text \<open>A name at its last dot, put together again.\<close>

lemma split_at_dot_Some:
  assumes "split_at_dot name = (stem, Some ext)"
  shows "name = stem @ ''.'' @ ext" "dot \<notin> set ext" "stem \<noteq> []"
proof -
  have s: "dot \<in> set (rev name)" "stem = before_dot name" "ext = after_dot name" "stem \<noteq> []"
    using assms by (auto simp: split_at_dot_def split: if_splits)
  show "stem \<noteq> []" by (rule s(4))
  show "dot \<notin> set ext"
    using s(3) by (auto simp: after_dot_def dest: set_takeWhileD)
  have "rev ext @ dot # rev stem = rev name"
    using split_at_first [OF s(1)] by (simp add: s(2,3) before_dot_def after_dot_def)
  then have "rev (rev name) = stem @ ''.'' @ ext"
    by (metis append.simps(1,2) rev.simps(2) rev_append rev_rev_ident append_assoc)
  then show "name = stem @ ''.'' @ ext"
    by simp
qed

lemma split_at_dot_append:
  assumes "dot \<notin> set ext" "stem \<noteq> []"
  shows "split_at_dot (stem @ ''.'' @ ext) = (stem, Some ext)"
  using assms by (simp add: split_at_dot_def before_dot_def after_dot_def at_separator)

lemma file_name_no_slash: "path_file_name p = Some name \<Longrightarrow> slash \<notin> set name \<and> name \<noteq> [] \<and> name \<noteq> ''..''"
  by (auto simp: path_file_name_def last_part_def Let_def dest: set_takeWhileD split: if_split_asm)

lemma two_dots: "stem \<noteq> [] \<Longrightarrow> stem @ suf @ ''.'' @ ext = ''..'' \<Longrightarrow> stem = ''.'' \<and> suf = [] \<and> ext = []"
  by (cases stem; cases "tl stem"; cases suf; cases ext) auto

text \<open>The name of a cache or a dead-letter file beside a cache with an extension.\<close>

lemma with_stem_suffix_eq:
  assumes "is_prefix d" "stem \<noteq> []" "slash \<notin> set (stem @ ext @ suf)" "dot \<notin> set ext"
    and "stem @ ''.'' @ ext \<noteq> ''..''"
  shows "with_stem_suffix (d @ stem @ ''.'' @ ext) suf = d @ stem @ suf @ ''.'' @ ext"
proof -
  let ?name = "stem @ ''.'' @ ext"
  have n: "path_file_name (d @ ?name) = Some ?name" "dir_prefix (d @ ?name) = d"
    using named_path [OF assms(1), of ?name] assms(2-5) by auto
  have "path_file_stem (d @ ?name) = Some stem" "path_extension (d @ ?name) = Some ext"
    by (simp_all add: path_file_stem_def path_extension_def n(1) split_at_dot_append [OF assms(4,2)]
        del: append_Cons)
  moreover have "hd (stem @ suf @ ''.'' @ ext) \<noteq> slash"
    using assms(2,3) by (cases stem) auto
  ultimately show ?thesis
    using with_file_name_eq [of "d @ ?name" "stem @ suf @ ''.'' @ ext"] n assms(2)
    by (simp add: with_stem_suffix_def del: append_Cons append_assoc)
qed

section \<open>Files of a pipeline\<close>

text \<open>Every file a pipeline opens: its cache and its dead letters, with what SQLite keeps
  beside them.\<close>

definition pipeline_files :: "Forward \<Rightarrow> path list" where
  "pipeline_files f =
     cache_files (bt_cache_path (fd_batching f)) @ cache_files (dead_letter_path (fd_batching f))"

definition db_key :: "Forward \<Rightarrow> string \<Rightarrow> string" where
  "db_key f db = (if db = fd_database f then [] else CHR ''-'' # db)"

lemma for_database_cache_path:
  assumes "bt_cache_path (fd_batching f) = d @ stem @ ''.'' @ ext"
    and "is_prefix d" "stem \<noteq> []" "slash \<notin> set (stem @ ext)" "dot \<notin> set ext" "stem @ ''.'' @ ext \<noteq> ''..''"
    and "slash \<notin> set db"
  shows "bt_cache_path (fd_batching (for_database f db)) = d @ (stem @ db_key f db) @ ''.'' @ ext"
  using with_stem_suffix_eq [OF assms(2,3), of ext "CHR ''-'' # db"] assms(1,4-7)
  by (simp add: for_database_def sibling_cache_def db_key_def)

lemma pipeline_files_form:
  assumes "bt_cache_path (fd_batching f) = d @ stem @ ''.'' @ ext"
    and "is_prefix d" "stem \<noteq> []" "slash \<notin> set (stem @ ext)" "dot \<notin> set ext" "stem @ ''.'' @ ext \<noteq> ''..''"
    and "slash \<notin> set db" "x \<in> set (pipeline_files (for_database f db))"
  obtains r where "x = d @ stem @ db_key f db @ dot # r"
proof -
  let ?stem = "stem @ db_key f db"
  note cp = for_database_cache_path [OF assms(1-7)]
  have "slash \<notin> set (?stem @ ext @ ''.dead-letter'')" "?stem \<noteq> []"
    using assms(3,4,7) by (auto simp: db_key_def)
  moreover have "?stem @ ''.'' @ ext \<noteq> ''..''"
    using two_dots [OF assms(3), of "db_key f db" ext] assms(6) by auto
  ultimately have "dead_letter_path (fd_batching (for_database f db)) = d @ ?stem @ ''.dead-letter'' @ ''.'' @ ext"
    using with_stem_suffix_eq [OF assms(2), of ?stem ext "''.dead-letter''"] assms(5)
    by (simp add: dead_letter_path_def cp)
  with assms(8) cp that show ?thesis
    by (auto simp: pipeline_files_def cache_files_def sidecar_def)
qed

lemma db_key_inj:
  assumes "db_key f a @ dot # r = db_key f b @ dot # s" "dot \<notin> set a" "dot \<notin> set b"
  shows "a = b"
proof -
  have "dot \<notin> set (db_key f a)" "dot \<notin> set (db_key f b)"
    using assms(2,3) by (auto simp: db_key_def)
  then have "db_key f a = db_key f b"
    using arg_cong [OF assms(1), of "takeWhile (\<lambda>x. x \<noteq> dot)"] by (simp add: at_separator)
  then show ?thesis
    by (auto simp: db_key_def split: if_splits)
qed

lemma plain_extension:
  assumes "plain_path p" "path_extension p = Some ext"
  obtains d stem where "p = d @ stem @ ''.'' @ ext" "is_prefix d" "stem \<noteq> []" "slash \<notin> set (stem @ ext)"
    "dot \<notin> set ext" "stem @ ''.'' @ ext \<noteq> ''..''"
proof -
  obtain name stem where n: "path_file_name p = Some name" "p = dir_prefix p @ name"
      "split_at_dot name = (stem, Some ext)"
    using assms by (auto simp: plain_path_def path_extension_def split: option.splits)
      (metis prod.collapse)
  note s = split_at_dot_Some [OF n(3)] and ns = file_name_no_slash [OF n(1)]
  show ?thesis
    using that [of "dir_prefix p" stem] n(2) s ns dir_prefix_is_prefix by auto
qed

text \<open>Pipelines keep to their own files.  With a cache path that has an extension, the
  pipelines of two databases share no file: not a cache, not a dead-letter file, and none of
  the files SQLite keeps beside either.\<close>

theorem pipelines_use_separate_files:
  assumes "plain_path (bt_cache_path (fd_batching f))" "path_extension (bt_cache_path (fd_batching f)) = Some ext"
    and "a \<noteq> b" "set a \<inter> {dot, slash} = {}" "set b \<inter> {dot, slash} = {}"
  shows "set (pipeline_files (for_database f a)) \<inter> set (pipeline_files (for_database f b)) = {}"
proof -
  obtain d stem where p: "bt_cache_path (fd_batching f) = d @ stem @ ''.'' @ ext" "is_prefix d" "stem \<noteq> []"
      "slash \<notin> set (stem @ ext)" "dot \<notin> set ext" "stem @ ''.'' @ ext \<noteq> ''..''"
    using plain_extension [OF assms(1,2)] by metis
  have "x \<noteq> y" if xy: "x \<in> set (pipeline_files (for_database f a))"
      "y \<in> set (pipeline_files (for_database f b))" for x y
  proof
    assume "x = y"
    have ns: "slash \<notin> set a" "slash \<notin> set b"
      using assms(4,5) by auto
    obtain r where r: "x = d @ stem @ db_key f a @ dot # r"
      by (rule pipeline_files_form [OF p ns(1) xy(1)])
    obtain s where s: "y = d @ stem @ db_key f b @ dot # s"
      by (rule pipeline_files_form [OF p ns(2) xy(2)])
    show False
      using db_key_inj [of f a r b s] r s \<open>x = y\<close> assms(3-5) by auto
  qed
  then show ?thesis
    by blast
qed

text \<open>The extension matters.\<close>

definition ex_forward :: "string \<Rightarrow> Forward" where
  "ex_forward p =
     \<lparr> fd_host = ''gw'', fd_port = 9323, fd_api_key = ''k'', fd_database = ''can'',
       fd_batching = \<lparr> bt_size = 500, bt_flush_interval = 1 / 2, bt_queue_size = 50000, bt_cache_path = p,
         bt_cache_origin = None, bt_cache_max_mb = 1000, bt_queue_flush_pct = 50, bt_legacy_cache_path = None \<rparr>,
       fd_daemon_id = ''pi'', fd_devices = [], fd_raw_serial = False \<rparr>"

theorem pipelines_use_separate_files_witness:
  "set (pipeline_files (for_database (ex_forward ''/var/cache.db'') ''can'')) \<inter>
   set (pipeline_files (for_database (ex_forward ''/var/cache.db'') ''wal'')) = {}"
proof (rule pipelines_use_separate_files [where ext = "''db''"])
  show "plain_path (bt_cache_path (fd_batching (ex_forward ''/var/cache.db'')))"
    by (simp add: plain_path_def ex_forward_def path_file_name_def strip_slashes_def last_part_def dir_prefix_def
        path_parent_def)
  show "path_extension (bt_cache_path (fd_batching (ex_forward ''/var/cache.db''))) = Some ''db''"
    by (simp add: ex_forward_def path_extension_def path_file_name_def strip_slashes_def last_part_def
        split_at_dot_def before_dot_def after_dot_def)
qed simp_all

text \<open>A cache path without an extension loses that.  A database named \<^verbatim>\<open>wal\<close> then gets
  as its cache the very file SQLite keeps as the write-ahead log of the default
  database's cache.\<close>

theorem wal_database_overwrites_the_log:
  "bt_cache_path (fd_batching (for_database (ex_forward ''/var/cache'') ''wal'')) =
   sidecar (bt_cache_path (fd_batching (ex_forward ''/var/cache''))) ''-wal''"
  by (simp add: ex_forward_def for_database_def sibling_cache_def with_stem_suffix_def path_file_stem_def
      path_extension_def path_file_name_def strip_slashes_def last_part_def split_at_dot_def
      path_with_file_name_def path_parent_def path_push_def sidecar_def)

end
