(* ===== verification/Archive_Stop.thy ===== *)
theory Archive_Stop
  imports Batcher_Flow
begin

text \<open>
  Whether the worker ever returns: \<^verbatim>\<open>Batcher::run\<close> of
  \<^verbatim>\<open>crates/wiretap-server/src/archive.rs\<close> under a stop signal, with the sink out of reach, with
  everything healthy, and with a cache that cannot delete.
\<close>

section \<open>The stop signal stays\<close>

text \<open>A stop the worker has not acted on: signalled, or on its way.\<close>

definition stop_coming :: "chan \<Rightarrow> bool" where
  "stop_coming c \<longleftrightarrow> stop_ready c \<or> (\<exists>es \<in> set (script c). StopSent \<in> set es)"

text \<open>Time passing for the channel: signals stay, and frames arrive only as the script runs on.\<close>

definition later :: "chan \<Rightarrow> chan \<Rightarrow> bool" where
  "later c c' \<longleftrightarrow>
     (stop_ready c \<longrightarrow> stop_ready c') \<and> (stop_coming c \<longrightarrow> stop_coming c') \<and>
     (rx_closed c \<longrightarrow> rx_closed c') \<and> length (script c') \<le> length (script c) \<and>
     (length (script c') = length (script c) \<longrightarrow> accepted c' = accepted c)"

lemma later_refl [simp]: "later c c"
  by (simp add: later_def)

lemma later_trans [trans]: "later a b \<Longrightarrow> later b c \<Longrightarrow> later a c"
  by (auto simp: later_def)

lemma later_fields:
  "stop c' = stop c \<Longrightarrow> script c' = script c \<Longrightarrow> rx_closed c' = rx_closed c \<Longrightarrow> accepted c' = accepted c \<Longrightarrow> later c c'"
  by (simp add: later_def stop_coming_def stop_ready_def)

lemma enqueue_stop: "stop (enqueue s c) = stop c" "script (enqueue s c) = script c"
  by (simp_all add: enqueue_def report_closed_def log_queue_full_def warn_thresholds_def say_def depth_def Let_def
      split: option.split)

lemma happen_stop:
  "script (happen e c) = script c" "stop_ready c \<Longrightarrow> stop_ready (happen e c)" "stop_ready (happen StopSent c)"
  by (auto simp: happen_def stop_ready_def enqueue_stop split: event.split)

lemma fold_happen_stop:
  "script (fold happen es c) = script c \<and> (stop_ready c \<or> StopSent \<in> set es \<longrightarrow> stop_ready (fold happen es c))"
proof (induction es arbitrary: c)
  case (Cons e es)
  then show ?case
    using happen_stop(1) [of e c] happen_stop(2) [of c e] happen_stop(3) [of c] Cons [of "happen e c"] by auto
qed simp

lemma tick_later: "later c (tick c)" "script (tick c) = tl (script c)"
proof (atomize (full), cases "script c")
  case (Cons es rest)
  then show "later c (tick c) \<and> script (tick c) = tl (script c)"
    using fold_happen_stop [of es "c\<lparr> script := rest \<rparr>"] tick_grows [of c]
    by (auto simp: tick_def later_def stop_coming_def stop_ready_def elim!: growsE)
qed (simp add: tick_def)

lemma try_recv_later: "try_recv c = (x, c') \<Longrightarrow> later c c'"
  using tick_later(1) [of c] later_fields [of c' "tick c"]
  by (auto simp: try_recv_def pop_def split: list.splits intro: later_trans)

lemma take_queued_later: "later c (snd (take_queued c))"
proof (induction c rule: take_queued.induct)
  case (1 c)
  obtain x c1 where x: "try_recv c = (x, c1)"
    by (cases "try_recv c")
  show ?case
  proof (cases x)
    case (Some s)
    then show ?thesis
      using "1.IH" [OF x [symmetric] Some] try_recv_later [OF x] x
      by (auto simp: take_queued.simps [of c] split_beta Let_def intro: later_trans)
  qed (use x try_recv_later [OF x] in \<open>simp add: take_queued.simps [of c]\<close>)
qed

lemma chan_same:
  "later c (ch (logs l st)) = later c (ch st)" "later c (ch (bump f st)) = later c (ch st)"
  by (auto simp: later_def stop_coming_def stop_ready_def logs_def bump_def say_def)

lemma written_later: "later c (ch (written_frames n st)) = later c (ch st)"
  by (simp add: written_frames_def Let_def chan_same)

lemma count_or_chan: "ch (snd (count_or P d st)) = ch st"
  by (simp add: count_or_def split: prod.split sum.split)

lemma cache_batch_later: "later (ch st) (ch (snd (cache_batch P b st)))"
  by (auto simp: cache_batch_def Let_def chan_same split: prod.split sum.split)

lemma cache_chunks_later: "later (ch st) (ch (snd (cache_chunks P bs st)))"
proof (induction bs arbitrary: st)
  case (Cons b bs)
  then show ?case
    using cache_batch_later [of st P b] Cons [of "snd (cache_batch P b st)"]
    by (auto simp: Let_def split_beta intro: later_trans)
qed simp

lemma drain_queue_later: "later (ch st) (ch (drain_queue_to_cache P st))"
proof -
  obtain q c where q: "take_queued (ch st) = (q, c)"
    by (cases "take_queued (ch st)")
  show ?thesis
    using take_queued_later [of "ch st"] q
      cache_chunks_later [of "st\<lparr> ch := c \<rparr>" P "chunks (batch_size st) q"]
    by (auto simp: drain_queue_to_cache_def split_beta Let_def chan_same intro: later_trans)
qed

lemma report_later: "later (ch st) (ch (report P st))"
  by (simp add: report_def Let_def split_beta chan_same count_or_chan)

lemma stats_later: "later (ch st) (ch (maybe_log_stats P st))"
  using tick_later(1) [of "ch st"]
  by (simp add: maybe_log_stats_def rx_len_def Let_def split_beta chan_same count_or_chan)

lemma spill_cases:
  obtains "spill_if_queue_filling P st = st" | "spill_if_queue_filling P st = st\<lparr> ch := tick (ch st) \<rparr>"
  | l where "spill_if_queue_filling P st = drain_queue_to_cache P (logs l (st\<lparr> ch := tick (ch st) \<rparr>))"
  unfolding spill_if_queue_filling_def rx_len_def Let_def prod.case
  by (cases "flush_threshold st \<le> 0"; cases "flush_threshold st
     \<le> f64_div (f64_round (of_nat (length (queue (tick (ch st)))))) (f64_round (of_nat (capacity (tick (ch st)))))")
    simp_all

lemma spill_later: "later (ch st) (ch (spill_if_queue_filling P st))"
proof -
  let ?st = "st\<lparr> ch := tick (ch st) \<rparr>"
  have t: "later (ch st) (ch ?st)"
    using tick_later(1) by simp
  have d: "later (ch st) (ch (drain_queue_to_cache P (logs l ?st)))" for l
    by (rule later_trans [OF _ drain_queue_later]) (simp add: chan_same tick_later)
  show ?thesis
    by (cases rule: spill_cases [of P st]) (use t d in simp_all)
qed

lemma before_establish_later:
  "later (ch st) (ch (spill_if_queue_filling P (maybe_log_stats P (report P st))))"
  by (rule later_trans [OF later_trans [OF report_later stats_later] spill_later])

lemma cache_batch_sink: "sink (snd (cache_batch P b st)) = sink st"
  by (auto simp: cache_batch_def Let_def split: prod.split sum.split)

lemma cache_chunks_sink: "sink (snd (cache_chunks P bs st)) = sink st"
proof (induction bs arbitrary: st)
  case (Cons b bs)
  then show ?case
    using cache_batch_sink [of P b st] Cons [of "snd (cache_batch P b st)"] by (simp add: Let_def split_beta)
qed simp

lemma drain_queue_sink: "sink (drain_queue_to_cache P st) = sink st"
  using cache_chunks_sink [of P "chunks (batch_size st) (fst (take_queued (ch st)))"
      "st\<lparr> ch := snd (take_queued (ch st)) \<rparr>"]
  by (simp add: drain_queue_to_cache_def split_beta Let_def)

lemma before_establish_sink:
  "sink (spill_if_queue_filling P (maybe_log_stats P (report P st))) = sink st"
  "connected (spill_if_queue_filling P (maybe_log_stats P (report P st))) = connected st"
proof -
  have "sink (spill_if_queue_filling P s) = sink s \<and> connected (spill_if_queue_filling P s) = connected s"
    for s :: "('a, 'b, 'c) batcher"
    by (cases rule: spill_cases [of P s]) (simp_all add: drain_queue_sink connected_drain)
  moreover have "sink (maybe_log_stats P s) = sink s \<and> connected (maybe_log_stats P s) = connected s"
    for s :: "('a, 'b, 'c) batcher"
    by (simp add: maybe_log_stats_def rx_len_def count_or_def Let_def split_beta split: sum.split)
  moreover have "sink (report P st) = sink st \<and> connected (report P st) = connected st"
    by (simp add: report_def count_or_def Let_def split_beta split: sum.split)
  ultimately show "sink (spill_if_queue_filling P (maybe_log_stats P (report P st))) = sink st"
    "connected (spill_if_queue_filling P (maybe_log_stats P (report P st))) = connected st"
    by simp_all
qed

section \<open>A stop during an outage\<close>

text \<open>Sinks that are out of reach, and stay so.\<close>

definition unreachable :: "('s, 'c, 'b) ops \<Rightarrow> ('s \<Rightarrow> bool) \<Rightarrow> bool" where
  "unreachable P D \<longleftrightarrow>
     (\<forall>s. D s \<longrightarrow> (\<exists>e s'. s_connect P s = (Inl (Failed e), s') \<and> D (s_close P s')))"

lemma wait_ready:
  assumes "stop_ready (ch st)"
  shows "fst (wait_to_retry P st) = False"
proof -
  have "stop_ready (tick (tick (ch st)))"
    using assms tick_later(1) later_trans by (meson later_def)
  then show ?thesis
    by (simp add: wait_to_retry_def queue_finished_def Let_def)
qed

lemma wait_goes_on:
  assumes "wait_to_retry P st = (True, st')"
  shows "later (ch st) (ch st') \<and> (script (ch st') = [] \<or> length (script (ch st')) < length (script (ch st))) \<and>
    sink st' = sink st \<and> connected st' = connected st"
proof -
  let ?c = "tick (tick (ch st))"
  have c: "later (ch st) ?c" "script ?c = tl (tl (script (ch st)))"
    using tick_later later_trans by blast (simp add: tick_later)
  obtain m where m: "ch st' = ?c\<lparr> now := m \<rparr>" "sink st' = sink st" "connected st' = connected st"
    using assms by (auto simp: wait_to_retry_def queue_finished_def Let_def split: if_splits prod.splits)
  have "later (ch st) (ch st')"
    by (rule later_trans [OF c(1)]) (rule later_fields; simp add: m)
  moreover have "script (ch st') = tl (tl (script (ch st)))"
    by (simp add: m c(2))
  ultimately show ?thesis
    using m(2,3) by (cases "script (ch st)") auto
qed

lemma outage_pass:
  assumes "unreachable P D" "D (sink st)" "\<not> connected st" "pass P st = (r, st')"
  shows "stop_ready (ch st) \<longrightarrow> \<not> r"
    and "r \<Longrightarrow> D (sink st') \<and> \<not> connected st' \<and> later (ch st) (ch st') \<and>
      (script (ch st') = [] \<or> length (script (ch st')) < length (script (ch st)))"
proof -
  define st1 where "st1 = spill_if_queue_filling P (maybe_log_stats P (report P st))"
  have l1: "later (ch st) (ch st1)" "sink st1 = sink st" "\<not> connected st1"
    using before_establish_later [of st P] before_establish_sink [of P st] assms(3) by (simp_all add: st1_def)
  obtain e s' where s': "s_connect P (sink st) = (Inl (Failed e), s')" "D (s_close P s')"
    using assms(1,2) by (auto simp: unreachable_def)
  define st2 where "st2 = (let s = logs (L_write_error e) (st1\<lparr> sink := s' \<rparr>);
      s = s\<lparr> sink := s_close P (sink s), connected := False \<rparr>
    in if sink_down s then s else logs L_unavailable (s\<lparr> sink_down := True \<rparr>))"
  have l2: "later (ch st1) (ch st2)" "sink st2 = s_close P s'" "\<not> connected st2"
    by (simp_all add: st2_def Let_def chan_same)
  have p: "pass P st = wait_to_retry P (drain_queue_to_cache P st2)"
    using l1 s' by (simp add: pass_def establish_def fail_def sink_why_def st2_def Let_def flip: st1_def)
  let ?st = "drain_queue_to_cache P st2"
  have l: "later (ch st) (ch ?st)"
    by (rule later_trans [OF l1(1) later_trans [OF l2(1) drain_queue_later]])
  show "stop_ready (ch st) \<longrightarrow> \<not> r"
    using wait_ready [of ?st P] l assms(4) p by (auto simp: later_def)
  assume r
  then have w: "wait_to_retry P ?st = (True, st')"
    using p assms(4) by simp
  have "length (script (ch ?st)) \<le> length (script (ch st))"
    using l by (simp add: later_def)
  moreover have "later (ch st) (ch st')"
    by (rule later_trans [OF l]) (use wait_goes_on [OF w] in simp)
  ultimately show "D (sink st') \<and> \<not> connected st' \<and> later (ch st) (ch st') \<and>
      (script (ch st') = [] \<or> length (script (ch st')) < length (script (ch st)))"
    using wait_goes_on [OF w] l2 s'(2) by (auto simp: drain_queue_sink connected_drain)
qed

lemma outage_ends:
  assumes "unreachable P D" "D (sink st)" "\<not> connected st" "stop_coming (ch st)"
  shows "\<exists>n st'. run n P st = Some st'"
  using assms(2-4)
proof (induction "length (script (ch st))" arbitrary: st rule: less_induct)
  case less
  obtain r st1 where p: "pass P st = (r, st1)"
    by (cases "pass P st")
  note o = outage_pass [OF assms(1) less.prems(1,2) p]
  show ?case
  proof (cases r)
    case False
    then have "run 1 P st = Some (shutdown_flush P st1)"
      using p by simp
    then show ?thesis
      by blast
  next
    case True
    note s1 = o(2) [OF True]
    have c1: "stop_coming (ch st1)"
      using s1 less.prems(3) by (simp add: later_def)
    have "\<exists>n st'. run n P st1 = Some st'"
    proof (cases "length (script (ch st1)) < length (script (ch st))")
      case True
      then show ?thesis
        using less.hyps s1 c1 by blast
    next
      case False
      then have "stop_ready (ch st1)"
        using s1 c1 by (auto simp: stop_coming_def)
      moreover obtain r2 st2 where p2: "pass P st1 = (r2, st2)"
        by (cases "pass P st1")
      ultimately have "run 1 P st1 = Some (shutdown_flush P st2)"
        using outage_pass(1) [OF assms(1) _ _ p2] s1 by simp
      then show ?thesis
        by blast
    qed
    then obtain n st' where "run n P st1 = Some st'"
      by blast
    then have "run (Suc n) P st = Some st'"
      using p True by simp
    then show ?thesis
      by blast
  qed
qed

section \<open>A stop with everything healthy\<close>

text \<open>Frames still to be dealt with, weighed so that every way of dealing with one counts.\<close>

definition burden :: "view \<Rightarrow> nat" where
  "burden v = 2 * length (v_queue v) + 2 * length (v_hand v) + length (v_cached v)"

lemma flows_burden:
  "flows True v v' \<Longrightarrow>
     length (v_accepted v) \<le> length (v_accepted v') \<and>
     (length (v_accepted v') = length (v_accepted v) \<longrightarrow>
        burden v' + length (v_stored v') \<le> burden v + length (v_stored v))"
proof (induction rule: rtranclp_induct)
  case (step y z)
  have "length (v_accepted y) \<le> length (v_accepted z) \<and>
     (length (v_accepted z) = length (v_accepted y) \<longrightarrow>
        burden z + length (v_stored z) \<le> burden y + length (v_stored y))"
    using step(2) by (induction rule: flow.induct) (auto simp: burden_def)
  with step(3) show ?case
    by auto
qed simp

definition onward :: "chan \<Rightarrow> chan \<Rightarrow> bool" where
  "onward c c' \<longleftrightarrow>
     (stop_coming c \<or> rx_closed c \<longrightarrow> stop_coming c' \<or> rx_closed c') \<and>
     length (script c') \<le> length (script c) \<and>
     (length (script c') = length (script c) \<longrightarrow> accepted c' = accepted c)"

lemma later_onward: "later c c' \<Longrightarrow> onward c c'"
  by (auto simp: later_def onward_def)

lemma onward_trans: "onward a b \<Longrightarrow> onward b c \<Longrightarrow> onward a c"
  by (auto simp: onward_def)

lemma fill_batch_later: "fill_batch n b c = (b', c') \<Longrightarrow> later c c' \<and> (b \<noteq> [] \<longrightarrow> b' \<noteq> [])"
proof (induction n arbitrary: b c)
  case (Suc n)
  obtain x c1 where x: "try_recv c = (x, c1)"
    by (cases "try_recv c")
  show ?case
  proof (cases x)
    case (Some s)
    then show ?thesis
      using Suc.IH [of "b @ [s]" c1] Suc.prems x later_trans [OF try_recv_later [OF x], of c'] by auto
  qed (use Suc.prems x try_recv_later [OF x] in auto)
qed simp

lemma pop_later: "pop c = (x, c') \<Longrightarrow> later c c' \<and> rx_closed c' = rx_closed c \<and> script c' = script c \<and> (x = None \<longrightarrow> queue c' = [] \<and> c' = c)"
  by (auto simp: pop_def split: list.splits intro: later_fields)

lemma recv_or_stop_onward:
  assumes "recv_or_stop c = (x, c')"
  shows "onward c c'" "script c' = tl (script c)"
    and "script c = [] \<Longrightarrow> stop_coming c \<or> rx_closed c \<Longrightarrow> rx_closed c'" "x = None \<Longrightarrow> queue c' = []"
proof -
  let ?t = "tick c"
  have t: "onward c ?t" "script ?t = tl (script c)" "rx_closed c \<longrightarrow> rx_closed ?t"
    using tick_later [of c] later_onward by (auto simp: later_def)
  consider "stop_ready ?t" "pop (rx_close (stop_seen ?t)) = (x, c')" | "\<not> stop_ready ?t" "pop ?t = (x, c')"
    using assms by (auto simp: recv_or_stop_def Let_def split: if_splits)
  then have "onward ?t c' \<and> script c' = script ?t \<and> (stop_ready ?t \<or> rx_closed ?t \<longrightarrow> rx_closed c') \<and>
      (x = None \<longrightarrow> queue c' = [])"
  proof cases
    case 1
    then show ?thesis
      using pop_later [OF 1(2)] by (auto simp: onward_def later_def rx_close_def stop_seen_def)
  next
    case 2
    then show ?thesis
      using pop_later [OF 2(2)] later_onward by auto
  qed
  with t show "onward c c'" "script c' = tl (script c)" "x = None \<Longrightarrow> queue c' = []"
    using onward_trans by auto
  show "rx_closed c'" if "script c = []" "stop_coming c \<or> rx_closed c"
    using that \<open>onward ?t c' \<and> _\<close> by (auto simp: tick_def stop_coming_def)
qed

definition healthy :: "('s, 'c, 'b) ops \<Rightarrow> ('s \<Rightarrow> bool) \<Rightarrow> bool" where
  "healthy P G \<longleftrightarrow>
     (\<forall>s. G s \<longrightarrow> (\<forall>b. \<exists>s'. s_write_batch P s b = (Inr (), s') \<and> G s') \<and>
                 (\<exists>s'. s_keep_alive P s = (Inr (), s') \<and> G s'))"

context archiver
begin

lemma healthy_write:
  assumes "healthy P G" "G s" "s_write_batch P s b = (r, s')"
  shows "r = Inr () \<and> G s' \<and> length (stored s') = length (stored s) + length b"
proof -
  obtain s1 where "s_write_batch P s b = (Inr (), s1)" "G s1"
    using assms(1,2) unfolding healthy_def by blast
  then show ?thesis
    using assms(3) snk.write_ok [of s b "()" s'] by auto
qed

lemma healthy_write_cached:
  assumes "healthy P G" "G (sink st)" "write_cached P xs st = (r, st')" "xs \<noteq> []"
  shows "r = Inr True \<and> G (sink st') \<and> connected st' = connected st \<and> later (ch st) (ch st') \<and>
    length (stored (sink st)) < length (stored (sink st'))"
proof -
  obtain w s' where w: "s_write_batch P (sink st) (map cached_sample xs) = (w, s')"
    by (cases "s_write_batch P (sink st) (map cached_sample xs)")
  note h = healthy_write [OF assms(1,2) w]
  show ?thesis
    using assms(3,4) w h by (auto simp: write_cached_def Let_def chan_same written_later split: prod.splits sum.splits)
qed

lemma healthy_drain:
  assumes "healthy P G" "G (sink st)" "drain_cache P st = (r, st')"
  shows "\<exists>b. r = Inr b" "G (sink st')" "connected st' = connected st" "later (ch st) (ch st')"
    and "r = Inr True \<Longrightarrow> length (stored (sink st)) < length (stored (sink st'))"
    and "r = Inr False \<Longrightarrow> sink st' = sink st"
proof -
  obtain pending st1 where p: "count_or P 1 st = (pending, st1)"
    by (cases "count_or P 1 st")
  have s1: "ch st1 = ch st" "sink st1 = sink st" "connected st1 = connected st"
    using p count_or_chan [of P 1 st] by (auto simp: count_or_def split: prod.splits sum.splits)
  obtain x c where x: "c_oldest P (cache st1) (batch_size st1) = (x, c)"
    by (cases "c_oldest P (cache st1) (batch_size st1)")
  have "(\<exists>b. r = Inr b) \<and> G (sink st') \<and> connected st' = connected st \<and> later (ch st) (ch st') \<and>
    (r = Inr True \<longrightarrow> length (stored (sink st)) < length (stored (sink st'))) \<and>
    (r = Inr False \<longrightarrow> sink st' = sink st)"
  proof (cases "\<exists>xs. x = Inr xs \<and> xs \<noteq> [] \<and> \<not> (\<not> draining_cache st1 \<and> pending = 0)")
    case True
    then obtain xs where xs: "x = Inr xs" "xs \<noteq> []" "\<not> (\<not> draining_cache st1 \<and> pending = 0)"
      by blast
    define s where "s = (if draining_cache st1 then st1\<lparr> cache := c \<rparr>
      else logs (L_draining pending) (st1\<lparr> cache := c, draining_cache := True \<rparr>))"
    have w: "write_cached P xs s = (r, st')"
      using assms(3) p x xs by (auto simp: drain_cache_def Let_def s_def)
    have s: "sink s = sink st" "connected s = connected st" "later (ch st) (ch s)"
      by (simp_all add: s_def s1 chan_same)
    have "G (sink s)"
      using s(1) assms(2) by simp
    note hw = healthy_write_cached [OF assms(1) this w xs(2)]
    moreover have "later (ch st) (ch st')"
      by (rule later_trans [OF s(3)]) (use hw in simp)
    ultimately show ?thesis
      using s by auto
  next
    case False
    then show ?thesis
      using assms(2,3) p x s1
      by (cases x) (auto simp: drain_cache_def Let_def chan_same split: if_splits sum.splits prod.splits)
  qed
  then show "\<exists>b. r = Inr b" "G (sink st')" "connected st' = connected st" "later (ch st) (ch st')"
    "r = Inr True \<Longrightarrow> length (stored (sink st)) < length (stored (sink st'))"
    "r = Inr False \<Longrightarrow> sink st' = sink st"
    by blast+
qed

lemma next_batch_onward:
  assumes "next_batch st = (b, st')"
  shows "onward (ch st) (ch st')" "sink st' = sink st" "connected st' = connected st"
    and "b = [] \<Longrightarrow> queue (ch st') = [] \<and> script (ch st') = tl (script (ch st))"
    and "b = [] \<Longrightarrow> script (ch st) = [] \<Longrightarrow> stop_coming (ch st) \<or> rx_closed (ch st) \<Longrightarrow> rx_closed (ch st')"
proof -
  obtain x c where x: "recv_or_stop (ch st) = (x, c)"
    by (cases "recv_or_stop (ch st)")
  obtain b1 c1 where f: "fill_batch (batch_size st - 1) [the x] c = (b1, c1)"
    by (cases "fill_batch (batch_size st - 1) [the x] c")
  note r = recv_or_stop_onward [OF x] and fl = fill_batch_later [OF f]
  have "x = None \<and> b = [] \<and> st' = st\<lparr> ch := c \<rparr> \<or> x \<noteq> None \<and> b = b1 \<and> b \<noteq> [] \<and> st' = st\<lparr> ch := c1 \<rparr>"
    using assms x f fl by (cases x) (auto simp: next_batch_def)
  moreover have "onward (ch st) c1"
    using onward_trans [OF r(1) later_onward] fl by blast
  ultimately show "onward (ch st) (ch st')" "sink st' = sink st" "connected st' = connected st"
    "b = [] \<Longrightarrow> queue (ch st') = [] \<and> script (ch st') = tl (script (ch st))"
    "b = [] \<Longrightarrow> script (ch st) = [] \<Longrightarrow> stop_coming (ch st) \<or> rx_closed (ch st) \<Longrightarrow> rx_closed (ch st')"
    using r by auto
qed

lemma healthy_serve:
  assumes "healthy P G" "G (sink st)" "stop_coming (ch st) \<or> rx_closed (ch st)" "serve_queue P st = (True, st')"
  shows "G (sink st') \<and> connected st' = connected st \<and> onward (ch st) (ch st') \<and>
    (length (script (ch st')) < length (script (ch st)) \<or> length (stored (sink st)) < length (stored (sink st')))"
proof -
  obtain b st1 where b: "next_batch st = (b, st1)"
    by (cases "next_batch st")
  note n = next_batch_onward [OF b]
  have G1: "G (sink st1)"
    using n(2) assms(2) by simp
  show ?thesis
  proof (cases "b = []")
    case True
    let ?c = "tick (ch st1)"
    obtain s' where s': "s_keep_alive P (sink st1) = (Inr (), s')" "G s'"
      using assms(1) G1 unfolding healthy_def by blast
    have c: "\<not> (rx_closed ?c \<and> queue ?c = [])" "st' = st1\<lparr> ch := ?c, sink := s' \<rparr>"
      using assms(4) b True s'(1) by (auto simp: serve_queue_def queue_finished_def Let_def split: if_splits)
    have "script (ch st) \<noteq> []"
      using c(1) n(4,5) [OF True] assms(3) by (auto simp: tick_def)
    then have "length (script ?c) < length (script (ch st))"
      using n(4) [OF True] tick_later(2) [of "ch st1"] by (cases "script (ch st)") auto
    moreover have "onward (ch st) ?c"
      by (rule onward_trans [OF n(1) later_onward [OF tick_later(1)]])
    ultimately show ?thesis
      using c(2) s'(2) n(3) by simp
  next
    case False
    obtain x s' where x: "s_write_batch P (sink st1) b = (x, s')"
      by (cases "s_write_batch P (sink st1) b")
    note h = healthy_write [OF assms(1) G1 x]
    have "st' = written_frames (length b) (st1\<lparr> sink := s' \<rparr>)"
      using assms(4) b False x h by (auto simp: serve_queue_def forward_batch_def)
    moreover have "later (ch st1) (ch (written_frames (length b) (st1\<lparr> sink := s' \<rparr>)))"
      by (simp add: written_later)
    ultimately show ?thesis
      using h n False onward_trans [OF n(1) later_onward] by auto
  qed
qed

lemma healthy_pass:
  assumes "healthy P G" "reads_ok P held cinv" "ok st" "G (sink st)" "connected st"
    and "stop_coming (ch st) \<or> rx_closed (ch st)" "pass P st = (True, st')"
  shows "ok st'" "G (sink st')" "connected st'" "stop_coming (ch st') \<or> rx_closed (ch st')"
    and "length (script (ch st')) < length (script (ch st)) \<or>
      length (script (ch st')) = length (script (ch st)) \<and> burden (view [] st') < burden (view [] st)"
proof -
  define st1 where "st1 = spill_if_queue_filling P (maybe_log_stats P (report P st))"
  have l1: "later (ch st) (ch st1)" "sink st1 = sink st" "connected st1"
    using before_establish_later [of st P] before_establish_sink [of P st] assms(5) by (simp_all add: st1_def)
  obtain y st2 where y: "drain_cache P st1 = (y, st2)"
    by (cases "drain_cache P st1")
  have G1: "G (sink st1)"
    using l1(2) assms(4) by simp
  note d = healthy_drain [OF assms(1) G1 y]
  have o2: "onward (ch st) (ch st2)"
    by (rule later_onward [OF later_trans [OF l1(1) d(4)]])
  have "G (sink st') \<and> connected st' \<and> onward (ch st) (ch st') \<and>
    (length (script (ch st')) < length (script (ch st)) \<or> length (stored (sink st)) < length (stored (sink st')))"
  proof (cases "y = Inr True")
    case True
    then have "st' = st2"
      using assms(7) l1(3) y by (auto simp: pass_def establish_def simp flip: st1_def)
    then show ?thesis
      using d o2 l1 True by simp
  next
    case False
    then have y': "y = Inr False"
      using d(1) by (metis (full_types))
    then have f: "y = Inr False" "serve_queue P st2 = (True, st')"
      using assms(7) l1(3) y by (simp_all add: pass_def establish_def flip: st1_def)
    have "stop_coming (ch st2) \<or> rx_closed (ch st2)"
      using o2 assms(6) by (simp add: onward_def)
    note s = healthy_serve [OF assms(1) d(2) this f(2)]
    moreover have "onward (ch st) (ch st')"
      by (rule onward_trans [OF o2]) (use s in simp)
    moreover have "length (script (ch st2)) \<le> length (script (ch st))"
      using o2 by (simp add: onward_def)
    ultimately show ?thesis
      using d(3,6) l1 f(1) by auto
  qed
  moreover have "moves True [] st [] st'"
    using moves_pass [OF assms(7)] assms(2) by blast
  then have m: "ok st'" "flows True (view [] st) (view [] st')"
    using assms(3) by (simp_all add: moves_def)
  ultimately show "ok st'" "G (sink st')" "connected st'" "stop_coming (ch st') \<or> rx_closed (ch st')"
    and "length (script (ch st')) < length (script (ch st)) \<or>
      length (script (ch st')) = length (script (ch st)) \<and> burden (view [] st') < burden (view [] st)"
    using assms(6) flows_burden [OF m(2)]
    by (auto simp: onward_def view_of_def)
qed

lemma healthy_ends:
  assumes "healthy P G" "reads_ok P held cinv" "ok st" "G (sink st)" "connected st"
    and "stop_coming (ch st) \<or> rx_closed (ch st)"
  shows "\<exists>n st'. run n P st = Some st'"
  using assms(3-6)
proof (induction st rule: wf_induct_rule
    [OF wf_measures [of "[\<lambda>st. length (script (ch st)), \<lambda>st. burden (view [] st)]"]])
  case (1 st)
  obtain r st1 where p: "pass P st = (r, st1)"
    by (cases "pass P st")
  show ?case
  proof (cases r)
    case True
    then have "pass P st = (True, st1)"
      using p by simp
    note h = healthy_pass [OF assms(1,2) "1.prems" this]
    have "\<exists>n st'. run n P st1 = Some st'"
      using h(5) by (intro "1.IH" [OF _ h(1-4)]) auto
    then show ?thesis
      using p True by (metis (mono_tags, lifting) bool.simps(3) case_prod_conv run.simps(2))
  next
    case False
    then have "run 1 P st = Some (shutdown_flush P st1)"
      using p by simp
    then show ?thesis
      by blast
  qed
qed

end

section \<open>A cache that cannot delete\<close>

text \<open>Caches that read and never delete, in a set no append leaves.\<close>

definition undeleting :: "('s, 'c, 'b) ops \<Rightarrow> ('c \<Rightarrow> bool) \<Rightarrow> bool" where
  "undeleting P B \<longleftrightarrow>
     (\<forall>c. B c \<longrightarrow>
        (\<exists>m c'. c_count P c = (Inr m, c') \<and> m \<noteq> 0 \<and> B c') \<and>
        (\<forall>n. 0 < n \<longrightarrow> (\<exists>xs c'. c_oldest P c n = (Inr xs, c') \<and> xs \<noteq> [] \<and> B c')) \<and>
        (\<forall>xs. xs \<noteq> [] \<longrightarrow> (\<exists>e c'. c_remove P c xs = (Inl e, c') \<and> B c')) \<and>
        (\<forall>b. B (snd (c_append P c b))))"

lemma undeleting_laws:
  assumes "undeleting P B" "B c"
  shows "\<exists>m c'. c_count P c = (Inr m, c') \<and> m \<noteq> 0 \<and> B c'"
    "0 < n \<Longrightarrow> \<exists>xs c'. c_oldest P c n = (Inr xs, c') \<and> xs \<noteq> [] \<and> B c'"
    "xs \<noteq> [] \<Longrightarrow> \<exists>e c'. c_remove P c xs = (Inl e, c') \<and> B c'" "B (snd (c_append P c b))"
  using assms by (simp_all add: undeleting_def)

definition stuck :: "('s \<Rightarrow> bool) \<Rightarrow> ('c \<Rightarrow> bool) \<Rightarrow> ('s, 'c, 'b) batcher \<Rightarrow> bool" where
  "stuck G B st \<longleftrightarrow> G (sink st) \<and> connected st \<and> B (cache st) \<and> 0 < batch_size st"

lemma stuck_count: "undeleting P B \<Longrightarrow> stuck G B st \<Longrightarrow>
    \<exists>m st'. count_or P d st = (m, st') \<and> m \<noteq> 0 \<and> stuck G B st'"
  using undeleting_laws(1) [of P B "cache st"] by (auto simp: count_or_def stuck_def)

lemma batch_size_kept: "batch_size (bump f st) = batch_size st" "batch_size (logs l st) = batch_size st"
  by (simp_all add: bump_def logs_def)

lemma stuck_bump: "stuck G B (bump f st) = stuck G B st" "stuck G B (logs l st) = stuck G B st"
  "stuck G B (st\<lparr> ch := c \<rparr>) = stuck G B st" "stuck G B (st\<lparr> last_stats := n \<rparr>) = stuck G B st"
  by (simp_all add: bump_def logs_def stuck_def)

lemma stuck_cache_batch:
  assumes "undeleting P B" "stuck G B st"
  shows "stuck G B (snd (cache_batch P b st))"
proof -
  have "B (snd (c_append P (cache st) b))"
    using undeleting_laws(4) [OF assms(1)] assms(2) by (simp add: stuck_def)
  then show ?thesis
    using assms(2)
    by (auto simp: cache_batch_def Let_def stuck_def batch_size_kept map_prod_def split: prod.split sum.split)
qed

lemma stuck_cache_chunks: "undeleting P B \<Longrightarrow> stuck G B st \<Longrightarrow> stuck G B (snd (cache_chunks P bs st))"
proof (induction bs arbitrary: st)
  case (Cons b bs)
  then show ?case
    using stuck_cache_batch [OF Cons.prems, of b] Cons.IH [of "snd (cache_batch P b st)"]
    by (simp add: Let_def split_beta)
qed simp

lemma stuck_drain: "undeleting P B \<Longrightarrow> stuck G B st \<Longrightarrow> stuck G B (drain_queue_to_cache P st)"
  using stuck_cache_chunks [of P B G "st\<lparr> ch := snd (take_queued (ch st)) \<rparr>"
      "chunks (batch_size st) (fst (take_queued (ch st)))"]
  by (simp add: drain_queue_to_cache_def split_beta Let_def stuck_bump)

lemma stuck_before_establish:
  assumes "undeleting P B" "stuck G B st"
  shows "stuck G B (spill_if_queue_filling P (maybe_log_stats P (report P st)))"
proof -
  have "stuck G B (report P st)"
    using stuck_count [OF assms, of 0] by (auto simp: report_def stuck_bump)
  then have s: "stuck G B (maybe_log_stats P (report P st))" (is "stuck G B ?s")
    using stuck_count [OF assms(1), of G "(report P st)\<lparr> last_stats := now (ch (report P st)),
        ch := tick (ch (report P st)) \<rparr>" 0]
    by (auto simp: maybe_log_stats_def rx_len_def Let_def stuck_bump)
  have "stuck G B (drain_queue_to_cache P (logs l (?s\<lparr> ch := tick (ch ?s) \<rparr>)))" for l
    using s by (intro stuck_drain [OF assms(1)]) (simp add: stuck_bump)
  with s show ?thesis
    by (cases rule: spill_cases [of P ?s]) (simp_all add: stuck_bump)
qed

lemma stuck_write_cached:
  assumes "undeleting P B" "healthy P G" "stuck G B st" "xs \<noteq> []"
  shows "\<exists>st'. write_cached P xs st = (Inr True, st') \<and> stuck G B st'"
proof -
  obtain s' where w: "s_write_batch P (sink st) (map cached_sample xs) = (Inr (), s')" "G s'"
    using assms(2,3) unfolding healthy_def stuck_def by blast
  obtain e c' where "c_remove P (cache st) xs = (Inl e, c')" "B c'"
    using undeleting_laws(3) [OF assms(1) _ assms(4)] assms(3) by (metis stuck_def)
  with w assms(3) show ?thesis
    by (auto simp: write_cached_def written_frames_def Let_def stuck_bump) (simp_all add: stuck_def)
qed

lemma stuck_pass:
  assumes "undeleting P B" "healthy P G" "stuck G B st"
  shows "\<exists>st'. pass P st = (True, st') \<and> stuck G B st'"
proof -
  define st1 where "st1 = spill_if_queue_filling P (maybe_log_stats P (report P st))"
  have s1: "stuck G B st1"
    unfolding st1_def by (rule stuck_before_establish [OF assms(1,3)])
  obtain m st2 where st2: "count_or P 1 st1 = (m, st2)" "m \<noteq> 0" "stuck G B st2"
    using stuck_count [OF assms(1) s1, of 1] by blast
  obtain xs c where xs: "c_oldest P (cache st2) (batch_size st2) = (Inr xs, c)" "xs \<noteq> []" "B c"
    using undeleting_laws(2) [OF assms(1)] st2(3) by (metis stuck_def)
  let ?s = "if draining_cache st2 then st2\<lparr> cache := c \<rparr>
     else logs (L_draining m) (st2\<lparr> cache := c, draining_cache := True \<rparr>)"
  have "stuck G B ?s"
    using st2(3) xs(3) by (simp add: stuck_bump) (simp add: stuck_def)
  then obtain st' where st': "write_cached P xs ?s = (Inr True, st')" "stuck G B st'"
    using stuck_write_cached [OF assms(1,2) _ xs(2)] by blast
  have "drain_cache P st1 = (Inr True, st')"
    using st2(1,2) xs(1,2) st'(1) by (simp add: drain_cache_def)
  moreover have "connected st1"
    using s1 by (simp add: stuck_def)
  ultimately have "pass P st = (True, st')"
    by (simp add: pass_def establish_def flip: st1_def)
  with st'(2) show ?thesis
    by blast
qed

lemma stuck_never_ends: "undeleting P B \<Longrightarrow> healthy P G \<Longrightarrow> stuck G B st \<Longrightarrow> run n P st = None"
proof (induction n arbitrary: st)
  case (Suc n)
  then show ?case
    using stuck_pass [OF Suc.prems] by fastforce
qed simp

end
