(* ===== verification/Archive_Pipeline.thy ===== *)
theory Archive_Pipeline
  imports Forward_Contract Cache_Paths Archive_Stop
begin

text \<open>
  The archive a server ships: \<^verbatim>\<open>start\<close>, \<^verbatim>\<open>Running\<close> and \<^verbatim>\<open>Archives\<close> of
  \<^verbatim>\<open>crates/wiretap-server/src/archive.rs\<close>, a \<^verbatim>\<open>Batcher\<close> over a \<^verbatim>\<open>ForwardSink\<close> and a \<^verbatim>\<open>SqliteCache\<close>,
  and what the whole of it promises about a captured frame.
\<close>

section \<open>Assembly\<close>

text \<open>The two trait dictionaries and the backoff timer of the library.\<close>

definition archive_ops :: "('v, 'w, 'f, 'k, 'o) fenv \<Rightarrow> ('b \<Rightarrow> nat \<times> 'b) \<Rightarrow> ('b \<Rightarrow> 'b)
    \<Rightarrow> (('o, 'w) ForwardSink, 'w sq, 'b) ops" where
  "archive_ops X nx rs =
     \<lparr> s_connect = fwd_connect X, s_write_batch = fwd_write_batch X, s_keep_alive = fwd_keep_alive X,
       s_close = fwd_close, c_append = sq_append (fe_E X) (fe_V X) (fe_L X),
       c_oldest = sq_oldest (fe_E X) (fe_V X) (fe_L X), c_remove = sq_remove (fe_E X), c_count = sq_count,
       c_size_bytes = sq_size_bytes (fe_E X), c_is_full = sq_is_full (fe_E X), c_reset = sq_reset (fe_E X),
       bo_next = nx, bo_reset = rs \<rparr>"

text \<open>\<^verbatim>\<open>ForwardSink::new\<close>, in a world and with a network.\<close>

definition ForwardSink_new :: "'k proto \<Rightarrow> Forward \<Rightarrow> 'o Catalogues \<Rightarrow> 'w \<Rightarrow> net_event list
    \<Rightarrow> ('o, 'w) ForwardSink" where
  "ForwardSink_new Q f k w net =
     \<lparr> fs_api_key = fd_api_key f, fs_database = fd_database f, fs_daemon_id = fd_daemon_id f,
       fs_devices = fd_devices f, fs_version = PROTO_VERSION Q, fs_raw_serial = fd_raw_serial f,
       fs_catalogues = k, fs_seen_changes = changes k, fs_conn = None, fs_seq = 0,
       fs_dead_letter = dead_letter_path (fd_batching f), fs_world = w, fs_net = net,
       fs_acked = [], fs_quarantined = [], fs_settled = [] \<rparr>"

text \<open>Adopting what an older install left, which is tried and never fatal.  The dead letters
  are kept in a world of their own: no file of theirs is a file of the cache.\<close>

definition adopt_legacy :: "('v, 'w, 'f, 'k, 'o) fenv \<Rightarrow> path option \<Rightarrow> 'w sq \<Rightarrow> 'w sq option" where
  "adopt_legacy X legacy cw =
     (case legacy of
        None \<Rightarrow> Some cw
      | Some p \<Rightarrow> map_option snd (adopt (fe_E X) (fe_V X) (fe_L X) cw p))"

definition start :: "('v, 'w, 'f, 'k, 'o) fenv \<Rightarrow> Forward \<Rightarrow> nat \<Rightarrow> 'o Catalogues \<Rightarrow> 'b \<Rightarrow> 'w \<Rightarrow> 'w \<Rightarrow> net_event list
    \<Rightarrow> event list list \<Rightarrow> (string, (('o, 'w) ForwardSink, 'w sq, 'b) batcher) result option" where
  "start X f stats_ms k bo w dead net ess =
     (case sq_open (fe_E X) (bt_cache_path (fd_batching f)) (bt_cache_max_mb (fd_batching f)) w of
        (Inl e, _) \<Rightarrow> Some (Err e)
      | (Inr c, w) \<Rightarrow>
          map_option (\<lambda>cw. Ok (channel (ForwardSink_new (fe_Q X) f k dead net) cw bo (fd_batching f) stats_ms ess))
            (adopt_legacy X (bt_legacy_cache_path (fd_batching f)) (c, w)))"

section \<open>The worker over the shipped sink and cache\<close>

locale shipped_archive = sqlite_store "fe_E X" tables pending clean "fe_V X" "fe_L X"
  for X :: "('v, 'w, 'f, 'k, 'o) fenv"
    and tables :: "'w \<Rightarrow> path \<Rightarrow> (i64 \<times> 'v row) list option"
    and pending :: "'w \<Rightarrow> path \<Rightarrow> (i64 \<times> 'v row) list"
    and clean :: "'w \<Rightarrow> path \<Rightarrow> bool" +
  fixes nx :: "'b \<Rightarrow> nat \<times> 'b" and rs :: "'b \<Rightarrow> 'b"

sublocale shipped_archive \<subseteq> arc: archiver "archive_ops X nx rs" fs_settled
  "sq_held tables (fe_V X) (fe_L X)" "sq_inv tables (fe_V X) (fe_L X)" cacheable
  unfolding archive_ops_def archiver_def ops.simps
  by (intro conjI fwd.batch_sink_axioms fc.frame_cache_axioms)

section \<open>No frame is lost\<close>

text \<open>A pipeline as \<^verbatim>\<open>start\<close> leaves it: nothing settled yet, a cache in order, and producers that
  offer frames the cache can hold.\<close>

definition fresh_archive :: "('w \<Rightarrow> path \<Rightarrow> (i64 \<times> 'v row) list option) \<Rightarrow> ('v, 'w, 'f, 'k, 'o) fenv
    \<Rightarrow> (('o, 'w) ForwardSink, 'w sq, 'b) batcher \<Rightarrow> bool" where
  "fresh_archive T X st \<longleftrightarrow>
     (\<exists>snk cw bo b stats ess. st = channel snk cw bo b stats ess \<and> fs_settled snk = [] \<and>
        sq_inv T (fe_V X) (fe_L X) cw \<and> bt_size b < 2 ^ 63 \<and>
        (\<forall>es \<in> set ess. \<forall>s. Offer s \<in> set es \<longrightarrow> cacheable s))"

lemma fresh_archiveI:
  "fs_settled snk = [] \<Longrightarrow> sq_inv T (fe_V X) (fe_L X) cw \<Longrightarrow> bt_size b < 2 ^ 63 \<Longrightarrow>
   (\<And>es s. es \<in> set ess \<Longrightarrow> Offer s \<in> set es \<Longrightarrow> cacheable s) \<Longrightarrow>
   fresh_archive T X (channel snk cw bo b stats ess)"
  unfolding fresh_archive_def by blast

abbreviation disk_cache :: "('w \<Rightarrow> path \<Rightarrow> (i64 \<times> 'v row) list option) \<Rightarrow> ('v, 'w, 'f, 'k, 'o) fenv
    \<Rightarrow> (('o, 'w) ForwardSink, 'w sq, 'b) batcher \<Rightarrow> Sample list" where
  "disk_cache T X st \<equiv> samples_of (sq_held T (fe_V X) (fe_L X) (cache st))"

lemma fresh_archive_ok:
  assumes "fresh_archive T X st"
  shows "worker_ok (sq_inv T (fe_V X) (fe_L X)) cacheable st" "fs_settled (sink st) = []" "queue (ch st) = []"
    "lost st = []" "accepted (ch st) = []" "counters (ch st) = zero_counters" "offered (ch st) = 0"
  using assms by (auto simp: fresh_archive_def channel_def fresh_chan_def worker_ok_def incoming_def)

context shipped_archive
begin

lemma passes_flow:
  assumes "fresh_archive tables X st" "g \<Longrightarrow> reads_ok (archive_ops X nx rs) sqheld sqinv"
  shows "flows g (arc.view [] st) (arc.view [] (passes n (archive_ops X nx rs) st))"
  using arc.moves_passes [OF assms(2), of g st n] fresh_archive_ok(1) [OF assms(1)]
  by (simp add: arc.moves_def)

end

text \<open>C1: no captured frame disappears.  Wherever the worker has got to, and whatever gateway,
  network, disk and producers did on the way, every frame the queue accepted and every
  frame the cache held at the start is settled with the gateway, on disk, still queued,
  or among those the dropped counter counts; and the counters are exact.\<close>

theorem archive_conserves_frames:
  assumes "sqlite_store (fe_E X) tables pending clean (fe_V X) (fe_L X)"
    and "fresh_archive tables X st" "st' = passes n (archive_ops X nx rs) st"
  shows "mset (disk_cache tables X st) + mset (accepted (ch st')) \<subseteq>#
      mset (fs_settled (sink st')) + mset (disk_cache tables X st') + mset (queue (ch st')) + mset (lost st') \<and>
    enqueued (counters (ch st')) = of_nat (length (accepted (ch st'))) \<and>
    written (counters (ch st')) = of_nat (length (fs_settled (sink st'))) \<and>
    dropped (counters (ch st')) = of_nat (offered (ch st') - length (accepted (ch st')) + length (lost st'))"
proof -
  note loc = shipped_archive.intro [OF assms(1)]
  have f: "flows False (view_of fs_settled (sq_held tables (fe_V X) (fe_L X)) [] st)
      (view_of fs_settled (sq_held tables (fe_V X) (fe_L X)) [] st')"
    using shipped_archive.passes_flow [OF loc assms(2), of False nx rs n] assms(3) by simp
  show ?thesis
    using flows_kept [OF f] flows_counted [OF f] fresh_archive_ok [OF assms(2)]
    by (simp add: kept_def counted_def all_of_def view_of_def zero_counters_def add_ac)
qed

section \<open>What a finished worker leaves\<close>

lemma run_passes: "run n P st = Some st' \<Longrightarrow> passes n P st = st'"
  by (induction n arbitrary: st) (auto split: prod.splits bool.splits)

lemma take_queued_closed:
  "rx_closed c \<Longrightarrow> rx_closed (snd (take_queued c)) \<and> queue (snd (take_queued c)) = []"
proof (induction c rule: take_queued.induct)
  case (1 c)
  obtain x c1 where x: "try_recv c = (x, c1)"
    by (cases "try_recv c")
  have cl: "rx_closed c1" and e: "x = None \<Longrightarrow> queue c1 = []"
    using x tick_grows [of c] "1.prems" by (auto simp: try_recv_def pop_def elim!: growsE split: list.splits)
  show ?case
  proof (cases x)
    case (Some s)
    then show ?thesis
      using "1.IH" [OF x [symmetric] Some] cl x by (simp add: take_queued.simps [of c] split_beta Let_def)
  qed (use x cl e in \<open>simp add: take_queued.simps [of c]\<close>)
qed

lemma queue_untouched:
  "queue (ch (logs l st)) = queue (ch st)" "rx_closed (ch (logs l st)) = rx_closed (ch st)"
  "queue (ch (bump f st)) = queue (ch st)" "rx_closed (ch (bump f st)) = rx_closed (ch st)"
  "queue (ch (snd (cache_batch P b st))) = queue (ch st)"
  "rx_closed (ch (snd (cache_batch P b st))) = rx_closed (ch st)"
  "queue (ch (snd (count_or P d st))) = queue (ch st)"
  "rx_closed (ch (snd (count_or P d st))) = rx_closed (ch st)"
  by (auto simp: logs_def bump_def say_def cache_batch_def count_or_def Let_def split: sum.split prod.split)

lemma queue_flush_to_sink:
  "queue (ch (snd (flush_to_sink P b st))) = queue (ch st)"
  "rx_closed (ch (snd (flush_to_sink P b st))) = rx_closed (ch st)"
  by (auto simp: flush_to_sink_def queue_untouched split: if_split sum.split prod.split)

lemma queue_flush_remaining:
  "queue (ch (flush_remaining P b st)) = queue (ch st)"
  "rx_closed (ch (flush_remaining P b st)) = rx_closed (ch st)"
proof -
  obtain m st1 where s: "flush_to_sink P b st = (m, st1)"
    by (cases "flush_to_sink P b st")
  obtain n st2 where c: "cache_batch P (drop m b) st1 = (n, st2)"
    by (cases "cache_batch P (drop m b) st1")
  show "queue (ch (flush_remaining P b st)) = queue (ch st)"
    "rx_closed (ch (flush_remaining P b st)) = rx_closed (ch st)"
    using queue_flush_to_sink [of P b st] queue_untouched(5,6) [of P "drop m b" st1] s c
    by (simp_all add: flush_remaining_def queue_untouched)
qed

lemma shutdown_empties:
  assumes "rx_closed (ch st)"
  shows "rx_closed (ch (shutdown_flush P st)) \<and> queue (ch (shutdown_flush P st)) = []"
  using take_queued_closed [OF assms]
  by (auto simp: shutdown_flush_def split_beta Let_def queue_untouched queue_flush_remaining)

lemma wait_closes: "wait_to_retry P st = (False, st') \<Longrightarrow> rx_closed (ch st')"
  by (auto simp: wait_to_retry_def queue_finished_def rx_close_def Let_def split: if_splits prod.splits)

lemma fail_closes: "fail P e b st = (False, st') \<Longrightarrow> rx_closed (ch st')"
  by (auto simp: fail_def Let_def split: if_splits dest: wait_closes)

lemma pass_closes:
  assumes "pass P st = (False, st')"
  shows "rx_closed (ch st')"
  using assms
  by (auto simp: pass_def serve_queue_def forward_batch_def queue_finished_def Let_def
      dest: fail_closes split: prod.splits sum.splits bool.splits if_splits)

lemma run_ends:
  "run n P st = Some st' \<Longrightarrow> rx_closed (ch st') \<and> queue (ch st') = []"
proof (induction n arbitrary: st)
  case (Suc n)
  obtain r st1 where p: "pass P st = (r, st1)"
    by (cases "pass P st")
  with Suc show ?case
    using shutdown_empties pass_closes [of P st st1] by (cases r) auto
qed simp

text \<open>C2: shutting down leaves nothing behind.  When the worker returns, its queue is closed and
  empty: every frame it accepted, and every frame the cache held when it started, has been
  settled with the gateway, is on disk for the next start, or was counted as dropped.\<close>

theorem shutdown_accounts_for_every_frame:
  assumes "sqlite_store (fe_E X) tables pending clean (fe_V X) (fe_L X)"
    and "fresh_archive tables X st" "run n (archive_ops X nx rs) st = Some st'"
  shows "rx_closed (ch st') \<and> queue (ch st') = [] \<and>
    mset (disk_cache tables X st) + mset (accepted (ch st')) \<subseteq>#
      mset (fs_settled (sink st')) + mset (disk_cache tables X st') + mset (lost st')"
proof -
  note loc = shipped_archive.intro [OF assms(1)]
  have f: "flows False (view_of fs_settled (sq_held tables (fe_V X) (fe_L X)) [] st)
      (view_of fs_settled (sq_held tables (fe_V X) (fe_L X)) [] st')"
    using shipped_archive.passes_flow [OF loc assms(2), of False nx rs n] run_passes [OF assms(3)] by simp
  show ?thesis
    using flows_kept [OF f] fresh_archive_ok [OF assms(2)] run_ends [OF assms(3)]
    by (simp add: kept_def all_of_def view_of_def add_ac)
qed

text \<open>The flush on the way out never reaches the gateway.  The loop is left with the sink
  closed, or with the queue closed and empty; the branch of \<^verbatim>\<open>shutdown_flush\<close> that writes what
  is left to a connected sink has nothing to write.\<close>

theorem connected_flush_is_empty:
  assumes "pass P st = (False, st')"
  shows "connected st' \<longrightarrow> fst (take_queued (ch st')) = []"
  using pass_leaves [OF assms] finished_stays(3) by blast

section \<open>Order\<close>

text \<open>A disk on which statements prepare and frames that are there can be read and deleted.\<close>

definition reading_engine :: "('w \<Rightarrow> path \<Rightarrow> (i64 \<times> 'v row) list option) \<Rightarrow> ('v, 'w) engine \<Rightarrow> bool" where
  "reading_engine T E \<longleftrightarrow>
     (\<forall>p s w. T (snd (e_prepare E (ConnFile p) s w)) = T w \<and> \<not> isl (fst (e_prepare E (ConnFile p) s w))) \<and>
     (\<forall>p n w. T w p \<noteq> None \<longrightarrow> \<not> isl (fst (e_select E (ConnFile p) n w))) \<and>
     (\<forall>p ids w. T w p \<noteq> None \<longrightarrow> \<not> isl (fst (e_delete E (ConnFile p) ids w)))"

context sqlite_store
begin

lemma reading_reads:
  assumes "reading_engine tables E" "sqinv c" "sqheld c \<noteq> []"
  shows "\<not> isl (fst (sq_oldest E V L c n))" "\<not> isl (fst (sq_remove E c xs))"
proof -
  obtain p where p: "conn (fst c) = ConnFile p"
    using assms(3) by (cases "conn (fst c)") (auto simp: sq_held_def)
  then obtain t where t: "tables (snd c) p = Some t" "table_ok V L t"
    using sqinv_file [of "fst c" "snd c" p] assms(2) by auto
  have prep: "\<exists>w. e_prepare E (ConnFile p) s (snd c) = (Inr (), w) \<and> tables w = tables (snd c)" for s
  proof -
    have "tables (snd (e_prepare E (ConnFile p) s (snd c))) = tables (snd c)"
      "\<not> isl (fst (e_prepare E (ConnFile p) s (snd c)))"
      using assms(1) by (simp_all add: reading_engine_def)
    then show ?thesis
      by (cases "e_prepare E (ConnFile p) s (snd c)"; cases "fst (e_prepare E (ConnFile p) s (snd c))") auto
  qed
  obtain w where w: "e_prepare E (ConnFile p) StSelect (snd c) = (Inr (), w)" "tables w = tables (snd c)"
    using prep by blast
  have "\<not> isl (fst (e_select E (ConnFile p) (int n) w))"
    using assms(1) w(2) t(1) by (simp add: reading_engine_def)
  then obtain rows w1 where sel: "e_select E (ConnFile p) (int n) w = (Inr rows, w1)"
    by (cases "e_select E (ConnFile p) (int n) w"; cases "fst (e_select E (ConnFile p) (int n) w)") auto
  have "rows = take n (sort_key fst t)"
    using select_ok [OF sel, of t] w(2) t(1) by simp
  then have "read_rows V L rows = Inr (map (read_row V L) rows)"
    using t(2) by (intro read_rows_ok) (fastforce simp: table_ok_def dest: in_set_takeD)
  with w sel p show "\<not> isl (fst (sq_oldest E V L c n))"
    by (auto simp: sq_oldest_def split_beta)
  obtain v where v: "e_prepare E (ConnFile p) (StDelete (length xs)) (snd c) = (Inr (), v)"
      "tables v = tables (snd c)"
    using prep by blast
  have "\<not> isl (fst (e_delete E (ConnFile p) (map cached_id xs) v))"
    using assms(1) v(2) t(1) by (simp add: reading_engine_def)
  with v p show "\<not> isl (fst (sq_remove E c xs))"
    by (auto simp: sq_remove_def split_beta split: sum.split)
qed

end

text \<open>C3: frames arrive in the order they were captured.  While the disk can be read, what the
  gateway has settled, then what is on disk, then what is queued, is the cache's old
  content followed by the accepted frames in order, with only the dropped frames
  missing, and the cached counter less the recovered one is what the cache gained.\<close>

theorem archive_keeps_order:
  assumes "sqlite_store (fe_E X) tables pending clean (fe_V X) (fe_L X)"
    and "reading_engine tables (fe_E X)"
    and "fresh_archive tables X st" "st' = passes n (archive_ops X nx rs) st"
  shows "subseq (fs_settled (sink st') @ disk_cache tables X st' @ queue (ch st'))
           (disk_cache tables X st @ accepted (ch st')) \<and>
    length (disk_cache tables X st) + length (accepted (ch st')) =
      length (lost st') + length (fs_settled (sink st')) + length (disk_cache tables X st') + length (queue (ch st')) \<and>
    cached (counters (ch st')) - cache_recovered (counters (ch st')) =
      of_nat (length (disk_cache tables X st')) - of_nat (length (disk_cache tables X st))"
proof -
  note loc = shipped_archive.intro [OF assms(1)]
  have "reads_ok (archive_ops X nx rs) (sq_held tables (fe_V X) (fe_L X)) (sq_inv tables (fe_V X) (fe_L X))"
    using sqlite_store.reading_reads [OF assms(1,2)] by (simp add: reads_ok_def archive_ops_def)
  then have f: "flows True (view_of fs_settled (sq_held tables (fe_V X) (fe_L X)) [] st)
      (view_of fs_settled (sq_held tables (fe_V X) (fe_L X)) [] st')"
    using shipped_archive.passes_flow [OF loc assms(3), of True nx rs n] assms(4) by simp
  show ?thesis
    using flows_in_order [OF f] fresh_archive_ok [OF assms(3)]
    by (auto simp: in_order_def line_def view_of_def zero_counters_def algebra_simps)
qed

section \<open>Examples\<close>

text \<open>The in-memory engine with its reads and deletes out of the reach of faults.\<close>

definition calm_engine :: "(sqlval, ref_world) engine" where
  "calm_engine = ref_engine
     \<lparr> e_prepare := (\<lambda>cn st w. if cn = ConnMemory \<and> st \<noteq> StTableInfo
          then (Err ''no such table: frames'', w) else (Ok (), w)),
       e_select := (\<lambda>cn n. on_table cn (\<lambda>p t w.
          (Ok (if n < 0 then sort_key fst t else take (nat n) (sort_key fst t)), w))),
       e_delete := (\<lambda>cn ids. on_table cn (\<lambda>p t w.
          (Ok (length (filter (\<lambda>x. fst x \<in> set ids) t)),
           w\<lparr> disk := (disk w)(p := Some (filter (\<lambda>x. fst x \<notin> set ids) t)) \<rparr>))) \<rparr>"

interpretation calm: sqlite_store calm_engine disk txn "\<lambda>_ _. True" ref_conv ref_lib
proof (unfold_locales, goal_cases)
  case (18 p r w u w' t)
  then show ?case
    by (auto simp: calm_engine_def ref_engine_def guarded_def on_table_def ref_insert_def Let_def
        intro!: next_id_fresh split: list.splits if_splits)
qed (auto simp: calm_engine_def ref_engine_def guarded_def on_table_def ref_insert_def Let_def ref_conv_laws
    ref_lib_can_laws ref_lib_store_laws
    split: list.splits Conn.splits option.splits if_splits prod.splits sum.splits)

lemma calm_reads: "reading_engine disk calm_engine"
  by (auto simp: reading_engine_def calm_engine_def on_table_def)

definition calm_fenv :: "(sqlval, ref_world, RefFrame, RefFrame, unit) fenv" where
  "calm_fenv = ref_fenv\<lparr> fe_E := calm_engine \<rparr>"

definition ex_batching :: Batching where
  "ex_batching = fd_batching (ex_forward ''/var/cache.db'')"

text \<open>Two frames and a stop signal, for a worker whose gateway is out of reach.\<close>

definition ex_script :: "event list list" where
  "ex_script = [[Offer ex_can], [Offer ex_modbus], [StopSent]]"

definition ex_archive :: "((unit, ref_world) ForwardSink, ref_world sq, nat) batcher" where
  "ex_archive = channel (ex_sink []) (ex_cache, ex_world []) 0 ex_batching 0 ex_script"

definition ex_backoff :: "nat \<Rightarrow> nat \<times> nat" where
  "ex_backoff n = (500, n + 1)"

interpretation ref_arc: shipped_archive ref_fenv disk txn "\<lambda>_ _. True" ex_backoff "\<lambda>_. 0"
  by (simp add: shipped_archive_def ref_fenv_def ref.sqlite_store_axioms)

lemma ex_archive_fresh: "fresh_archive disk ref_fenv ex_archive" "fresh_archive disk calm_fenv ex_archive"
  using ex_world_facts(1) [of "[]"] ex_can_cacheable ex_modbus_cacheable
  unfolding ex_archive_def
  by (auto intro!: fresh_archiveI simp: ex_script_def ref_fenv_def calm_fenv_def ex_batching_def ex_forward_def
      ex_sink_def)

section \<open>Whether the worker returns\<close>

text \<open>A gateway no connection reaches: every attempt is refused or times out.\<close>

definition no_route :: "('o, 'w) ForwardSink \<Rightarrow> bool" where
  "no_route s \<longleftrightarrow> (\<forall>x \<in> set (fs_net s). \<exists>e. x = NetErr e)"

lemma no_route_unreachable: "unreachable (archive_ops X nx rs) no_route"
  by (auto simp: unreachable_def archive_ops_def no_route_def fwd_connect_def handshake_def net_do_def
      timed_out_def io_failed_def fwd_close_def Let_def split: list.split net_event.split)

lemma ex_runs: "\<exists>n st'. run n (archive_ops ref_fenv ex_backoff (\<lambda>_. 0)) ex_archive = Some st'"
  by (rule outage_ends [OF no_route_unreachable])
    (simp_all add: no_route_def ex_archive_def channel_def fresh_chan_def ex_sink_def ex_script_def stop_coming_def)

text \<open>C8: a stop signal ends an outage.  However long the gateway stays out of reach, a worker
  that is not connected and has been told to stop, or will be, returns.\<close>

theorem stop_ends_an_outage:
  assumes "no_route (sink st)" "\<not> connected st" "stop_coming (ch st)"
  shows "\<exists>n st'. run n (archive_ops X nx rs) st = Some st'"
  by (rule outage_ends [OF no_route_unreachable]) (use assms in simp_all)

theorem stop_ends_an_outage_witness:
  "\<exists>n st'. run n (archive_ops ref_fenv ex_backoff (\<lambda>_. 0)) ex_archive = Some st'"
  by (rule stop_ends_an_outage)
    (simp_all add: no_route_def ex_archive_def channel_def fresh_chan_def ex_sink_def ex_script_def stop_coming_def)

lemma calm_fenv_store:
  "sqlite_store (fe_E calm_fenv) disk txn (\<lambda>_ _. True) (fe_V calm_fenv) (fe_L calm_fenv)"
  by (simp add: calm_fenv_def ref_fenv_def calm.sqlite_store_axioms)

lemma ref_fenv_store:
  "sqlite_store (fe_E ref_fenv) disk txn (\<lambda>_ _. True) (fe_V ref_fenv) (fe_L ref_fenv)"
  by (simp add: ref_fenv_def ref.sqlite_store_axioms)

theorem archive_conserves_frames_witness:
  "\<exists>st'. st' = passes 3 (archive_ops ref_fenv ex_backoff (\<lambda>_. 0)) ex_archive \<and>
     mset (accepted (ch st')) \<subseteq>#
       mset (fs_settled (sink st')) + mset (disk_cache disk ref_fenv st') + mset (queue (ch st')) + mset (lost st')"
proof -
  have "disk_cache disk ref_fenv ex_archive = []"
    by (simp add: ex_archive_def channel_def sq_held_def ex_cache_def ex_world_def)
  then show ?thesis
    using archive_conserves_frames [OF ref_fenv_store ex_archive_fresh(1) refl, of 3 ex_backoff "\<lambda>_. 0"] by simp
qed

theorem shutdown_accounts_for_every_frame_witness:
  "\<exists>n st'. run n (archive_ops ref_fenv ex_backoff (\<lambda>_. 0)) ex_archive = Some st' \<and> queue (ch st') = []"
  using shutdown_accounts_for_every_frame [OF ref_fenv_store ex_archive_fresh(1)] ex_runs by blast

theorem archive_keeps_order_witness:
  "\<exists>st'. st' = passes 3 (archive_ops calm_fenv ex_backoff (\<lambda>_. 0)) ex_archive \<and>
     subseq (fs_settled (sink st') @ disk_cache disk calm_fenv st' @ queue (ch st')) (accepted (ch st'))"
proof -
  have "disk_cache disk calm_fenv ex_archive = []"
    by (simp add: ex_archive_def channel_def sq_held_def ex_cache_def ex_world_def)
  moreover have "reading_engine disk (fe_E calm_fenv)"
    by (simp add: calm_fenv_def calm_reads)
  ultimately show ?thesis
    using archive_keeps_order [OF calm_fenv_store _ ex_archive_fresh(2) refl, of 3 ex_backoff "\<lambda>_. 0"] by simp
qed

text \<open>A worker whose queue is closed and empty, with nothing to send and a gateway that answers.\<close>

definition ex_ops :: "(sqlval, ref_world) engine \<Rightarrow> (Sample list, ref_world sq, nat) ops" where
  "ex_ops E =
     \<lparr> s_connect = (\<lambda>s. (Ok (), s)), s_write_batch = (\<lambda>s b. (Ok (), s @ b)), s_keep_alive = (\<lambda>s. (Ok (), s)),
       s_close = id, c_append = sq_append E ref_conv ref_lib, c_oldest = sq_oldest E ref_conv ref_lib,
       c_remove = sq_remove E, c_count = sq_count, c_size_bytes = sq_size_bytes E, c_is_full = sq_is_full E,
       c_reset = sq_reset E, bo_next = ex_backoff, bo_reset = (\<lambda>_. 0) \<rparr>"

definition ex_worker :: "SqliteCache \<Rightarrow> (Sample list, ref_world sq, nat) batcher" where
  "ex_worker c = (channel [] (c, ex_world []) 0 ex_batching 0 ex_script)\<lparr> connected := True \<rparr>"

interpretation ex_arc: archiver "ex_ops calm_engine" id "sq_held disk ref_conv ref_lib"
  "sq_inv disk ref_conv ref_lib" cacheable
  using calm.fc.frame_cache_axioms
  by (simp add: ex_ops_def archiver_def batch_sink_def)

lemma ex_worker_ok: "worker_ok (sq_inv disk ref_conv ref_lib) cacheable (ex_worker ex_cache)"
  using ex_world_facts(1) [of "[]"] ex_can_cacheable ex_modbus_cacheable
  by (auto simp: ex_worker_def channel_def fresh_chan_def worker_ok_def incoming_def ex_batching_def ex_forward_def
      ex_script_def)



text \<open>A cache that cannot delete holds the worker for ever.  The gateway takes the frames,
  \<^verbatim>\<open>drain_cache\<close> logs the failed delete and reports progress, and the next pass sends the
  same frames again: the queue is never served and a stop signal is never looked at.\<close>

theorem failed_delete_never_ends:
  assumes "undeleting P B" "healthy P G" "stuck G B st"
  shows "run n P st = None"
  using assms by (rule stuck_never_ends)

text \<open>A full disk: rows read, and neither go in nor out.\<close>

definition full_engine :: "(sqlval, ref_world) engine" where
  "full_engine = calm_engine
     \<lparr> e_insert := (\<lambda>cn r w. (Err ''database or disk is full'', w)),
       e_delete := (\<lambda>cn ids w. (Err ''database or disk is full'', w)) \<rparr>"

definition ex_full_cache :: SqliteCache where
  "ex_full_cache = \<lparr> conn = ConnFile ''old.db'', sc_path = ''old.db'', max_bytes = 1048576, rows = 2 \<rparr>"

lemma full_engine_steps:
  "e_prepare full_engine (ConnFile p) st w = (Ok (), w)" "e_insert full_engine cn r w = (Err ''database or disk is full'', w)"
  "e_delete full_engine cn ids w = (Err ''database or disk is full'', w)" "e_rollback full_engine cn w = w"
  "disk w p = Some t \<Longrightarrow> 0 \<le> n \<Longrightarrow> e_select full_engine (ConnFile p) n w = (Ok (take (nat n) (sort_key fst t)), w)"
  "faults w = [] \<Longrightarrow> e_begin full_engine (ConnFile p) w = (Ok (), w\<lparr> txn := (txn w)(p := []) \<rparr>)"
  by (simp_all add: full_engine_def calm_engine_def ref_engine_def on_table_def guarded_def)

definition ex_full :: "ref_world sq \<Rightarrow> bool" where
  "ex_full cw \<longleftrightarrow> fst cw = ex_full_cache \<and>
     disk (snd cw) ''old.db'' = Some [(4, ex_row ex_modbus), (7, ex_row ex_can)] \<and> faults (snd cw) = []"

lemma ex_full_oldest:
  assumes "ex_full cw" "0 < n"
  shows "\<exists>xs. sq_oldest full_engine ref_conv ref_lib cw n = (Inr xs, cw) \<and> xs \<noteq> []"
proof -
  define rs where "rs = take n [(4 :: i64, ex_row ex_modbus), (7, ex_row ex_can)]"
  have "read_rows ref_conv ref_lib rs = Inr (map (read_row ref_conv ref_lib) rs)"
    unfolding rs_def
    by (rule read_rows_ok) (auto simp: ex_rows_decode table_ok_def dest!: in_set_takeD)
  moreover have "rs \<noteq> []"
    using assms(2) by (simp add: rs_def)
  ultimately show ?thesis
    using assms(1)
    by (auto simp: ex_full_def sq_oldest_def ex_full_cache_def full_engine_steps rs_def Let_def split: prod.split)
qed

lemma full_engine_undeleting: "undeleting (ex_ops full_engine) ex_full"
proof -
  have "ex_full cw \<Longrightarrow> ex_full (snd (sq_append full_engine ref_conv ref_lib cw b))" for cw b
    by (cases b) (auto simp: ex_full_def sq_append_def ex_full_cache_def full_engine_steps Let_def split: prod.split)
  moreover have "ex_full cw \<Longrightarrow> xs \<noteq> [] \<Longrightarrow> \<exists>e. sq_remove full_engine cw xs = (Inl e, cw)" for cw xs
    by (auto simp: ex_full_def sq_remove_def ex_full_cache_def full_engine_steps Let_def split: prod.split)
  moreover have "ex_full cw \<Longrightarrow> \<exists>m. sq_count cw = (Inr m, cw) \<and> m \<noteq> 0" for cw
    by (auto simp: ex_full_def sq_count_def ex_full_cache_def)
  ultimately show ?thesis
    using ex_full_oldest unfolding undeleting_def ex_ops_def ops.simps by metis
qed

theorem failed_delete_never_ends_witness: "run 1000 (ex_ops full_engine) (ex_worker ex_full_cache) = None"
  by (rule failed_delete_never_ends [OF full_engine_undeleting, where G = "\<lambda>_. True"])
    (simp_all add: healthy_def stuck_def ex_ops_def ex_worker_def channel_def ex_batching_def ex_forward_def
      ex_full_def ex_world_def)

text \<open>A connected worker whose producers have gone.\<close>

definition ex_idle :: "(Sample list, ref_world sq, nat) batcher" where
  "ex_idle = (let st = ex_worker ex_cache in
     st\<lparr> flush_threshold := 0, ch := (ch st)\<lparr> rx_closed := True, script := [] \<rparr> \<rparr>)"

lemma ex_idle_leaves:
  "fst (pass (ex_ops calm_engine) ex_idle) = False" "connected (snd (pass (ex_ops calm_engine) ex_idle))"
  by (simp_all add: pass_def report_def count_or_def ex_ops_def sq_count_def maybe_log_stats_def
      spill_if_queue_filling_def ex_idle_def ex_worker_def channel_def fresh_chan_def ex_cache_def bump_def
      establish_def drain_cache_def serve_queue_def next_batch_def recv_or_stop_def tick_def stop_ready_def pop_def
      queue_finished_def Let_def)

theorem connected_flush_is_empty_witness:
  "connected (snd (pass (ex_ops calm_engine) ex_idle)) \<and>
   fst (take_queued (ch (snd (pass (ex_ops calm_engine) ex_idle)))) = []"
  using connected_flush_is_empty [of "ex_ops calm_engine" ex_idle] ex_idle_leaves
  by (metis prod.collapse)

end
