(* ===== verification/Bus.thy ===== *)
theory Bus
  imports Samples
begin

text \<open>
  Bus numbering: \<^verbatim>\<open>crates/wiretap-server/src/source/mod.rs\<close>.  A GVRET client
  addresses an interface by a bus byte, which is the interface's index plus the
  configured offset; these are the two directions of that mapping, the count
  that is advertised, and the clock conversion the sources share.
\<close>

record Bitrates =
  nominal :: u32
  data_rate :: u32

definition FALLBACK :: Bitrates where
  "FALLBACK = \<lparr> nominal = 500000, data_rate = 0 \<rparr>"

definition reported :: "u32 option \<Rightarrow> u32 option \<Rightarrow> Bitrates" where
  "reported nom dat =
     \<lparr> nominal = (case nom of Some n \<Rightarrow> n | None \<Rightarrow> nominal FALLBACK),
       data_rate = (case dat of Some d \<Rightarrow> d | None \<Rightarrow> 0) \<rparr>"

text \<open>A frame a GVRET client asked to have put on a bus.\<close>

record Transmit =
  t_bus :: SourceId
  t_arb_id :: u32
  t_extended :: bool
  t_data :: "u8 list"

definition u8_try_from :: "usize \<Rightarrow> u8 option" where
  "u8_try_from n = (if n < 256 then Some (of_nat n) else None)"

definition bus_for_index :: "usize \<Rightarrow> u8 \<Rightarrow> SourceId option" where
  "bus_for_index index bus_offset =
     (case u8_try_from index of
        None \<Rightarrow> None
      | Some i \<Rightarrow> map_option SourceId (checked_add i bus_offset))"

definition bus_count :: "usize \<Rightarrow> u8 \<Rightarrow> u8" where
  "bus_count iface_count bus_offset =
     (case bus_for_index iface_count bus_offset of None \<Rightarrow> 255 | Some b \<Rightarrow> bus_no b)"

definition index_for_bus :: "SourceId \<Rightarrow> u8 \<Rightarrow> usize \<Rightarrow> usize option" where
  "index_for_bus bus bus_offset iface_count =
     (case checked_sub (bus_no bus) bus_offset of
        None \<Rightarrow> None
      | Some i \<Rightarrow> (if unat i < iface_count then Some (unat i) else None))"

text \<open>A \<^verbatim>\<open>SystemTime\<close> is its signed distance from the epoch in nanoseconds.\<close>

definition system_time_to_us :: "int \<Rightarrow> i64" where
  "system_time_to_us t =
     (if 0 \<le> t then (if t div 1000 \<le> i64_max then t div 1000 else i64_max) else 0)"

section \<open>The two mappings are inverse to each other\<close>

lemma bus_for_index_Some_iff:
  "bus_for_index i off = Some b \<longleftrightarrow> unat (bus_no b) = i + unat off"
proof -
  have small: "unat (bus_no b) < 256"
    by simp
  show ?thesis
  proof (cases "i < 256")
    case True
    then have "unat (of_nat i :: u8) = i"
      by (simp add: unat_of_nat_small)
    with True show ?thesis
      by (cases b) (auto simp: bus_for_index_def u8_try_from_def checked_add_Some_iff)
  next
    case False
    with small have "unat (bus_no b) \<noteq> i + unat off"
      by linarith
    with False show ?thesis
      by (simp add: bus_for_index_def u8_try_from_def)
  qed
qed

lemma index_for_bus_Some_iff:
  "index_for_bus b off n = Some i \<longleftrightarrow> unat (bus_no b) = i + unat off \<and> i < n"
proof (cases "checked_sub (bus_no b) off")
  case None
  then have "\<not> off \<le> bus_no b"
    by (simp add: checked_sub_def split: if_splits)
  with None show ?thesis
    by (auto simp: index_for_bus_def word_le_nat_alt)
next
  case (Some j)
  then have "unat (bus_no b) = unat j + unat off"
    by (simp add: checked_sub_Some_iff)
  with Some show ?thesis
    by (auto simp: index_for_bus_def)
qed

text \<open>The bus byte a client uses and the interface index are exact inverses: a
  bus resolves to interface \<open>i\<close> of \<open>n\<close> if and only if \<open>i < n\<close> and that bus is the
  one interface \<open>i\<close> is announced under.  No transmit can reach another
  interface than the one announced under its bus number.\<close>

theorem index_for_bus_inverse:
  "index_for_bus b off n = Some i \<longleftrightarrow> i < n \<and> bus_for_index i off = Some b"
  by (auto simp: index_for_bus_Some_iff bus_for_index_Some_iff)

lemma bus_for_index_inj:
  "bus_for_index i off = Some b \<Longrightarrow> bus_for_index j off = Some b \<Longrightarrow> i = j"
  by (simp add: bus_for_index_Some_iff)

lemma bus_count_eq: "unat (bus_count n off) = min 255 (n + unat off)"
proof (cases "bus_for_index n off")
  case None
  have "\<not> n + unat off \<le> 255"
  proof
    assume le: "n + unat off \<le> 255"
    then have "unat (bus_no (SourceId (of_nat (n + unat off)))) = n + unat off"
      by (simp only: SourceId.sel) (rule unat_of_nat_small, simp)
    with None show False
      by (metis bus_for_index_Some_iff option.distinct(1))
  qed
  with None show ?thesis
    by (simp add: bus_count_def)
next
  case (Some b)
  then have "unat (bus_no b) = n + unat off"
    by (simp add: bus_for_index_Some_iff)
  moreover have "unat (bus_no b) < 256"
    by simp
  ultimately show ?thesis
    using Some by (simp add: bus_count_def)
qed

text \<open>Every bus a configured interface is reached by is below the count that is
  advertised to clients, so a client that iterates over the advertised buses
  sees every interface.\<close>

theorem advertised_buses_cover_interfaces:
  assumes "index_for_bus b off n = Some i" "n + unat off \<le> 255"
  shows "bus_no b < bus_count n off"
  using assms by (auto simp: index_for_bus_Some_iff word_less_nat_alt bus_count_eq)

theorem advertised_buses_cover_interfaces_witness:
  "bus_no (SourceId 4) < bus_count 3 2"
  by (rule advertised_buses_cover_interfaces [where i = 2])
    (simp_all add: index_for_bus_def checked_sub_def)

lemma system_time_to_us_bounds: "0 \<le> system_time_to_us t \<and> system_time_to_us t \<le> i64_max"
  by (simp add: system_time_to_us_def i64_max_def pos_imp_zdiv_nonneg_iff)

end
