(* ===== verification/Config_File.thy ===== *)
theory Config_File
  imports Rust_Text Complex_Main "HOL-Library.List_Lexorder" "HOL-Library.Char_ord"
begin

text \<open>
  The two places an administrator writes settings down: the schema of
  \<^verbatim>\<open>crates/wiretap-model/src/config.rs\<close> and the flags of \<^verbatim>\<open>crates/wiretap-server/src/cli.rs\<close>.

  A key the file does not mention is \<^term>\<open>None\<close>.  Of a table of keys no section defines only
  the keys are read, so such a table is its keys.  A float is the number it denotes.  A
  flag's default is in the value the argument parser leaves in the field.
\<close>

type_synonym toml_table = "string list"
type_synonym f64 = rat

section \<open>The configuration file\<close>

record ServerSection =
  sv_iface :: "string option"
  sv_host :: "string option"
  sv_port :: "u16 option"
  sv_allowed_clients :: "string list option"
  sv_bus_offset :: "u8 option"
  sv_echo_console :: "bool option"
  sv_colour :: "bool option"
  sv_default_dir :: "string option"
  sv_can_fd :: "bool option"
  sv_unknown :: toml_table

record PostgresSection =
  ps_enable :: "bool option"
  ps_unknown :: toml_table

record IngestSection =
  is_enable :: "bool option"
  is_host :: "string option"
  is_port :: "u16 option"
  is_token :: "string option"
  is_keepalive_secs :: "f64 option"
  is_max_batch_frames :: "usize option"
  is_unknown :: toml_table

record TestPatternSection =
  ts_enable :: "bool option"
  ts_ifaces :: "string option"
  ts_unknown :: toml_table

record ForwardSection =
  fw_enable :: "bool option"
  fw_host :: "string option"
  fw_port :: "u16 option"
  fw_api_key :: "string option"
  fw_database :: "string option"
  fw_daemon_id :: "string option"
  fw_batch_size :: "usize option"
  fw_flush_interval :: "f64 option"
  fw_queue_size :: "usize option"
  fw_cache_path :: "string option"
  fw_cache_max_mb :: "u64 option"
  fw_queue_flush_pct :: "u8 option"
  fw_unknown :: toml_table

record DeviceSection =
  ds_kind :: "string option"
  ds_interface :: "string option"
  ds_mode :: "string option"
  ds_database :: "string option"
  ds_fd :: "bool option"
  ds_baud :: "u32 option"
  ds_data_bits :: "u8 option"
  ds_parity :: "string option"
  ds_stop_bits :: "u8 option"
  ds_framing :: "string option"
  ds_catalog :: "string option"
  ds_capture :: "string option"
  ds_raw_database :: "string option"
  ds_unknown :: toml_table

record LoggingSection =
  lg_level :: "string option"
  lg_stats_interval :: "f64 option"
  lg_unknown :: toml_table

record FileConfig =
  f_server :: ServerSection
  f_postgres :: PostgresSection
  f_ingest :: IngestSection
  f_test_pattern :: TestPatternSection
  f_forward :: ForwardSection
  f_logging :: LoggingSection
  f_device :: "DeviceSection list"
  f_unknown :: toml_table

text \<open>\<^verbatim>\<open>Default\<close> of a device table: nothing set.\<close>

definition DeviceSection_default :: DeviceSection where
  "DeviceSection_default =
     \<lparr> ds_kind = None, ds_interface = None, ds_mode = None, ds_database = None, ds_fd = None, ds_baud = None,
       ds_data_bits = None, ds_parity = None, ds_stop_bits = None, ds_framing = None, ds_catalog = None,
       ds_capture = None, ds_raw_database = None, ds_unknown = [] \<rparr>"

definition unknown_keys :: "FileConfig \<Rightarrow> string list" where
  "unknown_keys f =
     sort (f_unknown f @
       concat (map (\<lambda>(name, unknown). map (\<lambda>k. name @ ''.'' @ k) unknown)
         [(''server'', sv_unknown (f_server f)), (''ingest'', is_unknown (f_ingest f)),
          (''test_pattern'', ts_unknown (f_test_pattern f)), (''forward'', fw_unknown (f_forward f)),
          (''logging'', lg_unknown (f_logging f))]) @
       concat (map (\<lambda>(i, d). map (\<lambda>k. ''device['' @ dec_digits i @ ''].'' @ k) (ds_unknown d))
         (enumerate 0 (f_device f))))"

definition retired_postgres_sink :: "FileConfig \<Rightarrow> bool" where
  "retired_postgres_sink f \<longleftrightarrow> ps_enable (f_postgres f) = Some True"

definition parse_ifaces :: "string \<Rightarrow> string list" where
  "parse_ifaces spec = filter (\<lambda>s. s \<noteq> []) (map trim (split_on CHR '','' spec))"

section \<open>The command line\<close>

record Cli =
  cl_iface :: "string option"
  cl_host :: string
  cl_port :: u16
  cl_allowed_clients :: "string option"
  cl_bus_offset :: u8
  cl_echo_console :: bool
  cl_colour :: bool
  cl_default_dir :: string
  cl_can_fd :: bool
  cl_log_level :: string
  cl_stats_interval :: f64
  cl_test_pattern_enable :: bool
  cl_test_pattern_ifaces :: string
  cl_ingest_enable :: bool
  cl_ingest_host :: string
  cl_ingest_port :: u16
  cl_ingest_token :: "string option"
  cl_ingest_keepalive_secs :: f64
  cl_ingest_max_batch_frames :: usize
  cl_forward_enable :: bool
  cl_forward_host :: string
  cl_forward_port :: u16
  cl_forward_api_key :: "string option"
  cl_forward_database :: string
  cl_pg_batch_size :: usize
  cl_pg_flush_interval :: f64
  cl_pg_queue_size :: usize
  cl_pg_dir :: "string option"
  cl_pg_cache_path :: "string option"
  cl_pg_cache_max_mb :: u64
  cl_pg_queue_flush_pct :: u8
  cl_pg_enable :: bool
  cl_pg_dsn :: "string option"
  cl_pg_func :: "string option"
  cl_pg_write_mode :: "string option"
  cl_config :: "string option"
  cl_check_config :: bool
  cl_ui_config :: "string option"
  cl_control_socket :: "string option"
  cl_given :: "string list"

definition given :: "Cli \<Rightarrow> string \<Rightarrow> bool" where
  "given c field \<longleftrightarrow> field \<in> set (cl_given c)"

definition retired_flags_used :: "Cli \<Rightarrow> string list" where
  "retired_flags_used c =
     List.map_filter (\<lambda>(name, used). if used then Some name else None)
       [(''--pg-dsn'', cl_pg_dsn c \<noteq> None), (''--pg-func'', cl_pg_func c \<noteq> None),
        (''--pg-write-mode'', cl_pg_write_mode c \<noteq> None)]"

section \<open>Interface lists\<close>

lemma trim_idem: "s \<noteq> [] \<Longrightarrow> \<not> is_space (hd s) \<Longrightarrow> \<not> is_space (last s) \<Longrightarrow> trim s = s"
  using dropWhile_eq_self_iff [of is_space s] dropWhile_eq_self_iff [of is_space "rev s"]
  by (simp add: trim_def hd_rev)

lemma trim_ends:
  assumes "trim s \<noteq> []"
  shows "\<not> is_space (hd (trim s)) \<and> \<not> is_space (last (trim s))"
proof -
  define t where "t = dropWhile is_space s"
  have d: "trim s = rev (dropWhile is_space (rev t))"
    by (simp add: trim_def t_def)
  have ne: "dropWhile is_space (rev t) \<noteq> []"
    using assms d by simp
  then have "t \<noteq> []"
    by auto
  then have "\<not> is_space (hd t)"
    using hd_dropWhile [of is_space s] by (simp add: t_def)
  moreover obtain u where "t = trim s @ u"
    using d by (metis rev_append rev_rev_ident takeWhile_dropWhile_id)
  ultimately have "\<not> is_space (hd (trim s))"
    using assms by simp
  moreover have "\<not> is_space (last (trim s))"
    using hd_dropWhile [OF ne] d ne by (simp add: last_rev)
  ultimately show ?thesis ..
qed

lemma set_trim: "set (trim s) \<subseteq> set s"
  by (auto simp: trim_def dest!: set_dropWhileD)

text \<open>Every name is free of commas, not blank and not padded; and what a list of such names
  joins to is read back as the list.\<close>

definition plain_name :: "string \<Rightarrow> bool" where
  "plain_name s \<longleftrightarrow> s \<noteq> [] \<and> CHR '','' \<notin> set s \<and> \<not> is_space (hd s) \<and> \<not> is_space (last s)"

lemma parse_ifaces_plain: "s \<in> set (parse_ifaces spec) \<Longrightarrow> plain_name s"
  using trim_ends set_trim split_on_free
  by (fastforce simp: parse_ifaces_def plain_name_def)

lemma parse_ifaces_join:
  assumes "\<forall>s \<in> set names. plain_name s"
  shows "parse_ifaces (join_with '','' names) = names"
proof (cases "names = []")
  case False
  have "map trim names = names"
    using assms by (intro map_idI trim_idem) (auto simp: plain_name_def)
  moreover have "split_on CHR '','' (join_with '','' names) = names"
    using assms False by (intro split_join) (auto simp: plain_name_def)
  ultimately show ?thesis
    using assms by (simp add: parse_ifaces_def filter_id_conv) (auto simp: plain_name_def)
qed (simp add: parse_ifaces_def trim_def)

text \<open>An interface list means the names in it.  Parsing gives names that are not blank, not
  padded and free of commas, and a list of such names joined by commas parses back as
  itself.\<close>

theorem interface_list_round_trip:
  "(\<forall>s \<in> set (parse_ifaces spec). plain_name s) \<and>
   parse_ifaces (join_with '','' (parse_ifaces spec)) = parse_ifaces spec"
  using parse_ifaces_plain parse_ifaces_join by blast

theorem interface_list_round_trip_witness:
  "parse_ifaces '' can0,, can1 '' = [''can0'', ''can1''] \<and>
   parse_ifaces (join_with '','' (parse_ifaces '' can0,, can1 '')) = [''can0'', ''can1'']"
proof -
  have "parse_ifaces '' can0,, can1 '' = [''can0'', ''can1'']"
    by (simp add: parse_ifaces_def trim_def is_space_def)
  then show ?thesis
    using interface_list_round_trip [of "'' can0,, can1 ''"] by simp
qed

end
