(* ===== verification/Capture_Devices.thy ===== *)
theory Capture_Devices
  imports Bus Config_File Catalogues
begin

text \<open>
  What a server captures from: \<^verbatim>\<open>Device\<close> of \<^verbatim>\<open>crates/wiretap-server/src/settings.rs\<close> with
  the settings of a serial line, how a \<^verbatim>\<open>[[device]]\<close> table is checked, and how devices are
  numbered.

  The serial library, the gateway's naming rules and the file system are the fields of
  \<open>setlib\<close>.
\<close>

section \<open>Devices\<close>

record 'p LineSettings =
  ls_baud :: u32
  ls_data_bits :: u8
  ls_parity :: 'p
  ls_stop_bits :: u8

record ('o, 'p) setlib =
  sl_catlib :: "'o catlib"
  sl_parse_parity :: "string \<Rightarrow> (string, 'p) result"
  sl_validate :: "'p LineSettings \<Rightarrow> (string, unit) result"
  sl_valid_database_name :: "string \<Rightarrow> bool"
  sl_valid_daemon_id :: "string \<Rightarrow> bool"
  sl_read_to_string :: "path \<Rightarrow> (string, u8 list) result"
  sl_exists :: "path \<Rightarrow> bool"

datatype Mode = Active | Passive

definition Mode_as_str :: "Mode \<Rightarrow> string" where
  "Mode_as_str m = (case m of Active \<Rightarrow> ''active'' | Passive \<Rightarrow> ''passive'')"

datatype Framing = ModbusRtu

definition Framing_as_str :: "Framing \<Rightarrow> string" where
  "Framing_as_str f = (case f of ModbusRtu \<Rightarrow> ''modbus-rtu'')"

record ('o, 'p) SerialSettings =
  ss_line :: "'p LineSettings"
  ss_framing :: "Framing option"
  ss_catalogue :: "'o LineCatalogue option"
  ss_raw_database :: "string option"

datatype ('o, 'p) DeviceKind = CanKind (can_kind_fd: bool) | SerialKind "('o, 'p) SerialSettings"

record ('o, 'p) CaptureDevice =
  dd_interface :: string
  dd_mode :: Mode
  dd_database :: string
  dd_bus :: SourceId
  dd_kind :: "('o, 'p) DeviceKind"

definition HIDDEN_FROM_THE_UNIT :: "string list" where
  "HIDDEN_FROM_THE_UNIT = [''/home'', ''/root'', ''/run/user'', ''/tmp'', ''/var/tmp'']"

definition SUPPORTED_BAUDS :: "u32 list" where
  "SUPPORTED_BAUDS =
     [1200, 2400, 4800, 9600, 19200, 38400, 57600, 115200, 230400, 460800, 921600]"

text \<open>\<^verbatim>\<open>Path::starts_with\<close>, component by component, on absolute paths without dots.\<close>

definition path_components :: "path \<Rightarrow> string list" where
  "path_components p = filter (\<lambda>c. c \<noteq> []) (split_on CHR ''/'' p)"

definition path_starts_with :: "path \<Rightarrow> path \<Rightarrow> bool" where
  "path_starts_with p d \<longleftrightarrow>
     take (length (path_components d)) (path_components p) = path_components d"

definition LineCatalogue_read :: "('o, 'p) setlib \<Rightarrow> path \<Rightarrow> (string, 'o LineCatalogue) result" where
  "LineCatalogue_read L path =
     (case sl_read_to_string L path of
        Inl e \<Rightarrow> Err (''cannot read catalog '' @ path @ '': '' @ e)
      | Inr text \<Rightarrow> LineCatalogue_parse (sl_catlib L) path text)"

definition LineCatalogue_load :: "('o, 'p) setlib \<Rightarrow> path \<Rightarrow> (string, 'o LineCatalogue) result" where
  "LineCatalogue_load L path =
     (if path = [] \<or> hd path \<noteq> CHR ''/'' then Err (''catalog must be an absolute path, got '' @ debug_str path)
      else if list_ex (\<lambda>c. c = ''.'' \<or> c = ''..'') (split_on CHR ''/'' path)
      then Err (''catalog '' @ path @ '' must not contain . or .. components'')
      else case find (path_starts_with path) HIDDEN_FROM_THE_UNIT of
             Some d \<Rightarrow> Err (''catalog '' @ path @ '' is under '' @ d @ '', which the packaged unit hides from the '' @
                         ''daemon; put it in /etc/wiretap-server/'')
           | None \<Rightarrow> LineCatalogue_read L path)"

text \<open>Each stream with the database it lands in, framed before raw.\<close>

definition streams :: "('o, 'p) SerialSettings \<Rightarrow> string \<Rightarrow> (string \<times> string) list" where
  "streams s database =
     (case ss_framing s of Some f \<Rightarrow> [(Framing_as_str f, database)] | None \<Rightarrow> []) @
     (case ss_raw_database s of Some db \<Rightarrow> [(''raw'', db)] | None \<Rightarrow> [])"

definition Device_can :: "string \<Rightarrow> bool \<Rightarrow> string \<Rightarrow> ('o, 'p) CaptureDevice" where
  "Device_can interface fd database =
     \<lparr> dd_interface = interface, dd_mode = Active, dd_database = database, dd_bus = SourceId 0,
       dd_kind = CanKind fd \<rparr>"

definition is_can :: "('o, 'p) CaptureDevice \<Rightarrow> bool" where
  "is_can d = (case dd_kind d of CanKind _ \<Rightarrow> True | SerialKind _ \<Rightarrow> False)"

definition dd_fd :: "('o, 'p) CaptureDevice \<Rightarrow> bool" where
  "dd_fd d = (case dd_kind d of CanKind fd \<Rightarrow> fd | SerialKind _ \<Rightarrow> False)"

definition device_databases :: "('o, 'p) CaptureDevice \<Rightarrow> string list" where
  "device_databases d =
     (case dd_kind d of CanKind _ \<Rightarrow> [dd_database d] | SerialKind s \<Rightarrow> map snd (streams s (dd_database d)))"

definition valid_database :: "('o, 'p) setlib \<Rightarrow> string \<Rightarrow> bool" where
  "valid_database L name \<longleftrightarrow> name = [] \<or> sl_valid_database_name L name"

section \<open>A device table\<close>

definition need :: "string option \<Rightarrow> string \<Rightarrow> (string, string) result" where
  "need v key =
     (case v of None \<Rightarrow> Err (key @ '' is required'')
      | Some s \<Rightarrow> (if s = [] then Err (key @ '' is required'') else Ok s))"

definition only_for :: "bool \<Rightarrow> string \<Rightarrow> string \<Rightarrow> (string, unit) result" where
  "only_for is_set key kind = (if is_set then Err (key @ '' applies to a '' @ kind @ '' device'') else Ok ())"

definition parse_mode :: "string option \<Rightarrow> (string, Mode option) result" where
  "parse_mode m =
     (case m of
        None \<Rightarrow> Ok None
      | Some s \<Rightarrow>
          (if s = ''active'' then Ok (Some Active)
           else if s = ''passive'' then Ok (Some Passive)
           else Err (''mode must be active or passive, got '' @ debug_str s)))"

definition can_table :: "DeviceSection \<Rightarrow> bool \<Rightarrow> Mode option \<Rightarrow> (string, ('o, 'p) DeviceKind \<times> Mode) result" where
  "can_table t can_fd mode =
     try_res (only_for (ds_baud t \<noteq> None) ''baud'' ''serial'') (\<lambda>_.
     try_res (only_for (ds_data_bits t \<noteq> None) ''data_bits'' ''serial'') (\<lambda>_.
     try_res (only_for (ds_parity t \<noteq> None) ''parity'' ''serial'') (\<lambda>_.
     try_res (only_for (ds_stop_bits t \<noteq> None) ''stop_bits'' ''serial'') (\<lambda>_.
     try_res (only_for (ds_framing t \<noteq> None) ''framing'' ''serial'') (\<lambda>_.
     try_res (only_for (ds_catalog t \<noteq> None) ''catalog'' ''modbus-rtu'') (\<lambda>_.
     try_res (only_for (ds_capture t \<noteq> None) ''capture'' ''serial'') (\<lambda>_.
     try_res (only_for (ds_raw_database t \<noteq> None) ''raw_database'' ''serial'') (\<lambda>_.
       Ok (CanKind (case ds_fd t of Some fd \<Rightarrow> fd | None \<Rightarrow> can_fd),
           case mode of Some m \<Rightarrow> m | None \<Rightarrow> Active)))))))))"

text \<open>The line, what of it is captured, and how it is framed.\<close>

definition line_settings :: "('o, 'p) setlib \<Rightarrow> DeviceSection \<Rightarrow> (string, 'p LineSettings) result" where
  "line_settings L t =
     (case ds_baud t of
        None \<Rightarrow> Err ''baud is required''
      | Some baud \<Rightarrow>
          (if baud \<notin> set SUPPORTED_BAUDS
           then Err (''baud '' @ dec_digits (unat baud) @ '' is not one of ['' @
                  join_with '', '' (map (\<lambda>b. dec_digits (unat b)) SUPPORTED_BAUDS) @ '']'')
           else
             try_res (sl_parse_parity L (case ds_parity t of Some p \<Rightarrow> p | None \<Rightarrow> ''none'')) (\<lambda>parity.
             let line = \<lparr> ls_baud = baud, ls_data_bits = (case ds_data_bits t of Some n \<Rightarrow> n | None \<Rightarrow> 8),
                          ls_parity = parity, ls_stop_bits = (case ds_stop_bits t of Some n \<Rightarrow> n | None \<Rightarrow> 1) \<rparr>
             in try_res (sl_validate L line) (\<lambda>_. Ok line))))"

definition parse_capture :: "string option \<Rightarrow> (string, bool \<times> bool) result" where
  "parse_capture c =
     (case c of
        None \<Rightarrow> Ok (True, False)
      | Some s \<Rightarrow>
          (if s = ''framed'' then Ok (True, False)
           else if s = ''raw'' then Ok (False, True)
           else if s = ''both'' then Ok (True, True)
           else Err (''capture must be '' @ debug_str ''framed'' @ '', '' @ debug_str ''raw'' @ '' or '' @
                  debug_str ''both'' @ '', got '' @ debug_str s)))"

definition parse_framing :: "DeviceSection \<Rightarrow> bool \<Rightarrow> (string, Framing option) result" where
  "parse_framing t framed =
     (if framed then
        try_res (need (ds_framing t) ''framing'') (\<lambda>f.
          if f = ''modbus-rtu'' then Ok (Some ModbusRtu)
          else Err (''framing must be '' @ debug_str ''modbus-rtu'' @ '', got '' @ debug_str f))
      else Ok None)"

definition serial_table :: "('o, 'p) setlib \<Rightarrow> DeviceSection \<Rightarrow> string \<Rightarrow> Mode option
    \<Rightarrow> (string, ('o, 'p) DeviceKind \<times> Mode) result" where
  "serial_table L t database mode =
     try_res (only_for (ds_fd t \<noteq> None) ''fd'' ''CAN'') (\<lambda>_.
       if mode = Some Active
       then Err ''an active serial device (a Modbus master) is not built; use passive''
       else
         try_res (line_settings L t) (\<lambda>line.
         try_res (parse_capture (ds_capture t)) (\<lambda>(framed, raw).
           if \<not> raw \<and> ds_raw_database t \<noteq> None
           then Err (''raw_database applies to capture = '' @ debug_str ''raw'' @ '' or '' @ debug_str ''both'')
           else if \<not> framed \<and> ds_catalog t \<noteq> None
           then Err (''catalog applies to framed capture, not capture = '' @ debug_str ''raw'')
           else
             try_res (parse_framing t framed) (\<lambda>framing.
             try_res (case ds_catalog t of None \<Rightarrow> Ok None
                      | Some p \<Rightarrow> map_sum id Some (LineCatalogue_load L p)) (\<lambda>catalogue.
               Ok (SerialKind \<lparr> ss_line = line, ss_framing = framing, ss_catalogue = catalogue,
                     ss_raw_database = (if raw then Some (case ds_raw_database t of Some db \<Rightarrow> db | None \<Rightarrow> database)
                                        else None) \<rparr>,
                   Passive))))))"

definition from_table :: "('o, 'p) setlib \<Rightarrow> DeviceSection \<Rightarrow> bool \<Rightarrow> string
    \<Rightarrow> (string, ('o, 'p) CaptureDevice) result" where
  "from_table L t can_fd database =
     try_res (need (ds_interface t) ''interface'') (\<lambda>interface.
     let database = (case ds_database t of Some db \<Rightarrow> db | None \<Rightarrow> database) in
     try_res (parse_mode (ds_mode t)) (\<lambda>mode.
     try_res (need (ds_kind t) ''kind'') (\<lambda>kind.
     try_res (if kind = ''can'' then can_table t can_fd mode
              else if kind = ''serial'' then serial_table L t database mode
              else Err (''kind must be '' @ debug_str ''can'' @ '' or '' @ debug_str ''serial'' @
                     '', got '' @ debug_str kind)) (\<lambda>(kind, mode).
       Ok \<lparr> dd_interface = interface, dd_mode = mode, dd_database = database, dd_bus = SourceId 0,
            dd_kind = kind \<rparr>))))"

section \<open>Building the device list\<close>

datatype SettingsError =
    RetiredPostgresSink
  | BadDirection string
  | BadLogLevel string
  | IoError path string
  | ParseError string
  | DeviceError nat string
  | BadDatabase string
  | BadDaemonId string
  | BadAllowedClient string

fun build_tables :: "('o, 'p) setlib \<Rightarrow> bool \<Rightarrow> string \<Rightarrow> nat \<Rightarrow> DeviceSection list
    \<Rightarrow> (SettingsError, ('o, 'p) CaptureDevice list) result" where
  "build_tables L can_fd database index [] = Ok []"
| "build_tables L can_fd database index (t # ts) =
     try_res (map_sum (DeviceError index) id (from_table L t can_fd database)) (\<lambda>d.
       case find (\<lambda>db. \<not> valid_database L db) (dd_database d # device_databases d) of
         Some bad \<Rightarrow> Err (BadDatabase bad)
       | None \<Rightarrow> try_res (build_tables L can_fd database (Suc index) ts) (\<lambda>ds. Ok (d # ds)))"

text \<open>The first device whose interface an earlier one has.\<close>

fun check_duplicates :: "string list \<Rightarrow> nat \<Rightarrow> ('o, 'p) CaptureDevice list \<Rightarrow> (SettingsError, unit) result" where
  "check_duplicates seen i [] = Ok ()"
| "check_duplicates seen i (d # ds) =
     (if dd_interface d \<in> set seen then Err (DeviceError i (dd_interface d @ '' is already a device''))
      else check_duplicates (seen @ [dd_interface d]) (Suc i) ds)"

text \<open>One pass of the numbering, over the devices that are CAN or those that are not.\<close>

fun number_pass :: "bool \<Rightarrow> u8 \<Rightarrow> nat \<Rightarrow> nat \<Rightarrow> ('o, 'p) CaptureDevice list
    \<Rightarrow> (SettingsError, ('o, 'p) CaptureDevice list \<times> nat) result" where
  "number_pass can bus_offset n index [] = Ok ([], n)"
| "number_pass can bus_offset n index (d # ds) =
     (if is_can d = can then
        case bus_for_index n bus_offset of
          None \<Rightarrow> Err (DeviceError index ''bus number past 255'')
        | Some b \<Rightarrow>
            try_res (number_pass can bus_offset (Suc n) (Suc index) ds) (\<lambda>(ds, n). Ok (d\<lparr> dd_bus := b \<rparr> # ds, n))
      else try_res (number_pass can bus_offset n (Suc index) ds) (\<lambda>(ds, n). Ok (d # ds, n)))"

definition build_devices :: "('o, 'p) setlib \<Rightarrow> bool \<Rightarrow> string \<Rightarrow> u8 \<Rightarrow> string list \<Rightarrow> DeviceSection list
    \<Rightarrow> (SettingsError, ('o, 'p) CaptureDevice list) result" where
  "build_devices L can_fd database bus_offset sugar tables =
     try_res (build_tables L can_fd database (length sugar) tables) (\<lambda>ds.
     let devices = map (\<lambda>name. Device_can name can_fd database) sugar @ ds in
     try_res (check_duplicates [] 0 devices) (\<lambda>_.
     try_res (number_pass True bus_offset 0 0 devices) (\<lambda>(devices, n).
     try_res (number_pass False bus_offset n 0 devices) (\<lambda>(devices, _). Ok devices))))"

section \<open>What a device list satisfies\<close>

text \<open>A serial line is passive and captures something, into the database its table says.\<close>

definition device_ok :: "('o, 'p) setlib \<Rightarrow> ('o, 'p) CaptureDevice \<Rightarrow> bool" where
  "device_ok L d \<longleftrightarrow>
     (case dd_kind d of
        CanKind _ \<Rightarrow> True
      | SerialKind s \<Rightarrow>
          dd_mode d = Passive \<and> device_databases d \<noteq> [] \<and> ls_baud (ss_line s) \<in> set SUPPORTED_BAUDS \<and>
          sl_validate L (ss_line s) = Inr () \<and> (ss_catalogue s \<noteq> None \<longrightarrow> ss_framing s = Some ModbusRtu))"

lemma line_settings_ok:
  "line_settings L t = Inr l \<Longrightarrow> ls_baud l \<in> set SUPPORTED_BAUDS \<and> sl_validate L l = Inr ()"
  by (auto simp: line_settings_def try_res_Inr Let_def split: option.splits if_splits)

lemma only_for_ok: "only_for b k d = Inr u \<longleftrightarrow> \<not> b"
  by (auto simp: only_for_def)

lemma serial_table_ok:
  assumes "serial_table L t database mode = Inr (k, m)"
  shows "m = Passive \<and> (\<exists>s. k = SerialKind s \<and> streams s database \<noteq> [] \<and> ls_baud (ss_line s) \<in> set SUPPORTED_BAUDS \<and>
    sl_validate L (ss_line s) = Inr () \<and> (ss_catalogue s \<noteq> None \<longrightarrow> ss_framing s = Some ModbusRtu))"
proof -
  obtain line framed raw framing cat where l: "line_settings L t = Inr line"
      "parse_capture (ds_capture t) = Inr (framed, raw)" "framed \<or> ds_catalog t = None"
      "parse_framing t framed = Inr framing"
      "(case ds_catalog t of None \<Rightarrow> Ok None | Some p \<Rightarrow> map_sum id Some (LineCatalogue_load L p)) = Inr cat"
      "m = Passive" "k = SerialKind \<lparr> ss_line = line, ss_framing = framing, ss_catalogue = cat,
         ss_raw_database = (if raw then Some (case ds_raw_database t of Some db \<Rightarrow> db | None \<Rightarrow> database) else None) \<rparr>"
    using assms by (auto simp: serial_table_def try_res_Inr only_for_ok split: if_splits prod.splits)
  have "framed \<or> raw"
    using l(2) by (auto simp: parse_capture_def split: option.splits if_splits)
  moreover have "framed \<longleftrightarrow> framing = Some ModbusRtu"
    using l(4) by (auto simp: parse_framing_def try_res_Inr split: if_splits)
  moreover have "ds_catalog t = None \<Longrightarrow> cat = None"
    using l(5) by simp
  ultimately show ?thesis
    using l line_settings_ok [OF l(1)] by (auto simp: streams_def)
qed

lemma from_table_ok:
  assumes "from_table L t can_fd database = Inr d"
  shows "device_ok L d \<and> dd_interface d \<noteq> [] \<and> ds_interface t = Some (dd_interface d) \<and>
    dd_database d = (case ds_database t of Some db \<Rightarrow> db | None \<Rightarrow> database) \<and>
    (dd_mode d = Active \<longrightarrow> ds_kind t = Some ''can'' \<and> ds_mode t \<noteq> Some ''passive'')"
proof -
  define db where "db = (case ds_database t of Some x \<Rightarrow> x | None \<Rightarrow> database)"
  obtain i mode kind k m where o: "need (ds_interface t) ''interface'' = Inr i" "parse_mode (ds_mode t) = Inr mode"
      "need (ds_kind t) ''kind'' = Inr kind"
      "(if kind = ''can'' then can_table t can_fd mode else if kind = ''serial'' then serial_table L t db mode
        else Err (''kind must be '' @ debug_str ''can'' @ '' or '' @ debug_str ''serial'' @ '', got '' @ debug_str kind)) =
         Inr (k, m)"
      "d = \<lparr> dd_interface = i, dd_mode = m, dd_database = db, dd_bus = SourceId 0, dd_kind = k \<rparr>"
    using assms by (auto simp: from_table_def try_res_Inr db_def [symmetric] split: prod.splits)
  have i: "i \<noteq> []" "ds_interface t = Some i" "ds_kind t = Some kind"
    using o(1,3) by (auto simp: need_def split: option.splits if_splits)
  have md: "ds_mode t = Some ''passive'' \<Longrightarrow> mode = Some Passive"
    using o(2) by (auto simp: parse_mode_def)
  show ?thesis
  proof (cases "kind = ''can''")
    case True
    then have "k = CanKind (case ds_fd t of Some fd \<Rightarrow> fd | None \<Rightarrow> can_fd)"
        "m = (case mode of Some m \<Rightarrow> m | None \<Rightarrow> Active)"
      using o(4) by (auto simp: can_table_def try_res_Inr)
    then show ?thesis
      using True o(5) i md by (auto simp: device_ok_def db_def)
  next
    case False
    then have "serial_table L t db mode = Inr (k, m)"
      using o(4) by (auto split: if_splits)
    then show ?thesis
      using serial_table_ok [of L t db mode k m] o(5) i by (auto simp: device_ok_def device_databases_def db_def)
  qed
qed

lemma build_tables_ok:
  assumes "build_tables L can_fd database i ts = Inr ds"
  shows "map ds_interface ts = map (Some \<circ> dd_interface) ds \<and>
    (\<forall>d \<in> set ds. device_ok L d \<and> dd_interface d \<noteq> [] \<and> valid_database L (dd_database d) \<and>
       (\<forall>db \<in> set (device_databases d). valid_database L db) \<and>
       (\<exists>t \<in> set ts. from_table L t can_fd database = Inr d))"
  using assms
proof (induction ts arbitrary: i ds)
  case (Cons t ts)
  then obtain d es where o: "from_table L t can_fd database = Inr d" "build_tables L can_fd database (Suc i) ts = Inr es"
      "ds = d # es" "find (\<lambda>db. \<not> valid_database L db) (dd_database d # device_databases d) = None"
    by (auto simp: try_res_Inr map_sum_Inr simp del: find.simps split: option.splits)
  then have "\<forall>db \<in> set (dd_database d # device_databases d). valid_database L db"
    using o(4) unfolding find_None_iff by blast
  then show ?case
    using Cons.IH [OF o(2)] from_table_ok [OF o(1)] o(1,3) by auto
qed simp

lemma check_duplicates_ok:
  "check_duplicates seen i ds = Inr u \<Longrightarrow> distinct seen \<Longrightarrow> distinct (seen @ map dd_interface ds)"
proof (induction ds arbitrary: seen i)
  case (Cons d ds)
  then show ?case
    using Cons.IH [of "seen @ [dd_interface d]" "Suc i"] by (auto split: if_splits)
qed simp

text \<open>A device before it has a number.\<close>

abbreviation unnumbered :: "('o, 'p) CaptureDevice \<Rightarrow> ('o, 'p) CaptureDevice" where
  "unnumbered d \<equiv> d\<lparr> dd_bus := SourceId 0 \<rparr>"

abbreviation bus_number :: "('o, 'p) CaptureDevice \<Rightarrow> nat" where
  "bus_number d \<equiv> unat (bus_no (dd_bus d))"

lemma is_can_numbered [simp]: "is_can (d\<lparr> dd_bus := b \<rparr>) = is_can d"
  by (simp add: is_can_def)

lemma number_pass_ok:
  assumes "number_pass can off n i ds = Inr (ds', n')"
  shows "n' = n + length (filter (\<lambda>d. is_can d = can) ds) \<and>
    map bus_number (filter (\<lambda>d. is_can d = can) ds') = [n + unat off ..< n' + unat off] \<and>
    filter (\<lambda>d. is_can d \<noteq> can) ds' = filter (\<lambda>d. is_can d \<noteq> can) ds \<and> map unnumbered ds' = map unnumbered ds"
  using assms
proof (induction ds arbitrary: n i ds' n')
  case (Cons d ds)
  show ?case
  proof (cases "is_can d = can")
    case True
    then obtain b es where o: "bus_for_index n off = Some b" "number_pass can off (Suc n) (Suc i) ds = Inr (es, n')"
        "ds' = d\<lparr> dd_bus := b \<rparr> # es"
      using Cons.prems by (auto simp: try_res_Inr split: option.splits prod.splits)
    note IH = Cons.IH [OF o(2)]
    have "[n + unat off ..< n' + unat off] = (n + unat off) # [Suc n + unat off ..< n' + unat off]"
      by (subst upt_conv_Cons) (use IH in simp_all)
    then show ?thesis
      using True IH o(1,3) bus_for_index_Some_iff [of n off b] by auto
  next
    case False
    then obtain es where o: "number_pass can off n (Suc i) ds = Inr (es, n')" "ds' = d # es"
      using Cons.prems by (auto simp: try_res_Inr split: option.splits prod.splits)
    then show ?thesis
      using False Cons.IH [OF o(1)] by auto
  qed
qed simp

text \<open>A numbered list: names differ, and the numbers from the offset on go to the CAN devices in
  order and then to the others in order.\<close>

definition devices_ok :: "u8 \<Rightarrow> ('o, 'p) CaptureDevice list \<Rightarrow> bool" where
  "devices_ok off ds \<longleftrightarrow>
     distinct (map dd_interface ds) \<and>
     map bus_number (filter is_can ds @ filter (\<lambda>d. \<not> is_can d) ds) = [unat off ..< unat off + length ds]"

lemma same_kinds:
  assumes "map unnumbered xs = map unnumbered ys"
  shows "length (filter is_can xs) = length (filter is_can ys)"
proof -
  have k: "map is_can (map unnumbered zs) = map is_can zs" for zs :: "('a, 'b) CaptureDevice list"
    by simp
  have c: "length (filter is_can zs) = length (filter id (map is_can zs))" for zs :: "('a, 'b) CaptureDevice list"
    by (simp add: filter_map)
  show ?thesis
    using k [of xs] k [of ys] assms unfolding c by metis
qed

lemma build_devices_ok:
  assumes "build_devices L can_fd database off sugar tables = Inr ds"
  shows "devices_ok off ds"
    and "\<exists>es. build_tables L can_fd database (length sugar) tables = Inr es \<and>
      map unnumbered ds = map unnumbered (map (\<lambda>n. Device_can n can_fd database) sugar @ es)"
proof -
  obtain es ds1 n ds2 m where o: "build_tables L can_fd database (length sugar) tables = Inr es"
      "check_duplicates [] 0 (map (\<lambda>n. Device_can n can_fd database) sugar @ es) = Inr ()"
      "number_pass True off 0 0 (map (\<lambda>n. Device_can n can_fd database) sugar @ es) = Inr (ds1, n)"
      "number_pass False off n 0 ds1 = Inr (ds2, m)" "ds = ds2"
    using assms by (auto simp: build_devices_def try_res_Inr Let_def split: prod.splits)
  let ?all = "map (\<lambda>n. Device_can n can_fd database) sugar @ es"
  note p1 = number_pass_ok [OF o(3)] and p2 = number_pass_ok [OF o(4)]
  have same: "map unnumbered ds = map unnumbered ?all"
    using p1 p2 o(5) by simp
  then show "\<exists>es. build_tables L can_fd database (length sugar) tables = Inr es \<and>
      map unnumbered ds = map unnumbered (map (\<lambda>n. Device_can n can_fd database) sugar @ es)"
    using o(1) by blast
  have "map dd_interface ds = map dd_interface (map unnumbered ds)" for ds :: "('o, 'p) CaptureDevice list"
    by simp
  then have "map dd_interface ds = map dd_interface ?all"
    using same by metis
  then have d: "distinct (map dd_interface ds)"
    using check_duplicates_ok [OF o(2)] by simp
  have len: "length ds1 = length ds" "length ?all = length ds"
    using p2 same o(5) map_eq_imp_length_eq by metis+
  have "m = length (filter is_can ds1) + length (filter (\<lambda>d. \<not> is_can d) ds1)"
  proof -
    have "length (filter is_can ds1) = length (filter is_can ?all)"
      using p1 by (intro same_kinds) simp
    then show ?thesis
      using p1 p2 by simp
  qed
  then have m: "m = length ds"
    using sum_length_filter_compl [of is_can ds1] len by simp
  have "map bus_number (filter is_can ds) = [unat off ..< n + unat off]"
    using p1 p2 o(5) by simp
  moreover have "map bus_number (filter (\<lambda>d. \<not> is_can d) ds) = [n + unat off ..< m + unat off]"
    using p2 o(5) by simp
  moreover have "n \<le> m"
    using p2 by simp
  ultimately have "map bus_number (filter is_can ds @ filter (\<lambda>d. \<not> is_can d) ds) = [unat off ..< m + unat off]"
    using upt_add_eq_append [of "unat off" "n + unat off" "m - n"] by (simp add: add.commute [of m])
  then show "devices_ok off ds"
    using d m by (simp add: devices_ok_def add.commute)
qed

end
