(* ===== verification/Ui_Config.thy ===== *)
theory Ui_Config
  imports Config_File
begin

text \<open>
  The settings a UI writes: the schema of \<^verbatim>\<open>crates/wiretap-server/src/ui.rs\<close> and how its values
  go beneath the flags.
\<close>

type_synonym Secret = string

record UiDevice =
  ud_interface :: string
  ud_fd :: "bool option"
  ud_database :: "string option"

record UiForward =
  uf_enable :: "bool option"
  uf_host :: "string option"
  uf_port :: "u16 option"
  uf_api_key :: "Secret option"
  uf_database :: "string option"
  uf_batch_size :: "usize option"
  uf_flush_interval :: "f64 option"
  uf_queue_size :: "usize option"
  uf_cache_max_mb :: "u64 option"
  uf_queue_flush_pct :: "u8 option"

record UiIngest =
  un_enable :: "bool option"
  un_port :: "u16 option"
  un_token :: "Secret option"

record UiLogging =
  ul_level :: "string option"

record UiConfig =
  uc_devices :: "UiDevice list option"
  uc_forward :: UiForward
  uc_ingest :: UiIngest
  uc_logging :: UiLogging

definition UiConfig_default :: UiConfig where
  "UiConfig_default =
     \<lparr> uc_devices = None,
       uc_forward = \<lparr> uf_enable = None, uf_host = None, uf_port = None, uf_api_key = None, uf_database = None,
         uf_batch_size = None, uf_flush_interval = None, uf_queue_size = None, uf_cache_max_mb = None,
         uf_queue_flush_pct = None \<rparr>,
       uc_ingest = \<lparr> un_enable = None, un_port = None, un_token = None \<rparr>,
       uc_logging = \<lparr> ul_level = None \<rparr> \<rparr>"

definition UiDevice_table :: "UiDevice \<Rightarrow> (string, DeviceSection) result" where
  "UiDevice_table d =
     (let name = ud_interface d in
      if name = [] \<or> 15 < length name \<or> CHR ''/'' \<in> set name \<or> CHR '':'' \<in> set name \<or> list_ex is_space name
      then Err (debug_str name @ '' is not a CAN interface name'')
      else Ok (DeviceSection_default
        \<lparr> ds_kind := Some ''can'', ds_interface := Some name, ds_mode := Some ''passive'', ds_fd := ud_fd d,
          ds_database := ud_database d \<rparr>))"

definition fill :: "Cli \<Rightarrow> string \<Rightarrow> 'a option \<Rightarrow> 'a \<Rightarrow> 'a" where
  "fill c flag v old = (case v of None \<Rightarrow> old | Some x \<Rightarrow> (if given c flag then old else x))"

definition beneath :: "UiConfig \<Rightarrow> Cli \<Rightarrow> Cli" where
  "beneath u c =
     (let f = uc_forward u; i = uc_ingest u; l = uc_logging u in
      c\<lparr> cl_forward_enable := fill c ''forward_enable'' (uf_enable f) (cl_forward_enable c),
         cl_forward_host := fill c ''forward_host'' (uf_host f) (cl_forward_host c),
         cl_forward_port := fill c ''forward_port'' (uf_port f) (cl_forward_port c),
         cl_forward_database := fill c ''forward_database'' (uf_database f) (cl_forward_database c),
         cl_pg_batch_size := fill c ''pg_batch_size'' (uf_batch_size f) (cl_pg_batch_size c),
         cl_pg_flush_interval := fill c ''pg_flush_interval'' (uf_flush_interval f) (cl_pg_flush_interval c),
         cl_pg_queue_size := fill c ''pg_queue_size'' (uf_queue_size f) (cl_pg_queue_size c),
         cl_pg_cache_max_mb := fill c ''pg_cache_max_mb'' (uf_cache_max_mb f) (cl_pg_cache_max_mb c),
         cl_pg_queue_flush_pct := fill c ''pg_queue_flush_pct'' (uf_queue_flush_pct f) (cl_pg_queue_flush_pct c),
         cl_ingest_enable := fill c ''ingest_enable'' (un_enable i) (cl_ingest_enable c),
         cl_ingest_port := fill c ''ingest_port'' (un_port i) (cl_ingest_port c),
         cl_log_level := fill c ''log_level'' (ul_level l) (cl_log_level c) \<rparr>)"

datatype Source = SrcDefault | SrcUi | SrcFile | SrcEnv string | SrcFlag string

definition pinned :: "Source \<Rightarrow> bool" where
  "pinned s = (case s of SrcFile \<Rightarrow> True | SrcEnv _ \<Rightarrow> True | SrcFlag _ \<Rightarrow> True | SrcUi \<Rightarrow> False | SrcDefault \<Rightarrow> False)"

definition source_name :: "Source \<Rightarrow> string" where
  "source_name s =
     (case s of SrcDefault \<Rightarrow> ''default'' | SrcUi \<Rightarrow> ''ui'' | SrcFile \<Rightarrow> ''file'' | SrcEnv _ \<Rightarrow> ''env''
      | SrcFlag _ \<Rightarrow> ''flag'')"

definition source_place :: "Source \<Rightarrow> string option \<Rightarrow> string option" where
  "source_place s config =
     (case s of
        SrcDefault \<Rightarrow> None
      | SrcUi \<Rightarrow> None
      | SrcFile \<Rightarrow> config
      | SrcEnv var \<Rightarrow> Some (''env '' @ var)
      | SrcFlag field \<Rightarrow> Some (''flag --'' @ map (\<lambda>c. if c = CHR ''_'' then CHR ''-'' else c) field))"

definition source :: "bool \<Rightarrow> string option \<Rightarrow> bool \<Rightarrow> Source" where
  "source file flag ui =
     (if file then SrcFile
      else case flag of Some f \<Rightarrow> SrcFlag f | None \<Rightarrow> (if ui then SrcUi else SrcDefault))"

lemma fill_simps [simp]:
  "fill c flag None old = old" "given c flag \<Longrightarrow> fill c flag v old = old"
  "\<not> given c flag \<Longrightarrow> fill c flag (Some x) old = x"
  by (auto simp: fill_def split: option.split)

text \<open>What a UI leaves alone.\<close>

lemma beneath_keeps [simp]:
  "cl_iface (beneath u c) = cl_iface c" "cl_host (beneath u c) = cl_host c" "cl_port (beneath u c) = cl_port c"
  "cl_allowed_clients (beneath u c) = cl_allowed_clients c" "cl_bus_offset (beneath u c) = cl_bus_offset c"
  "cl_echo_console (beneath u c) = cl_echo_console c" "cl_colour (beneath u c) = cl_colour c"
  "cl_default_dir (beneath u c) = cl_default_dir c" "cl_can_fd (beneath u c) = cl_can_fd c"
  "cl_stats_interval (beneath u c) = cl_stats_interval c"
  "cl_test_pattern_enable (beneath u c) = cl_test_pattern_enable c"
  "cl_test_pattern_ifaces (beneath u c) = cl_test_pattern_ifaces c"
  "cl_pg_dir (beneath u c) = cl_pg_dir c" "cl_pg_enable (beneath u c) = cl_pg_enable c"
  "cl_ingest_host (beneath u c) = cl_ingest_host c" "cl_ingest_token (beneath u c) = cl_ingest_token c"
  "cl_ingest_keepalive_secs (beneath u c) = cl_ingest_keepalive_secs c"
  "cl_ingest_max_batch_frames (beneath u c) = cl_ingest_max_batch_frames c"
  "cl_forward_api_key (beneath u c) = cl_forward_api_key c" "cl_pg_cache_path (beneath u c) = cl_pg_cache_path c"
  "given (beneath u c) flag = given c flag" "retired_flags_used (beneath u c) = retired_flags_used c"
  by (simp_all add: beneath_def given_def retired_flags_used_def Let_def)

end
