(* ===== verification/Client_Ranges.thy ===== *)
theory Client_Ranges
  imports Rust_Text
begin

text \<open>
  The networks GVRET clients may connect from: \<^verbatim>\<open>crates/wiretap-server/src/cidr.rs\<close>, on the
  address types of \<^verbatim>\<open>std::net\<close> with their parser and printer.
\<close>

unbundle bit_operations_syntax

section \<open>Addresses\<close>

type_synonym u128 = "128 word"

datatype IpAddr = V4 u32 | V6 u128

definition is_ipv4 :: "IpAddr \<Rightarrow> bool" where
  "is_ipv4 a = (case a of V4 _ \<Rightarrow> True | V6 _ \<Rightarrow> False)"

definition to_ipv4_mapped :: "u128 \<Rightarrow> u32 option" where
  "to_ipv4_mapped a = (if drop_bit 32 a = 0xFFFF then Some (ucast a) else None)"

definition to_canonical :: "IpAddr \<Rightarrow> IpAddr" where
  "to_canonical addr =
     (case addr of
        V4 a \<Rightarrow> V4 a
      | V6 a \<Rightarrow> (case to_ipv4_mapped a of Some b \<Rightarrow> V4 b | None \<Rightarrow> V6 a))"

subsection \<open>Parsing\<close>

text \<open>The reader of \<^verbatim>\<open>std::net\<close>: each function takes the text left and returns what follows.\<close>

fun read_digits :: "nat \<Rightarrow> nat \<Rightarrow> nat \<Rightarrow> nat \<Rightarrow> nat \<Rightarrow> string \<Rightarrow> (nat \<times> nat \<times> string) option" where
  "read_digits radix bound max_digits res n [] = Some (res, n, [])"
| "read_digits radix bound max_digits res n (c # cs) =
     (case to_digit radix c of
        None \<Rightarrow> Some (res, n, c # cs)
      | Some d \<Rightarrow>
          (if bound \<le> radix * res + d \<or> max_digits < Suc n then None
           else read_digits radix bound max_digits (radix * res + d) (Suc n) cs))"

definition read_number :: "nat \<Rightarrow> nat \<Rightarrow> nat \<Rightarrow> bool \<Rightarrow> string \<Rightarrow> (nat \<times> string) option" where
  "read_number radix bound max_digits allow_zero_prefix s =
     (case read_digits radix bound max_digits 0 0 s of
        None \<Rightarrow> None
      | Some (res, n, rest) \<Rightarrow>
          (if n = 0 then None
           else if \<not> allow_zero_prefix \<and> hd s = CHR ''0'' \<and> 1 < n then None
           else Some (res, rest)))"

definition read_separator :: "char \<Rightarrow> nat \<Rightarrow> (string \<Rightarrow> ('a \<times> string) option) \<Rightarrow> string
    \<Rightarrow> ('a \<times> string) option" where
  "read_separator sep i f s =
     (if i = 0 then f s
      else case s of [] \<Rightarrow> None | c # cs \<Rightarrow> (if c = sep then f cs else None))"

fun read_octets :: "nat \<Rightarrow> nat \<Rightarrow> string \<Rightarrow> (nat list \<times> string) option" where
  "read_octets 0 i s = Some ([], s)"
| "read_octets (Suc n) i s =
     (case read_separator CHR ''.'' i (read_number 10 256 3 False) s of
        None \<Rightarrow> None
      | Some (g, s) \<Rightarrow>
          (case read_octets n (Suc i) s of None \<Rightarrow> None | Some (gs, s) \<Rightarrow> Some (g # gs, s)))"

definition from_digits :: "nat \<Rightarrow> nat list \<Rightarrow> nat" where
  "from_digits base gs = fold (\<lambda>g n. base * n + g) gs 0"

definition read_ipv4 :: "string \<Rightarrow> (nat list \<times> string) option" where
  "read_ipv4 s = read_octets 4 0 s"

text \<open>At most \<open>n\<close> groups, the \<open>i\<close>-th first; a trailing IPv4 address stands for two.\<close>

fun read_groups :: "nat \<Rightarrow> nat \<Rightarrow> string \<Rightarrow> nat list \<times> bool \<times> string" where
  "read_groups 0 i s = ([], False, s)"
| "read_groups (Suc n) i s =
     (case (if n = 0 then None else read_separator CHR '':'' i read_ipv4 s) of
        Some (os, s) \<Rightarrow> ([256 * os ! 0 + os ! 1, 256 * os ! 2 + os ! 3], True, s)
      | None \<Rightarrow>
          (case read_separator CHR '':'' i (read_number 16 65536 4 True) s of
             None \<Rightarrow> ([], False, s)
           | Some (g, s) \<Rightarrow> (let (gs, v4, s) = read_groups n (Suc i) s in (g # gs, v4, s))))"

definition read_ipv6 :: "string \<Rightarrow> (nat list \<times> string) option" where
  "read_ipv6 s =
     (let (head, head_ipv4, s) = read_groups 8 0 s in
      if length head = 8 then Some (head, s)
      else if head_ipv4 then None
      else if take 2 s \<noteq> ''::'' then None
      else let (tail, _, s) = read_groups (8 - (length head + 1)) 0 (drop 2 s) in
           Some (head @ replicate (8 - length head - length tail) 0 @ tail, s))"

definition parse_ip :: "string \<Rightarrow> IpAddr option" where
  "parse_ip s =
     (case map_option (map_prod (\<lambda>os. V4 (of_nat (from_digits 256 os))) id) (read_ipv4 s) of
        Some (a, rest) \<Rightarrow> (if rest = [] then Some a else None)
      | None \<Rightarrow>
          (case read_ipv6 s of
             Some (gs, rest) \<Rightarrow> (if rest = [] then Some (V6 (of_nat (from_digits 65536 gs))) else None)
           | None \<Rightarrow> None))"

subsection \<open>Printing\<close>

fun to_digits :: "nat \<Rightarrow> nat \<Rightarrow> nat \<Rightarrow> nat list" where
  "to_digits 0 base n = []"
| "to_digits (Suc k) base n = to_digits k base (n div base) @ [n mod base]"

definition show_ipv4 :: "u32 \<Rightarrow> string" where
  "show_ipv4 a = join_with ''.'' (map dec_digits (to_digits 4 256 (unat a)))"

text \<open>The first of the longest runs of zero groups, as its length and start.\<close>

fun zero_run :: "nat list \<Rightarrow> nat \<Rightarrow> nat \<times> nat \<Rightarrow> nat \<times> nat \<Rightarrow> nat \<times> nat" where
  "zero_run [] i current longest = longest"
| "zero_run (g # gs) i current longest =
     (if g = 0 then
        let current = (if fst current = 0 then (1, i) else (fst current + 1, snd current)) in
        zero_run gs (Suc i) current (if fst longest < fst current then current else longest)
      else zero_run gs (Suc i) (0, 0) longest)"

definition show_ipv6 :: "u128 \<Rightarrow> string" where
  "show_ipv6 a =
     (case to_ipv4_mapped a of
        Some b \<Rightarrow> ''::ffff:'' @ show_ipv4 b
      | None \<Rightarrow>
          (let gs = to_digits 8 65536 (unat a); (len, at) = zero_run gs 0 (0, 0) (0, 0);
               show_groups = (\<lambda>gs. join_with '':'' (map hex_digits gs))
           in if 1 < len then show_groups (take at gs) @ ''::'' @ show_groups (drop (at + len) gs)
              else show_groups gs))"

definition show_ip :: "IpAddr \<Rightarrow> string" where
  "show_ip addr = (case addr of V4 a \<Rightarrow> show_ipv4 a | V6 a \<Rightarrow> show_ipv6 a)"

section \<open>Ranges\<close>

record Cidr =
  cd_network :: IpAddr
  cd_prefix :: u8

definition LOOPBACK :: "Cidr list" where
  "LOOPBACK = [\<lparr> cd_network = V4 0x7F000000, cd_prefix = 8 \<rparr>, \<lparr> cd_network = V6 1, cd_prefix = 128 \<rparr>]"

definition bits :: "IpAddr \<Rightarrow> u128 \<times> u8" where
  "bits addr = (case addr of V4 a \<Rightarrow> (ucast a, 32) | V6 a \<Rightarrow> (a, 128))"

text \<open>\<^verbatim>\<open>checked_shr\<close> gives nothing from a shift by the width on.\<close>

definition network_bits :: "u128 \<Rightarrow> u8 \<Rightarrow> u8 \<Rightarrow> u128" where
  "network_bits bs width pre =
     (let host = unat (width - pre) in
      if host < 128 then push_bit host (drop_bit host bs) else 0)"

definition contains :: "Cidr \<Rightarrow> IpAddr \<Rightarrow> bool" where
  "contains c peer =
     (let peer = to_canonical peer; (peer_bits, width) = bits peer; (net, _) = bits (cd_network c) in
      is_ipv4 peer = is_ipv4 (cd_network c) \<and> network_bits peer_bits width (cd_prefix c) = net)"

definition Cidr_show :: "Cidr \<Rightarrow> string" where
  "Cidr_show c = show_ip (cd_network c) @ ''/'' @ dec_digits (unat (cd_prefix c))"

definition Cidr_from_str :: "string \<Rightarrow> (string, Cidr) result" where
  "Cidr_from_str s =
     (let (addr, pre) = (case split_once CHR ''/'' s of Some (a, p) \<Rightarrow> (a, Some p) | None \<Rightarrow> (s, None)) in
      case parse_ip addr of
        None \<Rightarrow> Err (debug_str s @ '' is not an IP address or CIDR range'')
      | Some net \<Rightarrow>
          (if (case net of V6 a \<Rightarrow> to_ipv4_mapped a \<noteq> None | V4 _ \<Rightarrow> False)
           then Err (debug_str s @ '' is IPv4-mapped; write it as IPv4'')
           else
             let (bs, width) = bits net in
             case (case pre of
                     None \<Rightarrow> Some width
                   | Some p \<Rightarrow> (case parse_u8 p of
                                 Some n \<Rightarrow> (if n \<le> width then Some n else None)
                               | None \<Rightarrow> None)) of
               None \<Rightarrow> Err (debug_str s @ '': the prefix must be 0 to '' @ dec_digits (unat width))
             | Some pre \<Rightarrow>
                 (let masked = network_bits bs width pre in
                  if masked \<noteq> bs then
                    Err (debug_str s @ '' has host bits set; the network is '' @
                      Cidr_show \<lparr> cd_network = (case net of V4 _ \<Rightarrow> V4 (ucast masked) | V6 _ \<Rightarrow> V6 masked), cd_prefix = pre \<rparr>)
                  else Ok \<lparr> cd_network = net, cd_prefix = pre \<rparr>)))"

section \<open>What a range contains\<close>

text \<open>No host bits, a prefix no longer than the address, and no IPv4-mapped network, which
  \<^verbatim>\<open>contains\<close> would never match.\<close>

definition cidr_ok :: "Cidr \<Rightarrow> bool" where
  "cidr_ok c \<longleftrightarrow>
     (let (bs, width) = bits (cd_network c) in
      cd_prefix c \<le> width \<and> network_bits bs width (cd_prefix c) = bs) \<and>
     to_canonical (cd_network c) = cd_network c"

definition agree :: "nat \<Rightarrow> 'a::len word \<Rightarrow> 'a word \<Rightarrow> bool" where
  "agree n a b \<longleftrightarrow> (\<forall>i < n. bit a (LENGTH('a) - 1 - i) = bit b (LENGTH('a) - 1 - i))"

lemma agree_list:
  "agree n a b \<longleftrightarrow> list_all (\<lambda>i. bit a (LENGTH('a) - 1 - i) = bit b (LENGTH('a) - 1 - i)) [0..<n]"
  for a :: "'a::len word"
  by (auto simp: agree_def list_all_iff)

lemma shifted_bit: "bit (push_bit h (drop_bit h x)) i \<longleftrightarrow> h \<le> i \<and> bit (x :: 'a::len word) i"
  by (auto simp: bit_push_bit_iff bit_drop_bit_eq dest: bit_imp_le_length)

lemma network_bits_bit:
  assumes "pre \<le> width"
  shows "bit (network_bits x width pre) i \<longleftrightarrow> unat width - unat pre \<le> i \<and> bit x i"
proof (cases "unat (width - pre) < 128")
  case True
  then show ?thesis
    using assms by (simp add: network_bits_def Let_def shifted_bit unat_sub word_le_nat_alt)
next
  case False
  then have "unat width - unat pre \<le> i \<Longrightarrow> \<not> bit x i"
    using assms bit_imp_le_length [of x i] by (auto simp: unat_sub word_le_nat_alt)
  then show ?thesis
    using False by (auto simp: network_bits_def)
qed

lemma network_bits_eq:
  assumes "pre \<le> width" "network_bits y width pre = y"
  shows "network_bits x width pre = y \<longleftrightarrow> (\<forall>i. unat width - unat pre \<le> i \<longrightarrow> bit x i = bit y i)"
proof
  assume "network_bits x width pre = y"
  then show "\<forall>i. unat width - unat pre \<le> i \<longrightarrow> bit x i = bit y i"
    using network_bits_bit [OF assms(1), of x] by auto
next
  assume "\<forall>i. unat width - unat pre \<le> i \<longrightarrow> bit x i = bit y i"
  then have "bit (network_bits x width pre) i = bit y i" for i
    using network_bits_bit [OF assms(1), of x i] network_bits_bit [OF assms(1), of y i] assms(2) by auto
  then show "network_bits x width pre = y"
    by (simp add: bit_eq_iff)
qed

lemma agree_from_top:
  assumes "p \<le> LENGTH('a)"
  shows "agree p a b \<longleftrightarrow> (\<forall>i. LENGTH('a) - p \<le> i \<longrightarrow> bit (a :: 'a::len word) i = bit b i)"
proof
  assume a: "agree p a b"
  show "\<forall>i. LENGTH('a) - p \<le> i \<longrightarrow> bit a i = bit b i"
  proof (intro allI impI)
    fix i assume i: "LENGTH('a) - p \<le> i"
    show "bit a i = bit b i"
    proof (cases "i < LENGTH('a)")
      case True
      then have "LENGTH('a) - 1 - i < p" "LENGTH('a) - 1 - (LENGTH('a) - 1 - i) = i"
        using i assms by auto
      then show ?thesis
        using a unfolding agree_def by metis
    qed (use bit_imp_le_length in blast)
  qed
qed (auto simp: agree_def)

lemma contains_V4:
  assumes "cidr_ok c" "cd_network c = V4 n"
  shows "contains c (V4 a) \<longleftrightarrow> agree (unat (cd_prefix c)) a n"
proof -
  have le: "cd_prefix c \<le> 32" "network_bits (ucast n) 32 (cd_prefix c) = (ucast n :: u128)"
    using assms by (simp_all add: cidr_ok_def bits_def)
  have p: "unat (cd_prefix c) \<le> 32"
    using le(1) by (simp add: word_le_nat_alt)
  have "contains c (V4 a) \<longleftrightarrow> network_bits (ucast a) 32 (cd_prefix c) = ucast n"
    using assms(2) by (simp add: contains_def to_canonical_def bits_def is_ipv4_def)
  also have "\<dots> \<longleftrightarrow> (\<forall>i. 32 - unat (cd_prefix c) \<le> i \<longrightarrow> bit a i = bit n i)"
  proof -
    have "bit (ucast x :: u128) i = bit x i" for x :: u32 and i
      using bit_imp_le_length [of x i] by (auto simp: bit_ucast_iff)
    then show ?thesis
      using network_bits_eq [OF le, of "ucast a"] by simp
  qed
  also have "\<dots> \<longleftrightarrow> agree (unat (cd_prefix c)) a n"
    using agree_from_top [of "unat (cd_prefix c)" a n] p by simp
  finally show ?thesis .
qed

lemma contains_V6:
  assumes "cidr_ok c" "cd_network c = V6 n" "to_ipv4_mapped a = None"
  shows "contains c (V6 a) \<longleftrightarrow> agree (unat (cd_prefix c)) a n"
proof -
  have le: "cd_prefix c \<le> 128" "network_bits n 128 (cd_prefix c) = n"
    using assms by (simp_all add: cidr_ok_def bits_def)
  have p: "unat (cd_prefix c) \<le> 128"
    using le(1) by (simp add: word_le_nat_alt)
  have "contains c (V6 a) \<longleftrightarrow> network_bits a 128 (cd_prefix c) = n"
    using assms(2,3) by (simp add: contains_def to_canonical_def bits_def is_ipv4_def)
  then show ?thesis
    using network_bits_eq [OF le, of a] agree_from_top [of "unat (cd_prefix c)" a n] p by simp
qed

text \<open>What a client list means: an address of the network's family whose first \<open>prefix\<close> bits
  are the network's.\<close>

definition in_range :: "IpAddr \<Rightarrow> nat \<Rightarrow> IpAddr \<Rightarrow> bool" where
  "in_range net n peer =
     (case (net, peer) of
        (V4 b, V4 a) \<Rightarrow> agree n a b
      | (V6 b, V6 a) \<Rightarrow> agree n a b
      | _ \<Rightarrow> False)"

lemma canonical_not_mapped: "to_canonical peer = V6 a \<Longrightarrow> to_ipv4_mapped a = None"
  by (auto simp: to_canonical_def split: IpAddr.splits option.splits)

lemma contains_canonical: "contains c peer = contains c (to_canonical peer)"
proof -
  have "to_canonical (to_canonical peer) = to_canonical peer"
    by (auto simp: to_canonical_def split: IpAddr.split option.split)
  then show ?thesis
    by (simp add: contains_def)
qed

lemma contains_in_range:
  assumes "cidr_ok c"
  shows "contains c peer \<longleftrightarrow> in_range (cd_network c) (unat (cd_prefix c)) (to_canonical peer)"
proof (cases "to_canonical peer")
  case (V4 a)
  then show ?thesis
    using contains_canonical [of c peer] contains_V4 [OF assms, of _ a]
    by (cases "cd_network c")
      (simp_all add: in_range_def contains_def to_canonical_def [of "V4 a"] bits_def is_ipv4_def)
next
  case (V6 a)
  note m = canonical_not_mapped [OF this]
  show ?thesis
    using V6 m contains_canonical [of c peer] contains_V6 [OF assms _ m]
    by (cases "cd_network c")
      (simp_all add: in_range_def contains_def to_canonical_def [of "V6 a"] bits_def is_ipv4_def)
qed

section \<open>Parsing a range\<close>

lemma Cidr_from_str_ok: "Cidr_from_str s = Inr c \<Longrightarrow> cidr_ok c"
  by (auto simp: Cidr_from_str_def cidr_ok_def to_canonical_def Let_def
      split: prod.splits option.splits IpAddr.splits if_splits)

lemma loopback_ok: "c \<in> set LOOPBACK \<Longrightarrow> cidr_ok c"
  by (auto simp: LOOPBACK_def cidr_ok_def bits_def network_bits_def to_canonical_def to_ipv4_mapped_def Let_def)

text \<open>C35: a client is let in exactly by its address's leading bits.  A range that was parsed from
  the configuration contains an address if and only if both are of one family, an
  IPv4-mapped address counting as IPv4, and their first \<open>prefix\<close> bits agree; the shifts
  in \<^verbatim>\<open>network_bits\<close> never wrap.\<close>

theorem parsed_range_contains:
  assumes "Cidr_from_str s = Inr c"
  shows "(contains c peer \<longleftrightarrow> in_range (cd_network c) (unat (cd_prefix c)) (to_canonical peer)) \<and>
    cd_prefix c \<le> snd (bits (cd_network c))"
  using contains_in_range [OF Cidr_from_str_ok [OF assms]] Cidr_from_str_ok [OF assms]
  by (auto simp: cidr_ok_def split: prod.splits)

section \<open>A range and its text\<close>

definition digit_fold :: "nat \<Rightarrow> string \<Rightarrow> nat \<Rightarrow> nat" where
  "digit_fold radix s = fold (\<lambda>c n. radix * n + (case to_digit radix c of Some d \<Rightarrow> d | None \<Rightarrow> 0)) s"

lemma digit_fold_Cons:
  "digit_fold radix (c # s) n = digit_fold radix s (radix * n + (case to_digit radix c of Some d \<Rightarrow> d | None \<Rightarrow> 0))"
  by (simp add: digit_fold_def)

lemma digit_fold_ge: "0 < radix \<Longrightarrow> n \<le> digit_fold radix s n"
proof (induction s arbitrary: n)
  case (Cons c s)
  let ?m = "radix * n + (case to_digit radix c of Some d \<Rightarrow> d | None \<Rightarrow> 0)"
  have "n \<le> ?m"
    using Cons.prems by (simp add: trans_le_add1)
  with Cons show ?case
    by (metis digit_fold_Cons le_trans)
qed (simp add: digit_fold_def)

lemma read_digits_run:
  assumes "0 < radix" "list_all (\<lambda>c. to_digit radix c \<noteq> None) ds" "rest = [] \<or> to_digit radix (hd rest) = None"
    and "digit_fold radix ds res < bound" "n + length ds \<le> max_digits"
  shows "read_digits radix bound max_digits res n (ds @ rest) = Some (digit_fold radix ds res, n + length ds, rest)"
  using assms(2-5)
proof (induction ds arbitrary: res n)
  case Nil
  then show ?case
    by (cases rest) (auto simp: digit_fold_def)
next
  case (Cons c ds)
  then obtain d where d: "to_digit radix c = Some d"
    by auto
  have "radix * res + d \<le> digit_fold radix (c # ds) res"
    using d digit_fold_ge [OF assms(1), of "radix * res + d" ds] by (simp add: digit_fold_Cons)
  with d show ?case
    using Cons.IH [of "radix * res + d" "Suc n"] Cons.prems by (simp add: digit_fold_Cons)
qed

lemma dec_digits_short: "n < 1000 \<Longrightarrow> length (dec_digits n) \<le> 3"
  by (subst dec_digits.simps, subst dec_digits.simps, subst dec_digits.simps) (simp add: Let_def)

lemma read_octet:
  assumes "n < 256" "rest = [] \<or> to_digit 10 (hd rest) = None"
  shows "read_number 10 256 3 False (dec_digits n @ rest) = Some (n, rest)"
proof -
  have v: "digit_fold 10 (dec_digits n) 0 = n"
    using dec_value_digits [of n] by (simp add: dec_value_def digit_fold_def)
  have "read_digits 10 256 3 0 0 (dec_digits n @ rest) = Some (n, length (dec_digits n), rest)"
    using read_digits_run [of 10 "dec_digits n" rest 0 256 0 3] dec_digits_all [of n] assms v dec_digits_short [of n]
    by (simp add: all_digits_def)
  moreover have "hd (dec_digits n @ rest) = CHR ''0'' \<Longrightarrow> length (dec_digits n) = 1"
    using dec_digits_hd [of n] by (subst dec_digits.simps) (simp add: Let_def)
  ultimately show ?thesis
    using dec_digits_hd(1) [of n] by (auto simp: read_number_def)
qed

lemma read_octets_joined:
  assumes "\<forall>g \<in> set gs. g < 256" "rest = [] \<or> to_digit 10 (hd rest) = None" "gs \<noteq> []"
  shows "read_octets (length gs) 0 (join_with ''.'' (map dec_digits gs) @ rest) = Some (gs, rest)"
proof -
  have tail: "read_octets (length gs) (Suc i) (concat (map (\<lambda>g. CHR ''.'' # dec_digits g) gs) @ rest) = Some (gs, rest)"
    if "\<forall>g \<in> set gs. g < 256" for i gs
    using that
  proof (induction gs arbitrary: i)
    case (Cons g gs)
    have "concat (map (\<lambda>g. CHR ''.'' # dec_digits g) gs) @ rest = [] \<or>
        to_digit 10 (hd (concat (map (\<lambda>g. CHR ''.'' # dec_digits g) gs) @ rest)) = None"
      using assms(2) by (cases gs) (auto simp: to_digit_def)
    then show ?case
      using Cons by (simp add: read_separator_def read_octet)
  qed simp
  have join: "join_with ''.'' (map dec_digits (g # gs)) = dec_digits g @ concat (map (\<lambda>g. CHR ''.'' # dec_digits g) gs)"
    for g gs
    by (induction gs arbitrary: g) auto
  obtain g hs where gs: "gs = g # hs"
    using assms(3) by (cases gs) auto
  have "concat (map (\<lambda>g. CHR ''.'' # dec_digits g) hs) @ rest = [] \<or>
      to_digit 10 (hd (concat (map (\<lambda>g. CHR ''.'' # dec_digits g) hs) @ rest)) = None"
    using assms(2) by (cases hs) (auto simp: to_digit_def)
  then show ?thesis
    using assms(1) tail [of hs 0] join [of g hs] by (simp add: gs read_separator_def read_octet)
qed

lemma digits_back: "0 < base \<Longrightarrow> n < base ^ k \<Longrightarrow> from_digits base (to_digits k base n) = n"
proof (induction k arbitrary: n)
  case (Suc k)
  then have "n div base < base ^ k"
    by (simp add: less_mult_imp_div_less mult.commute)
  then show ?case
    using Suc by (simp add: from_digits_def)
qed (simp add: from_digits_def)

lemma to_digits_bound: "0 < base \<Longrightarrow> \<forall>g \<in> set (to_digits k base n). g < base" "length (to_digits k base n) = k"
  by (induction k arbitrary: n) auto

lemma parse_show_ipv4: "parse_ip (show_ipv4 a) = Some (V4 a)"
proof -
  let ?gs = "to_digits 4 256 (unat a)"
  have "read_ipv4 (show_ipv4 a) = Some (?gs, [])"
    using read_octets_joined [of ?gs "[]"] to_digits_bound(1) [of 256 4 "unat a"] to_digits_bound(2) [of 4 256 "unat a"]
    unfolding read_ipv4_def show_ipv4_def by (metis append_Nil2 length_0_conv zero_less_numeral zero_neq_numeral)
  moreover have "from_digits 256 ?gs = unat a"
    using digits_back [of 256 "unat a" 4] unsigned_less [of a] by simp
  ultimately show ?thesis
    by (simp add: parse_ip_def)
qed

lemma show_parses:
  assumes "cidr_ok c" "cd_network c = V4 a"
  shows "Cidr_from_str (Cidr_show c) = Inr c"
proof -
  have "CHR ''/'' \<notin> set (show_ipv4 a)"
  proof -
    have digit: "CHR ''/'' \<notin> set (dec_digits n)" for n
      using dec_digits_all [of n] by (auto simp: all_digits_def list_all_iff to_digit_def)
    have "CHR ''/'' \<notin> set (join_with ''.'' (map dec_digits gs))" for gs
    proof (induction gs)
      case (Cons g gs)
      then show ?case
        using digit by (cases gs) auto
    qed simp
    then show ?thesis
      by (simp add: show_ipv4_def)
  qed
  then have s: "split_once CHR ''/'' (Cidr_show c) = Some (show_ipv4 a, dec_digits (unat (cd_prefix c)))"
    using split_once_append assms(2) by (simp add: Cidr_show_def show_ip_def)
  have "parse_u8 (dec_digits (unat (cd_prefix c))) = Some (cd_prefix c)"
    by (simp add: parse_dec_digits)
  then show ?thesis
    using assms s by (simp add: Cidr_from_str_def parse_show_ipv4 cidr_ok_def bits_def Let_def)
qed

text \<open>A range's text means the range.  What \<^verbatim>\<open>--check-config\<close> prints of an IPv4 range parses
  back as the same range.\<close>

theorem ipv4_range_round_trip:
  assumes "cidr_ok c" "cd_network c = V4 a"
  shows "Cidr_from_str (Cidr_show c) = Inr c"
  using assms by (rule show_parses)

definition ex_range :: Cidr where
  "ex_range = \<lparr> cd_network = V4 0x0A000000, cd_prefix = 8 \<rparr>"

lemma ex_range_ok: "cidr_ok ex_range" "cd_network ex_range = V4 0x0A000000"
  by (simp_all add: ex_range_def cidr_ok_def bits_def network_bits_def to_canonical_def Let_def)

theorem ipv4_range_round_trip_witness: "Cidr_from_str (Cidr_show ex_range) = Inr ex_range"
  using ipv4_range_round_trip [OF ex_range_ok] .

theorem parsed_range_contains_witness:
  "Cidr_from_str (Cidr_show ex_range) = Inr ex_range \<and> contains ex_range (V6 0xFFFF0A010203) \<and>
   \<not> contains ex_range (V4 0x0B000001)"
proof -
  note e = show_parses [OF ex_range_ok]
  have "agree 8 (0xFFFF0A010203 :: u32) 0x0A000000" "\<not> agree 8 (0x0B000001 :: u32) 0x0A000000"
    unfolding agree_list by code_simp+
  then show ?thesis
    using e parsed_range_contains [OF e, of "V6 0xFFFF0A010203"] parsed_range_contains [OF e, of "V4 0x0B000001"]
    by (simp add: in_range_def to_canonical_def to_ipv4_mapped_def ex_range_def)
qed

end
