(* ===== verification/Server_Settings.thy ===== *)
theory Server_Settings
  imports Capture_Devices Ui_Config Client_Ranges Cache_Paths
begin

text \<open>
  Resolving the settings a server runs on, \<^verbatim>\<open>Settings::resolve\<close> of
  \<^verbatim>\<open>crates/wiretap-server/src/settings.rs\<close>: the UI's values beneath the flags, the file over
  both, the environment for secrets and paths; then the device list, and what each archive
  pipeline is given.
\<close>

section \<open>The layers\<close>

record Env =
  ev_ingest_token :: "Secret option"
  ev_forward_api_key :: "Secret option"
  ev_cache_path :: "string option"
  ev_state_dir :: "string option"
  ev_runtime_dir :: "string option"
  ev_home :: "string option"
  ev_hostname :: "string option"

record Ingest =
  in_host :: string
  in_port :: u16
  in_token :: Secret
  in_keepalive_secs :: f64
  in_max_batch_frames :: usize

record TestPattern =
  tp_ifaces :: "string list"

datatype LogLevel = Debug | Info | Warning | Error

record ('o, 'p) Settings =
  se_devices :: "('o, 'p) CaptureDevice list"
  se_host :: string
  se_port :: u16
  se_allowed_clients :: "Cidr list"
  se_allowed_clients_source :: Source
  se_bus_offset :: u8
  se_echo_console :: bool
  se_colour :: bool
  se_default_dir :: Direction
  se_can_fd :: bool
  se_log_level :: LogLevel
  se_stats_interval :: f64
  se_ingest :: "Ingest option"
  se_forward :: "Forward option"
  se_test_pattern :: "TestPattern option"

datatype SettingsWarning =
    RetiredFlags "string list"
  | UnknownKey string
  | NoCaptureSource
  | NoForwardSink
  | ForwardKeyMissing
  | UiIgnored string
  | TestPatternDisarmedByFile

record ('o, 'p) Resolved =
  rs_settings :: "('o, 'p) Settings"
  rs_warnings :: "SettingsWarning list"

text \<open>A file's value over a flag's, and an option's value or a default.\<close>

definition over :: "'a \<Rightarrow> 'a option \<Rightarrow> 'a" where
  "over dst src = (case src of Some v \<Rightarrow> v | None \<Rightarrow> dst)"

definition parse_over :: "(string \<Rightarrow> ('e, 'a) result) \<Rightarrow> 'a \<Rightarrow> string option \<Rightarrow> ('e, 'a) result" where
  "parse_over parse dst src = (case src of Some v \<Rightarrow> parse v | None \<Rightarrow> Ok dst)"

definition LogLevel_as_str :: "LogLevel \<Rightarrow> string" where
  "LogLevel_as_str l =
     (case l of Debug \<Rightarrow> ''DEBUG'' | Info \<Rightarrow> ''INFO'' | Warning \<Rightarrow> ''WARNING'' | Error \<Rightarrow> ''ERROR'')"

definition LogLevel_from_str :: "string \<Rightarrow> LogLevel option" where
  "LogLevel_from_str s =
     (let t = map ascii_upper s in
      if t = ''DEBUG'' then Some Debug
      else if t = ''INFO'' then Some Info
      else if t = ''WARNING'' then Some Warning
      else if t = ''ERROR'' then Some Error
      else None)"

definition parse_direction :: "string \<Rightarrow> (SettingsError, Direction) result" where
  "parse_direction s = (case Direction_from_str s of Some d \<Rightarrow> Ok d | None \<Rightarrow> Err (BadDirection s))"

definition parse_log_level :: "string \<Rightarrow> (SettingsError, LogLevel) result" where
  "parse_log_level s = (case LogLevel_from_str s of Some l \<Rightarrow> Ok l | None \<Rightarrow> Err (BadLogLevel s))"

definition short_name :: "string \<Rightarrow> string" where
  "short_name hostname = map ascii_lower (hd (split_on CHR ''.'' hostname))"

fun parse_clients :: "string list \<Rightarrow> (SettingsError, Cidr list) result" where
  "parse_clients [] = Ok []"
| "parse_clients (c # cs) =
     try_res (map_sum BadAllowedClient id (Cidr_from_str c)) (\<lambda>n.
     try_res (parse_clients cs) (\<lambda>ns. Ok (n # ns)))"

definition allowed_clients :: "Cli \<Rightarrow> FileConfig option \<Rightarrow> (SettingsError, Cidr list \<times> Source) result" where
  "allowed_clients cli file =
     (case (Option.bind file (\<lambda>f. sv_allowed_clients (f_server f)), cl_allowed_clients cli) of
        (Some list, _) \<Rightarrow> try_res (parse_clients list) (\<lambda>ns. Ok (ns, SrcFile))
      | (None, Some flag) \<Rightarrow> try_res (parse_clients (parse_ifaces flag)) (\<lambda>ns. Ok (ns, SrcFlag ''allowed_clients''))
      | (None, None) \<Rightarrow> Ok (LOOPBACK, SrcDefault))"

section \<open>Where the cache lives\<close>

definition LEGACY_CACHE_FILE :: string where
  "LEGACY_CACHE_FILE = ''.wiretap-server-cache.db''"

definition STAGED_CACHE_FILE :: string where
  "STAGED_CACHE_FILE = ''adopt.db''"

definition cache_path :: "string option \<Rightarrow> Env \<Rightarrow> path \<times> string option" where
  "cache_path configured env =
     (case (case configured of Some p \<Rightarrow> Some p | None \<Rightarrow> ev_cache_path env) of
        Some p \<Rightarrow> (p, None)
      | None \<Rightarrow>
          (case (ev_state_dir env, ev_home env) of
             (Some state, _) \<Rightarrow> (path_push state ''cache.db'', None)
           | (None, Some home) \<Rightarrow> (path_push home LEGACY_CACHE_FILE,
               Some ''from $HOME; the packaged unit sets STATE_DIRECTORY instead'')
           | (None, None) \<Rightarrow> (LEGACY_CACHE_FILE,
               Some ''relative to the working directory; no $STATE_DIRECTORY, no $HOME'')))"

text \<open>\<^verbatim>\<open>Path\<close>'s equality, which compares components.\<close>

definition path_eq :: "path \<Rightarrow> path \<Rightarrow> bool" where
  "path_eq p q \<longleftrightarrow> (take 1 p = ''/'') = (take 1 q = ''/'') \<and> path_components p = path_components q"

definition legacy_cache_path :: "('o, 'p) setlib \<Rightarrow> path \<Rightarrow> Env \<Rightarrow> path option" where
  "legacy_cache_path L in_use env =
     find (\<lambda>p. \<not> path_eq p in_use \<and> sl_exists L p)
       ((case ev_state_dir env of Some d \<Rightarrow> [path_push d STAGED_CACHE_FILE] | None \<Rightarrow> []) @
        (case ev_home env of Some h \<Rightarrow> [path_push h LEGACY_CACHE_FILE] | None \<Rightarrow> []))"

section \<open>What the flags say\<close>

definition Batching_from_cli :: "Cli \<Rightarrow> Env \<Rightarrow> Batching" where
  "Batching_from_cli cli env =
     (let (p, origin) = cache_path (cl_pg_cache_path cli) env in
      \<lparr> bt_size = cl_pg_batch_size cli, bt_flush_interval = cl_pg_flush_interval cli,
        bt_queue_size = cl_pg_queue_size cli, bt_cache_path = p, bt_cache_origin = origin,
        bt_cache_max_mb = cl_pg_cache_max_mb cli, bt_queue_flush_pct = cl_pg_queue_flush_pct cli,
        bt_legacy_cache_path = None \<rparr>)"

definition Ingest_from_cli :: "Cli \<Rightarrow> Ingest" where
  "Ingest_from_cli cli =
     \<lparr> in_host = cl_ingest_host cli, in_port = cl_ingest_port cli, in_token = over [] (cl_ingest_token cli),
       in_keepalive_secs = cl_ingest_keepalive_secs cli, in_max_batch_frames = cl_ingest_max_batch_frames cli \<rparr>"

definition TestPattern_from_cli :: "Cli \<Rightarrow> TestPattern" where
  "TestPattern_from_cli cli = \<lparr> tp_ifaces = parse_ifaces (cl_test_pattern_ifaces cli) \<rparr>"

definition Forward_from_cli :: "Cli \<Rightarrow> Env \<Rightarrow> Forward" where
  "Forward_from_cli cli env =
     \<lparr> fd_host = cl_forward_host cli, fd_port = cl_forward_port cli, fd_api_key = over [] (cl_forward_api_key cli),
       fd_database = cl_forward_database cli, fd_batching = Batching_from_cli cli env,
       fd_daemon_id = (case ev_hostname env of Some h \<Rightarrow> short_name h | None \<Rightarrow> []),
       fd_devices = [], fd_raw_serial = False \<rparr>"

definition from_flags :: "Cli \<Rightarrow> Env \<Rightarrow> Cidr list \<Rightarrow> Source \<Rightarrow> Direction \<Rightarrow> LogLevel \<Rightarrow> ('o, 'p) Settings" where
  "from_flags cli env clients src direction level =
     \<lparr> se_devices = [], se_host = cl_host cli, se_port = cl_port cli, se_allowed_clients = clients,
       se_allowed_clients_source = src, se_bus_offset = cl_bus_offset cli, se_echo_console = cl_echo_console cli,
       se_colour = cl_colour cli, se_default_dir = direction, se_can_fd = cl_can_fd cli, se_log_level = level,
       se_stats_interval = cl_stats_interval cli,
       se_ingest = (if cl_ingest_enable cli then Some (Ingest_from_cli cli) else None),
       se_forward = (if cl_forward_enable cli then Some (Forward_from_cli cli env) else None),
       se_test_pattern = (if cl_test_pattern_enable cli then Some (TestPattern_from_cli cli) else None) \<rparr>"

section \<open>The file over the flags\<close>

text \<open>The section of a listener: off when the file turns off what no flag turned on, else on if
  either says so, with the file's keys over the flags'.\<close>

definition section_of :: "bool option \<Rightarrow> bool \<Rightarrow> 'a \<Rightarrow> ('a \<Rightarrow> 'a) \<Rightarrow> 'a option \<Rightarrow> 'a option" where
  "section_of enable pinned_on fresh f x =
     (let x = (if enable = Some False \<and> \<not> pinned_on then None else x) in
      if enable = Some True \<or> x \<noteq> None then Some (f (case x of Some v \<Rightarrow> v | None \<Rightarrow> fresh)) else x)"

definition over_ingest :: "IngestSection \<Rightarrow> Ingest \<Rightarrow> Ingest" where
  "over_ingest f i =
     \<lparr> in_host = over (in_host i) (is_host f), in_port = over (in_port i) (is_port f),
       in_token = over (in_token i) (is_token f), in_keepalive_secs = over (in_keepalive_secs i) (is_keepalive_secs f),
       in_max_batch_frames = over (in_max_batch_frames i) (is_max_batch_frames f) \<rparr>"

definition over_batching :: "ForwardSection \<Rightarrow> Env \<Rightarrow> Batching \<Rightarrow> Batching" where
  "over_batching f env b =
     (let (p, origin) =
        (case fw_cache_path f of
           Some p \<Rightarrow> cache_path (if p = [] then None else Some p) env
         | None \<Rightarrow> (bt_cache_path b, bt_cache_origin b))
      in b\<lparr> bt_size := over (bt_size b) (fw_batch_size f),
            bt_flush_interval := over (bt_flush_interval b) (fw_flush_interval f),
            bt_queue_size := over (bt_queue_size b) (fw_queue_size f),
            bt_cache_max_mb := over (bt_cache_max_mb b) (fw_cache_max_mb f),
            bt_queue_flush_pct := over (bt_queue_flush_pct b) (fw_queue_flush_pct f),
            bt_cache_path := p, bt_cache_origin := origin \<rparr>)"

definition over_forward :: "ForwardSection \<Rightarrow> Env \<Rightarrow> Forward \<Rightarrow> Forward" where
  "over_forward f env fwd =
     fwd\<lparr> fd_host := over (fd_host fwd) (fw_host f), fd_port := over (fd_port fwd) (fw_port f),
          fd_api_key := over (fd_api_key fwd) (fw_api_key f), fd_database := over (fd_database fwd) (fw_database f),
          fd_daemon_id := over (fd_daemon_id fwd) (fw_daemon_id f),
          fd_batching := over_batching f env (fd_batching fwd) \<rparr>"

definition over_test_pattern :: "TestPatternSection \<Rightarrow> Cli \<Rightarrow> TestPattern option \<Rightarrow> TestPattern option" where
  "over_test_pattern f cli tp =
     (if ts_enable f = Some False then None
      else if ts_enable f = Some True \<or> tp \<noteq> None
      then Some \<lparr> tp_ifaces = over (tp_ifaces (case tp of Some t \<Rightarrow> t | None \<Rightarrow> TestPattern_from_cli cli))
                    (map_option parse_ifaces (ts_ifaces f)) \<rparr>
      else tp)"

definition apply_file :: "Cli \<Rightarrow> Env \<Rightarrow> FileConfig \<Rightarrow> ('o, 'p) Settings \<Rightarrow> (SettingsError, ('o, 'p) Settings) result" where
  "apply_file cli env f s =
     (let srv = f_server f in
      try_res (parse_over parse_direction (se_default_dir s) (sv_default_dir srv)) (\<lambda>dir.
      try_res (parse_over parse_log_level (se_log_level s) (lg_level (f_logging f))) (\<lambda>level.
      Ok (s\<lparr> se_host := over (se_host s) (sv_host srv), se_port := over (se_port s) (sv_port srv),
             se_bus_offset := over (se_bus_offset s) (sv_bus_offset srv),
             se_echo_console := over (se_echo_console s) (sv_echo_console srv),
             se_colour := over (se_colour s) (sv_colour srv), se_can_fd := over (se_can_fd s) (sv_can_fd srv),
             se_default_dir := dir, se_log_level := level,
             se_stats_interval := over (se_stats_interval s) (lg_stats_interval (f_logging f)),
             se_ingest := section_of (is_enable (f_ingest f)) (given cli ''ingest_enable'') (Ingest_from_cli cli)
                            (over_ingest (f_ingest f)) (se_ingest s),
             se_forward := section_of (fw_enable (f_forward f)) (given cli ''forward_enable'')
                             (Forward_from_cli cli env) (over_forward (f_forward f) env) (se_forward s),
             se_test_pattern := over_test_pattern (f_test_pattern f) cli (se_test_pattern s) \<rparr>))))"

section \<open>Resolving\<close>

definition default_database :: "('o, 'p) Settings \<Rightarrow> string" where
  "default_database s = (case se_forward s of Some f \<Rightarrow> fd_database f | None \<Rightarrow> [])"

text \<open>The UI's devices as tables, or the first it refuses.\<close>

fun ui_tables :: "nat \<Rightarrow> UiDevice list \<Rightarrow> (SettingsError, DeviceSection list) result" where
  "ui_tables index [] = Ok []"
| "ui_tables index (d # ds) =
     try_res (map_sum (DeviceError index) id (UiDevice_table d)) (\<lambda>t.
     try_res (ui_tables (Suc index) ds) (\<lambda>ts. Ok (t # ts)))"

text \<open>One layer names the whole device set.\<close>

definition choose_devices :: "Cli \<Rightarrow> FileConfig option \<Rightarrow> UiConfig option
    \<Rightarrow> (SettingsError, string \<times> DeviceSection list) result" where
  "choose_devices cli file ui =
     (let file_iface = Option.bind file (\<lambda>f. sv_iface (f_server f));
          file_tables = (case file of Some f \<Rightarrow> f_device f | None \<Rightarrow> [])
      in case (case file_iface of Some i \<Rightarrow> Some i | None \<Rightarrow> cl_iface cli) of
           Some sugar \<Rightarrow> Ok (sugar, file_tables)
         | None \<Rightarrow>
             (if file_tables \<noteq> [] then Ok ([], file_tables)
              else case Option.bind ui uc_devices of
                     Some devices \<Rightarrow> try_res (ui_tables 0 devices) (\<lambda>ts. Ok ([], ts))
                   | None \<Rightarrow> Ok (''can0'', [])))"

text \<open>A secret no layer above gave: the environment's, else the UI's.\<close>

definition fill_secret :: "Secret \<Rightarrow> Secret option \<Rightarrow> Secret option \<Rightarrow> Secret" where
  "fill_secret have_it from_env from_ui =
     (if have_it = [] then over have_it (case from_env of Some s \<Rightarrow> Some s | None \<Rightarrow> from_ui) else have_it)"

definition finish_forward :: "('o, 'p) setlib \<Rightarrow> UiConfig option \<Rightarrow> Env \<Rightarrow> Forward \<Rightarrow> (SettingsError, Forward) result" where
  "finish_forward L ui env fwd =
     (let fwd = fwd\<lparr> fd_api_key := fill_secret (fd_api_key fwd) (ev_forward_api_key env)
                       (Option.bind ui (\<lambda>u. uf_api_key (uc_forward u))) \<rparr>;
          fwd = fwd\<lparr> fd_batching := (fd_batching fwd)
                       \<lparr> bt_legacy_cache_path := legacy_cache_path L (bt_cache_path (fd_batching fwd)) env \<rparr> \<rparr>
      in if \<not> valid_database L (fd_database fwd) then Err (BadDatabase (fd_database fwd))
         else if \<not> sl_valid_daemon_id L (fd_daemon_id fwd) then Err (BadDaemonId (fd_daemon_id fwd))
         else Ok fwd)"

definition final_warnings :: "Cli \<Rightarrow> ('o, 'p) Settings \<Rightarrow> SettingsWarning list" where
  "final_warnings cli s =
     (if cl_test_pattern_enable cli \<and> se_test_pattern s = None then [TestPatternDisarmedByFile] else []) @
     (if se_devices s = [] \<and> se_ingest s = None then [NoCaptureSource] else []) @
     (case se_forward s of
        None \<Rightarrow> [NoForwardSink]
      | Some f \<Rightarrow> (if fd_api_key f = [] then [ForwardKeyMissing] else []))"

text \<open>The flags with the UI's values beneath them.\<close>

definition layered :: "UiConfig option \<Rightarrow> Cli \<Rightarrow> Cli" where
  "layered ui cli = (case ui of Some u \<Rightarrow> beneath u cli | None \<Rightarrow> cli)"

definition resolve :: "('o, 'p) setlib \<Rightarrow> Cli \<Rightarrow> FileConfig option \<Rightarrow> UiConfig option \<Rightarrow> Env
    \<Rightarrow> (SettingsError, ('o, 'p) Resolved) result" where
  "resolve L cli file ui env =
     (let cli = layered ui cli in
      if cl_pg_enable cli \<or> (case file of Some f \<Rightarrow> retired_postgres_sink f | None \<Rightarrow> False)
      then Err RetiredPostgresSink
      else
        let retired = retired_flags_used cli in
        try_res (allowed_clients cli file) (\<lambda>(clients, src).
        try_res (parse_direction (cl_default_dir cli)) (\<lambda>direction.
        try_res (parse_log_level (cl_log_level cli)) (\<lambda>level.
        try_res (case file of
                   Some f \<Rightarrow> apply_file cli env f (from_flags cli env clients src direction level)
                 | None \<Rightarrow> Ok (from_flags cli env clients src direction level)) (\<lambda>s.
        try_res (choose_devices cli file ui) (\<lambda>(sugar, tables).
        try_res (parse_over parse_direction (se_default_dir s) (cl_pg_dir cli)) (\<lambda>direction.
        let s = s\<lparr> se_default_dir := direction,
                   se_ingest := map_option (\<lambda>i. i\<lparr> in_token := fill_secret (in_token i) (ev_ingest_token env)
                                  (Option.bind ui (\<lambda>u. un_token (uc_ingest u))) \<rparr>) (se_ingest s) \<rparr> in
        try_res (case se_forward s of
                   None \<Rightarrow> Ok None
                 | Some fwd \<Rightarrow> map_sum id Some (finish_forward L ui env fwd)) (\<lambda>fwd.
        let s = s\<lparr> se_forward := fwd \<rparr> in
        try_res (build_devices L (se_can_fd s) (default_database s) (se_bus_offset s) (parse_ifaces sugar) tables)
          (\<lambda>devices.
        let s = s\<lparr> se_devices := devices \<rparr> in
        Ok \<lparr> rs_settings = s,
             rs_warnings =
               (if retired \<noteq> [] then [RetiredFlags retired] else []) @
               (case file of Some f \<Rightarrow> map UnknownKey (unknown_keys f) | None \<Rightarrow> []) @
               final_warnings cli s \<rparr>)))))))))"

section \<open>What the pipelines are given\<close>

definition any_fd :: "('o, 'p) Settings \<Rightarrow> bool" where
  "any_fd s \<longleftrightarrow> list_ex dd_fd (se_devices s)"

definition can_devices :: "('o, 'p) Settings \<Rightarrow> ('o, 'p) CaptureDevice list" where
  "can_devices s = filter is_can (se_devices s)"

definition serial_devices :: "('o, 'p) Settings \<Rightarrow> (('o, 'p) CaptureDevice \<times> ('o, 'p) SerialSettings) list" where
  "serial_devices s =
     List.map_filter (\<lambda>d. case dd_kind d of SerialKind x \<Rightarrow> Some (d, x) | CanKind _ \<Rightarrow> None) (se_devices s)"

definition fed :: "('o, 'p) Settings \<Rightarrow> string list" where
  "fed s = concat (map device_databases (se_devices s))"

definition databases :: "('o, 'p) Settings \<Rightarrow> string list" where
  "databases s =
     (let default = default_database s;
          out = (if se_ingest s \<noteq> None \<or> default \<in> set (fed s) then [default] else [])
      in fold (\<lambda>db out. if db \<in> set out then out else out @ [db]) (fed s) out)"

definition devices_in :: "('o, 'p) Settings \<Rightarrow> string \<Rightarrow> Device list" where
  "devices_in s database =
     map (\<lambda>d. \<lparr> dv_bus = bus_no (dd_bus d), dv_name = dd_interface d \<rparr>)
       (filter (\<lambda>d. database \<in> set (device_databases d)) (se_devices s))"

definition carries_raw_serial :: "('o, 'p) Settings \<Rightarrow> string \<Rightarrow> bool" where
  "carries_raw_serial s database \<longleftrightarrow>
     list_ex (\<lambda>(_, x). ss_raw_database x = Some database) (serial_devices s)"

definition forwards :: "('o, 'p) Settings \<Rightarrow> Forward list" where
  "forwards s =
     (case se_forward s of
        None \<Rightarrow> []
      | Some f \<Rightarrow>
          map (\<lambda>db. (for_database f db)\<lparr> fd_devices := devices_in s db, fd_raw_serial := carries_raw_serial s db \<rparr>)
            (databases s))"

definition armed_indices :: "('o, 'p) Settings \<Rightarrow> TestPattern \<Rightarrow> nat list" where
  "armed_indices s tp =
     map fst (filter (\<lambda>(_, d). dd_mode d = Active \<and> (tp_ifaces tp = [] \<or> dd_interface d \<in> set (tp_ifaces tp)))
       (enumerate 0 (can_devices s)))"

end
