(* ===== verification/Settings_Laws.thy ===== *)
theory Settings_Laws
  imports Server_Settings
begin

text \<open>
  What \<^verbatim>\<open>Settings::resolve\<close> promises about the settings it returns: the device list and its
  numbering, which layer each value comes from, that a UI cannot make the server transmit,
  and that every captured stream has exactly one archive pipeline.
\<close>

section \<open>The steps of resolving\<close>

lemma layered_keeps [simp]:
  "cl_iface (layered ui c) = cl_iface c" "cl_host (layered ui c) = cl_host c" "cl_port (layered ui c) = cl_port c"
  "cl_allowed_clients (layered ui c) = cl_allowed_clients c" "cl_bus_offset (layered ui c) = cl_bus_offset c"
  "cl_echo_console (layered ui c) = cl_echo_console c" "cl_colour (layered ui c) = cl_colour c"
  "cl_default_dir (layered ui c) = cl_default_dir c" "cl_can_fd (layered ui c) = cl_can_fd c"
  "cl_stats_interval (layered ui c) = cl_stats_interval c"
  "cl_test_pattern_enable (layered ui c) = cl_test_pattern_enable c"
  "cl_test_pattern_ifaces (layered ui c) = cl_test_pattern_ifaces c"
  "cl_pg_dir (layered ui c) = cl_pg_dir c" "cl_pg_enable (layered ui c) = cl_pg_enable c"
  "cl_ingest_host (layered ui c) = cl_ingest_host c" "cl_ingest_token (layered ui c) = cl_ingest_token c"
  "cl_ingest_keepalive_secs (layered ui c) = cl_ingest_keepalive_secs c"
  "cl_ingest_max_batch_frames (layered ui c) = cl_ingest_max_batch_frames c"
  "cl_forward_api_key (layered ui c) = cl_forward_api_key c" "cl_pg_cache_path (layered ui c) = cl_pg_cache_path c"
  "given (layered ui c) flag = given c flag" "retired_flags_used (layered ui c) = retired_flags_used c"
  by (simp_all add: layered_def split: option.split)

lemma allowed_clients_ui: "allowed_clients (layered ui c) file = allowed_clients c file"
  by (simp add: allowed_clients_def)

text \<open>The settings with the file over the flags, before the devices are built.\<close>

definition merged :: "Cli \<Rightarrow> FileConfig option \<Rightarrow> Env \<Rightarrow> Cidr list \<Rightarrow> Source \<Rightarrow> Direction \<Rightarrow> LogLevel
    \<Rightarrow> (SettingsError, ('o, 'p) Settings) result" where
  "merged cli file env clients src d level =
     (case file of
        Some f \<Rightarrow> apply_file cli env f (from_flags cli env clients src d level)
      | None \<Rightarrow> Ok (from_flags cli env clients src d level))"

text \<open>Two settings that agree but for what resolving fills in at the end.\<close>

definition same_rest :: "('o, 'p) Settings \<Rightarrow> ('o, 'p) Settings \<Rightarrow> bool" where
  "same_rest s s' \<longleftrightarrow>
     se_host s' = se_host s \<and> se_port s' = se_port s \<and> se_allowed_clients s' = se_allowed_clients s \<and>
     se_allowed_clients_source s' = se_allowed_clients_source s \<and> se_bus_offset s' = se_bus_offset s \<and>
     se_echo_console s' = se_echo_console s \<and> se_colour s' = se_colour s \<and> se_can_fd s' = se_can_fd s \<and>
     se_log_level s' = se_log_level s \<and> se_stats_interval s' = se_stats_interval s \<and>
     se_test_pattern s' = se_test_pattern s"

lemma resolveE:
  assumes "resolve L cli file ui env = Inr r"
  obtains clients src d0 level s sugar tables d1 fwd ds where
    "\<not> cl_pg_enable cli" "\<not> (case file of Some f \<Rightarrow> retired_postgres_sink f | None \<Rightarrow> False)"
    "allowed_clients cli file = Inr (clients, src)" "parse_direction (cl_default_dir cli) = Inr d0"
    "parse_log_level (cl_log_level (layered ui cli)) = Inr level"
    "merged (layered ui cli) file env clients src d0 level = Inr s"
    "choose_devices cli file ui = Inr (sugar, tables)"
    "parse_over parse_direction (se_default_dir s) (cl_pg_dir cli) = Inr d1"
    "(case se_forward s of None \<Rightarrow> Ok None | Some f \<Rightarrow> map_sum id Some (finish_forward L ui env f)) = Inr fwd"
    "build_devices L (se_can_fd s) (default_database (rs_settings r)) (se_bus_offset s)
       (parse_ifaces sugar) tables = Inr ds"
    "se_devices (rs_settings r) = ds" "se_default_dir (rs_settings r) = d1" "se_forward (rs_settings r) = fwd"
    "se_ingest (rs_settings r) = map_option (\<lambda>i. i\<lparr> in_token := fill_secret (in_token i) (ev_ingest_token env)
       (Option.bind ui (\<lambda>u. un_token (uc_ingest u))) \<rparr>) (se_ingest s)"
    "same_rest s (rs_settings r)"
proof -
  have "choose_devices (layered ui cli) file ui = choose_devices cli file ui"
    unfolding choose_devices_def layered_keeps ..
  then show ?thesis
    using assms that
    by (auto simp: resolve_def try_res_Inr Let_def merged_def allowed_clients_ui default_database_def
        same_rest_def split: if_splits prod.splits)
qed

lemma merged_fields:
  assumes "merged cli file env clients src d level = Inr s"
  shows "se_host s = over (cl_host cli) (Option.bind file (\<lambda>f. sv_host (f_server f))) \<and>
    se_port s = over (cl_port cli) (Option.bind file (\<lambda>f. sv_port (f_server f))) \<and>
    se_allowed_clients s = clients \<and>
    se_allowed_clients_source s = src \<and>
    se_bus_offset s = over (cl_bus_offset cli) (Option.bind file (\<lambda>f. sv_bus_offset (f_server f))) \<and>
    se_echo_console s = over (cl_echo_console cli) (Option.bind file (\<lambda>f. sv_echo_console (f_server f))) \<and>
    se_colour s = over (cl_colour cli) (Option.bind file (\<lambda>f. sv_colour (f_server f))) \<and>
    se_can_fd s = over (cl_can_fd cli) (Option.bind file (\<lambda>f. sv_can_fd (f_server f))) \<and>
    se_stats_interval s = over (cl_stats_interval cli) (Option.bind file (\<lambda>f. lg_stats_interval (f_logging f))) \<and>
    parse_over parse_direction d (Option.bind file (\<lambda>f. sv_default_dir (f_server f))) =
       Inr (se_default_dir s) \<and>
    parse_over parse_log_level level (Option.bind file (\<lambda>f. lg_level (f_logging f))) =
       Inr (se_log_level s)"
  using assms
  by (cases "file") (auto simp: merged_def apply_file_def try_res_Inr from_flags_def over_def parse_over_def Let_def)

section \<open>Devices\<close>

lemma finish_forward_ok:
  assumes "(case x of None \<Rightarrow> Ok None | Some f \<Rightarrow> map_sum id Some (finish_forward L ui env f)) = Inr (se_forward s)"
  shows "valid_database L (default_database s)"
  using assms
  by (auto simp: finish_forward_def valid_database_def default_database_def Let_def split: option.splits if_splits)

lemma unnumbered_eq:
  assumes "unnumbered d = unnumbered e"
  shows "dd_interface d = dd_interface e" "dd_mode d = dd_mode e" "dd_database d = dd_database e" "dd_kind d = dd_kind e"
    "device_databases d = device_databases e" "device_ok L d = device_ok L e"
proof -
  have "dd_interface (unnumbered d) = dd_interface (unnumbered e)" "dd_mode (unnumbered d) = dd_mode (unnumbered e)"
    "dd_database (unnumbered d) = dd_database (unnumbered e)" "dd_kind (unnumbered d) = dd_kind (unnumbered e)"
    by (simp_all only: assms)
  then show *: "dd_interface d = dd_interface e" "dd_mode d = dd_mode e" "dd_database d = dd_database e"
    "dd_kind d = dd_kind e"
    by simp_all
  then show "device_databases d = device_databases e"
    by (simp add: device_databases_def split: DeviceKind.split)
  with * show "device_ok L d = device_ok L e"
    by (simp add: device_ok_def split: DeviceKind.split)
qed

text \<open>A built device is a sugar name or a table's.\<close>

lemma build_devices_origin:
  assumes "build_devices L can_fd database off sugar tables = Inr ds" "d \<in> set ds"
  obtains (sugar) name where "name \<in> set sugar" "unnumbered d = unnumbered (Device_can name can_fd database)"
  | (table) t e where "t \<in> set tables" "from_table L t can_fd database = Inr e" "unnumbered d = unnumbered e"
      "valid_database L (dd_database e)" "\<forall>db \<in> set (device_databases e). valid_database L db"
proof -
  obtain es where es: "build_tables L can_fd database (length sugar) tables = Inr es"
      "map unnumbered ds = map unnumbered (map (\<lambda>n. Device_can n can_fd database) sugar @ es)"
    using build_devices_ok(2) [OF assms(1)] by blast
  have "unnumbered d \<in> set (map unnumbered (map (\<lambda>n. Device_can n can_fd database) sugar @ es))"
    using assms(2) unfolding es(2) [symmetric] by simp
  then show ?thesis
    using that build_tables_ok [OF es(1)] by auto
qed

lemma resolved_devices:
  fixes L :: "('o, 'p) setlib"
  assumes "resolve L cli file ui env = Inr r"
  shows "devices_ok (se_bus_offset (rs_settings r)) (se_devices (rs_settings r)) \<and>
    (\<forall>d \<in> set (se_devices (rs_settings r)).
       device_ok L d \<and> dd_interface d \<noteq> [] \<and> (\<forall>db \<in> set (device_databases d). valid_database L db))"
proof -
  obtain s :: "('o, 'p) Settings" and sugar tables ds where r: "(case se_forward s of None \<Rightarrow> Ok None
        | Some f \<Rightarrow> map_sum id Some (finish_forward L ui env f)) = Inr (se_forward (rs_settings r))"
      "build_devices L (se_can_fd s) (default_database (rs_settings r)) (se_bus_offset s)
         (parse_ifaces sugar) tables = Inr ds"
      "se_devices (rs_settings r) = ds" "se_bus_offset (rs_settings r) = se_bus_offset s"
    by (rule resolveE [OF assms]) (auto simp: same_rest_def)
  have "device_ok L d \<and> dd_interface d \<noteq> [] \<and> (\<forall>db \<in> set (device_databases d). valid_database L db)"
    if "d \<in> set ds" for d
    using r(2) that
  proof (cases rule: build_devices_origin)
    case (sugar name)
    have "name \<noteq> []"
      using parse_ifaces_plain [OF sugar(1)] by (simp add: plain_name_def)
    then show ?thesis
      using unnumbered_eq [OF sugar(2)] finish_forward_ok [OF r(1)]
      by (simp add: device_ok_def device_databases_def Device_can_def)
  next
    case (table t e)
    then show ?thesis
      using unnumbered_eq [OF table(3)] from_table_ok [OF table(2)] by simp
  qed
  then show ?thesis
    using build_devices_ok(1) [OF r(2)] r(3,4) by simp
qed

text \<open>C29: a server that starts has a sound device list.  No interface is opened twice; the bus
  numbers are the offset onwards without a gap, CAN devices first, so a GVRET client's bus
  arithmetic holds; every serial line is passive, captures something and has line settings
  the serial library accepts; and every database a stream goes to has a name the gateway
  accepts.\<close>

theorem resolved_devices_sound:
  fixes L :: "('o, 'p) setlib"
  assumes "resolve L cli file ui env = Inr r"
  shows "devices_ok (se_bus_offset (rs_settings r)) (se_devices (rs_settings r)) \<and>
    (\<forall>d \<in> set (se_devices (rs_settings r)).
       device_ok L d \<and> dd_interface d \<noteq> [] \<and> (\<forall>db \<in> set (device_databases d). valid_database L db))"
  using assms by (rule resolved_devices)

section \<open>A UI cannot make the server transmit\<close>

lemma ui_table_passive: "UiDevice_table d = Inr t \<Longrightarrow> ds_kind t = Some ''can'' \<and> ds_mode t = Some ''passive''"
  by (auto simp: UiDevice_table_def Let_def split: if_splits)

lemma ui_tables_passive: "ui_tables i ds = Inr ts \<Longrightarrow> t \<in> set ts \<Longrightarrow> ds_mode t = Some ''passive''"
proof (induction ds arbitrary: i ts)
  case (Cons d ds)
  then show ?case
    using ui_table_passive by (auto simp: try_res_Inr map_sum_Inr)
qed simp

lemma choose_devices_ui:
  assumes "choose_devices cli file (Some u) = Inr (sugar, tables)"
  shows "choose_devices cli file None = Inr (sugar, tables) \<or>
    sugar = [] \<and> (\<forall>t \<in> set tables. ds_mode t = Some ''passive'')"
  using assms ui_tables_passive
  by (auto simp: choose_devices_def try_res_Inr Let_def split: option.splits if_splits)

text \<open>Two settings that agree on who may connect and what may be put on a bus, devices aside.\<close>

definition same_listener :: "('o, 'p) Settings \<Rightarrow> ('o, 'p) Settings \<Rightarrow> bool" where
  "same_listener s s' \<longleftrightarrow>
     se_test_pattern s = se_test_pattern s' \<and> se_allowed_clients s = se_allowed_clients s' \<and>
     se_host s = se_host s' \<and> se_port s = se_port s' \<and> se_bus_offset s = se_bus_offset s'"

definition active_interfaces :: "('o, 'p) Settings \<Rightarrow> string set" where
  "active_interfaces s = {dd_interface d | d. d \<in> set (se_devices s) \<and> dd_mode d = Active}"

lemma from_table_mode:
  assumes "from_table L t can_fd db = Inr d" "from_table L t can_fd db' = Inr e"
  shows "dd_mode d = dd_mode e" "dd_interface d = dd_interface e"
proof -
  show "dd_interface d = dd_interface e"
    using from_table_ok [OF assms(1)] from_table_ok [OF assms(2)] by simp
  obtain mode kind k m k' m' where o: "parse_mode (ds_mode t) = Inr mode" "need (ds_kind t) ''kind'' = Inr kind"
      "kind = ''can'' \<and> can_table t can_fd mode = Inr (k, m) \<or>
       kind = ''serial'' \<and> serial_table L t (over db (ds_database t)) mode = Inr (k, m)"
      "kind = ''can'' \<and> can_table t can_fd mode = Inr (k', m') \<or>
       kind = ''serial'' \<and> serial_table L t (over db' (ds_database t)) mode = Inr (k', m')"
      "dd_mode d = m" "dd_mode e = m'"
    using assms by (auto simp: from_table_def try_res_Inr over_def Let_def split: if_splits prod.splits)
  then show "dd_mode d = dd_mode e"
    using serial_table_ok [of L t "over db (ds_database t)" mode k m] serial_table_ok [of L t "over db' (ds_database t)" mode k' m']
    by auto
qed

lemma build_tables_all:
  "build_tables L can_fd db i ts = Inr ds \<Longrightarrow> t \<in> set ts \<Longrightarrow> \<exists>d \<in> set ds. from_table L t can_fd db = Inr d"
  by (induction ts arbitrary: i ds) (auto simp: try_res_Inr map_sum_Inr simp del: find.simps split: option.splits)

lemma build_devices_all:
  assumes "build_devices L can_fd db off sugar tables = Inr ds"
  shows "name \<in> set sugar \<Longrightarrow> \<exists>d \<in> set ds. dd_interface d = name \<and> dd_mode d = Active"
    and "t \<in> set tables \<Longrightarrow> \<exists>d \<in> set ds. \<exists>e. from_table L t can_fd db = Inr e \<and>
      dd_interface d = dd_interface e \<and> dd_mode d = dd_mode e"
proof -
  obtain es where es: "build_tables L can_fd db (length sugar) tables = Inr es"
      "map unnumbered ds = map unnumbered (map (\<lambda>n. Device_can n can_fd db) sugar @ es)"
    using build_devices_ok(2) [OF assms] by blast
  have mem: "\<exists>d \<in> set ds. dd_interface d = dd_interface e \<and> dd_mode d = dd_mode e"
    if "e \<in> set (map (\<lambda>n. Device_can n can_fd db) sugar @ es)" for e
  proof -
    have "unnumbered e \<in> set (map unnumbered ds)"
      unfolding es(2) using that by (simp only: set_map imageI)
    then show ?thesis
      using unnumbered_eq(1,2) by (metis (no_types, lifting) image_iff list.set_map)
  qed
  show "\<exists>d \<in> set ds. dd_interface d = name \<and> dd_mode d = Active" if "name \<in> set sugar"
    using that mem [of "Device_can name can_fd db"] by (auto simp: Device_can_def)
  show "\<exists>d \<in> set ds. \<exists>e. from_table L t can_fd db = Inr e \<and> dd_interface d = dd_interface e \<and> dd_mode d = dd_mode e"
    if "t \<in> set tables"
    using build_tables_all [OF es(1) that] mem by fastforce
qed

lemma merged_test_pattern:
  assumes "merged (layered ui cli) file env clients src d level = Inr s"
  shows "se_test_pattern s =
    (let base = (if cl_test_pattern_enable cli then Some (TestPattern_from_cli cli) else None) in
     case file of Some f \<Rightarrow> over_test_pattern (f_test_pattern f) cli base | None \<Rightarrow> base)"
proof -
  have tp: "TestPattern_from_cli (layered ui cli) = TestPattern_from_cli cli"
    by (simp add: TestPattern_from_cli_def)
  have "over_test_pattern f (layered ui cli) = over_test_pattern f cli" for f
    unfolding over_test_pattern_def tp ..
  with tp show ?thesis
    using assms by (cases "file") (auto simp: merged_def apply_file_def try_res_Inr from_flags_def Let_def)
qed

lemma ui_devices_no_more_active:
  assumes ui: "choose_devices cli file (Some u) = Inr (sugar, tables)"
      "build_devices L can_fd db off (parse_ifaces sugar) tables = Inr ds"
    and plain: "choose_devices cli file None = Inr (sugar', tables')"
      "build_devices L can_fd db' off (parse_ifaces sugar') tables' = Inr ds'"
    and d: "d \<in> set ds" "dd_mode d = Active"
  shows "\<exists>d' \<in> set ds'. dd_interface d' = dd_interface d \<and> dd_mode d' = Active"
  using ui(2) d(1)
proof (cases rule: build_devices_origin)
  case (sugar name)
  then have "sugar' = sugar"
    using choose_devices_ui [OF ui(1)] plain(1) by (auto simp: parse_ifaces_def trim_def)
  then show ?thesis
    using build_devices_all(1) [OF plain(2)] sugar(1) unnumbered_eq(1) [OF sugar(2)] by (auto simp: Device_can_def)
next
  case (table t e)
  then have a: "dd_mode e = Active" "dd_interface e = dd_interface d"
    using unnumbered_eq [OF table(3)] d(2) by simp_all
  then have "ds_mode t \<noteq> Some ''passive''"
    using from_table_ok [OF table(2)] by simp
  then have "tables' = tables"
    using choose_devices_ui [OF ui(1)] plain(1) table(1) by auto
  then obtain d' e' where d': "d' \<in> set ds'" "from_table L t can_fd db' = Inr e'"
      "dd_interface d' = dd_interface e'" "dd_mode d' = dd_mode e'"
    using build_devices_all(2) [OF plain(2)] table(1) by blast
  show ?thesis
    using d' a from_table_mode [OF table(2) d'(2)] by auto
qed


section \<open>Every stream has its pipeline\<close>

lemma fold_insert_end:
  "distinct out \<Longrightarrow>
   distinct (fold (\<lambda>db out. if db \<in> set out then out else out @ [db]) xs out) \<and>
   set (fold (\<lambda>db out. if db \<in> set out then out else out @ [db]) xs out) = set out \<union> set xs \<and>
   take (length out) (fold (\<lambda>db out. if db \<in> set out then out else out @ [db]) xs out) = out"
proof (induction xs arbitrary: out)
  case (Cons x xs)
  show ?case
  proof (cases "x \<in> set out")
    case True
    then show ?thesis
      using Cons.IH [OF Cons.prems] by auto
  next
    case False
    let ?r = "fold (\<lambda>db out. if db \<in> set out then out else out @ [db]) xs (out @ [x])"
    have r: "distinct ?r" "set ?r = set (out @ [x]) \<union> set xs" "take (length (out @ [x])) ?r = out @ [x]"
      using Cons.IH [of "out @ [x]"] Cons.prems False by simp_all
    have "take (length out) (take (length (out @ [x])) ?r) = out"
      unfolding r(3) by simp
    then have "take (length out) ?r = out"
      by (simp add: min_def)
    then show ?thesis
      using r(1,2) False by simp
  qed
qed simp

lemma databases_facts:
  "distinct (databases s)"
  "set (databases s) = set (fed s) \<union> (if se_ingest s \<noteq> None then {default_database s} else {})"
  "default_database s \<in> set (databases s) \<Longrightarrow> hd (databases s) = default_database s"
proof -
  define out where "out = (if se_ingest s \<noteq> None \<or> default_database s \<in> set (fed s) then [default_database s] else [])"
  have f: "distinct (databases s)" "set (databases s) = set out \<union> set (fed s)" "take (length out) (databases s) = out"
    using fold_insert_end [of out "fed s"] unfolding databases_def Let_def out_def [symmetric]
    by (simp_all add: out_def)
  then show "distinct (databases s)"
    "set (databases s) = set (fed s) \<union> (if se_ingest s \<noteq> None then {default_database s} else {})"
    by (auto simp: out_def)
  show "hd (databases s) = default_database s" if "default_database s \<in> set (databases s)"
  proof -
    have "out = [default_database s]"
      using that f(2) by (auto simp: out_def split: if_splits)
    then show ?thesis
      using f(3) by (cases "databases s") simp_all
  qed
qed

lemma for_database_fields [simp]:
  "fd_database (for_database f db) = db" "fd_api_key (for_database f db) = fd_api_key f"
  "fd_host (for_database f db) = fd_host f" "fd_port (for_database f db) = fd_port f"
  "fd_daemon_id (for_database f db) = fd_daemon_id f"
  by (simp_all add: for_database_def)

lemma forwards_facts:
  assumes "se_forward s = Some f"
  shows "map fd_database (forwards s) = databases s" "length (forwards s) = length (databases s)"
    "g \<in> set (forwards s) \<Longrightarrow> fd_devices g = devices_in s (fd_database g) \<and>
       fd_raw_serial g = carries_raw_serial s (fd_database g) \<and> fd_api_key g = fd_api_key f \<and>
       fd_host g = fd_host f \<and> fd_port g = fd_port f \<and> fd_daemon_id g = fd_daemon_id f"
  using assms by (auto simp: forwards_def comp_def)

lemma set_map_filter: "set (List.map_filter f xs) = {y. \<exists>x \<in> set xs. f x = Some y}"
  by (induction xs) (auto split: option.splits)

lemma raw_stream_listed:
  "carries_raw_serial s db \<longleftrightarrow>
     (\<exists>d \<in> set (se_devices s). \<exists>x. dd_kind d = SerialKind x \<and> ss_raw_database x = Some db)"
proof -
  have "set (serial_devices s) = {(d, x). d \<in> set (se_devices s) \<and> dd_kind d = SerialKind x}"
  proof -
    have "(case dd_kind d of SerialKind x \<Rightarrow> Some (d, x) | CanKind _ \<Rightarrow> None) = Some y \<longleftrightarrow>
        fst y = d \<and> dd_kind d = SerialKind (snd y)" for d :: "('a, 'b) CaptureDevice" and y
      by (cases "dd_kind d"; cases y) auto
    then show ?thesis
      unfolding serial_devices_def set_map_filter by auto
  qed
  then show ?thesis
    by (auto simp: carries_raw_serial_def list_ex_iff)
qed

text \<open>C30: every captured stream has one archive pipeline.  With a gateway configured, the
  pipelines' databases differ; a stream of a device lands in the database of exactly one of
  them, whose HELLO names the device with its bus; a database that carries raw serial is
  marked so, which keeps its link from falling back to a protocol that cannot; the ingest
  listener's database has a pipeline; and there is no pipeline nothing feeds.\<close>

theorem every_stream_has_one_pipeline:
  assumes "se_forward s = Some f"
  shows "distinct (map fd_database (forwards s)) \<and>
    (\<forall>d \<in> set (se_devices s). \<forall>db \<in> set (device_databases d). \<exists>!g. g \<in> set (forwards s) \<and> fd_database g = db) \<and>
    (\<forall>g \<in> set (forwards s). \<forall>d \<in> set (se_devices s).
       fd_database g \<in> set (device_databases d) \<longrightarrow>
       \<lparr> dv_bus = bus_no (dd_bus d), dv_name = dd_interface d \<rparr> \<in> set (fd_devices g)) \<and>
    (\<forall>g \<in> set (forwards s). fd_raw_serial g \<longleftrightarrow>
       (\<exists>d \<in> set (se_devices s). \<exists>x. dd_kind d = SerialKind x \<and> ss_raw_database x = Some (fd_database g))) \<and>
    (se_ingest s \<noteq> None \<longrightarrow> default_database s \<in> set (map fd_database (forwards s))) \<and>
    (\<forall>g \<in> set (forwards s). fd_devices g \<noteq> [] \<or> se_ingest s \<noteq> None \<and> fd_database g = default_database s)"
proof (intro conjI)
  note ff = forwards_facts [OF assms] and db = databases_facts [of s]
  show dist: "distinct (map fd_database (forwards s))"
    unfolding ff(1) by (rule db(1))
  have fed: "db \<in> set (map fd_database (forwards s))" if "d \<in> set (se_devices s)" "db \<in> set (device_databases d)" for d db
    unfolding ff(1) db(2) using that by (auto simp: fed_def)
  show "\<forall>d \<in> set (se_devices s). \<forall>db \<in> set (device_databases d). \<exists>!g. g \<in> set (forwards s) \<and> fd_database g = db"
    using fed dist by (auto simp: distinct_map inj_on_def)
  show "\<forall>g \<in> set (forwards s). \<forall>d \<in> set (se_devices s).
       fd_database g \<in> set (device_databases d) \<longrightarrow>
       \<lparr> dv_bus = bus_no (dd_bus d), dv_name = dd_interface d \<rparr> \<in> set (fd_devices g)"
    using ff(3) by (auto simp: devices_in_def)
  show "\<forall>g \<in> set (forwards s). fd_raw_serial g \<longleftrightarrow>
       (\<exists>d \<in> set (se_devices s). \<exists>x. dd_kind d = SerialKind x \<and> ss_raw_database x = Some (fd_database g))"
    using ff(3) raw_stream_listed by blast
  show "se_ingest s \<noteq> None \<longrightarrow> default_database s \<in> set (map fd_database (forwards s))"
    unfolding ff(1) db(2) by simp
  show "\<forall>g \<in> set (forwards s). fd_devices g \<noteq> [] \<or> se_ingest s \<noteq> None \<and> fd_database g = default_database s"
  proof
    fix g assume g: "g \<in> set (forwards s)"
    then have "fd_database g \<in> set (databases s)"
      unfolding ff(1) [symmetric] by simp
    then show "fd_devices g \<noteq> [] \<or> se_ingest s \<noteq> None \<and> fd_database g = default_database s"
      using ff(3) [OF g] unfolding db(2)
      by (auto simp: fed_def devices_in_def filter_empty_conv split: if_splits)
  qed
qed

section \<open>Which layer a value comes from\<close>

text \<open>A flag given on the command line, else the UI's value, else the flag's default.\<close>

definition flag_or_ui :: "Cli \<Rightarrow> UiConfig option \<Rightarrow> string \<Rightarrow> (UiConfig \<Rightarrow> 'a option) \<Rightarrow> 'a \<Rightarrow> 'a" where
  "flag_or_ui cli ui flag sel v = fill cli flag (Option.bind ui sel) v"

text \<open>The file's value when it speaks, else that.\<close>

definition setting :: "FileConfig option \<Rightarrow> (FileConfig \<Rightarrow> 'a option) \<Rightarrow> 'a \<Rightarrow> 'a" where
  "setting file sel v = over v (Option.bind file sel)"

text \<open>A listener is on when the file says so, or when the flags or the UI do and the file does
  not turn off what no flag turned on.\<close>

definition listener_on :: "bool option \<Rightarrow> bool \<Rightarrow> bool \<Rightarrow> bool" where
  "listener_on enable pinned_on flag \<longleftrightarrow> enable = Some True \<or> flag \<and> (enable \<noteq> Some False \<or> pinned_on)"

lemma section_of_Some:
  "section_of enable p fresh f (if flag then Some fresh else None) =
     (if listener_on enable p flag then Some (f fresh) else None)"
  by (auto simp: section_of_def listener_on_def Let_def)

lemma layered_fields:
  "cl_forward_enable (layered ui c) = flag_or_ui c ui ''forward_enable'' (uf_enable \<circ> uc_forward) (cl_forward_enable c)"
  "cl_forward_host (layered ui c) = flag_or_ui c ui ''forward_host'' (uf_host \<circ> uc_forward) (cl_forward_host c)"
  "cl_forward_port (layered ui c) = flag_or_ui c ui ''forward_port'' (uf_port \<circ> uc_forward) (cl_forward_port c)"
  "cl_forward_database (layered ui c) =
     flag_or_ui c ui ''forward_database'' (uf_database \<circ> uc_forward) (cl_forward_database c)"
  "cl_pg_batch_size (layered ui c) = flag_or_ui c ui ''pg_batch_size'' (uf_batch_size \<circ> uc_forward) (cl_pg_batch_size c)"
  "cl_pg_flush_interval (layered ui c) =
     flag_or_ui c ui ''pg_flush_interval'' (uf_flush_interval \<circ> uc_forward) (cl_pg_flush_interval c)"
  "cl_pg_queue_size (layered ui c) = flag_or_ui c ui ''pg_queue_size'' (uf_queue_size \<circ> uc_forward) (cl_pg_queue_size c)"
  "cl_pg_cache_max_mb (layered ui c) =
     flag_or_ui c ui ''pg_cache_max_mb'' (uf_cache_max_mb \<circ> uc_forward) (cl_pg_cache_max_mb c)"
  "cl_pg_queue_flush_pct (layered ui c) =
     flag_or_ui c ui ''pg_queue_flush_pct'' (uf_queue_flush_pct \<circ> uc_forward) (cl_pg_queue_flush_pct c)"
  "cl_ingest_enable (layered ui c) = flag_or_ui c ui ''ingest_enable'' (un_enable \<circ> uc_ingest) (cl_ingest_enable c)"
  "cl_ingest_port (layered ui c) = flag_or_ui c ui ''ingest_port'' (un_port \<circ> uc_ingest) (cl_ingest_port c)"
  "cl_log_level (layered ui c) = flag_or_ui c ui ''log_level'' (ul_level \<circ> uc_logging) (cl_log_level c)"
  by (cases ui; simp add: layered_def beneath_def flag_or_ui_def Let_def)+

lemma parse_over_eq: "parse v = Inr d \<Longrightarrow> parse_over parse d x = Inr y \<Longrightarrow> parse (over v x) = Inr y"
  by (cases x) (simp_all add: parse_over_def over_def)

lemma merged_sections:
  assumes "merged cli file env clients src d level = Inr s"
  shows "se_ingest s =
      (if listener_on (Option.bind file (is_enable \<circ> f_ingest)) (given cli ''ingest_enable'') (cl_ingest_enable cli)
       then Some (case file of Some f \<Rightarrow> over_ingest (f_ingest f) (Ingest_from_cli cli) | None \<Rightarrow> Ingest_from_cli cli)
       else None) \<and>
    se_forward s =
      (if listener_on (Option.bind file (fw_enable \<circ> f_forward)) (given cli ''forward_enable'') (cl_forward_enable cli)
       then Some (case file of Some f \<Rightarrow> over_forward (f_forward f) env (Forward_from_cli cli env)
                  | None \<Rightarrow> Forward_from_cli cli env)
       else None)"
proof (cases "file")
  case None
  then show ?thesis
    using assms by (auto simp: merged_def from_flags_def listener_on_def)
next
  case (Some f)
  then have "se_ingest s = section_of (is_enable (f_ingest f)) (given cli ''ingest_enable'') (Ingest_from_cli cli)
        (over_ingest (f_ingest f)) (if cl_ingest_enable cli then Some (Ingest_from_cli cli) else None)"
      "se_forward s = section_of (fw_enable (f_forward f)) (given cli ''forward_enable'') (Forward_from_cli cli env)
        (over_forward (f_forward f) env) (if cl_forward_enable cli then Some (Forward_from_cli cli env) else None)"
    using assms by (auto simp: merged_def apply_file_def try_res_Inr from_flags_def Let_def)
  then show ?thesis
    unfolding section_of_Some using Some by simp
qed

text \<open>What an ingest listener and a gateway link are set to.\<close>

definition ingest_as_set :: "Cli \<Rightarrow> FileConfig option \<Rightarrow> UiConfig option \<Rightarrow> Env \<Rightarrow> Ingest \<Rightarrow> bool" where
  "ingest_as_set cli file ui env i \<longleftrightarrow>
     in_host i = setting file (is_host \<circ> f_ingest) (cl_ingest_host cli) \<and>
     in_port i = setting file (is_port \<circ> f_ingest)
       (flag_or_ui cli ui ''ingest_port'' (un_port \<circ> uc_ingest) (cl_ingest_port cli)) \<and>
     in_token i = fill_secret (setting file (is_token \<circ> f_ingest) (over [] (cl_ingest_token cli)))
       (ev_ingest_token env) (Option.bind ui (un_token \<circ> uc_ingest)) \<and>
     in_keepalive_secs i = setting file (is_keepalive_secs \<circ> f_ingest) (cl_ingest_keepalive_secs cli) \<and>
     in_max_batch_frames i = setting file (is_max_batch_frames \<circ> f_ingest) (cl_ingest_max_batch_frames cli)"

definition batching_as_set :: "Cli \<Rightarrow> FileConfig option \<Rightarrow> UiConfig option \<Rightarrow> Env \<Rightarrow> Batching \<Rightarrow> bool" where
  "batching_as_set cli file ui env b \<longleftrightarrow>
     bt_size b = setting file (fw_batch_size \<circ> f_forward)
       (flag_or_ui cli ui ''pg_batch_size'' (uf_batch_size \<circ> uc_forward) (cl_pg_batch_size cli)) \<and>
     bt_flush_interval b = setting file (fw_flush_interval \<circ> f_forward)
       (flag_or_ui cli ui ''pg_flush_interval'' (uf_flush_interval \<circ> uc_forward) (cl_pg_flush_interval cli)) \<and>
     bt_queue_size b = setting file (fw_queue_size \<circ> f_forward)
       (flag_or_ui cli ui ''pg_queue_size'' (uf_queue_size \<circ> uc_forward) (cl_pg_queue_size cli)) \<and>
     bt_cache_max_mb b = setting file (fw_cache_max_mb \<circ> f_forward)
       (flag_or_ui cli ui ''pg_cache_max_mb'' (uf_cache_max_mb \<circ> uc_forward) (cl_pg_cache_max_mb cli)) \<and>
     bt_queue_flush_pct b = setting file (fw_queue_flush_pct \<circ> f_forward)
       (flag_or_ui cli ui ''pg_queue_flush_pct'' (uf_queue_flush_pct \<circ> uc_forward) (cl_pg_queue_flush_pct cli)) \<and>
     (bt_cache_path b, bt_cache_origin b) =
       cache_path (case Option.bind file (fw_cache_path \<circ> f_forward) of
                     Some p \<Rightarrow> (if p = [] then None else Some p)
                   | None \<Rightarrow> cl_pg_cache_path cli) env"

definition forward_as_set :: "Cli \<Rightarrow> FileConfig option \<Rightarrow> UiConfig option \<Rightarrow> Env \<Rightarrow> Forward \<Rightarrow> bool" where
  "forward_as_set cli file ui env f \<longleftrightarrow>
     fd_host f = setting file (fw_host \<circ> f_forward)
       (flag_or_ui cli ui ''forward_host'' (uf_host \<circ> uc_forward) (cl_forward_host cli)) \<and>
     fd_port f = setting file (fw_port \<circ> f_forward)
       (flag_or_ui cli ui ''forward_port'' (uf_port \<circ> uc_forward) (cl_forward_port cli)) \<and>
     fd_database f = setting file (fw_database \<circ> f_forward)
       (flag_or_ui cli ui ''forward_database'' (uf_database \<circ> uc_forward) (cl_forward_database cli)) \<and>
     fd_daemon_id f = setting file (fw_daemon_id \<circ> f_forward)
       (case ev_hostname env of Some h \<Rightarrow> short_name h | None \<Rightarrow> []) \<and>
     fd_api_key f = fill_secret (setting file (fw_api_key \<circ> f_forward) (over [] (cl_forward_api_key cli)))
       (ev_forward_api_key env) (Option.bind ui (uf_api_key \<circ> uc_forward)) \<and>
     batching_as_set cli file ui env (fd_batching f)"

lemma finish_forward_fields:
  assumes "finish_forward L ui env f = Inr g"
  shows "fd_host g = fd_host f" "fd_port g = fd_port f" "fd_database g = fd_database f" "fd_daemon_id g = fd_daemon_id f"
    "fd_api_key g = fill_secret (fd_api_key f) (ev_forward_api_key env) (Option.bind ui (\<lambda>u. uf_api_key (uc_forward u)))"
    "bt_size (fd_batching g) = bt_size (fd_batching f)"
    "bt_flush_interval (fd_batching g) = bt_flush_interval (fd_batching f)"
    "bt_queue_size (fd_batching g) = bt_queue_size (fd_batching f)"
    "bt_cache_max_mb (fd_batching g) = bt_cache_max_mb (fd_batching f)"
    "bt_queue_flush_pct (fd_batching g) = bt_queue_flush_pct (fd_batching f)"
    "bt_cache_path (fd_batching g) = bt_cache_path (fd_batching f)"
    "bt_cache_origin (fd_batching g) = bt_cache_origin (fd_batching f)"
  using assms by (auto simp: finish_forward_def Let_def split: if_splits)

lemma forward_set:
  assumes "finish_forward L ui env (case file of Some f \<Rightarrow> over_forward (f_forward f) env (Forward_from_cli (layered ui cli) env)
      | None \<Rightarrow> Forward_from_cli (layered ui cli) env) = Inr g"
  shows "forward_as_set cli file ui env g"
proof (cases "file")
  case None
  then show ?thesis
    using finish_forward_fields [OF assms]
    by (simp add: forward_as_set_def batching_as_set_def setting_def over_def Forward_from_cli_def Batching_from_cli_def
        layered_fields comp_def split_beta)
next
  case (Some f)
  then show ?thesis
    using finish_forward_fields [OF assms]
    by (auto simp: forward_as_set_def batching_as_set_def setting_def over_forward_def over_batching_def
        Forward_from_cli_def Batching_from_cli_def layered_fields comp_def split_beta split: option.split)
qed

lemma resolved_as_set:
  fixes L :: "('o, 'p) setlib"
  assumes "resolve L cli file ui env = Inr r"
  shows "se_host (rs_settings r) = setting file (sv_host \<circ> f_server) (cl_host cli) \<and>
    se_port (rs_settings r) = setting file (sv_port \<circ> f_server) (cl_port cli) \<and>
    se_bus_offset (rs_settings r) = setting file (sv_bus_offset \<circ> f_server) (cl_bus_offset cli) \<and>
    se_echo_console (rs_settings r) = setting file (sv_echo_console \<circ> f_server) (cl_echo_console cli) \<and>
    se_colour (rs_settings r) = setting file (sv_colour \<circ> f_server) (cl_colour cli) \<and>
    se_can_fd (rs_settings r) = setting file (sv_can_fd \<circ> f_server) (cl_can_fd cli) \<and>
    se_stats_interval (rs_settings r) = setting file (lg_stats_interval \<circ> f_logging) (cl_stats_interval cli) \<and>
    parse_direction (over (setting file (sv_default_dir \<circ> f_server) (cl_default_dir cli)) (cl_pg_dir cli)) =
      Inr (se_default_dir (rs_settings r)) \<and>
    parse_log_level (setting file (lg_level \<circ> f_logging)
        (flag_or_ui cli ui ''log_level'' (ul_level \<circ> uc_logging) (cl_log_level cli))) =
      Inr (se_log_level (rs_settings r)) \<and>
    (case se_ingest (rs_settings r) of
       None \<Rightarrow> \<not> listener_on (Option.bind file (is_enable \<circ> f_ingest)) (given cli ''ingest_enable'')
         (flag_or_ui cli ui ''ingest_enable'' (un_enable \<circ> uc_ingest) (cl_ingest_enable cli))
     | Some i \<Rightarrow> ingest_as_set cli file ui env i \<and>
         listener_on (Option.bind file (is_enable \<circ> f_ingest)) (given cli ''ingest_enable'')
           (flag_or_ui cli ui ''ingest_enable'' (un_enable \<circ> uc_ingest) (cl_ingest_enable cli))) \<and>
    (case se_forward (rs_settings r) of
       None \<Rightarrow> \<not> listener_on (Option.bind file (fw_enable \<circ> f_forward)) (given cli ''forward_enable'')
         (flag_or_ui cli ui ''forward_enable'' (uf_enable \<circ> uc_forward) (cl_forward_enable cli))
     | Some f \<Rightarrow> forward_as_set cli file ui env f \<and>
         listener_on (Option.bind file (fw_enable \<circ> f_forward)) (given cli ''forward_enable'')
           (flag_or_ui cli ui ''forward_enable'' (uf_enable \<circ> uc_forward) (cl_forward_enable cli)))"
proof (intro conjI)
  obtain c src d0 l s d1 where r: "parse_direction (cl_default_dir cli) = Inr d0"
      "parse_log_level (cl_log_level (layered ui cli)) = Inr l" "merged (layered ui cli) file env c src d0 l = Inr s"
      "parse_over parse_direction (se_default_dir s) (cl_pg_dir cli) = Inr d1"
      "(case se_forward s of None \<Rightarrow> Ok None | Some f \<Rightarrow> map_sum id Some (finish_forward L ui env f)) =
         Inr (se_forward (rs_settings r))"
      "se_default_dir (rs_settings r) = d1"
      "se_ingest (rs_settings r) = map_option (\<lambda>i. i\<lparr> in_token := fill_secret (in_token i) (ev_ingest_token env)
         (Option.bind ui (\<lambda>u. un_token (uc_ingest u))) \<rparr>) (se_ingest s)"
      "same_rest s (rs_settings r)"
    by (rule resolveE [OF assms]) (auto intro: that)
  note m = merged_fields [OF r(3)] and sec = merged_sections [OF r(3)]
  show "se_host (rs_settings r) = setting file (sv_host \<circ> f_server) (cl_host cli)"
    "se_port (rs_settings r) = setting file (sv_port \<circ> f_server) (cl_port cli)"
    "se_bus_offset (rs_settings r) = setting file (sv_bus_offset \<circ> f_server) (cl_bus_offset cli)"
    "se_echo_console (rs_settings r) = setting file (sv_echo_console \<circ> f_server) (cl_echo_console cli)"
    "se_colour (rs_settings r) = setting file (sv_colour \<circ> f_server) (cl_colour cli)"
    "se_can_fd (rs_settings r) = setting file (sv_can_fd \<circ> f_server) (cl_can_fd cli)"
    "se_stats_interval (rs_settings r) = setting file (lg_stats_interval \<circ> f_logging) (cl_stats_interval cli)"
    using m r(8) by (simp_all add: same_rest_def setting_def comp_def)
  show "parse_direction (over (setting file (sv_default_dir \<circ> f_server) (cl_default_dir cli)) (cl_pg_dir cli)) =
      Inr (se_default_dir (rs_settings r))"
  proof -
    have "parse_over parse_direction d0 (Option.bind file (\<lambda>f. sv_default_dir (f_server f))) = Inr (se_default_dir s)"
      using m by simp
    then have "parse_direction (setting file (sv_default_dir \<circ> f_server) (cl_default_dir cli)) = Inr (se_default_dir s)"
      using parse_over_eq [of parse_direction, OF r(1)] by (simp add: setting_def comp_def)
    then show ?thesis
      using parse_over_eq [of parse_direction] r(4,6) by blast
  qed
  show "parse_log_level (setting file (lg_level \<circ> f_logging)
        (flag_or_ui cli ui ''log_level'' (ul_level \<circ> uc_logging) (cl_log_level cli))) =
      Inr (se_log_level (rs_settings r))"
  proof -
    have "parse_over parse_log_level l (Option.bind file (\<lambda>f. lg_level (f_logging f))) = Inr (se_log_level s)"
      using m by simp
    then have "parse_log_level (over (cl_log_level (layered ui cli)) (Option.bind file (\<lambda>f. lg_level (f_logging f)))) =
        Inr (se_log_level s)"
      by (rule parse_over_eq [of parse_log_level, OF r(2)])
    then show ?thesis
      using r(8) by (simp add: same_rest_def setting_def comp_def layered_fields)
  qed
  let ?on = "listener_on (Option.bind file (is_enable \<circ> f_ingest)) (given cli ''ingest_enable'')
         (flag_or_ui cli ui ''ingest_enable'' (un_enable \<circ> uc_ingest) (cl_ingest_enable cli))"
  have i: "se_ingest s = (if ?on then Some (case file of Some f \<Rightarrow> over_ingest (f_ingest f) (Ingest_from_cli (layered ui cli))
       | None \<Rightarrow> Ingest_from_cli (layered ui cli)) else None)"
    using sec by (simp add: layered_fields)
  show "case se_ingest (rs_settings r) of None \<Rightarrow> \<not> ?on | Some i \<Rightarrow> ingest_as_set cli file ui env i \<and> ?on"
    using r(7) i
    by (cases "file") (auto simp: ingest_as_set_def over_ingest_def Ingest_from_cli_def setting_def layered_fields
        over_def [of _ None] comp_def)
  let ?on = "listener_on (Option.bind file (fw_enable \<circ> f_forward)) (given cli ''forward_enable'')
         (flag_or_ui cli ui ''forward_enable'' (uf_enable \<circ> uc_forward) (cl_forward_enable cli))"
  have f: "se_forward s = (if ?on then Some (case file of
         Some f \<Rightarrow> over_forward (f_forward f) env (Forward_from_cli (layered ui cli) env)
       | None \<Rightarrow> Forward_from_cli (layered ui cli) env) else None)"
    using sec by (simp add: layered_fields)
  show "case se_forward (rs_settings r) of None \<Rightarrow> \<not> ?on | Some f \<Rightarrow> forward_as_set cli file ui env f \<and> ?on"
  proof (cases ?on)
    case True
    then obtain g where "finish_forward L ui env (case file of Some f \<Rightarrow> over_forward (f_forward f) env (Forward_from_cli (layered ui cli) env)
      | None \<Rightarrow> Forward_from_cli (layered ui cli) env) = Inr g" "se_forward (rs_settings r) = Some g"
      using r(5) f by (auto simp: map_sum_def split: sum.splits)
    with True show ?thesis
      using forward_set by simp
  next
    case False
    then have "se_forward s = None"
      unfolding f by simp
    then show ?thesis
      using r(5) False by simp
  qed
qed


section \<open>The retired sink\<close>

lemma not_retired:
  "allowed_clients c f \<noteq> Inl RetiredPostgresSink" "parse_direction d \<noteq> Inl RetiredPostgresSink"
  "parse_log_level l \<noteq> Inl RetiredPostgresSink" "finish_forward L ui env fw \<noteq> Inl RetiredPostgresSink"
  "parse_over parse_direction dst src \<noteq> Inl RetiredPostgresSink"
  "parse_over parse_log_level dst' src \<noteq> Inl RetiredPostgresSink"
proof -
  have p: "parse_clients cs \<noteq> Inl RetiredPostgresSink" for cs
    by (induction cs) (auto simp: try_res_def map_sum_def split: sum.splits)
  then show "allowed_clients c f \<noteq> Inl RetiredPostgresSink"
    by (auto simp: allowed_clients_def try_res_def split: option.splits sum.splits)
qed (auto simp: parse_direction_def parse_log_level_def finish_forward_def parse_over_def Let_def split: option.splits)

lemma not_retired_devices:
  "build_devices L fd db off sugar tables \<noteq> Inl RetiredPostgresSink" "choose_devices c f ui \<noteq> Inl RetiredPostgresSink"
proof -
  have "build_tables L fd db i ts \<noteq> Inl RetiredPostgresSink" for i ts
    by (induction ts arbitrary: i)
      (auto simp: try_res_def map_sum_def simp del: find.simps split: sum.splits option.splits)
  moreover have "check_duplicates seen i ds \<noteq> Inl RetiredPostgresSink" for seen i and ds :: "('a, 'b) CaptureDevice list"
    by (induction ds arbitrary: seen i) auto
  moreover have "number_pass can off n i ds \<noteq> Inl RetiredPostgresSink" for can n i and ds :: "('a, 'b) CaptureDevice list"
    by (induction ds arbitrary: n i) (auto simp: try_res_def split: sum.splits option.splits)
  ultimately show "build_devices L fd db off sugar tables \<noteq> Inl RetiredPostgresSink"
    by (auto simp: build_devices_def try_res_def Let_def split: sum.splits)
  have "ui_tables i ds \<noteq> Inl RetiredPostgresSink" for i ds
    by (induction ds arbitrary: i) (auto simp: try_res_def map_sum_def split: sum.splits)
  then show "choose_devices c f ui \<noteq> Inl RetiredPostgresSink"
    by (auto simp: choose_devices_def try_res_def Let_def split: option.splits sum.splits)
qed

lemma try_res_Inl: "try_res r f = Inl e \<longleftrightarrow> r = Inl e \<or> (\<exists>x. r = Inr x \<and> f x = Inl e)"
  by (cases r) auto

lemma apply_file_not_retired: "apply_file cli env f s \<noteq> Inl RetiredPostgresSink"
  by (simp add: apply_file_def try_res_Inl Let_def not_retired)

text \<open>The retired sink is refused, and that refusal means nothing else.  The server declines to
  start with this error exactly when the flag or the file turns the direct PostgreSQL sink
  on; a UI cannot turn it on.\<close>

theorem retired_sink_refused:
  "resolve L cli file ui env = Inl RetiredPostgresSink \<longleftrightarrow>
     cl_pg_enable cli \<or> (\<exists>f. file = Some f \<and> ps_enable (f_postgres f) = Some True)"
proof (cases "cl_pg_enable cli \<or> (case file of Some f \<Rightarrow> retired_postgres_sink f | None \<Rightarrow> False)")
  case True
  then show ?thesis
    by (auto simp: resolve_def retired_postgres_sink_def Let_def split: option.splits)
next
  case False
  then have "resolve L cli file ui env \<noteq> Inl RetiredPostgresSink"
    by (auto simp: resolve_def try_res_Inl Let_def not_retired not_retired_devices apply_file_not_retired map_sum_def
        split: prod.splits option.splits sum.splits)
  with False show ?thesis
    by (auto simp: retired_postgres_sink_def split: option.splits)
qed

section \<open>An example\<close>

definition ex_setlib :: "(unit, string) setlib" where
  "ex_setlib =
     \<lparr> sl_catlib = ref_catlib, sl_parse_parity = (\<lambda>p. if p = ''none'' then Ok p else Err ''parity''),
       sl_validate = (\<lambda>l. if ls_data_bits l = 8 then Ok () else Err ''data bits''),
       sl_valid_database_name = (\<lambda>s. s \<noteq> ''BAD''), sl_valid_daemon_id = (\<lambda>s. s \<noteq> []),
       sl_read_to_string = (\<lambda>p. Err ''no such file''), sl_exists = (\<lambda>p. False) \<rparr>"

text \<open>The flags of a server started without any but \<^verbatim>\<open>--forward-enable\<close>.\<close>

definition ex_cli :: Cli where
  "ex_cli =
     \<lparr> cl_iface = None, cl_host = ''0.0.0.0'', cl_port = 23, cl_allowed_clients = None, cl_bus_offset = 0,
       cl_echo_console = False, cl_colour = False, cl_default_dir = ''rx'', cl_can_fd = False, cl_log_level = ''INFO'',
       cl_stats_interval = 10, cl_test_pattern_enable = False, cl_test_pattern_ifaces = [], cl_ingest_enable = False,
       cl_ingest_host = ''0.0.0.0'', cl_ingest_port = 9323, cl_ingest_token = None, cl_ingest_keepalive_secs = 30,
       cl_ingest_max_batch_frames = 256, cl_forward_enable = True, cl_forward_host = ''127.0.0.1'',
       cl_forward_port = 9323, cl_forward_api_key = None, cl_forward_database = [], cl_pg_batch_size = 500,
       cl_pg_flush_interval = 1 / 2, cl_pg_queue_size = 50000, cl_pg_dir = None, cl_pg_cache_path = None,
       cl_pg_cache_max_mb = 1000, cl_pg_queue_flush_pct = 50, cl_pg_enable = False, cl_pg_dsn = None, cl_pg_func = None,
       cl_pg_write_mode = None, cl_config = None, cl_check_config = False, cl_ui_config = None,
       cl_control_socket = None, cl_given = [''forward_enable''] \<rparr>"

definition ex_env :: Env where
  "ex_env = \<lparr> ev_ingest_token = None, ev_forward_api_key = Some ''secret'', ev_cache_path = None,
     ev_state_dir = Some ''/var/lib/wiretap-server'', ev_runtime_dir = None, ev_home = None,
     ev_hostname = Some ''Pi.local'' \<rparr>"

text \<open>A UI that names a device and a gateway.\<close>

definition ex_ui :: UiConfig where
  "ex_ui = UiConfig_default
     \<lparr> uc_devices := Some [\<lparr> ud_interface = ''can1'', ud_fd = Some True, ud_database = Some ''house'' \<rparr>],
       uc_forward := (uc_forward UiConfig_default)\<lparr> uf_host := Some ''gateway'' \<rparr> \<rparr>"

lemma ex_parts:
  "parse_direction ''rx'' = Inr Rx" "parse_log_level ''INFO'' = Inr Info" "parse_ifaces ''can0'' = [''can0'']"
  "parse_ifaces [] = []" "short_name ''Pi.local'' = ''pi''" "bus_for_index 0 0 = Some (SourceId 0)"
  by (simp_all add: parse_direction_def Direction_from_str_def eq_ignore_ascii_case_def parse_log_level_def
      LogLevel_from_str_def ascii_upper_def parse_ifaces_def trim_def is_space_def short_name_def ascii_lower_def
      bus_for_index_Some_iff char_of_def bit_0)

lemma ex_build:
  "\<exists>ds. build_devices ex_setlib False [] 0 [''can0''] [] = Inr ds"
  "UiDevice_table \<lparr> ud_interface = ''can1'', ud_fd = Some True, ud_database = Some ''house'' \<rparr> = Inr t \<Longrightarrow>
     \<exists>ds. build_devices ex_setlib False [] 0 [] [t] = Inr ds"
  "\<exists>t. UiDevice_table \<lparr> ud_interface = ''can1'', ud_fd = Some True, ud_database = Some ''house'' \<rparr> = Inr t"
  by (auto simp: build_devices_def Device_can_def is_can_def ex_parts UiDevice_table_def is_space_def
      from_table_def need_def parse_mode_def can_table_def only_for_def DeviceSection_default_def device_databases_def
      valid_database_def ex_setlib_def Let_def)

lemma resolve_without_file:
  assumes "\<not> cl_pg_enable cli" "cl_allowed_clients cli = None" "parse_direction (cl_default_dir cli) = Inr d"
    "parse_log_level (cl_log_level (layered ui cli)) = Inr l" "cl_pg_dir cli = None"
    "choose_devices (layered ui cli) None ui = Inr (sugar, tables)" "cl_forward_enable (layered ui cli)"
    "finish_forward L ui env (Forward_from_cli (layered ui cli) env) = Inr f"
    "build_devices L (cl_can_fd cli) (fd_database f) (cl_bus_offset cli) (parse_ifaces sugar) tables = Inr ds"
  shows "\<exists>r. resolve L cli None ui env = Inr r"
  using assms
  by (simp add: resolve_def allowed_clients_def from_flags_def parse_over_def default_database_def Let_def)

lemma ex_layered: "cl_log_level (layered ui ex_cli) = ''INFO''" "cl_forward_enable (layered ui ex_cli)"
    "cl_forward_database (layered ui ex_cli) = []" "cl_iface (layered ui ex_cli) = None"
  if "ui \<in> {None, Some ex_ui}"
  using that by (auto simp: layered_def beneath_def ex_ui_def UiConfig_default_def ex_cli_def given_def Let_def)

lemma ex_finishes:
  assumes "ui \<in> {None, Some ex_ui}"
  shows "\<exists>f. finish_forward ex_setlib ui ex_env (Forward_from_cli (layered ui ex_cli) ex_env) = Inr f \<and> fd_database f = []"
  using ex_layered [OF assms]
  by (simp add: finish_forward_def Forward_from_cli_def ex_env_def ex_parts valid_database_def ex_setlib_def Let_def)

lemma ex_resolves:
  assumes "ui \<in> {None, Some ex_ui}"
  shows "\<exists>r. resolve ex_setlib ex_cli None ui ex_env = Inr r"
proof -
  obtain f where f: "finish_forward ex_setlib ui ex_env (Forward_from_cli (layered ui ex_cli) ex_env) = Inr f"
      "fd_database f = []"
    using ex_finishes [OF assms] by blast
  note e = ex_layered [OF assms]
  have "\<exists>sugar tables ds. choose_devices (layered ui ex_cli) None ui = Inr (sugar, tables) \<and>
      build_devices ex_setlib False [] 0 (parse_ifaces sugar) tables = Inr ds"
  proof (cases ui)
    case None
    then show ?thesis
      using ex_build(1) e(4) by (simp add: choose_devices_def ex_parts)
  next
    case (Some u)
    then have "u = ex_ui"
      using assms by simp
    then show ?thesis
      using Some ex_build(2,3) e(4)
      by (auto simp: choose_devices_def ex_ui_def ex_parts)
  qed
  then obtain sugar tables ds where "choose_devices (layered ui ex_cli) None ui = Inr (sugar, tables)"
      "build_devices ex_setlib False [] 0 (parse_ifaces sugar) tables = Inr ds"
    by blast
  then show ?thesis
    using f e by (intro resolve_without_file [where d = Rx and l = Info])
      (simp_all add: ex_parts, simp_all add: ex_cli_def ex_parts)
qed

theorem resolved_devices_sound_witness:
  "\<exists>r. resolve ex_setlib ex_cli None (Some ex_ui) ex_env = Inr r \<and>
     devices_ok (se_bus_offset (rs_settings r)) (se_devices (rs_settings r))"
  using ex_resolves [of "Some ex_ui"] resolved_devices_sound [of ex_setlib ex_cli None "Some ex_ui" ex_env] by blast



definition ex_settings :: "(unit, string) Settings" where
  "ex_settings = (from_flags ex_cli ex_env [] SrcDefault Rx Info)
     \<lparr> se_devices := [Device_can ''can0'' False []],
       se_forward := Some (Forward_from_cli ex_cli ex_env) \<rparr>"

theorem every_stream_has_one_pipeline_witness:
  "\<exists>!g. g \<in> set (forwards ex_settings) \<and> fd_database g = []"
proof -
  have "se_forward ex_settings = Some (Forward_from_cli ex_cli ex_env)"
    "[] \<in> set (device_databases (Device_can ''can0'' False [] :: (unit, string) CaptureDevice))"
    "Device_can ''can0'' False [] \<in> set (se_devices ex_settings)"
    by (simp_all add: ex_settings_def device_databases_def Device_can_def)
  then show ?thesis
    using every_stream_has_one_pipeline by blast
qed

end
