(* ===== verification/Ui_Layer.thy ===== *)
theory Ui_Layer
  imports Settings_Laws
begin

text \<open>
  What a UI sees and what a start makes of it: \<^verbatim>\<open>sources\<close>, \<^verbatim>\<open>listing\<close> and \<^verbatim>\<open>resolve_at_start\<close> of
  \<^verbatim>\<open>crates/wiretap-server/src/ui.rs\<close>, with \<^verbatim>\<open>check\<close> of \<^verbatim>\<open>pipeline.rs\<close>.
\<close>

section \<open>What would stop a start\<close>

text \<open>
  An \<^verbatim>\<open>io::Error\<close>: its text, and the two things \<^verbatim>\<open>fmt\<close> asks of it, whether permission was denied and
  whether the address family is not supported.
\<close>

record io_error =
  ie_text :: string
  ie_denied :: bool
  ie_no_family :: bool

datatype RunError =
    OpenCan string io_error
  | OpenSerial string io_error
  | Bind string io_error
  | Cache string string
  | NothingToDo
  | IngestNeedsForward
  | NoDeviceCapture

text \<open>\<open>linux\<close> is the platform the server is built for.\<close>

definition check :: "bool \<Rightarrow> ('o, 'p) Settings \<Rightarrow> (RunError, unit) result" where
  "check linux s =
     (if se_devices s = [] \<and> se_ingest s = None then Err NothingToDo
      else if se_ingest s \<noteq> None \<and> se_forward s = None then Err IngestNeedsForward
      else if \<not> linux \<and> se_devices s \<noteq> [] then Err NoDeviceCapture
      else Ok ())"

text \<open>What an operator is told.\<close>

definition hint :: "io_error \<Rightarrow> string \<Rightarrow> string" where
  "hint err grant = (if ie_denied err then grant else [])"

definition RunError_show :: "RunError \<Rightarrow> string" where
  "RunError_show e =
     (case e of
        OpenCan iface err \<Rightarrow> ''cannot open '' @ iface @ '': '' @ ie_text err @
          (if ie_no_family err
           then ''. Is the can_raw module loaded, and AF_CAN in the unit'' @ [CHR 0x27] @ ''s RestrictAddressFamilies=?''
           else [])
      | OpenSerial p err \<Rightarrow> ''cannot open '' @ p @ '': '' @ ie_text err @
          hint err ''. Add the user to dialout; under the packaged unit, DeviceAllow= names it''
      | Bind addr err \<Rightarrow> ''cannot listen on '' @ addr @ '': '' @ ie_text err @
          hint err ''. A port below 1024 needs CAP_NET_BIND_SERVICE''
      | Cache p err \<Rightarrow> ''cannot open the disk cache at '' @ p @ '': '' @ err
      | NothingToDo \<Rightarrow> ''no devices configured and the ingest listener is disabled; nothing to do''
      | NoDeviceCapture \<Rightarrow> ''capturing from a device needs Linux; this build can still run an ingest-only '' @
          ''server, which needs no local hardware''
      | IngestNeedsForward \<Rightarrow> ''the ingest listener is enabled but [forward] is not: frames pushed by a '' @
          ''device would be acknowledged and then dropped. Configure a gateway.'')"

definition SettingsError_show :: "SettingsError \<Rightarrow> string" where
  "SettingsError_show e =
     (case e of
        RetiredPostgresSink \<Rightarrow>
          ''the direct-to-PostgreSQL sink has been removed: the gateway owns the '' @
          ''database and nothing else writes to it.'' @ [CHR 0x0A] @
          ''Set [postgres].enable = false and configure [forward] to point at a '' @
          ''gateway. To move an existing archive, use tools/migrate_to_timescale.py.'' @ [CHR 0x0A] @
          ''Refusing to start rather than capturing with no archive.''
      | BadDirection d \<Rightarrow> ''direction must be '' @ debug_str ''rx'' @ '' or '' @ debug_str ''tx'' @ '', got '' @ debug_str d
      | BadLogLevel l \<Rightarrow> ''log level must be one of ['' @
          join_with '', '' (map debug_str [''DEBUG'', ''INFO'', ''WARNING'', ''ERROR'']) @ ''], got '' @ debug_str l
      | IoError p err \<Rightarrow> ''cannot read '' @ p @ '': '' @ err
      | ParseError err \<Rightarrow> err
      | DeviceError index what \<Rightarrow> ''device['' @ dec_digits index @ '']: '' @ what
      | BadDatabase d \<Rightarrow> ''database name '' @ debug_str d @ '' is not what the gateway accepts: '' @
          ''a lowercase letter, then lowercase letters, digits or _, at most 63''
      | BadAllowedClient why \<Rightarrow> ''allowed_clients: '' @ why
      | BadDaemonId i \<Rightarrow>
          (if i = [] then ''[forward] daemon_id defaults to the host'' @ [CHR 0x27] @ ''s short name, and this host has '' @
             ''none; set daemon_id''
           else ''[forward] daemon_id '' @ debug_str i @ '' is not what the gateway accepts: a lowercase '' @
             ''letter or digit, then lowercase letters, digits, ., _ or -, at most 63. '' @
             ''It defaults to the host'' @ [CHR 0x27] @ ''s short name; set daemon_id to name this daemon''))"

section \<open>Resolving at a start\<close>

text \<open>Reading \<^verbatim>\<open>ui.toml\<close> is the parameter \<open>load\<close>.\<close>

definition ui_path :: "Cli \<Rightarrow> Env \<Rightarrow> path option" where
  "ui_path cli env =
     (case cl_ui_config cli of Some p \<Rightarrow> Some p
      | None \<Rightarrow> map_option (\<lambda>d. path_push d ''ui.toml'') (ev_state_dir env))"

definition resolve_at_start :: "('o, 'p) setlib \<Rightarrow> bool \<Rightarrow> (path \<Rightarrow> (string, UiConfig) result) \<Rightarrow> Cli
    \<Rightarrow> FileConfig option \<Rightarrow> path option \<Rightarrow> Env \<Rightarrow> (SettingsError, ('o, 'p) Resolved \<times> UiConfig) result" where
  "resolve_at_start L linux load cli file p env =
     (case (case p of None \<Rightarrow> Ok UiConfig_default | Some q \<Rightarrow> load q) of
        Inl why \<Rightarrow>
          try_res (resolve L cli file None env) (\<lambda>r.
            Ok (r\<lparr> rs_warnings := rs_warnings r @ [UiIgnored why] \<rparr>, UiConfig_default))
      | Inr ui \<Rightarrow>
          (let with = resolve L cli file (Some ui) env;
               why = (case with of
                        Inr r \<Rightarrow> (case check linux (rs_settings r) of Inl e \<Rightarrow> Some (RunError_show e) | Inr _ \<Rightarrow> None)
                      | Inl e \<Rightarrow> Some (SettingsError_show e))
           in case why of
                None \<Rightarrow> try_res with (\<lambda>r. Ok (r, ui))
              | Some why \<Rightarrow>
                  try_res (resolve L cli file None env) (\<lambda>without.
                    let ignored = Ok (without\<lparr> rs_warnings := rs_warnings without @
                          [UiIgnored ((case p of Some q \<Rightarrow> q @ '': '' | None \<Rightarrow> []) @ why)] \<rparr>, UiConfig_default)
                    in case with of
                         Inr r \<Rightarrow> (if isl (check linux (rs_settings without)) then Ok (r, ui) else ignored)
                       | Inl _ \<Rightarrow> ignored)))"



section \<open>Which layer set what\<close>

text \<open>A JSON value, as far as settings need one; a device is its row.\<close>

datatype Value = VBool bool | VNum f64 | VStr string | VDevices "(string \<times> string \<times> string \<times> bool \<times> string \<times> u8) list"

definition SECRETS :: "string list" where
  "SECRETS = [''forward.api_key'', ''ingest.token'']"

text \<open>Every scalar: its key, whether the file has it, its flag, and whether the UI has it.\<close>

definition scalar_settings :: "(string \<times> (FileConfig \<Rightarrow> bool) \<times> string \<times> (UiConfig \<Rightarrow> bool)) list" where
  "scalar_settings =
     [(''forward.enable'', \<lambda>f. fw_enable (f_forward f) \<noteq> None, ''forward_enable'', \<lambda>u. uf_enable (uc_forward u) \<noteq> None),
      (''forward.host'', \<lambda>f. fw_host (f_forward f) \<noteq> None, ''forward_host'', \<lambda>u. uf_host (uc_forward u) \<noteq> None),
      (''forward.port'', \<lambda>f. fw_port (f_forward f) \<noteq> None, ''forward_port'', \<lambda>u. uf_port (uc_forward u) \<noteq> None),
      (''forward.database'', \<lambda>f. fw_database (f_forward f) \<noteq> None, ''forward_database'',
         \<lambda>u. uf_database (uc_forward u) \<noteq> None),
      (''forward.batch_size'', \<lambda>f. fw_batch_size (f_forward f) \<noteq> None, ''pg_batch_size'',
         \<lambda>u. uf_batch_size (uc_forward u) \<noteq> None),
      (''forward.flush_interval'', \<lambda>f. fw_flush_interval (f_forward f) \<noteq> None, ''pg_flush_interval'',
         \<lambda>u. uf_flush_interval (uc_forward u) \<noteq> None),
      (''forward.queue_size'', \<lambda>f. fw_queue_size (f_forward f) \<noteq> None, ''pg_queue_size'',
         \<lambda>u. uf_queue_size (uc_forward u) \<noteq> None),
      (''forward.cache_max_mb'', \<lambda>f. fw_cache_max_mb (f_forward f) \<noteq> None, ''pg_cache_max_mb'',
         \<lambda>u. uf_cache_max_mb (uc_forward u) \<noteq> None),
      (''forward.queue_flush_pct'', \<lambda>f. fw_queue_flush_pct (f_forward f) \<noteq> None, ''pg_queue_flush_pct'',
         \<lambda>u. uf_queue_flush_pct (uc_forward u) \<noteq> None),
      (''ingest.enable'', \<lambda>f. is_enable (f_ingest f) \<noteq> None, ''ingest_enable'', \<lambda>u. un_enable (uc_ingest u) \<noteq> None),
      (''ingest.port'', \<lambda>f. is_port (f_ingest f) \<noteq> None, ''ingest_port'', \<lambda>u. un_port (uc_ingest u) \<noteq> None),
      (''logging.level'', \<lambda>f. lg_level (f_logging f) \<noteq> None, ''log_level'', \<lambda>u. ul_level (uc_logging u) \<noteq> None)]"

definition ui_keys :: "string list" where
  "ui_keys = [''devices''] @ SECRETS @ map fst scalar_settings"

definition in_file :: "FileConfig option \<Rightarrow> (FileConfig \<Rightarrow> bool) \<Rightarrow> bool" where
  "in_file file p = (case file of Some f \<Rightarrow> p f | None \<Rightarrow> False)"

definition flag :: "Cli \<Rightarrow> string \<Rightarrow> string option" where
  "flag cli field = (if given cli field then Some field else None)"

text \<open>The first entry of a key replaced.\<close>

fun set_source :: "string \<Rightarrow> Source \<Rightarrow> (string \<times> Source) list \<Rightarrow> (string \<times> Source) list" where
  "set_source k s [] = []"
| "set_source k s ((k', s') # xs) = (if k' = k then (k', s) # xs else (k', s') # set_source k s xs)"

definition secret_source :: "string \<Rightarrow> string \<Rightarrow> string option list \<Rightarrow> Source" where
  "secret_source field var layers =
     (let has = (\<lambda>l. l \<noteq> None \<and> l \<noteq> Some []) in
      if has (layers ! 0) then SrcFile
      else if has (layers ! 1) then SrcFlag field
      else if has (layers ! 2) then SrcEnv var
      else if has (layers ! 3) then SrcUi
      else SrcDefault)"

definition sources :: "Cli \<Rightarrow> FileConfig option \<Rightarrow> UiConfig \<Rightarrow> Env \<Rightarrow> (string \<times> Source) list" where
  "sources cli file u env =
     (let out = (''devices'', source (in_file file (\<lambda>f. sv_iface (f_server f) \<noteq> None \<or> f_device f \<noteq> []))
                   (flag cli ''iface'') (uc_devices u \<noteq> None)) #
                map (\<lambda>(k, fp, fl, up). (k, source (in_file file fp) (flag cli fl) (up u))) scalar_settings;
          off = (\<lambda>k v field out. if v = Some False \<and> given cli field then set_source k (SrcFlag field) out else out);
          out = off ''forward.enable'' (Option.bind file (fw_enable \<circ> f_forward)) ''forward_enable'' out;
          out = off ''ingest.enable'' (Option.bind file (is_enable \<circ> f_ingest)) ''ingest_enable'' out
      in out @
         [(''forward.api_key'', secret_source ''forward_api_key'' ''WIRETAP_FORWARD_TOKEN''
             [Option.bind file (fw_api_key \<circ> f_forward), cl_forward_api_key cli, ev_forward_api_key env,
              uf_api_key (uc_forward u)]),
          (''ingest.token'', secret_source ''ingest_token'' ''WIRETAP_INGEST_TOKEN''
             [Option.bind file (is_token \<circ> f_ingest), cl_ingest_token cli, ev_ingest_token env,
              un_token (uc_ingest u)])])"

record Setting =
  sg_key :: string
  sg_value :: Value
  sg_secret :: bool
  sg_source :: Source

definition device_row :: "('o, 'p) CaptureDevice \<Rightarrow> string \<times> string \<times> string \<times> bool \<times> string \<times> u8" where
  "device_row d =
     (dd_interface d, if is_can d then ''can'' else ''serial'', Mode_as_str (dd_mode d), dd_fd d, dd_database d,
      bus_no (dd_bus d))"

text \<open>What resolving decided, ahead of what the layers say.\<close>

definition listed_values :: "Cli \<Rightarrow> FileConfig option \<Rightarrow> UiConfig \<Rightarrow> ('o, 'p) Settings \<Rightarrow> (string \<times> Value) list" where
  "listed_values cli file u s =
     (let c = beneath u cli; num = (\<lambda>n. VNum (of_nat n)) in
      [(''devices'', VDevices (map device_row (se_devices s))),
       (''forward.enable'', VBool (se_forward s \<noteq> None)),
       (''ingest.enable'', VBool (se_ingest s \<noteq> None)),
       (''logging.level'', VStr (LogLevel_as_str (se_log_level s))),
       (''forward.enable'', VBool (setting file (fw_enable \<circ> f_forward) (cl_forward_enable c))),
       (''forward.host'', VStr (setting file (fw_host \<circ> f_forward) (cl_forward_host c))),
       (''forward.port'', num (unat (setting file (fw_port \<circ> f_forward) (cl_forward_port c)))),
       (''forward.database'', VStr (setting file (fw_database \<circ> f_forward) (cl_forward_database c))),
       (''forward.batch_size'', num (setting file (fw_batch_size \<circ> f_forward) (cl_pg_batch_size c))),
       (''forward.flush_interval'', VNum (setting file (fw_flush_interval \<circ> f_forward) (cl_pg_flush_interval c))),
       (''forward.queue_size'', num (setting file (fw_queue_size \<circ> f_forward) (cl_pg_queue_size c))),
       (''forward.cache_max_mb'', num (unat (setting file (fw_cache_max_mb \<circ> f_forward) (cl_pg_cache_max_mb c)))),
       (''forward.queue_flush_pct'', num (unat (setting file (fw_queue_flush_pct \<circ> f_forward) (cl_pg_queue_flush_pct c)))),
       (''ingest.enable'', VBool (setting file (is_enable \<circ> f_ingest) (cl_ingest_enable c))),
       (''ingest.port'', num (unat (setting file (is_port \<circ> f_ingest) (cl_ingest_port c)))),
       (''logging.level'', VStr (setting file (lg_level \<circ> f_logging) (cl_log_level c)))])"

text \<open>\<^verbatim>\<open>expect\<close> is a panic: \<^term>\<open>None\<close>.\<close>

fun listing_rows :: "(string \<times> Value) list \<Rightarrow> (string \<times> Source) list \<Rightarrow> Setting list option" where
  "listing_rows vals [] = Some []"
| "listing_rows vals ((k, s) # xs) =
     Option.bind (if k \<in> set SECRETS then Some (VBool (s \<noteq> SrcDefault)) else map_of vals k) (\<lambda>v.
     Option.bind (listing_rows vals xs) (\<lambda>rest.
       Some (\<lparr> sg_key = k, sg_value = v, sg_secret = k \<in> set SECRETS, sg_source = s \<rparr> # rest)))"

definition listing :: "Cli \<Rightarrow> FileConfig option \<Rightarrow> UiConfig \<Rightarrow> Env \<Rightarrow> ('o, 'p) Settings \<Rightarrow> Setting list option" where
  "listing cli file u env s = listing_rows (listed_values cli file u s) (sources cli file u env)"

section \<open>The listing is what runs\<close>

text \<open>The value a running server has for a key; a listener that is off has none.\<close>

definition running_values :: "('o, 'p) Settings \<Rightarrow> (string \<times> Value option) list" where
  "running_values s =
       [(''devices'', Some (VDevices (map device_row (se_devices s)))),
        (''forward.enable'', Some (VBool (se_forward s \<noteq> None))),
        (''forward.host'', map_option (\<lambda>f. VStr (fd_host f)) (se_forward s)),
        (''forward.port'', map_option (\<lambda>f. VNum (of_nat (unat (fd_port f)))) (se_forward s)),
        (''forward.database'', map_option (\<lambda>f. VStr (fd_database f)) (se_forward s)),
        (''forward.batch_size'', map_option (\<lambda>f. VNum (of_nat (bt_size (fd_batching f)))) (se_forward s)),
        (''forward.flush_interval'', map_option (\<lambda>f. VNum (bt_flush_interval (fd_batching f))) (se_forward s)),
        (''forward.queue_size'', map_option (\<lambda>f. VNum (of_nat (bt_queue_size (fd_batching f)))) (se_forward s)),
        (''forward.cache_max_mb'', map_option (\<lambda>f. VNum (of_nat (unat (bt_cache_max_mb (fd_batching f))))) (se_forward s)),
        (''forward.queue_flush_pct'', map_option (\<lambda>f. VNum (of_nat (unat (bt_queue_flush_pct (fd_batching f))))) (se_forward s)),
        (''ingest.enable'', Some (VBool (se_ingest s \<noteq> None))),
        (''ingest.port'', map_option (\<lambda>i. VNum (of_nat (unat (in_port i)))) (se_ingest s)),
        (''logging.level'', Some (VStr (LogLevel_as_str (se_log_level s))))]"

definition running_value :: "string \<Rightarrow> ('o, 'p) Settings \<Rightarrow> Value option" where
  "running_value k s = (case map_of (running_values s) k of Some v \<Rightarrow> v | None \<Rightarrow> None)"

lemma option_caseE: "(case x of Some v \<Rightarrow> v | None \<Rightarrow> None) = Some y \<Longrightarrow> x = Some (Some y)"
  by (cases x) simp_all

lemma set_source_keys: "map fst (set_source k s xs) = map fst xs"
  by (induction k s xs rule: set_source.induct) auto

lemma sources_keys: "map fst (sources cli file u env) = [''devices''] @ map fst scalar_settings @ SECRETS"
  by (simp add: sources_def SECRETS_def Let_def set_source_keys scalar_settings_def)

lemma listing_rows_map:
  assumes "\<forall>(k, s) \<in> set xs. k \<in> set SECRETS \<or> map_of vals k \<noteq> None"
  shows "listing_rows vals xs = Some (map (\<lambda>(k, s). \<lparr> sg_key = k,
     sg_value = (if k \<in> set SECRETS then VBool (s \<noteq> SrcDefault) else the (map_of vals k)),
     sg_secret = k \<in> set SECRETS, sg_source = s \<rparr>) xs)"
  using assms by (induction vals xs rule: listing_rows.induct) auto

lemma listed_keys:
  "k \<in> set ([''devices''] @ map fst scalar_settings @ SECRETS) \<Longrightarrow>
     k \<in> set SECRETS \<or> map_of (listed_values cli file u s) k \<noteq> None"
  by (auto simp: scalar_settings_def listed_values_def Let_def)

lemma listed_lookup:
  "map_of (listed_values cli file u s) ''devices'' = Some (VDevices (map device_row (se_devices s)))"
  "map_of (listed_values cli file u s) ''forward.enable'' = Some (VBool (se_forward s \<noteq> None))"
  "map_of (listed_values cli file u s) ''ingest.enable'' = Some (VBool (se_ingest s \<noteq> None))"
  "map_of (listed_values cli file u s) ''logging.level'' = Some (VStr (LogLevel_as_str (se_log_level s)))"
  "map_of (listed_values cli file u s) ''forward.host'' = Some (VStr (setting file (fw_host \<circ> f_forward) (cl_forward_host (beneath u cli))))"
  "map_of (listed_values cli file u s) ''forward.port'' = Some (VNum (of_nat (unat (setting file (fw_port \<circ> f_forward) (cl_forward_port (beneath u cli))))))"
  "map_of (listed_values cli file u s) ''forward.database'' = Some (VStr (setting file (fw_database \<circ> f_forward) (cl_forward_database (beneath u cli))))"
  "map_of (listed_values cli file u s) ''forward.batch_size'' = Some (VNum (of_nat (setting file (fw_batch_size \<circ> f_forward) (cl_pg_batch_size (beneath u cli)))))"
  "map_of (listed_values cli file u s) ''forward.flush_interval'' = Some (VNum (setting file (fw_flush_interval \<circ> f_forward) (cl_pg_flush_interval (beneath u cli))))"
  "map_of (listed_values cli file u s) ''forward.queue_size'' = Some (VNum (of_nat (setting file (fw_queue_size \<circ> f_forward) (cl_pg_queue_size (beneath u cli)))))"
  "map_of (listed_values cli file u s) ''forward.cache_max_mb'' = Some (VNum (of_nat (unat (setting file (fw_cache_max_mb \<circ> f_forward) (cl_pg_cache_max_mb (beneath u cli))))))"
  "map_of (listed_values cli file u s) ''forward.queue_flush_pct'' = Some (VNum (of_nat (unat (setting file (fw_queue_flush_pct \<circ> f_forward) (cl_pg_queue_flush_pct (beneath u cli))))))"
  "map_of (listed_values cli file u s) ''ingest.port'' = Some (VNum (of_nat (unat (setting file (is_port \<circ> f_ingest) (cl_ingest_port (beneath u cli))))))"
  by (simp_all add: listed_values_def Let_def)

lemma listed_running:
  assumes "resolve L cli file (Some u) env = Inr r" "running_value k (rs_settings r) = Some v"
  shows "k \<notin> set SECRETS \<and> map_of (listed_values cli file u (rs_settings r)) k = Some v"
proof -
  note p = resolved_as_set [OF assms(1)] and l = layered_fields [of "Some u" cli]
  have b: "layered (Some u) cli = beneath u cli"
    by (simp add: layered_def)
  have "forward_as_set cli file (Some u) env g" if "se_forward (rs_settings r) = Some g" for g
    using p that by simp
  note f = this [unfolded forward_as_set_def batching_as_set_def]
  have "ingest_as_set cli file (Some u) env g" if "se_ingest (rs_settings r) = Some g" for g
    using p that by simp
  note i = this [unfolded ingest_as_set_def]
  have "list_all (\<lambda>(k, x). case x of None \<Rightarrow> True | Some v \<Rightarrow>
      k \<notin> set SECRETS \<and> map_of (listed_values cli file u (rs_settings r)) k = Some v) (running_values (rs_settings r))"
    unfolding running_values_def
    by (cases "se_forward (rs_settings r)"; cases "se_ingest (rs_settings r)")
      (simp_all add: listed_lookup SECRETS_def f i l [unfolded b])
  moreover have "(k, Some v) \<in> set (running_values (rs_settings r))"
    using assms(2) unfolding running_value_def by (intro map_of_SomeD option_caseE)
  ultimately show ?thesis
    by (fastforce simp: list_all_iff)
qed

text \<open>The settings a UI is shown are the settings the server runs on.  The listing never
  panics, has every key a UI may set once, and gives each the value the running server has
  for it, where the section it belongs to is on.\<close>

theorem listing_shows_what_runs:
  assumes "resolve L cli file (Some u) env = Inr r"
  shows "\<exists>xs. listing cli file u env (rs_settings r) = Some xs \<and> distinct (map sg_key xs) \<and>
    set (map sg_key xs) = set ui_keys \<and>
    (\<forall>x \<in> set xs. \<forall>v. running_value (sg_key x) (rs_settings r) = Some v \<longrightarrow> sg_value x = v)"
proof -
  let ?vs = "listed_values cli file u (rs_settings r)"
  have keys: "k \<in> set ([''devices''] @ map fst scalar_settings @ SECRETS)"
    if "(k, s) \<in> set (sources cli file u env)" for k s
    using that arg_cong [OF sources_keys [of cli "file" u env], of set] by (force simp: image_iff)
  then have ok: "\<forall>(k, s) \<in> set (sources cli file u env). k \<in> set SECRETS \<or> map_of ?vs k \<noteq> None"
    using listed_keys by fast
  define row where "row = (\<lambda>(k, s). \<lparr> sg_key = k,
     sg_value = (if k \<in> set SECRETS then VBool (s \<noteq> SrcDefault) else the (map_of ?vs k)),
     sg_secret = k \<in> set SECRETS, sg_source = s \<rparr>)"
  have xs: "listing cli file u env (rs_settings r) = Some (map row (sources cli file u env))"
    unfolding listing_def row_def by (rule listing_rows_map [OF ok])
  have ks: "map sg_key (map row (sources cli file u env)) = [''devices''] @ map fst scalar_settings @ SECRETS"
    using sources_keys [of cli "file" u env] by (simp add: row_def comp_def split_beta)
  have "distinct ([''devices''] @ map fst scalar_settings @ SECRETS)"
    by (simp add: scalar_settings_def SECRETS_def)
  moreover have "set ([''devices''] @ map fst scalar_settings @ SECRETS) = set ui_keys"
    by (auto simp: ui_keys_def)
  moreover have "sg_value x = v" if "x \<in> set (map row (sources cli file u env))"
      "running_value (sg_key x) (rs_settings r) = Some v" for x v
    using that listed_running [OF assms that(2)] by (auto simp: row_def)
  ultimately show ?thesis
    using xs ks by (intro exI [of _ "map row (sources cli file u env)"]) (simp only: , blast)
qed

theorem listing_shows_what_runs_witness:
  "\<exists>r xs. resolve ex_setlib ex_cli None (Some ex_ui) ex_env = Inr r \<and>
     listing ex_cli None ex_ui ex_env (rs_settings r) = Some xs \<and> distinct (map sg_key xs)"
  using listing_shows_what_runs [of ex_setlib ex_cli None ex_ui ex_env] ex_resolves [of "Some ex_ui"] by blast

end
