(* ===== verification/Gvret_Server.thy ===== *)
theory Gvret_Server
  imports Bus Client_Ranges
begin

text \<open>
  The GVRET bridge: \<^verbatim>\<open>crates/wiretap-server/src/gvret.rs\<close>, its listener and one client's task.

  The codec \<^verbatim>\<open>wslib-can-gvret\<close> is a parameter. A client's subscription to the broadcast of captured
  frames is a script of what each receive on it meets, with the time of the connection at which it is
  met; the socket and the queue of frames to transmit answer from scripts too.
\<close>

section \<open>The codec\<close>

datatype ClientCommand =
    DevInfo | CanbusParams | NumBuses | Timebase | Keepalive
  | TransmitCmd u8 u32 bool "u8 list" u8

record 'd gvlib =
  gl_dev_info :: "u8 list"
  gl_canbus_params :: "u8 \<Rightarrow> u32 list \<Rightarrow> u8 list"
  gl_num_buses :: "u8 \<Rightarrow> u8 list"
  gl_timebase :: "u32 \<Rightarrow> u8 list"
  gl_keepalive :: "u8 list"
  gl_frame :: "u32 \<Rightarrow> u32 \<Rightarrow> bool \<Rightarrow> u8 \<Rightarrow> u8 list \<Rightarrow> bool \<Rightarrow> u8 list"
  gl_new :: 'd
  gl_feed :: "'d \<Rightarrow> u8 list \<Rightarrow> ClientCommand list \<times> 'd"
  gl_is_binary :: "'d \<Rightarrow> bool"
  gl_MAX_FRAME_BYTES :: nat

section \<open>What clients are told of the buses\<close>

record BusInfo =
  bi_count :: u8
  bi_speeds :: "u32 list"

definition BusInfo_new :: "u8 \<Rightarrow> u32 list \<Rightarrow> BusInfo" where
  "BusInfo_new n rates = \<lparr> bi_count = n, bi_speeds = rates \<rparr>"

text \<open>\<open>None\<close> is the panic of an index out of range.\<close>

definition set_speed :: "nat \<Rightarrow> u32 \<Rightarrow> BusInfo \<Rightarrow> BusInfo option" where
  "set_speed interface rate b =
     (if interface < length (bi_speeds b) then Some (b\<lparr> bi_speeds := (bi_speeds b)[interface := rate] \<rparr>) else None)"

definition speeds :: "BusInfo \<Rightarrow> u32 list" where
  "speeds b = bi_speeds b"

section \<open>A client\<close>

definition WRITE_COALESCE :: nat where
  "WRITE_COALESCE = 8 * 1024"

datatype recv_event = Got nat Sample | Lagged nat | NothingYet | SendersDropped

text \<open>Which branch of the \<^verbatim>\<open>select!\<close> is taken; a read with the time at which it is answered.\<close>

datatype client_event = ReadIn nat "u8 list" | ReadFailed | FramesReady

text \<open>\<open>cl_tx_room\<close>: whether each \<^verbatim>\<open>try_send\<close> finds room. \<open>cl_queued\<close>, \<open>cl_shown\<close> and \<open>cl_warned\<close> are
  history: the frames queued for a bus, what of the output were captured frames, the losses reported.\<close>

record 'd Client =
  cl_decoder :: 'd
  cl_buses :: BusInfo
  cl_rx :: "recv_event list"
  cl_writes :: "bool list"
  cl_tx_room :: "bool list"
  cl_written :: "u8 list list"
  cl_queued :: "Transmit list"
  cl_shown :: "u8 list list"
  cl_warned :: "nat list"

text \<open>\<^verbatim>\<open>as_micros() as u32\<close>.\<close>

definition elapsed_us :: "nat \<Rightarrow> u32" where
  "elapsed_us t = of_nat t"

definition gv_encode :: "'d gvlib \<Rightarrow> CanSample \<Rightarrow> nat \<Rightarrow> u8 list" where
  "gv_encode G s t = gl_frame G (elapsed_us t) (c_arb_id s) (c_extended s) (bus_no (c_bus s)) (c_data s) (c_is_fd s)"

definition encode_can :: "'d gvlib \<Rightarrow> Sample \<Rightarrow> nat \<Rightarrow> u8 list" where
  "encode_can G s t = (case s of Can c \<Rightarrow> if c_rtr c = None then gv_encode G c t else [] | _ \<Rightarrow> [])"

text \<open>The receives of \<^verbatim>\<open>drain\<close> after the first. The result: the lag, the output, the receives to come.\<close>

fun drain_rest :: "'d gvlib \<Rightarrow> bool \<Rightarrow> nat \<Rightarrow> u8 list \<Rightarrow> recv_event list \<Rightarrow> nat \<times> u8 list \<times> recv_event list" where
  "drain_rest G binary lagged out [] = (lagged, out, [])"
| "drain_rest G binary lagged out (e # es) =
     (if length out < WRITE_COALESCE then
        (case e of
           Got t s \<Rightarrow> drain_rest G binary lagged (if binary then out @ encode_can G s t else out) es
         | Lagged n \<Rightarrow> drain_rest G binary (lagged + n) out es
         | NothingYet \<Rightarrow> (lagged, out, es)
         | SendersDropped \<Rightarrow> (lagged, out, e # es))
      else (lagged, out, e # es))"

text \<open>\<^verbatim>\<open>recv().await\<close> waits while there is nothing.\<close>

fun gv_drain :: "'d gvlib \<Rightarrow> bool \<Rightarrow> recv_event list \<Rightarrow> nat option \<times> u8 list \<times> recv_event list" where
  "gv_drain G binary [] = (None, [], [])"
| "gv_drain G binary (e # es) =
     (case e of
        Got t s \<Rightarrow> apfst Some (drain_rest G binary 0 (if binary then encode_can G s t else []) es)
      | Lagged n \<Rightarrow> apfst Some (drain_rest G binary n [] es)
      | NothingYet \<Rightarrow> gv_drain G binary es
      | SendersDropped \<Rightarrow> (None, [], e # es))"

definition gv_try_send :: "Transmit \<Rightarrow> 'd Client \<Rightarrow> 'd Client" where
  "gv_try_send x c =
     (case cl_tx_room c of
        True # rest \<Rightarrow> c\<lparr> cl_tx_room := rest, cl_queued := cl_queued c @ [x] \<rparr>
      | False # rest \<Rightarrow> c\<lparr> cl_tx_room := rest \<rparr>
      | [] \<Rightarrow> c)"

definition gv_reply :: "'d gvlib \<Rightarrow> nat \<Rightarrow> ClientCommand \<Rightarrow> u8 list \<times> 'd Client \<Rightarrow> u8 list \<times> 'd Client" where
  "gv_reply G t command oc =
     (let (out, c) = oc in
      case command of
        DevInfo \<Rightarrow> (out @ gl_dev_info G, c)
      | CanbusParams \<Rightarrow> (out @ gl_canbus_params G (bi_count (cl_buses c)) (speeds (cl_buses c)), c)
      | NumBuses \<Rightarrow> (out @ gl_num_buses G (bi_count (cl_buses c)), c)
      | Timebase \<Rightarrow> (out @ gl_timebase G (elapsed_us t), c)
      | Keepalive \<Rightarrow> (out @ gl_keepalive G, c)
      | TransmitCmd bus arb_id extended data declared \<Rightarrow>
          if length data < unat declared then (out, c)
          else (out, gv_try_send \<lparr> t_bus = SourceId bus, t_arb_id = arb_id, t_extended = extended, t_data = data \<rparr> c))"

definition gv_write :: "u8 list \<Rightarrow> 'd Client \<Rightarrow> bool \<times> 'd Client" where
  "gv_write out c =
     (if out = [] then (True, c)
      else case cl_writes c of
             True # rest \<Rightarrow> (True, c\<lparr> cl_writes := rest, cl_written := cl_written c @ [out] \<rparr>)
           | _ \<Rightarrow> (False, c))"

text \<open>The output of one turn of the loop, or \<open>None\<close> where it breaks off before the write.\<close>

definition gv_turn :: "'d gvlib \<Rightarrow> client_event \<Rightarrow> 'd Client \<Rightarrow> u8 list option \<times> 'd Client" where
  "gv_turn G e c =
     (case e of
        ReadIn t bytes \<Rightarrow>
          if bytes = [] then (None, c)
          else let (commands, d) = gl_feed G (cl_decoder c) bytes;
                   (out, c) = fold (gv_reply G t) commands ([], c\<lparr> cl_decoder := d \<rparr>)
               in (Some out, c)
      | ReadFailed \<Rightarrow> (None, c)
      | FramesReady \<Rightarrow>
          (case gv_drain G (gl_is_binary G (cl_decoder c)) (cl_rx c) of
             (None, out, rx) \<Rightarrow> (None, c\<lparr> cl_rx := rx \<rparr>)
           | (Some lagged, out, rx) \<Rightarrow>
               (Some out, c\<lparr> cl_rx := rx, cl_shown := cl_shown c @ [out],
                            cl_warned := cl_warned c @ (if lagged = 0 then [] else [lagged]) \<rparr>)))"

fun gv_serve :: "'d gvlib \<Rightarrow> client_event list \<Rightarrow> 'd Client \<Rightarrow> 'd Client" where
  "gv_serve G [] c = c"
| "gv_serve G (e # es) c =
     (case gv_turn G e c of
        (None, c) \<Rightarrow> c
      | (Some out, c) \<Rightarrow> (case gv_write out c of (ok, c) \<Rightarrow> if ok then gv_serve G es c else c))"

section \<open>The listener\<close>

definition REFUSED_REMEMBERED :: nat where
  "REFUSED_REMEMBERED = 1024"

datatype gv_accept = GvAccepted IpAddr | GvAcceptFailed

text \<open>\<open>gv_served\<close> and \<open>gv_logged\<close>: the peers given a task, and those logged as refused.\<close>

record GvListener =
  gv_allowed :: "Cidr list"
  gv_refused :: "IpAddr list"
  gv_served :: "IpAddr list"
  gv_logged :: "IpAddr list"

definition gv_run_step :: "gv_accept \<Rightarrow> GvListener \<Rightarrow> GvListener" where
  "gv_run_step e l =
     (case e of
        GvAcceptFailed \<Rightarrow> l
      | GvAccepted peer \<Rightarrow>
          if \<not> list_ex (\<lambda>n. contains n peer) (gv_allowed l) then
            let refused = (if length (gv_refused l) = REFUSED_REMEMBERED then [] else gv_refused l) in
            if peer \<in> set refused then l\<lparr> gv_refused := refused \<rparr>
            else l\<lparr> gv_refused := refused @ [peer], gv_logged := gv_logged l @ [peer] \<rparr>
          else l\<lparr> gv_served := gv_served l @ [peer] \<rparr>)"

section \<open>What a client gets\<close>

text \<open>The broadcast's promise: the receives of a subscription meet the frames published, in order, or say
  how many they have missed.\<close>

fun meets :: "Sample list \<Rightarrow> recv_event list \<Rightarrow> bool" where
  "meets pub [] = True"
| "meets pub (e # es) =
     (case e of
        Got _ s \<Rightarrow> (case pub of [] \<Rightarrow> False | p # ps \<Rightarrow> p = s \<and> meets ps es)
      | Lagged n \<Rightarrow> n \<le> length pub \<and> meets (drop n pub) es
      | _ \<Rightarrow> meets pub es)"

definition got :: "recv_event list \<Rightarrow> (nat \<times> Sample) list" where
  "got es = concat (map (\<lambda>e. case e of Got t s \<Rightarrow> [(t, s)] | _ \<Rightarrow> []) es)"

definition missed :: "recv_event list \<Rightarrow> nat" where
  "missed es = sum_list (map (\<lambda>e. case e of Lagged n \<Rightarrow> n | _ \<Rightarrow> 0) es)"

definition shows_of :: "'d gvlib \<Rightarrow> (nat \<times> Sample) list \<Rightarrow> u8 list" where
  "shows_of G fs = concat (map (\<lambda>(t, s). encode_can G s t) fs)"

lemma tally_simps [simp]:
  "got [] = []" "missed [] = 0" "shows_of G [] = []"
  "got (Got t s # es) = (t, s) # got es" "got (Lagged n # es) = got es" "got (NothingYet # es) = got es"
  "got (SendersDropped # es) = got es" "missed (Got t s # es) = missed es" "missed (Lagged n # es) = n + missed es"
  "missed (NothingYet # es) = missed es" "missed (SendersDropped # es) = missed es"
  "shows_of G ((t, s) # fs) = encode_can G s t @ shows_of G fs"
  by (simp_all add: got_def missed_def shows_of_def)

lemma tally_append [simp]:
  "got (es @ fs) = got es @ got fs" "missed (es @ fs) = missed es + missed fs"
  "shows_of G (a @ b) = shows_of G a @ shows_of G b"
  by (simp_all add: got_def missed_def shows_of_def)

lemma meets_append:
  assumes "meets pub (used @ rest)"
  shows "\<exists>n \<le> length pub. subseq (map snd (got used)) (take n pub) \<and> length (got used) + missed used = n"
  using assms
proof (induction used arbitrary: pub)
  case (Cons e used)
  show ?case
  proof (cases e)
    case (Got t s)
    then obtain ps where "pub = s # ps" "meets ps (used @ rest)"
      using Cons.prems by (auto split: list.splits)
    then obtain n where n: "n \<le> length ps" "subseq (map snd (got used)) (take n ps)" "length (got used) + missed used = n"
      using Cons.IH by blast
    show ?thesis
      by (rule exI [of _ "Suc n"]) (use Got n \<open>pub = s # ps\<close> in auto)
  next
    case (Lagged k)
    then have "k \<le> length pub" "meets (drop k pub) (used @ rest)"
      using Cons.prems by auto
    then obtain n where n: "n \<le> length pub - k" "subseq (map snd (got used)) (take n (drop k pub))"
      "length (got used) + missed used = n"
      using Cons.IH by fastforce
    have "subseq (map snd (got used)) (take (k + n) pub)"
      using list_emb_append2 [OF n(2), of "take k pub"] by (simp add: take_add)
    then show ?thesis
      using n \<open>k \<le> length pub\<close> Lagged by (intro exI [of _ "k + n"]) auto
  qed (use Cons in auto)
qed simp

lemma drain_rest_tally:
  assumes "drain_rest G True lagged out es = (lagged', out', es')"
  shows "\<exists>used. es = used @ es' \<and> lagged' = lagged + missed used \<and> out' = out @ shows_of G (got used)"
  using assms
proof (induction es arbitrary: lagged out)
  case (Cons e es)
  show ?case
  proof (cases "length out < WRITE_COALESCE")
    case True
    show ?thesis
    proof (cases e)
      case (Got t s)
      then obtain used where "es = used @ es'" "lagged' = lagged + missed used"
        "out' = (out @ encode_can G s t) @ shows_of G (got used)"
        using Cons.IH [of lagged "out @ encode_can G s t"] Cons.prems True by auto
      then show ?thesis
        by (intro exI [of _ "e # used"]) (simp add: Got)
    next
      case (Lagged n)
      then obtain used where "es = used @ es'" "lagged' = lagged + n + missed used" "out' = out @ shows_of G (got used)"
        using Cons.IH [of "lagged + n" out] Cons.prems True by auto
      then show ?thesis
        by (intro exI [of _ "e # used"]) (simp add: Lagged)
    qed (use Cons.prems True in \<open>auto intro: exI [of _ "[NothingYet]"]\<close>)
  qed (use Cons.prems in auto)
qed simp

lemma drain_tally:
  assumes "gv_drain G True es = (r, out, es')"
  shows "\<exists>used. es = used @ es' \<and> out = shows_of G (got used) \<and> missed used = (case r of None \<Rightarrow> 0 | Some n \<Rightarrow> n) \<and>
    (r = None \<longrightarrow> got used = [])"
  using assms
proof (induction es)
  case (Cons e es)
  show ?case
  proof (cases e)
    case (Got t s)
    then obtain n where r: "r = Some n" "drain_rest G True 0 (encode_can G s t) es = (n, out, es')"
      using Cons.prems by (auto simp: apfst_def map_prod_def split: prod.splits)
    from drain_rest_tally [OF r(2)] obtain used where "es = used @ es'" "n = missed used"
      "out = encode_can G s t @ shows_of G (got used)"
      by auto
    then show ?thesis
      by (intro exI [of _ "e # used"]) (simp add: Got r)
  next
    case (Lagged k)
    then obtain n where r: "r = Some n" "drain_rest G True k [] es = (n, out, es')"
      using Cons.prems by (auto simp: apfst_def map_prod_def split: prod.splits)
    from drain_rest_tally [OF r(2)] obtain used where "es = used @ es'" "n = k + missed used" "out = shows_of G (got used)"
      by auto
    then show ?thesis
      by (intro exI [of _ "e # used"]) (simp add: Lagged r)
  next
    case NothingYet
    then obtain used where "es = used @ es'" "out = shows_of G (got used)" "missed used = (case r of None \<Rightarrow> 0 | Some n \<Rightarrow> n)"
      "r = None \<longrightarrow> got used = []"
      using Cons by auto
    then show ?thesis
      by (intro exI [of _ "e # used"]) (simp add: NothingYet)
  qed (use Cons.prems in auto)
qed simp

text \<open>The tally of a client between two moments: the receives used, what was shown for them, and the
  losses reported.\<close>

definition tallied :: "'d gvlib \<Rightarrow> 'd Client \<Rightarrow> 'd Client \<Rightarrow> bool" where
  "tallied G c c' \<longleftrightarrow>
     (\<exists>used. cl_rx c = used @ cl_rx c' \<and> concat (cl_shown c') = concat (cl_shown c) @ shows_of G (got used) \<and>
        sum_list (cl_warned c') = sum_list (cl_warned c) + missed used)"

lemma tallied_refl:
  "cl_rx c' = cl_rx c \<Longrightarrow> cl_shown c' = cl_shown c \<Longrightarrow> cl_warned c' = cl_warned c \<Longrightarrow> tallied G c c'"
  by (simp add: tallied_def exI [of _ "[]"])

lemma tallied_trans: "tallied G a b \<Longrightarrow> tallied G b c \<Longrightarrow> tallied G a c"
  unfolding tallied_def by (elim exE conjE, intro exI conjI, assumption?) auto

lemma fold_reply_same:
  "cl_rx (snd (fold (gv_reply G t) cs oc)) = cl_rx (snd oc) \<and> cl_shown (snd (fold (gv_reply G t) cs oc)) = cl_shown (snd oc) \<and>
   cl_warned (snd (fold (gv_reply G t) cs oc)) = cl_warned (snd oc) \<and>
   cl_decoder (snd (fold (gv_reply G t) cs oc)) = cl_decoder (snd oc) \<and>
   cl_written (snd (fold (gv_reply G t) cs oc)) = cl_written (snd oc)"
proof (induction cs arbitrary: oc)
  case (Cons k cs)
  show ?case
    using Cons [of "gv_reply G t k oc"]
    by (auto simp: gv_reply_def gv_try_send_def Let_def case_prod_beta split: ClientCommand.split list.split bool.split)
qed simp

text \<open>A client that has spoken the handshake stays in binary.\<close>

definition handshake_stays :: "'d gvlib \<Rightarrow> bool" where
  "handshake_stays G \<longleftrightarrow> (\<forall>d bs. gl_is_binary G d \<longrightarrow> gl_is_binary G (snd (gl_feed G d bs)))"

lemma turn_tally:
  assumes "handshake_stays G" "gl_is_binary G (cl_decoder c)" "gv_turn G e c = (out, c')"
  shows "tallied G c c' \<and> gl_is_binary G (cl_decoder c') \<and> cl_written c' = cl_written c \<and>
    (cl_shown c' = cl_shown c \<or> (\<exists>o1. out = Some o1 \<and> cl_shown c' = cl_shown c @ [o1]))"
proof (cases e)
  case (ReadIn t bytes)
  show ?thesis
  proof (cases "bytes = []")
    case False
    obtain cs d where f: "gl_feed G (cl_decoder c) bytes = (cs, d)"
      by fastforce
    then have "gl_is_binary G d"
      using assms(1,2) by (metis handshake_stays_def snd_conv)
    then show ?thesis
      using assms(3) False fold_reply_same [of G t cs "([], c\<lparr> cl_decoder := d \<rparr>)"]
      by (auto simp: gv_turn_def ReadIn f case_prod_beta intro!: tallied_refl)
  qed (use assms ReadIn in \<open>auto simp: gv_turn_def intro!: tallied_refl\<close>)
next
  case FramesReady
  obtain r o1 rx where d: "gv_drain G True (cl_rx c) = (r, o1, rx)"
    by (metis prod_cases3)
  from drain_tally [OF d] obtain used where u: "cl_rx c = used @ rx" "o1 = shows_of G (got used)"
    "missed used = (case r of None \<Rightarrow> 0 | Some n \<Rightarrow> n)" "r = None \<longrightarrow> got used = []"
    by blast
  show ?thesis
  proof (cases r)
    case None
    then show ?thesis
      using assms u d by (auto simp: gv_turn_def FramesReady tallied_def)
  next
    case (Some n)
    then show ?thesis
      using assms u d by (auto simp: gv_turn_def FramesReady tallied_def split: if_splits)
  qed
qed (use assms in \<open>auto simp: gv_turn_def intro!: tallied_refl\<close>)

lemma write_same:
  assumes "gv_write out c = (ok, c')"
  shows "cl_rx c' = cl_rx c" "cl_shown c' = cl_shown c" "cl_warned c' = cl_warned c" "cl_decoder c' = cl_decoder c"
    "ok \<longrightarrow> cl_written c' = cl_written c @ (if out = [] then [] else [out])" "\<not> ok \<longrightarrow> cl_written c' = cl_written c"
  using assms by (auto simp: gv_write_def split: if_splits list.splits bool.splits)

lemma serve_tally:
  assumes "handshake_stays G"
  shows "gl_is_binary G (cl_decoder c) \<Longrightarrow> tallied G c (gv_serve G es c)"
proof (induction es arbitrary: c)
  case (Cons e es)
  obtain out c1 where t: "gv_turn G e c = (out, c1)"
    by fastforce
  note turn = turn_tally [OF assms Cons.prems t]
  show ?case
  proof (cases out)
    case None
    then show ?thesis
      using turn by (simp add: t)
  next
    case (Some o1)
    obtain ok c2 where w: "gv_write o1 c1 = (ok, c2)"
      by fastforce
    note same = write_same [OF w]
    have "tallied G c c2"
      using turn same tallied_trans [OF _ tallied_refl, of G c c1 c2] by blast
    moreover have "tallied G c2 (gv_serve G es c2)"
      using Cons.IH [of c2] turn same by simp
    ultimately show ?thesis
      using tallied_trans by (auto simp: t Some w)
  qed
qed (simp add: tallied_refl)

lemma serve_written:
  assumes "handshake_stays G"
  shows "gl_is_binary G (cl_decoder c) \<Longrightarrow> subseq (filter (\<lambda>x. x \<noteq> []) (cl_shown c)) (cl_written c) \<Longrightarrow>
    subseq (filter (\<lambda>x. x \<noteq> []) (butlast (cl_shown (gv_serve G es c)))) (cl_written (gv_serve G es c))"
proof (induction es arbitrary: c)
  case Nil
  have "subseq (filter (\<lambda>x. x \<noteq> []) (butlast (cl_shown c))) (filter (\<lambda>x. x \<noteq> []) (cl_shown c))"
    by (intro subseq_filter prefix_imp_subseq) (simp add: prefixeq_butlast)
  with Nil show ?case
    by (auto intro: subseq_order.trans)
next
  case (Cons e es)
  obtain out c1 where t: "gv_turn G e c = (out, c1)"
    by fastforce
  note turn = turn_tally [OF assms Cons.prems(1) t]
  have drop_last: "subseq (filter (\<lambda>x. x \<noteq> []) (butlast xs)) ys" if "subseq (filter (\<lambda>x. x \<noteq> []) xs) ys"
    for xs ys :: "u8 list list"
    using that by (meson prefix_imp_subseq prefixeq_butlast subseq_filter subseq_order.trans)
  show ?case
  proof (cases out)
    case None
    then show ?thesis
      using turn Cons.prems(2) drop_last by (auto simp: t)
  next
    case (Some o1)
    obtain ok c2 where w: "gv_write o1 c1 = (ok, c2)"
      by fastforce
    note same = write_same [OF w]
    show ?thesis
    proof (cases ok)
      case True
      have "subseq (filter (\<lambda>x. x \<noteq> []) (cl_shown c2)) (cl_written c2)"
        using turn same True Cons.prems(2) by (auto simp: Some)
      then show ?thesis
        using Cons.IH [of c2] turn same True by (simp add: t Some w)
    next
      case False
      then show ?thesis
        using turn same Cons.prems(2) drop_last by (auto simp: t Some w)
    qed
  qed
qed

text \<open>No frame is longer than the codec says.\<close>

definition frames_fit :: "'d gvlib \<Rightarrow> bool" where
  "frames_fit G \<longleftrightarrow> 0 < gl_MAX_FRAME_BYTES G \<and>
     (\<forall>t i x b d fd. length (gl_frame G t i x b d fd) \<le> gl_MAX_FRAME_BYTES G)"

lemma encode_can_fits: "frames_fit G \<Longrightarrow> length (encode_can G s t) \<le> gl_MAX_FRAME_BYTES G"
  by (simp add: frames_fit_def encode_can_def gv_encode_def split: Sample.split)

lemma drain_rest_fits:
  assumes "frames_fit G"
  shows "length out < WRITE_COALESCE + gl_MAX_FRAME_BYTES G \<Longrightarrow>
    length (fst (snd (drain_rest G binary lagged out es))) < WRITE_COALESCE + gl_MAX_FRAME_BYTES G"
proof (induction es arbitrary: lagged out)
  case (Cons e es)
  have "length out + length (encode_can G s t) < WRITE_COALESCE + gl_MAX_FRAME_BYTES G"
    if "length out < WRITE_COALESCE" for s t
    using that encode_can_fits [OF assms] by (rule add_less_le_mono)
  with Cons show ?case
    by (auto split: recv_event.split)
qed simp

lemma drain_fits:
  assumes "frames_fit G"
  shows "length (fst (snd (gv_drain G binary es))) < WRITE_COALESCE + gl_MAX_FRAME_BYTES G"
proof (induction es)
  case (Cons e es)
  have "length (encode_can G s t) < WRITE_COALESCE + gl_MAX_FRAME_BYTES G" for s t
    using encode_can_fits [OF assms, of s t] by (simp add: WRITE_COALESCE_def)
  with Cons drain_rest_fits [OF assms] show ?case
    using assms by (auto simp: frames_fit_def split: recv_event.split)
qed (use assms in \<open>simp add: frames_fit_def\<close>)

lemma serve_fits:
  assumes "frames_fit G"
  shows "\<forall>x \<in> set (cl_shown c). length x < WRITE_COALESCE + gl_MAX_FRAME_BYTES G \<Longrightarrow>
    \<forall>x \<in> set (cl_shown (gv_serve G es c)). length x < WRITE_COALESCE + gl_MAX_FRAME_BYTES G"
proof (induction es arbitrary: c)
  case (Cons e es)
  obtain out c1 where t: "gv_turn G e c = (out, c1)"
    by fastforce
  have c1: "\<forall>x \<in> set (cl_shown c1). length x < WRITE_COALESCE + gl_MAX_FRAME_BYTES G"
  proof (cases e)
    case (ReadIn u bytes)
    then show ?thesis
      using t Cons.prems
      by (auto simp: gv_turn_def Let_def case_prod_beta fold_reply_same split: if_splits)
  next
    case FramesReady
    then show ?thesis
      using t Cons.prems drain_fits [OF assms, of "gl_is_binary G (cl_decoder c)" "cl_rx c"]
      by (auto simp: gv_turn_def split: prod.splits option.splits)
  qed (use t Cons.prems in \<open>auto simp: gv_turn_def\<close>)
  show ?case
  proof (cases out)
    case (Some o1)
    obtain ok c2 where w: "gv_write o1 c1 = (ok, c2)"
      by fastforce
    then show ?thesis
      using Cons.IH [of c2] c1 write_same [OF w] by (simp add: t Some)
  qed (use c1 in \<open>simp add: t\<close>)
qed simp


section \<open>Who may connect\<close>

definition peers :: "gv_accept list \<Rightarrow> IpAddr list" where
  "peers es = concat (map (\<lambda>e. case e of GvAccepted p \<Rightarrow> [p] | GvAcceptFailed \<Rightarrow> []) es)"

definition is_allowed :: "Cidr list \<Rightarrow> IpAddr \<Rightarrow> bool" where
  "is_allowed ranges peer = (\<exists>n \<in> set ranges. contains n peer)"

definition listener_ok :: "Cidr list \<Rightarrow> gv_accept list \<Rightarrow> GvListener \<Rightarrow> bool" where
  "listener_ok ranges es l \<longleftrightarrow>
     gv_allowed l = ranges \<and> gv_served l = filter (is_allowed ranges) (peers es) \<and>
     set (gv_logged l) = set (filter (Not \<circ> is_allowed ranges) (peers es)) \<and>
     distinct (gv_refused l) \<and> set (gv_refused l) \<subseteq> set (gv_logged l) \<and> length (gv_refused l) \<le> REFUSED_REMEMBERED \<and>
     (card (set (gv_logged l)) < REFUSED_REMEMBERED \<longrightarrow> gv_refused l = gv_logged l)"

lemma peers_snoc: "peers (es @ [e]) = peers es @ (case e of GvAccepted p \<Rightarrow> [p] | GvAcceptFailed \<Rightarrow> [])"
  by (simp add: peers_def)

lemma run_step_ok:
  assumes "listener_ok ranges es l"
  shows "listener_ok ranges (es @ [e]) (gv_run_step e l)"
proof (cases "\<exists>p. e = GvAccepted p \<and> \<not> is_allowed ranges p")
  case True
  then obtain p where e: "e = GvAccepted p" "\<not> is_allowed ranges p"
    by blast
  have not: "\<not> list_ex (\<lambda>n. contains n p) (gv_allowed l)"
    using assms e(2) by (auto simp: listener_ok_def is_allowed_def list_ex_iff)
  have len: "length (gv_refused l) = card (set (gv_refused l))"
    using assms by (simp add: listener_ok_def distinct_card)
  let ?r = "if length (gv_refused l) = REFUSED_REMEMBERED then [] else gv_refused l"
  have few: "card (set (gv_logged l)) < REFUSED_REMEMBERED \<Longrightarrow> ?r = gv_logged l"
    using assms len by (auto simp: listener_ok_def)
  have small: "length ?r < REFUSED_REMEMBERED"
    using assms by (auto simp: listener_ok_def REFUSED_REMEMBERED_def)
  show ?thesis
  proof (cases "p \<in> set ?r")
    case True
    then have "p \<in> set (gv_logged l)"
      using assms by (auto simp: listener_ok_def split: if_splits)
    then show ?thesis
      using True assms e not few small
      by (auto simp: listener_ok_def gv_run_step_def Let_def peers_snoc split: if_splits)
  next
    case False
    have card: "card (insert p (set (gv_logged l))) < REFUSED_REMEMBERED \<Longrightarrow> card (set (gv_logged l)) < REFUSED_REMEMBERED"
      by (meson card_insert_le finite_set le_less_trans)
    have "gv_run_step e l = l\<lparr> gv_refused := ?r @ [p], gv_logged := gv_logged l @ [p] \<rparr>"
      using False not by (simp add: gv_run_step_def e(1) Let_def)
    then show ?thesis
      using False assms e few small card
      by (simp add: listener_ok_def peers_snoc) (auto split: if_splits)
  qed
next
  case False
  then show ?thesis
    using assms
    by (cases e) (auto simp: listener_ok_def gv_run_step_def peers_snoc is_allowed_def list_ex_iff)
qed

definition gv_listen :: "Cidr list \<Rightarrow> GvListener" where
  "gv_listen ranges = \<lparr> gv_allowed = ranges, gv_refused = [], gv_served = [], gv_logged = [] \<rparr>"

lemma listener_always_ok: "listener_ok ranges es (fold gv_run_step es (gv_listen ranges))"
proof (induction es rule: rev_induct)
  case Nil
  show ?case
    by (simp add: listener_ok_def gv_listen_def peers_def REFUSED_REMEMBERED_def)
qed (simp add: run_step_ok)

text \<open>Only the networks allowed get a connection. Whoever connects, and whatever accepts fail between, the
  clients served are exactly the peers whose address is in an allowed range, in order; every other is
  refused and its address logged. At most 1024 refused addresses are remembered, and as long as fewer
  have been refused each is logged once.\<close>

theorem gvret_serves_allowed_clients_only:
  "gv_served (fold gv_run_step es (gv_listen ranges)) = filter (is_allowed ranges) (peers es) \<and>
   set (gv_logged (fold gv_run_step es (gv_listen ranges))) = set (filter (Not \<circ> is_allowed ranges) (peers es)) \<and>
   length (gv_refused (fold gv_run_step es (gv_listen ranges))) \<le> REFUSED_REMEMBERED \<and>
   (card (set (filter (Not \<circ> is_allowed ranges) (peers es))) < REFUSED_REMEMBERED \<longrightarrow>
      distinct (gv_logged (fold gv_run_step es (gv_listen ranges))))"
  using listener_always_ok [of ranges es] by (auto simp: listener_ok_def)

theorem gvret_serves_allowed_clients_only_witness:
  "gv_served (fold gv_run_step [GvAccepted (V4 0x7F000001), GvAcceptFailed, GvAccepted (V4 0x0A000001)] (gv_listen LOOPBACK))
     = [V4 0x7F000001] \<and>
   distinct (gv_logged (fold gv_run_step [GvAccepted (V4 0x7F000001), GvAcceptFailed, GvAccepted (V4 0x0A000001)]
     (gv_listen LOOPBACK)))"
proof -
  let ?es = "[GvAccepted (V4 0x7F000001), GvAcceptFailed, GvAccepted (V4 0x0A000001)]"
  have p: "peers ?es = [V4 0x7F000001, V4 0x0A000001]"
    by (simp add: peers_def)
  have a: "is_allowed LOOPBACK (V4 0x7F000001)" "\<not> is_allowed LOOPBACK (V4 0x0A000001)"
    by code_simp+
  show ?thesis
    using gvret_serves_allowed_clients_only [of ?es LOOPBACK, unfolded p] a by (simp add: REFUSED_REMEMBERED_def)
qed

text \<open>With the memory full the next attempt is logged even from an address in it.\<close>

lemma full_memory_logs_again:
  assumes "\<not> is_allowed (gv_allowed l) p" "length (gv_refused l) = REFUSED_REMEMBERED" "p \<in> set (gv_refused l)"
  shows "gv_logged (gv_run_step (GvAccepted p) l) = gv_logged l @ [p]"
  using assms by (simp add: gv_run_step_def is_allowed_def list_ex_iff)

section \<open>A codec and a client\<close>

text \<open>A codec whose decoder only knows the handshake byte and a request for the number of buses.\<close>

definition ref_gvret :: "bool gvlib" where
  "ref_gvret =
     \<lparr> gl_dev_info = [0xF1, 7], gl_canbus_params = (\<lambda>n ss. [0xF1, 6, n]), gl_num_buses = (\<lambda>n. [0xF1, 12, n]),
       gl_timebase = (\<lambda>t. [0xF1, 1, ucast t]), gl_keepalive = [0xF1, 9, 0xDE, 0xAD],
       gl_frame = (\<lambda>t i x b d fd. [0xF1, 0, ucast t, ucast i, b]), gl_new = False,
       gl_feed = (\<lambda>d bs. (if 12 \<in> set bs then [NumBuses] else [], d \<or> 0xE7 \<in> set bs)), gl_is_binary = id,
       gl_MAX_FRAME_BYTES = 5 \<rparr>"

definition ex_can_frame :: Sample where
  "ex_can_frame = Can \<lparr> c_ts_us = 7, c_arb_id = 291, c_extended = False, c_is_fd = False, c_rtr = None,
                        c_brs = False, c_esi = False, c_data = [170], c_bus = SourceId 1, c_dir = Rx \<rparr>"

definition ex_client :: "bool Client" where
  "ex_client =
     \<lparr> cl_decoder = True, cl_buses = BusInfo_new 2 [500000, 250000],
       cl_rx = [NothingYet, Got 9 ex_can_frame, Lagged 2, Got 12 ex_can_frame, NothingYet, SendersDropped],
       cl_writes = [True, True], cl_tx_room = [], cl_written = [], cl_queued = [], cl_shown = [], cl_warned = [] \<rparr>"


text \<open>The client of the example is shown two frames and told of two more.\<close>

lemma ex_client_run:
  "(cl_written (gv_serve ref_gvret [FramesReady, FramesReady] ex_client),
    cl_warned (gv_serve ref_gvret [FramesReady, FramesReady] ex_client)) =
   ([[0xF1, 0, 9, 0x23, 1, 0xF1, 0, 12, 0x23, 1]], [2])"
  by code_simp

end
