(* ===== verification/Capture_Sources.thy ===== *)
theory Capture_Sources
  imports Wire Bus Gvret_Server Catalogues Archive_Queue
begin

text \<open>
  The readers: \<^verbatim>\<open>read_loop\<close> and \<^verbatim>\<open>publish\<close> of \<^verbatim>\<open>crates/wiretap-server/src/pipeline.rs\<close> for a CAN interface,
  \<^verbatim>\<open>source/socketcan.rs\<close>; \<^verbatim>\<open>drain\<close> of \<^verbatim>\<open>source/serial_tap.rs\<close> for a serial line, with its two taps of
  \<^verbatim>\<open>source/raw.rs\<close> and \<^verbatim>\<open>source/modbus.rs\<close>; and the device's state in \<^verbatim>\<open>status.rs\<close>.

  The libraries that open and reopen devices are the sequence of events they report. The framers behind
  the taps are parameters.
\<close>

section \<open>What a device reports of itself\<close>

record DeviceStatus =
  ds_state :: u8
  ds_frames :: u64

definition STARTING :: u8 where "STARTING = 0"

definition UP :: u8 where "UP = 1"

definition WAITING :: u8 where "WAITING = 2"

definition ERROR :: u8 where "ERROR = 3"

definition DeviceStatus_default :: DeviceStatus where
  "DeviceStatus_default = \<lparr> ds_state = STARTING, ds_frames = 0 \<rparr>"

definition status_up :: "DeviceStatus \<Rightarrow> DeviceStatus" where
  "status_up d = d\<lparr> ds_state := UP \<rparr>"

definition status_lost :: "bool \<Rightarrow> DeviceStatus \<Rightarrow> DeviceStatus" where
  "status_lost was_open d = d\<lparr> ds_state := (if was_open then ERROR else WAITING) \<rparr>"

definition status_read :: "u64 \<Rightarrow> DeviceStatus \<Rightarrow> DeviceStatus" where
  "status_read n d = d\<lparr> ds_frames := ds_frames d + n \<rparr>"

definition status_state :: "DeviceStatus \<Rightarrow> string" where
  "status_state d =
     (if ds_state d = STARTING then ''starting''
      else if ds_state d = UP then ''up''
      else if ds_state d = WAITING then ''waiting''
      else ''error'')"

section \<open>A CAN interface\<close>

record 'f CanRead =
  cr_frame :: 'f
  cr_own :: bool
  cr_at :: int

datatype CanError = CanClosed | CanReadError bool string | CanOther string

datatype 'f CanEvent = CanConnected | CanReads "'f CanRead list" | CanDisconnected CanError nat | CanBus

definition socketcan_sample :: "('f, 'k) wslib \<Rightarrow> 'f CanRead \<Rightarrow> SourceId \<Rightarrow> Direction \<Rightarrow> CanSample" where
  "socketcan_sample L r bus d =
     can_sample L (cr_frame r) (system_time_to_us (cr_at r)) bus (if cr_own r then Tx else d)"

text \<open>\<open>None\<close> where netlink cannot answer.\<close>

definition bitrates :: "(u32 option \<times> u32 option) option \<Rightarrow> Bitrates" where
  "bitrates answer = (case answer of None \<Rightarrow> FALLBACK | Some (nom, dat) \<Rightarrow> reported nom dat)"

text \<open>The flag of a read error: whether the network is down.\<close>

definition loss :: "CanError \<Rightarrow> string" where
  "loss e =
     (case e of
        CanClosed \<Rightarrow> ''interface is gone; reopening it by name''
      | CanReadError True _ \<Rightarrow> ''interface is down; capture resumes once it is up''
      | CanReadError False t \<Rightarrow> t
      | CanOther t \<Rightarrow> t)"

datatype reader_log = LostLine string | WaitingLine | FoundLine | ReopenedLine | ReadingAgainLine

text \<open>Where a frame goes: to the archive and everyone watching, or to the archive alone.\<close>

datatype delivery = Publish Sample | ArchiveOnly Sample

record reader =
  rd_status :: DeviceStatus
  rd_buses :: BusInfo
  rd_rates :: "(u32 option \<times> u32 option) option list"
  rd_opened :: bool
  rd_reopening :: bool
  rd_lost :: bool
  rd_rate_stale :: bool
  rd_log :: "reader_log list"
  rd_out :: "delivery list"

definition reread_rate :: "nat \<Rightarrow> reader \<Rightarrow> reader option" where
  "reread_rate index r =
     (let (answer, rest) = (case rd_rates r of [] \<Rightarrow> (None, []) | a # rest \<Rightarrow> (a, rest)) in
      map_option (\<lambda>b. r\<lparr> rd_buses := b, rd_rates := rest \<rparr>) (set_speed index (nominal (bitrates answer)) (rd_buses r)))"

definition deliver :: "('f, 'k) wslib \<Rightarrow> SourceId \<Rightarrow> Direction \<Rightarrow> 'f CanRead \<Rightarrow> delivery" where
  "deliver L bus d r =
     (let s = Can (socketcan_sample L r bus d) in if cr_own r then ArchiveOnly s else Publish s)"

text \<open>One event; \<open>None\<close> is a panic.\<close>

definition read_step :: "('f, 'k) wslib \<Rightarrow> nat \<Rightarrow> SourceId \<Rightarrow> Direction \<Rightarrow> 'f CanEvent \<Rightarrow> reader \<Rightarrow> reader option" where
  "read_step L index bus d e r =
     (case e of
        CanConnected \<Rightarrow>
          map_option (\<lambda>r.
              let r = r\<lparr> rd_rate_stale := True \<rparr>;
                  r = (if rd_reopening r
                       then r\<lparr> rd_reopening := False, rd_lost := False,
                               rd_log := rd_log r @ [if rd_opened r then ReopenedLine else FoundLine] \<rparr>
                       else r)
              in r\<lparr> rd_opened := True \<rparr>)
            (reread_rate index (r\<lparr> rd_status := status_up (rd_status r) \<rparr>))
      | CanReads reads \<Rightarrow>
          let r = r\<lparr> rd_status := status_read (of_nat (length reads)) (status_up (rd_status r)) \<rparr>;
              r = (if rd_lost r then r\<lparr> rd_lost := False, rd_log := rd_log r @ [ReadingAgainLine] \<rparr> else r)
          in map_option (\<lambda>r. r\<lparr> rd_out := rd_out r @ map (deliver L bus d) reads \<rparr>)
               (if rd_rate_stale r then reread_rate index (r\<lparr> rd_rate_stale := False \<rparr>) else Some r)
      | CanDisconnected err consecutive \<Rightarrow>
          let r = (if consecutive = 1
                   then r\<lparr> rd_log := rd_log r @ [if rd_opened r then LostLine (loss err) else WaitingLine] \<rparr> else r)
          in Some (r\<lparr> rd_status := status_lost (rd_opened r) (rd_status r),
                      rd_reopening := (case err of CanReadError _ _ \<Rightarrow> False | _ \<Rightarrow> True),
                      rd_lost := True, rd_rate_stale := True \<rparr>)
      | CanBus \<Rightarrow> Some r)"

fun read_loop :: "('f, 'k) wslib \<Rightarrow> nat \<Rightarrow> SourceId \<Rightarrow> Direction \<Rightarrow> 'f CanEvent list \<Rightarrow> reader \<Rightarrow> reader option" where
  "read_loop L index bus d [] r = Some r"
| "read_loop L index bus d (e # es) r =
     (case read_step L index bus d e r of None \<Rightarrow> None | Some r \<Rightarrow> read_loop L index bus d es r)"

definition reader_start :: "DeviceStatus \<Rightarrow> BusInfo \<Rightarrow> (u32 option \<times> u32 option) option list \<Rightarrow> reader" where
  "reader_start st buses rates =
     \<lparr> rd_status = st, rd_buses = buses, rd_rates = rates, rd_opened = False, rd_reopening = False,
       rd_lost = False, rd_rate_stale = False, rd_log = [], rd_out = [] \<rparr>"

section \<open>A serial line\<close>

record TappedMessage =
  tm_at :: int
  tm_device_address :: u8
  tm_function :: u8
  tm_crc_valid :: bool
  tm_raw :: "u8 list"

record RawChunk =
  rc_at :: int
  rc_seq :: u32
  rc_data :: "u8 list"

text \<open>The two taps: the framer with the options a catalogue gives it, and the splitter of raw chunks.\<close>

record ('o, 'm, 'r) taplib =
  tl_tapped :: 'o
  tl_allow_broadcast :: "'o \<Rightarrow> 'o"
  tl_frame_any_function :: "'o \<Rightarrow> 'o"
  tl_rtu_new :: "'o \<Rightarrow> u32 \<Rightarrow> nat \<Rightarrow> 'm"
  tl_set_options :: "'o \<Rightarrow> 'm \<Rightarrow> 'm"
  tl_rtu_push :: "'m \<Rightarrow> u8 list \<Rightarrow> int \<Rightarrow> TappedMessage list \<times> 'm"
  tl_rtu_reset :: "'m \<Rightarrow> 'm"
  tl_raw_new :: "u32 \<Rightarrow> nat \<Rightarrow> 'r"
  tl_raw_push :: "'r \<Rightarrow> u8 list \<Rightarrow> int \<Rightarrow> RawChunk list \<times> 'r"
  tl_raw_reset :: "'r \<Rightarrow> 'r"

record 'r RawTap =
  rw_tap :: 'r
  rw_bus :: SourceId

definition RawTap_new :: "('o, 'm, 'r) taplib \<Rightarrow> SourceId \<Rightarrow> u32 \<Rightarrow> nat \<Rightarrow> 'r RawTap" where
  "RawTap_new T bus baud bits_per_char = \<lparr> rw_tap = tl_raw_new T baud bits_per_char, rw_bus = bus \<rparr>"

definition RawTap_push :: "('o, 'm, 'r) taplib \<Rightarrow> u8 list \<Rightarrow> int \<Rightarrow> 'r RawTap \<Rightarrow> SerialSample list \<times> 'r RawTap" where
  "RawTap_push T bytes read_at w =
     (let (chunks, tap) = tl_raw_push T (rw_tap w) bytes read_at in
      (map (\<lambda>c. \<lparr> r_ts_us = system_time_to_us (rc_at c), r_bus = rw_bus w, r_seq = rc_seq c, r_data = rc_data c \<rparr>) chunks,
       w\<lparr> rw_tap := tap \<rparr>))"

definition RawTap_reset :: "('o, 'm, 'r) taplib \<Rightarrow> 'r RawTap \<Rightarrow> 'r RawTap" where
  "RawTap_reset T w = w\<lparr> rw_tap := tl_raw_reset T (rw_tap w) \<rparr>"

record 'm RtuTap =
  ru_tap :: 'm
  ru_bus :: SourceId

definition rtu_options :: "('o, 'm, 'r) taplib \<Rightarrow> 'o LineCatalogue option \<Rightarrow> 'o" where
  "rtu_options T catalogue =
     (case catalogue of
        Some c \<Rightarrow> tl_frame_any_function T (tl_allow_broadcast T (lc_rtu c))
      | None \<Rightarrow> tl_tapped T)"

definition RtuTap_new :: "('o, 'm, 'r) taplib \<Rightarrow> SourceId \<Rightarrow> u32 \<Rightarrow> nat \<Rightarrow> 'o LineCatalogue option \<Rightarrow> 'm RtuTap" where
  "RtuTap_new T bus baud bits_per_char catalogue =
     \<lparr> ru_tap = tl_rtu_new T (rtu_options T catalogue) baud bits_per_char, ru_bus = bus \<rparr>"

definition reframe :: "('o, 'm, 'r) taplib \<Rightarrow> 'o LineCatalogue option \<Rightarrow> 'm RtuTap \<Rightarrow> 'm RtuTap" where
  "reframe T catalogue u = u\<lparr> ru_tap := tl_set_options T (rtu_options T catalogue) (ru_tap u) \<rparr>"

definition RtuTap_push :: "('o, 'm, 'r) taplib \<Rightarrow> u8 list \<Rightarrow> int \<Rightarrow> 'm RtuTap \<Rightarrow> ModbusSample list \<times> 'm RtuTap" where
  "RtuTap_push T bytes read_at u =
     (let (messages, tap) = tl_rtu_push T (ru_tap u) bytes read_at in
      (map (\<lambda>m. \<lparr> m_ts_us = system_time_to_us (tm_at m), m_bus = ru_bus u, m_unit = tm_device_address m,
                   m_func = tm_function m, m_crc_valid = tm_crc_valid m, m_raw = tm_raw m \<rparr>) messages,
       u\<lparr> ru_tap := tap \<rparr>))"

definition RtuTap_reset :: "('o, 'm, 'r) taplib \<Rightarrow> 'm RtuTap \<Rightarrow> 'm RtuTap" where
  "RtuTap_reset T u = u\<lparr> ru_tap := tl_rtu_reset T (ru_tap u) \<rparr>"

text \<open>A line's framer and the rules it follows. \<open>fm_rules\<close> is the watch on the line's rules: what has
  been sent and not yet seen.\<close>

record ('o, 'm) Framed =
  fm_tap :: "'m RtuTap"
  fm_rules :: "'o Rules option"
  fm_current :: "'o Rules"

definition Framed_new :: "('o, 'm, 'r) taplib \<Rightarrow> SourceId \<Rightarrow> u32 \<Rightarrow> nat \<Rightarrow> 'o Rules \<Rightarrow> ('o, 'm) Framed" where
  "Framed_new T bus baud bits_per_char rules =
     \<lparr> fm_tap = RtuTap_new T bus baud bits_per_char (Rules_catalogue rules), fm_rules = None, fm_current = rules \<rparr>"

definition follow :: "('o, 'm, 'r) taplib \<Rightarrow> ('o, 'm) Framed \<Rightarrow> ('o, 'm) Framed" where
  "follow T f =
     (case fm_rules f of
        None \<Rightarrow> f
      | Some new \<Rightarrow> \<lparr> fm_tap = reframe T (Rules_catalogue new) (fm_tap f), fm_rules = None, fm_current = new \<rparr>)"

text \<open>What the line's task reports, and the catalogues giving the line new rules in between.\<close>

datatype 'o SerialEvent =
    SerialConnected | SerialRead "u8 list" int | SerialDisconnected string nat | RulesChanged "'o Rules"

record ('o, 'm, 'r) tap =
  ta_status :: DeviceStatus
  ta_framed :: "('o, 'm) Framed option"
  ta_raw :: "'r RawTap option"
  ta_opened :: bool
  ta_lost :: bool
  ta_log :: "reader_log list"
  ta_out :: "Sample list"

definition tap_publish :: "Sample list \<Rightarrow> ('o, 'm, 'r) tap \<Rightarrow> ('o, 'm, 'r) tap" where
  "tap_publish ss t =
     t\<lparr> ta_status := ((status_read 1) ^^ length ss) (ta_status t), ta_out := ta_out t @ ss \<rparr>"

definition tap_raw :: "('o, 'm, 'r) taplib \<Rightarrow> u8 list \<Rightarrow> int \<Rightarrow> ('o, 'm, 'r) tap \<Rightarrow> ('o, 'm, 'r) tap" where
  "tap_raw T bytes read_at t =
     (case ta_raw t of
        None \<Rightarrow> t
      | Some w \<Rightarrow> (let (ss, w) = RawTap_push T bytes read_at w in tap_publish (map Serial ss) (t\<lparr> ta_raw := Some w \<rparr>)))"

definition tap_framed :: "('o, 'm, 'r) taplib \<Rightarrow> u8 list \<Rightarrow> int \<Rightarrow> ('o, 'm, 'r) tap \<Rightarrow> ('o, 'm, 'r) tap" where
  "tap_framed T bytes read_at t =
     (case ta_framed t of
        None \<Rightarrow> t
      | Some f \<Rightarrow>
          (let f = follow T f; (ms, u) = RtuTap_push T bytes read_at (fm_tap f)
           in tap_publish (map Modbus ms) (t\<lparr> ta_framed := Some (f\<lparr> fm_tap := u \<rparr>) \<rparr>)))"

definition drain_step :: "('o, 'm, 'r) taplib \<Rightarrow> 'o SerialEvent \<Rightarrow> ('o, 'm, 'r) tap \<Rightarrow> ('o, 'm, 'r) tap" where
  "drain_step T e t =
     (case e of
        SerialConnected \<Rightarrow>
          let t = t\<lparr> ta_status := status_up (ta_status t), ta_raw := map_option (RawTap_reset T) (ta_raw t) \<rparr>;
              t = (if ta_lost t
                   then t\<lparr> ta_lost := False, ta_log := ta_log t @ [if ta_opened t then ReopenedLine else FoundLine] \<rparr>
                   else t)
          in t\<lparr> ta_opened := True \<rparr>
      | SerialRead bytes read_at \<Rightarrow>
          tap_framed T bytes read_at (tap_raw T bytes read_at (t\<lparr> ta_status := status_up (ta_status t) \<rparr>))
      | SerialDisconnected err consecutive \<Rightarrow>
          let t = (if consecutive = 1
                   then t\<lparr> ta_log := ta_log t @ [if ta_opened t then LostLine (err @ ''; reopening'') else WaitingLine] \<rparr>
                   else t)
          in t\<lparr> ta_status := status_lost (ta_opened t) (ta_status t),
                 ta_framed := map_option (\<lambda>f. f\<lparr> fm_tap := RtuTap_reset T (fm_tap f) \<rparr>) (ta_framed t),
                 ta_lost := True \<rparr>
      | RulesChanged rules \<Rightarrow> t\<lparr> ta_framed := map_option (\<lambda>f. f\<lparr> fm_rules := Some rules \<rparr>) (ta_framed t) \<rparr>)"

definition tap_drain :: "('o, 'm, 'r) taplib \<Rightarrow> 'o SerialEvent list \<Rightarrow> ('o, 'm, 'r) tap \<Rightarrow> ('o, 'm, 'r) tap" where
  "tap_drain T es t = fold (drain_step T) es t"

section \<open>Every frame read is delivered\<close>

definition archived :: "delivery list \<Rightarrow> Sample list" where
  "archived ds = map (\<lambda>d. case d of Publish s \<Rightarrow> s | ArchiveOnly s \<Rightarrow> s) ds"

definition watched :: "delivery list \<Rightarrow> Sample list" where
  "watched ds = concat (map (\<lambda>d. case d of Publish s \<Rightarrow> [s] | ArchiveOnly s \<Rightarrow> []) ds)"

definition reads_of :: "'f CanEvent list \<Rightarrow> 'f CanRead list" where
  "reads_of es = concat (map (\<lambda>e. case e of CanReads rs \<Rightarrow> rs | _ \<Rightarrow> []) es)"

lemma delivered_simps:
  "archived (map (deliver L bus d) rs) = map (\<lambda>r. Can (socketcan_sample L r bus d)) rs"
  "watched (map (deliver L bus d) rs) = map (\<lambda>r. Can (socketcan_sample L r bus d)) (filter (Not \<circ> cr_own) rs)"
  by (induction rs) (simp_all add: archived_def watched_def deliver_def Let_def)

text \<open>The bus a reader announces rates for exists.\<close>

lemma reread_rate_in_range:
  assumes "index < length (bi_speeds (rd_buses r))"
  shows "\<exists>r'. reread_rate index r = Some r' \<and> length (bi_speeds (rd_buses r')) = length (bi_speeds (rd_buses r)) \<and>
    rd_status r' = rd_status r \<and> rd_opened r' = rd_opened r \<and> rd_reopening r' = rd_reopening r \<and>
    rd_lost r' = rd_lost r \<and> rd_rate_stale r' = rd_rate_stale r \<and> rd_log r' = rd_log r \<and> rd_out r' = rd_out r"
  using assms by (auto simp: reread_rate_def set_speed_def Let_def split: list.split)

lemma status_simps [simp]:
  "ds_frames (status_up d) = ds_frames d" "ds_frames (status_lost b d) = ds_frames d"
  "ds_frames (status_read n d) = ds_frames d + n"
  by (simp_all add: status_up_def status_lost_def status_read_def)

lemma read_step_delivers:
  assumes "index < length (bi_speeds (rd_buses r))"
  shows "\<exists>r'. read_step L index bus d e r = Some r' \<and> index < length (bi_speeds (rd_buses r')) \<and>
    rd_out r' = rd_out r @ map (deliver L bus d) (reads_of [e]) \<and>
    ds_frames (rd_status r') = ds_frames (rd_status r) + of_nat (length (reads_of [e]))"
proof (cases e)
  case CanConnected
  then show ?thesis
    using reread_rate_in_range [of index "r\<lparr> rd_status := status_up (rd_status r) \<rparr>"] assms
    by (auto simp: read_step_def reads_of_def Let_def)
next
  case (CanReads rs)
  let ?r = "r\<lparr> rd_status := status_read (of_nat (length rs)) (status_up (rd_status r)) \<rparr>"
  let ?r1 = "if rd_lost ?r then ?r\<lparr> rd_lost := False, rd_log := rd_log ?r @ [ReadingAgainLine] \<rparr> else ?r"
  show ?thesis
    using reread_rate_in_range [of index "?r1\<lparr> rd_rate_stale := False \<rparr>"] assms
    by (auto simp: CanReads read_step_def reads_of_def Let_def)
qed (use assms in \<open>auto simp: read_step_def reads_of_def Let_def\<close>)

lemma read_loop_delivers:
  "index < length (bi_speeds (rd_buses r)) \<Longrightarrow>
   \<exists>r'. read_loop L index bus d es r = Some r' \<and>
     rd_out r' = rd_out r @ map (deliver L bus d) (reads_of es) \<and>
     ds_frames (rd_status r') = ds_frames (rd_status r) + of_nat (length (reads_of es))"
proof (induction es arbitrary: r)
  case (Cons e es)
  have split: "reads_of (e # es) = reads_of [e] @ reads_of es"
    by (simp add: reads_of_def)
  obtain r1 where s: "read_step L index bus d e r = Some r1" "index < length (bi_speeds (rd_buses r1))"
    "rd_out r1 = rd_out r @ map (deliver L bus d) (reads_of [e])"
    "ds_frames (rd_status r1) = ds_frames (rd_status r) + of_nat (length (reads_of [e]))"
    using read_step_delivers [OF Cons.prems] by blast
  then show ?case
    using Cons.IH [OF s(2)] by (auto simp: split add_ac)
qed (simp add: reads_of_def)


section \<open>A loss is reported once, and its end once\<close>

text \<open>The order in which the library reports: it connects when it has no socket, reads when it has one, a
  read error leaves it the socket, any other takes it; failures are numbered from the last connect or read.\<close>

fun can_order :: "bool \<Rightarrow> nat \<Rightarrow> 'f CanEvent list \<Rightarrow> bool" where
  "can_order socket k [] = True"
| "can_order socket k (e # es) =
     (case e of
        CanConnected \<Rightarrow> \<not> socket \<and> can_order True 0 es
      | CanReads _ \<Rightarrow> socket \<and> can_order True 0 es
      | CanDisconnected err n \<Rightarrow>
          n = Suc k \<and> (case err of CanReadError _ _ \<Rightarrow> socket \<and> can_order True n es | _ \<Rightarrow> can_order False n es)
      | CanBus \<Rightarrow> can_order socket k es)"

definition is_loss :: "reader_log \<Rightarrow> bool" where
  "is_loss l = (case l of LostLine _ \<Rightarrow> True | WaitingLine \<Rightarrow> True | _ \<Rightarrow> False)"

text \<open>Losses and ends alternate, a loss first; the last line is a loss while one lasts.\<close>

definition told :: "bool \<Rightarrow> reader_log list \<Rightarrow> bool" where
  "told lost ls \<longleftrightarrow> distinct_adj (False # map is_loss ls) \<and> last (False # map is_loss ls) = lost"

lemma told_snoc: "told lost ls \<Longrightarrow> is_loss l \<noteq> lost \<Longrightarrow> told (is_loss l) (ls @ [l])"
  using distinct_adj_snoc [of False "map is_loss ls" "is_loss l"] by (auto simp: told_def)

definition reader_told :: "bool \<Rightarrow> nat \<Rightarrow> reader \<Rightarrow> bool" where
  "reader_told socket k r \<longleftrightarrow> told (rd_lost r) (rd_log r) \<and> (rd_lost r \<longleftrightarrow> 0 < k) \<and> (rd_reopening r \<longleftrightarrow> \<not> socket \<and> 0 < k)"

lemma read_step_told:
  assumes ok: "reader_told socket k r" and ord: "can_order socket k (e # es)" and step: "read_step L index bus d e r = Some r'"
  shows "\<exists>socket' k'. reader_told socket' k' r' \<and> can_order socket' k' es"
proof (cases e)
  case CanConnected
  then obtain r1 where r1: "reread_rate index (r\<lparr> rd_status := status_up (rd_status r) \<rparr>) = Some r1"
    using step by (auto simp: read_step_def)
  then have same: "rd_reopening r1 = rd_reopening r" "rd_lost r1 = rd_lost r" "rd_log r1 = rd_log r"
    by (auto simp: reread_rate_def set_speed_def Let_def split: list.splits if_splits)
  have "reader_told True 0 r'"
    using step ok ord same told_snoc [of True "rd_log r"]
    by (auto simp: CanConnected read_step_def r1 reader_told_def Let_def is_loss_def)
  then show ?thesis
    using ord CanConnected by auto
next
  case (CanReads rs)
  let ?r = "r\<lparr> rd_status := status_read (of_nat (length rs)) (status_up (rd_status r)) \<rparr>"
  let ?r1 = "if rd_lost ?r then ?r\<lparr> rd_lost := False, rd_log := rd_log ?r @ [ReadingAgainLine] \<rparr> else ?r"
  have t: "told False (rd_log ?r1)"
    using ok told_snoc [of True "rd_log r" ReadingAgainLine] by (auto simp: reader_told_def is_loss_def)
  have "rd_log r' = rd_log ?r1 \<and> rd_lost r' = False \<and> rd_reopening r' = rd_reopening r"
    using step by (auto simp: CanReads read_step_def reread_rate_def set_speed_def Let_def split: if_splits list.splits)
  then have "reader_told True 0 r'"
    using t ok ord CanReads by (auto simp: reader_told_def)
  then show ?thesis
    using ord CanReads by auto
next
  case (CanDisconnected err n)
  have "reader_told (case err of CanReadError _ _ \<Rightarrow> socket | _ \<Rightarrow> False) n r'"
    using step ok ord told_snoc [of False "rd_log r"]
    by (auto simp: CanDisconnected read_step_def reader_told_def Let_def is_loss_def split: CanError.splits if_splits)
  then show ?thesis
    using ord CanDisconnected by (auto split: CanError.splits)
qed (use step ok ord in \<open>auto simp: read_step_def\<close>)

lemma read_loop_told:
  "reader_told socket k r \<Longrightarrow> can_order socket k es \<Longrightarrow> read_loop L index bus d es r = Some r' \<Longrightarrow>
   told (rd_lost r') (rd_log r')"
proof (induction es arbitrary: socket k r)
  case (Cons e es)
  obtain r1 where s: "read_step L index bus d e r = Some r1" "read_loop L index bus d es r1 = Some r'"
    using Cons.prems(3) by (auto split: option.splits)
  obtain socket' k' where "reader_told socket' k' r1" "can_order socket' k' es"
    using read_step_told [OF Cons.prems(1,2) s(1)] by blast
  then show ?case
    using Cons.IH s(2) by blast
qed (auto simp: reader_told_def)

text \<open>The same for a serial line, which is reopened after every loss.\<close>

fun serial_order :: "bool \<Rightarrow> nat \<Rightarrow> 'o SerialEvent list \<Rightarrow> bool" where
  "serial_order line k [] = True"
| "serial_order line k (e # es) =
     (case e of
        SerialConnected \<Rightarrow> \<not> line \<and> serial_order True 0 es
      | SerialRead _ _ \<Rightarrow> line \<and> serial_order True 0 es
      | SerialDisconnected _ n \<Rightarrow> n = Suc k \<and> serial_order False n es
      | RulesChanged _ \<Rightarrow> serial_order line k es)"

definition tap_told :: "bool \<Rightarrow> nat \<Rightarrow> ('o, 'm, 'r) tap \<Rightarrow> bool" where
  "tap_told line k t \<longleftrightarrow> told (ta_lost t) (ta_log t) \<and> (ta_lost t \<longleftrightarrow> 0 < k) \<and> (line \<longrightarrow> k = 0)"

lemma taps_keep [simp]:
  "ta_log (tap_raw T bs read_at t) = ta_log t" "ta_lost (tap_raw T bs read_at t) = ta_lost t"
  "ta_log (tap_framed T bs read_at t) = ta_log t" "ta_lost (tap_framed T bs read_at t) = ta_lost t"
  "ta_raw (tap_framed T bs read_at t) = ta_raw t" "ta_framed (tap_raw T bs read_at t) = ta_framed t"
  by (simp_all add: tap_raw_def tap_framed_def tap_publish_def Let_def case_prod_beta split: option.split)

lemma drain_step_told:
  assumes "tap_told line k t" "serial_order line k (e # es)"
  shows "\<exists>line' k'. tap_told line' k' (drain_step T e t) \<and> serial_order line' k' es"
proof (cases e)
  case SerialConnected
  then have "tap_told True 0 (drain_step T e t)"
    using assms told_snoc [of True "ta_log t"] by (auto simp: drain_step_def tap_told_def Let_def is_loss_def)
  then show ?thesis
    using assms SerialConnected by auto
next
  case (SerialRead bs read_at)
  then have "tap_told True 0 (drain_step T e t)"
    using assms by (auto simp: drain_step_def tap_told_def)
  then show ?thesis
    using assms SerialRead by auto
next
  case (SerialDisconnected err n)
  then have "tap_told False n (drain_step T e t)"
    using assms told_snoc [of False "ta_log t"] by (auto simp: drain_step_def tap_told_def Let_def is_loss_def split: if_splits)
  then show ?thesis
    using assms SerialDisconnected by auto
next
  case (RulesChanged rules)
  then show ?thesis
    using assms by (auto simp: drain_step_def tap_told_def)
qed

lemma tap_drain_told:
  "tap_told line k t \<Longrightarrow> serial_order line k es \<Longrightarrow> told (ta_lost (tap_drain T es t)) (ta_log (tap_drain T es t))"
proof (induction es arbitrary: line k t)
  case (Cons e es)
  then show ?case
    using drain_step_told [OF Cons.prems, of T] by (fastforce simp: tap_drain_def)
qed (auto simp: tap_drain_def tap_told_def)

text \<open>A journal shows every outage once. However many retries lie between, a CAN interface's or a serial
  line's reports alternate between a loss and its end, a loss first, and the last is a loss exactly
  while the device is lost.\<close>

theorem outages_are_reported_once:
  assumes "can_order False 0 ces" "read_loop L index bus d ces (reader_start st buses rates) = Some r"
    and "serial_order False 0 ses" "ta_log t = []" "\<not> ta_lost t"
  shows "told (rd_lost r) (rd_log r) \<and> told (ta_lost (tap_drain T ses t)) (ta_log (tap_drain T ses t))"
proof
  have "reader_told False 0 (reader_start st buses rates)"
    by (simp add: reader_told_def reader_start_def told_def)
  then show "told (rd_lost r) (rd_log r)"
    using read_loop_told assms by blast
  have "tap_told False 0 t"
    using assms by (simp add: tap_told_def told_def)
  then show "told (ta_lost (tap_drain T ses t)) (ta_log (tap_drain T ses t))"
    using tap_drain_told assms by blast
qed

section \<open>Raw capture\<close>

text \<open>The splitter puts every byte of a read into a chunk.\<close>

definition chunks_whole :: "('o, 'm, 'r) taplib \<Rightarrow> bool" where
  "chunks_whole T \<longleftrightarrow> (\<forall>w bytes read_at. concat (map rc_data (fst (tl_raw_push T w bytes read_at))) = bytes)"

definition raw_bytes :: "Sample list \<Rightarrow> u8 list" where
  "raw_bytes ss = concat (map (\<lambda>s. case s of Serial r \<Rightarrow> r_data r | _ \<Rightarrow> []) ss)"

definition line_bytes :: "'o SerialEvent list \<Rightarrow> u8 list" where
  "line_bytes es = concat (map (\<lambda>e. case e of SerialRead bs _ \<Rightarrow> bs | _ \<Rightarrow> []) es)"

lemma raw_bytes_append [simp]: "raw_bytes (a @ b) = raw_bytes a @ raw_bytes b"
  by (simp add: raw_bytes_def)

lemma raw_bytes_modbus [simp]: "raw_bytes (map Modbus ms) = []"
  by (induction ms) (simp_all add: raw_bytes_def)

lemma tap_framed_raw [simp]: "raw_bytes (ta_out (tap_framed T bs read_at t)) = raw_bytes (ta_out t)"
  by (simp add: tap_framed_def tap_publish_def Let_def case_prod_beta split: option.split)

lemma tap_raw_bytes:
  assumes "chunks_whole T" "ta_raw t \<noteq> None"
  shows "raw_bytes (ta_out (tap_raw T bs read_at t)) = raw_bytes (ta_out t) @ bs" "ta_raw (tap_raw T bs read_at t) \<noteq> None"
  using assms
  by (auto simp: tap_raw_def tap_publish_def RawTap_push_def chunks_whole_def raw_bytes_def Let_def case_prod_beta comp_def)

lemma drain_step_raw:
  assumes "chunks_whole T" "ta_raw t \<noteq> None"
  shows "raw_bytes (ta_out (drain_step T e t)) = raw_bytes (ta_out t) @ line_bytes [e]" "ta_raw (drain_step T e t) \<noteq> None"
  using assms tap_raw_bytes [OF assms(1), of "t\<lparr> ta_status := status_up (ta_status t) \<rparr>"]
  by (auto simp: drain_step_def line_bytes_def Let_def split: SerialEvent.split)

text \<open>Raw capture keeps every byte of the line. Whatever is lost and reopened between reads, and whatever
  the framer makes of the same bytes, the raw samples published for a line carry, in order, exactly the
  bytes read from it.\<close>

theorem raw_capture_keeps_every_byte:
  assumes "chunks_whole T" "ta_raw t \<noteq> None"
  shows "raw_bytes (ta_out (tap_drain T es t)) = raw_bytes (ta_out t) @ line_bytes es"
  using assms(2)
proof (induction es arbitrary: t)
  case (Cons e es)
  have "line_bytes (e # es) = line_bytes [e] @ line_bytes es"
    by (simp add: line_bytes_def)
  with Cons drain_step_raw [OF assms(1) Cons.prems, of e] show ?case
    by (simp add: tap_drain_def)
qed (simp add: tap_drain_def line_bytes_def)

section \<open>An interface and a line\<close>

definition ex_read :: "bool \<Rightarrow> RefFrame CanRead" where
  "ex_read own =
     \<lparr> cr_frame = \<lparr> ref_id = 291, ref_ext = False, ref_fd = False, ref_rtr = False, ref_brs = False, ref_esi = False,
                    ref_payload = [170], ref_dlc = 1 \<rparr>, cr_own = own, cr_at = 5000 \<rparr>"

definition ex_can_events :: "RefFrame CanEvent list" where
  "ex_can_events =
     [CanDisconnected (CanOther ''no such device'') 1, CanDisconnected (CanOther ''no such device'') 2, CanConnected,
      CanReads [ex_read False, ex_read True], CanDisconnected (CanReadError True ''down'') 1, CanReads [ex_read False],
      CanDisconnected CanClosed 1, CanConnected]"

definition ex_buses :: BusInfo where
  "ex_buses = BusInfo_new 1 [500000]"


text \<open>A framer that takes every read for one message, and a splitter into chunks of two bytes.\<close>

fun chop :: "u8 list \<Rightarrow> u8 list list" where
  "chop (a # b # bs) = [a, b] # chop bs"
| "chop [a] = [[a]]"
| "chop [] = []"

definition ref_taps :: "(nat, nat, nat) taplib" where
  "ref_taps =
     \<lparr> tl_tapped = 0, tl_allow_broadcast = id, tl_frame_any_function = id, tl_rtu_new = (\<lambda>o1 _ _. o1),
       tl_set_options = (\<lambda>o1 _. o1),
       tl_rtu_push = (\<lambda>m bs t. ([\<lparr> tm_at = t, tm_device_address = hd (bs @ [0]), tm_function = 3, tm_crc_valid = True, tm_raw = bs \<rparr>], m)),
       tl_rtu_reset = id, tl_raw_new = (\<lambda>_ _. 0),
       tl_raw_push = (\<lambda>n bs t. (map (\<lambda>c. \<lparr> rc_at = t, rc_seq = of_nat n, rc_data = c \<rparr>) (chop bs), n + 1)),
       tl_raw_reset = (\<lambda>_. 0) \<rparr>"

lemma concat_chop [simp]: "concat (chop bs) = bs"
  by (induction bs rule: chop.induct) simp_all

lemma ref_taps_whole: "chunks_whole ref_taps"
  by (simp add: chunks_whole_def ref_taps_def comp_def)

definition ex_tap :: "(nat, nat, nat) tap" where
  "ex_tap =
     \<lparr> ta_status = DeviceStatus_default, ta_framed = Some (Framed_new ref_taps (SourceId 1) 9600 10 NoRules),
       ta_raw = Some (RawTap_new ref_taps (SourceId 1) 9600 10), ta_opened = False, ta_lost = False, ta_log = [],
       ta_out = [] \<rparr>"

definition ex_serial_events :: "nat SerialEvent list" where
  "ex_serial_events =
     [SerialConnected, SerialRead [1, 3, 0] 4000, SerialDisconnected ''gone'' 1, SerialDisconnected ''gone'' 2,
      SerialConnected, RulesChanged NoRules, SerialRead [2, 3] 9000]"

theorem outages_are_reported_once_witness:
  "\<exists>r. read_loop ref_lib 0 (SourceId 0) Rx ex_can_events (reader_start DeviceStatus_default ex_buses []) = Some r \<and>
     told (rd_lost r) (rd_log r) \<and>
     told (ta_lost (tap_drain ref_taps ex_serial_events ex_tap)) (ta_log (tap_drain ref_taps ex_serial_events ex_tap))"
proof -
  have "0 < length (bi_speeds ex_buses)"
    by (simp add: ex_buses_def BusInfo_new_def)
  from read_loop_delivers [of 0 "reader_start DeviceStatus_default ex_buses []" ref_lib "SourceId 0" Rx ex_can_events] this
  obtain r where r: "read_loop ref_lib 0 (SourceId 0) Rx ex_can_events (reader_start DeviceStatus_default ex_buses []) = Some r"
    by (auto simp: reader_start_def)
  have "can_order False 0 ex_can_events" "serial_order False 0 ex_serial_events" "ta_log ex_tap = []" "\<not> ta_lost ex_tap"
    by (simp_all add: ex_can_events_def ex_serial_events_def ex_tap_def)
  with outages_are_reported_once [OF _ r] r show ?thesis
    by blast
qed

theorem raw_capture_keeps_every_byte_witness:
  "raw_bytes (ta_out (tap_drain ref_taps ex_serial_events ex_tap)) = [1, 3, 0, 2, 3]"
  using raw_capture_keeps_every_byte [OF ref_taps_whole, of ex_tap ex_serial_events]
  by (simp add: ex_tap_def ex_serial_events_def raw_bytes_def line_bytes_def)

text \<open>What the example's reader logs.\<close>

lemma ex_reader_log:
  "map_option rd_log (read_loop ref_lib 0 (SourceId 0) Rx ex_can_events (reader_start DeviceStatus_default ex_buses [])) =
   Some [WaitingLine, FoundLine, LostLine ''interface is down; capture resumes once it is up'', ReadingAgainLine,
         LostLine ''interface is gone; reopening it by name'', ReopenedLine]"
  by code_simp

end
