(* ===== verification/Ingest_Listener.thy ===== *)
theory Ingest_Listener
  imports Wire Bus Server_Settings
begin

text \<open>
  The binary ingest listener: \<^verbatim>\<open>crates/wiretap-server/src/ingest.rs\<close>, with \<^verbatim>\<open>Connected\<close> of \<^verbatim>\<open>status.rs\<close>.

  The session machine \<^verbatim>\<open>ServerSession\<close>, its messages and the guard \<^verbatim>\<open>Attempts\<close> are other crates. The
  machine is a parameter; what \<^verbatim>\<open>Attempts::admit\<close> answers depends on other sessions and the clock and
  comes from a script, as do the socket and what the rest of the process does to the archive's queue
  between two touches of it.
\<close>

section \<open>The session machine\<close>

record IngestHello =
  ih_token :: "u8 list"
  ih_database :: string

record 'b IncomingBatch =
  ib_batch :: 'b
  ib_time_relative :: bool

datatype CloseReason = CloseFraming | CloseOther

datatype 'b Action =
    Reply "u8 list"
  | HelloIn IngestHello
  | HelloRefused u8
  | BatchIn "'b IncomingBatch"
  | Nack u32 u8
  | CatalogueGetIn
  | CatalogueStatusIn
  | CloseIn CloseReason

record ServerConfig =
  sc_versions :: "u8 \<times> u8"
  sc_max_records :: usize
  sc_idle_limit :: f64

text \<open>\<open>sl_answer_hello\<close> is given no assignments; \<open>None\<close> is the error the code expects not to see.\<close>

record ('m, 'b) session_lib =
  sl_new :: "ServerConfig \<Rightarrow> 'm"
  sl_receive :: "'m \<Rightarrow> u8 list \<Rightarrow> 'm"
  sl_poll :: "'m \<Rightarrow> 'b Action option \<times> 'm"
  sl_answer_hello :: "'m \<Rightarrow> u8 \<Rightarrow> u64 \<Rightarrow> u8 list option \<times> 'm"
  sl_ack :: "'m \<Rightarrow> u32 \<Rightarrow> u8 \<Rightarrow> u8 \<Rightarrow> u8 list \<times> 'm"
  sl_unknown_catalogue :: "'m \<Rightarrow> u8 list \<times> 'm"
  sl_seq :: "'b \<Rightarrow> u32"
  sl_stamped :: "'b \<Rightarrow> bool \<Rightarrow> u64 \<Rightarrow> (u64 \<times> Record) list"
  sl_HELLO_OK :: u8
  sl_HELLO_BAD_AUTH :: u8
  sl_ACK_OK :: u8
  sl_ACK_OVERLOADED :: u8
  sl_ACK_MALFORMED :: u8

section \<open>State\<close>

definition REFUSE_ABOVE_PCT :: u8 where
  "REFUSE_ABOVE_PCT = 99"

definition IDLE_MULTIPLIER :: nat where
  "IDLE_MULTIPLIER = 3"

record IngestConfig =
  ic_token :: Secret
  ic_session :: ServerConfig
  ic_relays_raw_serial :: bool

definition ingest_config :: "Ingest \<Rightarrow> bool \<Rightarrow> IngestConfig" where
  "ingest_config i relays_raw_serial =
     \<lparr> ic_token = in_token i,
       ic_session = \<lparr> sc_versions = (2, 3), sc_max_records = in_max_batch_frames i,
                      sc_idle_limit = max (in_keepalive_secs i) 0 * of_nat IDLE_MULTIPLIER \<rparr>,
       ic_relays_raw_serial = relays_raw_serial \<rparr>"

text \<open>What a read meets, and what the rest of the process does to the queue: an event of another
  producer, frames taken by the worker, the worker closing the queue.\<close>

datatype read_event = ReadBytes "u8 list" | ReadEnd | ReadError | ReadTimeout

datatype other = Other event | Taken nat | WorkerClosed

datatype attempt = Turned_away string | Wrong_token | Right_token

text \<open>\<open>ig_tries\<close> and \<open>ig_given\<close> are history: what became of each \<^verbatim>\<open>HELLO\<close> that had to authenticate, and
  every frame this session handed to the archive.\<close>

record 'm Session =
  ig_machine :: 'm
  ig_archive :: chan
  ig_reads :: "read_event list"
  ig_writes :: "bool list"
  ig_admits :: "string option list"
  ig_clock :: "int list"
  ig_others :: "other list list"
  ig_written :: "u8 list list"
  ig_tries :: "(IngestHello \<times> attempt) list"
  ig_given :: "Sample list"

definition other_step :: "other \<Rightarrow> chan \<Rightarrow> chan" where
  "other_step x c =
     (case x of
        Other e \<Rightarrow> happen e c
      | Taken n \<Rightarrow> c\<lparr> queue := drop n (queue c) \<rparr>
      | WorkerClosed \<Rightarrow> rx_close c)"

text \<open>The next portion of what others do.\<close>

definition meanwhile :: "'m Session \<Rightarrow> 'm Session" where
  "meanwhile st =
     (case ig_others st of
        [] \<Rightarrow> st
      | es # rest \<Rightarrow> st\<lparr> ig_archive := fold other_step es (ig_archive st), ig_others := rest \<rparr>)"

definition now_us :: "'m Session \<Rightarrow> u64 \<times> 'm Session" where
  "now_us st =
     (case ig_clock st of
        [] \<Rightarrow> (word_of_int (system_time_to_us 0), st)
      | t # rest \<Rightarrow> (word_of_int (system_time_to_us t), st\<lparr> ig_clock := rest \<rparr>))"

definition admit :: "'m Session \<Rightarrow> string option \<times> 'm Session" where
  "admit st = (case ig_admits st of [] \<Rightarrow> (Some [], st) | a # rest \<Rightarrow> (a, st\<lparr> ig_admits := rest \<rparr>))"

definition write_all :: "u8 list \<Rightarrow> 'm Session \<Rightarrow> bool \<times> 'm Session" where
  "write_all bytes st =
     (case ig_writes st of
        True # rest \<Rightarrow> (True, st\<lparr> ig_writes := rest, ig_written := ig_written st @ [bytes] \<rparr>)
      | _ \<Rightarrow> (False, st))"

section \<open>One message\<close>

text \<open>\<^verbatim>\<open>String::from_utf8\<close>. Configured tokens are ASCII here, so a token with a byte beyond it is as
  wrong as one that is no UTF-8.\<close>

definition from_utf8 :: "u8 list \<Rightarrow> string option" where
  "from_utf8 bs = (if list_all (\<lambda>b. b < 128) bs then Some (map (\<lambda>b. char_of (unat b)) bs) else None)"

definition ingest_hello :: "('m, 'b) session_lib \<Rightarrow> IngestConfig \<Rightarrow> IngestHello \<Rightarrow> 'm Session
    \<Rightarrow> u8 \<times> 'm Session" where
  "ingest_hello S cfg hello st =
     (if ic_token cfg \<noteq> [] then
        case admit st of
          (Some refusal, st) \<Rightarrow>
            (sl_HELLO_BAD_AUTH S, st\<lparr> ig_tries := ig_tries st @ [(hello, Turned_away refusal)] \<rparr>)
        | (None, st) \<Rightarrow>
            if from_utf8 (ih_token hello) \<noteq> Some (ic_token cfg)
            then (sl_HELLO_BAD_AUTH S, st\<lparr> ig_tries := ig_tries st @ [(hello, Wrong_token)] \<rparr>)
            else (sl_HELLO_OK S, st\<lparr> ig_tries := ig_tries st @ [(hello, Right_token)] \<rparr>)
      else (sl_HELLO_OK S, st))"

text \<open>\<open>None\<close> when a record does not decode, which panics.\<close>

definition decoded :: "('m, 'b) session_lib \<Rightarrow> ('f, 'k) wslib \<Rightarrow> 'b IncomingBatch \<Rightarrow> u64 \<Rightarrow> Sample list option" where
  "decoded S L inb t =
     those (map (\<lambda>(ts_us, r). wire_decode L (sint ts_us) r)
       (sl_stamped S (ib_batch inb) (ib_time_relative inb) t))"

definition give :: "Sample \<Rightarrow> 'm Session \<Rightarrow> 'm Session" where
  "give s st =
     (let st = meanwhile st in
      st\<lparr> ig_archive := enqueue s (ig_archive st), ig_given := ig_given st @ [s] \<rparr>)"

definition is_serial :: "Sample \<Rightarrow> bool" where
  "is_serial s = (case s of Serial _ \<Rightarrow> True | _ \<Rightarrow> False)"

text \<open>Whether the queue takes a batch: two looks at it, others between them.\<close>

definition queue_refuses :: "'m Session \<Rightarrow> bool \<times> 'm Session" where
  "queue_refuses st =
     (let st = meanwhile st in
      if is_closed (ig_archive st) then (True, st)
      else let st = meanwhile st in (REFUSE_ABOVE_PCT \<le> occupancy_pct (ig_archive st), st))"

definition ingest_batch :: "('m, 'b) session_lib \<Rightarrow> ('f, 'k) wslib \<Rightarrow> IngestConfig \<Rightarrow> 'b IncomingBatch
    \<Rightarrow> 'm Session \<Rightarrow> u8 option \<times> 'm Session" where
  "ingest_batch S L cfg inb st =
     (let (t, st) = now_us st in
      case decoded S L inb t of
        None \<Rightarrow> (None, st)
      | Some samples \<Rightarrow>
          if \<not> ic_relays_raw_serial cfg \<and> list_ex is_serial samples then (Some (sl_ACK_MALFORMED S), st)
          else let (full, st) = queue_refuses st in
            if full then (Some (sl_ACK_OVERLOADED S), st)
            else (Some (sl_ACK_OK S), fold give samples st))"

section \<open>A session\<close>

text \<open>What an action leads to: bytes to write, the next action, the end, or a panic.\<close>

datatype outcome = Send "u8 list" | Continue | Return | Panic

definition answer :: "u8 list \<times> 'm \<Rightarrow> 'm Session \<Rightarrow> outcome \<times> 'm Session" where
  "answer r st = (Send (fst r), st\<lparr> ig_machine := snd r \<rparr>)"

definition answer_hello :: "('m, 'b) session_lib \<Rightarrow> u8 \<Rightarrow> 'm Session \<Rightarrow> outcome \<times> 'm Session" where
  "answer_hello S status st =
     (let (t, st) = now_us st in
      case sl_answer_hello S (ig_machine st) status t of
        (None, m) \<Rightarrow> (Panic, st\<lparr> ig_machine := m \<rparr>)
      | (Some bytes, m) \<Rightarrow> (Send bytes, st\<lparr> ig_machine := m \<rparr>))"

definition answer_ack :: "('m, 'b) session_lib \<Rightarrow> u32 \<Rightarrow> u8 \<Rightarrow> 'm Session \<Rightarrow> outcome \<times> 'm Session" where
  "answer_ack S seq status st =
     (let st = meanwhile st in
      answer (sl_ack S (ig_machine st) seq status (occupancy_pct (ig_archive st))) st)"

definition on_action :: "('m, 'b) session_lib \<Rightarrow> ('f, 'k) wslib \<Rightarrow> IngestConfig \<Rightarrow> 'b Action \<Rightarrow> 'm Session
    \<Rightarrow> outcome \<times> 'm Session" where
  "on_action S L cfg action st =
     (case action of
        Reply bytes \<Rightarrow> (Send bytes, st)
      | HelloIn hello \<Rightarrow> (let (status, st) = ingest_hello S cfg hello st in answer_hello S status st)
      | HelloRefused status \<Rightarrow> answer_hello S status st
      | BatchIn inb \<Rightarrow>
          (case ingest_batch S L cfg inb st of
             (None, st) \<Rightarrow> (Panic, st)
           | (Some status, st) \<Rightarrow> answer_ack S (sl_seq S (ib_batch inb)) status st)
      | Nack seq status \<Rightarrow> answer_ack S seq status st
      | CatalogueGetIn \<Rightarrow> answer (sl_unknown_catalogue S (ig_machine st)) st
      | CatalogueStatusIn \<Rightarrow> (Continue, st)
      | CloseIn _ \<Rightarrow> (Return, st))"

text \<open>\<open>True\<close>: every action of what has arrived is done, and the next read is due.\<close>

partial_function (option) actions :: "('m, 'b) session_lib \<Rightarrow> ('f, 'k) wslib \<Rightarrow> IngestConfig
    \<Rightarrow> 'm Session \<Rightarrow> (bool \<times> 'm Session) option" where
  "actions S L cfg st =
     (case sl_poll S (ig_machine st) of
        (None, m) \<Rightarrow> Some (True, st\<lparr> ig_machine := m \<rparr>)
      | (Some a, m) \<Rightarrow>
          (case on_action S L cfg a (st\<lparr> ig_machine := m \<rparr>) of
             (Send bytes, st) \<Rightarrow>
               (case write_all bytes st of
                  (ok, st) \<Rightarrow> if ok then actions S L cfg st else Some (False, st))
           | (Continue, st) \<Rightarrow> actions S L cfg st
           | (Return, st) \<Rightarrow> Some (False, st)
           | (Panic, st) \<Rightarrow> Some (False, st)))"

declare actions.simps [code]

fun serve_reads :: "('m, 'b) session_lib \<Rightarrow> ('f, 'k) wslib \<Rightarrow> IngestConfig \<Rightarrow> read_event list
    \<Rightarrow> 'm Session \<Rightarrow> 'm Session option" where
  "serve_reads S L cfg [] st = Some st"
| "serve_reads S L cfg (r # rs) st =
     (case r of
        ReadBytes (b # bs) \<Rightarrow>
          (case actions S L cfg (st\<lparr> ig_machine := sl_receive S (ig_machine st) (b # bs) \<rparr>) of
             None \<Rightarrow> None
           | Some (on, st) \<Rightarrow> if on then serve_reads S L cfg rs st else Some st)
      | _ \<Rightarrow> Some st)"

definition ingest_serve :: "('m, 'b) session_lib \<Rightarrow> ('f, 'k) wslib \<Rightarrow> IngestConfig \<Rightarrow> 'm Session
    \<Rightarrow> 'm Session option" where
  "ingest_serve S L cfg st =
     serve_reads S L cfg (ig_reads st) (st\<lparr> ig_machine := sl_new S (ic_session cfg) \<rparr>)"

section \<open>The listener\<close>

text \<open>What the accept loop meets, and the sessions running. \<open>clients\<close> is the counter a status shows,
  which every session's \<^verbatim>\<open>Connected\<close> holds one of.\<close>

datatype accept_event = Accepted string | AcceptFailed string | SessionOver string

record ListenerState =
  li_clients :: usize
  li_sessions :: "string list"

definition Connected_new :: "usize \<Rightarrow> usize" where
  "Connected_new clients = clients + 1"

definition Connected_drop :: "usize \<Rightarrow> usize" where
  "Connected_drop clients = clients - 1"

definition ingest_run_step :: "accept_event \<Rightarrow> ListenerState \<Rightarrow> ListenerState" where
  "ingest_run_step e l =
     (case e of
        Accepted peer \<Rightarrow> l\<lparr> li_clients := Connected_new (li_clients l), li_sessions := li_sessions l @ [peer] \<rparr>
      | AcceptFailed _ \<Rightarrow> l
      | SessionOver peer \<Rightarrow>
          if peer \<in> set (li_sessions l)
          then l\<lparr> li_clients := Connected_drop (li_clients l), li_sessions := remove1 peer (li_sessions l) \<rparr>
          else l)"

section \<open>What the code relies on of the machine\<close>

text \<open>A session is up from the answer to a \<^verbatim>\<open>HELLO\<close> that takes it, and a batch before that is not
  handed on: the connection is closed. A \<^verbatim>\<open>HELLO\<close> the machine itself refuses is not refused with the
  status that takes one.\<close>

definition session_laws :: "('m, 'b) session_lib \<Rightarrow> ('m \<Rightarrow> bool) \<Rightarrow> bool" where
  "session_laws S up \<longleftrightarrow>
     (\<forall>c. \<not> up (sl_new S c)) \<and>
     (\<forall>m bs. up (sl_receive S m bs) = up m) \<and>
     (\<forall>m a m'. sl_poll S m = (a, m') \<longrightarrow> (up m' \<longrightarrow> up m) \<and>
        (\<forall>b. a = Some (BatchIn b) \<longrightarrow> up m) \<and> a \<noteq> Some (HelloRefused (sl_HELLO_OK S))) \<and>
     (\<forall>m s t. up (snd (sl_answer_hello S m s t)) \<longrightarrow> up m \<or> s = sl_HELLO_OK S) \<and>
     (\<forall>m q s p. up (snd (sl_ack S m q s p)) = up m) \<and>
     (\<forall>m. up (snd (sl_unknown_catalogue S m)) = up m) \<and>
     sl_HELLO_BAD_AUTH S \<noteq> sl_HELLO_OK S"

text \<open>Every action uses up something that has arrived, and an answer adds nothing to it.\<close>

definition session_drains :: "('m, 'b) session_lib \<Rightarrow> ('m \<Rightarrow> nat) \<Rightarrow> bool" where
  "session_drains S left \<longleftrightarrow>
     (\<forall>m a m'. sl_poll S m = (Some a, m') \<longrightarrow> left m' < left m) \<and>
     (\<forall>m s t. left (snd (sl_answer_hello S m s t)) \<le> left m) \<and>
     (\<forall>m q s p. left (snd (sl_ack S m q s p)) \<le> left m) \<and>
     (\<forall>m. left (snd (sl_unknown_catalogue S m)) \<le> left m)"

section \<open>What the helpers leave alone\<close>

lemma meanwhile_simps [simp]:
  "ig_machine (meanwhile st) = ig_machine st" "ig_tries (meanwhile st) = ig_tries st"
  "ig_given (meanwhile st) = ig_given st" "ig_written (meanwhile st) = ig_written st"
  by (simp_all add: meanwhile_def split: list.split)

lemma now_us_simps [simp]:
  "ig_machine (snd (now_us st)) = ig_machine st" "ig_tries (snd (now_us st)) = ig_tries st"
  "ig_given (snd (now_us st)) = ig_given st" "ig_archive (snd (now_us st)) = ig_archive st"
  "ig_others (snd (now_us st)) = ig_others st"
  by (simp_all add: now_us_def split: list.split)

lemma admit_simps [simp]:
  "ig_machine (snd (admit st)) = ig_machine st" "ig_tries (snd (admit st)) = ig_tries st"
  "ig_given (snd (admit st)) = ig_given st"
  by (simp_all add: admit_def split: list.split)

lemma queue_refuses_simps [simp]:
  "ig_machine (snd (queue_refuses st)) = ig_machine st" "ig_tries (snd (queue_refuses st)) = ig_tries st"
  "ig_given (snd (queue_refuses st)) = ig_given st"
  by (simp_all add: queue_refuses_def Let_def)

lemma write_all_simps [simp]:
  "ig_machine (snd (write_all bs st)) = ig_machine st" "ig_tries (snd (write_all bs st)) = ig_tries st"
  "ig_given (snd (write_all bs st)) = ig_given st"
  by (simp_all add: write_all_def split: list.split bool.split)

lemma fold_give_simps [simp]:
  "ig_machine (fold give ss st) = ig_machine st" "ig_tries (fold give ss st) = ig_tries st"
  "ig_given (fold give ss st) = ig_given st @ ss"
  by (induction ss arbitrary: st) (simp_all add: give_def Let_def)

lemma ingest_batch_simps:
  "ig_machine (snd (ingest_batch S L cfg b st)) = ig_machine st"
  "ig_tries (snd (ingest_batch S L cfg b st)) = ig_tries st"
  by (simp_all add: ingest_batch_def Let_def case_prod_beta split: option.split)

section \<open>Authentication\<close>

text \<open>What holds of a session with a token: one that is up, or has handed over a frame, has presented it.\<close>

definition authenticated :: "('m \<Rightarrow> bool) \<Rightarrow> IngestConfig \<Rightarrow> 'm Session \<Rightarrow> bool" where
  "authenticated up cfg st \<longleftrightarrow>
     up (ig_machine st) \<or> ig_given st \<noteq> [] \<longrightarrow>
     (\<exists>h. (h, Right_token) \<in> set (ig_tries st) \<and> from_utf8 (ih_token h) = Some (ic_token cfg))"

lemma authenticated_mono:
  assumes "authenticated up cfg st" "up (ig_machine st') \<longrightarrow> up (ig_machine st)"
    "ig_given st' = ig_given st \<or> up (ig_machine st)" "set (ig_tries st) \<subseteq> set (ig_tries st')"
  shows "authenticated up cfg st'"
  using assms unfolding authenticated_def by (metis subsetD)

lemma answer_hello_keeps:
  assumes laws: "session_laws S up" and ok: "authenticated up cfg st"
    and status: "status = sl_HELLO_OK S \<longrightarrow> authenticated (\<lambda>_. True) cfg st"
  shows "authenticated up cfg (snd (answer_hello S status st))"
proof -
  obtain t st1 where n: "now_us st = (t, st1)"
    by fastforce
  have same: "ig_machine st1 = ig_machine st" "ig_tries st1 = ig_tries st" "ig_given st1 = ig_given st"
    using now_us_simps [of st] by (simp_all add: n)
  have up: "up (snd (sl_answer_hello S (ig_machine st) status t)) \<longrightarrow> up (ig_machine st) \<or> status = sl_HELLO_OK S"
    using laws unfolding session_laws_def by blast
  show ?thesis
    using ok status up same
    by (cases "sl_answer_hello S (ig_machine st) status t")
      (auto simp: answer_hello_def n authenticated_def split: option.split)
qed

lemma ingest_hello_keeps:
  assumes laws: "session_laws S up" and ok: "authenticated up cfg st" and token: "ic_token cfg \<noteq> []"
    and h: "ingest_hello S cfg hello st = (status, st')"
  shows "authenticated up cfg st'" "status = sl_HELLO_OK S \<longrightarrow> authenticated (\<lambda>_. True) cfg st'"
proof -
  have ne: "sl_HELLO_BAD_AUTH S \<noteq> sl_HELLO_OK S"
    using laws unfolding session_laws_def by blast
  obtain a st1 where a: "admit st = (a, st1)"
    by fastforce
  have same: "ig_machine st1 = ig_machine st" "ig_tries st1 = ig_tries st" "ig_given st1 = ig_given st"
    using admit_simps [of st] by (simp_all add: a)
  show "authenticated up cfg st'" "status = sl_HELLO_OK S \<longrightarrow> authenticated (\<lambda>_. True) cfg st'"
    using h ok token ne same by (auto simp: ingest_hello_def a authenticated_def split: option.splits if_splits)
qed

lemma on_action_keeps:
  assumes laws: "session_laws S up" and ok: "authenticated up cfg st" and token: "ic_token cfg \<noteq> []"
    and poll: "sl_poll S (ig_machine st) = (Some a, m)"
    and act: "on_action S L cfg a (st\<lparr> ig_machine := m \<rparr>) = (out, st')"
  shows "authenticated up cfg st'"
proof -
  let ?st = "st\<lparr> ig_machine := m \<rparr>"
  have polled: "up m \<longrightarrow> up (ig_machine st)" "\<forall>b. a = BatchIn b \<longrightarrow> up (ig_machine st)"
    "a \<noteq> HelloRefused (sl_HELLO_OK S)"
    using laws poll unfolding session_laws_def by blast+
  have acks: "up (snd (sl_ack S m q s p)) = up m" "up (snd (sl_unknown_catalogue S m)) = up m" for m q s p
    using laws unfolding session_laws_def by blast+
  have ok1: "authenticated up cfg ?st"
    using authenticated_mono [OF ok] polled by simp
  show ?thesis
  proof (cases a)
    case (HelloIn hello)
    obtain status st1 where h: "ingest_hello S cfg hello ?st = (status, st1)"
      by fastforce
    note k = ingest_hello_keeps [OF laws ok1 token h]
    from answer_hello_keeps [OF laws k] show ?thesis
      using act HelloIn by (simp add: on_action_def h)
  next
    case (HelloRefused status)
    then show ?thesis
      using answer_hello_keeps [OF laws ok1, of status] polled act by (simp add: on_action_def)
  next
    case (BatchIn inb)
    obtain r st1 where b: "ingest_batch S L cfg inb ?st = (r, st1)"
      by fastforce
    note s = ingest_batch_simps [of S L cfg inb ?st, unfolded b snd_conv]
    have "authenticated up cfg st1"
      by (rule authenticated_mono [OF ok]) (use polled s BatchIn in auto)
    then show ?thesis
      using act BatchIn b acks
      by (auto simp: on_action_def answer_ack_def answer_def authenticated_def Let_def split: option.splits)
  qed (use ok1 act acks in \<open>auto simp: on_action_def answer_ack_def answer_def authenticated_def Let_def\<close>)
qed

lemma actions_keep:
  assumes "actions S L cfg st = Some y" "session_laws S up" "ic_token cfg \<noteq> []" "authenticated up cfg st"
  shows "authenticated up cfg (snd y)"
proof -
  have "session_laws S up \<longrightarrow> ic_token cfg \<noteq> [] \<longrightarrow> authenticated up cfg st \<longrightarrow> authenticated up cfg (snd y)"
  proof (rule actions.raw_induct [where P = "\<lambda>S L cfg st y. session_laws S up \<longrightarrow> ic_token cfg \<noteq> [] \<longrightarrow>
      authenticated up cfg st \<longrightarrow> authenticated up cfg (snd y)", OF _ assms(1)], intro impI)
    fix rec S L cfg st y
    assume IH: "\<And>S L cfg st y. rec S L cfg st = Some y \<Longrightarrow>
        session_laws S up \<longrightarrow> ic_token cfg \<noteq> [] \<longrightarrow> authenticated up cfg st \<longrightarrow> authenticated up cfg (snd y)"
      and laws: "session_laws S up" and token: "ic_token cfg \<noteq> []" and ok: "authenticated up cfg st"
      and step: "(case sl_poll S (ig_machine st) of
          (None, m) \<Rightarrow> Some (True, st\<lparr> ig_machine := m \<rparr>)
        | (Some a, m) \<Rightarrow>
            (case on_action S L cfg a (st\<lparr> ig_machine := m \<rparr>) of
               (Send bytes, st) \<Rightarrow> (case write_all bytes st of (ok, st) \<Rightarrow>
                   if ok then rec S L cfg st else Some (False, st))
             | (Continue, st) \<Rightarrow> rec S L cfg st
             | (Return, st) \<Rightarrow> Some (False, st)
             | (Panic, st) \<Rightarrow> Some (False, st))) = Some y"
    obtain a m where poll: "sl_poll S (ig_machine st) = (a, m)"
      by fastforce
    show "authenticated up cfg (snd y)"
    proof (cases a)
      case None
      then have "up m \<longrightarrow> up (ig_machine st)"
        using laws poll unfolding session_laws_def by blast
      then show ?thesis
        using step ok poll None by (auto simp: authenticated_def)
    next
      case (Some a')
      obtain out st1 where act: "on_action S L cfg a' (st\<lparr> ig_machine := m \<rparr>) = (out, st1)"
        by fastforce
      have ok1: "authenticated up cfg st1"
        by (rule on_action_keeps [OF laws ok token _ act]) (simp add: poll Some)
      have written: "authenticated up cfg (snd (write_all bs st1))" for bs
        by (rule authenticated_mono [OF ok1]) simp_all
      have on: "authenticated up cfg (snd y)" if "rec S L cfg st2 = Some y" "authenticated up cfg st2" for st2
        using IH [OF that(1)] laws token that(2) by blast
      show ?thesis
      proof (cases out)
        case (Send bs)
        obtain ok st2 where w: "write_all bs st1 = (ok, st2)"
          by fastforce
        then have "authenticated up cfg st2"
          using written [of bs] by simp
        then show ?thesis
          using step on by (cases ok) (auto simp: poll Some act Send w)
      qed (use step ok1 on in \<open>auto simp: poll Some act\<close>)
    qed
  qed
  with assms show ?thesis
    by blast
qed

lemma serve_keeps:
  assumes "session_laws S up" "ic_token cfg \<noteq> []"
  shows "serve_reads S L cfg rs st = Some st' \<Longrightarrow> authenticated up cfg st \<Longrightarrow> authenticated up cfg st'"
proof (induction rs arbitrary: st)
  case (Cons r rs)
  have recvd: "authenticated up cfg (st\<lparr> ig_machine := sl_receive S (ig_machine st) bs \<rparr>)" for bs
    using assms(1) Cons.prems(2) by (simp add: session_laws_def authenticated_def)
  show ?case
    using Cons.prems Cons.IH actions_keep [OF _ assms recvd]
    by (auto split: read_event.splits list.splits option.splits if_splits) fastforce+
qed simp

section \<open>A session ends when its client goes\<close>

lemma on_action_drains:
  assumes "session_drains S left"
  shows "left (ig_machine (snd (on_action S L cfg a st))) \<le> left (ig_machine st)"
proof -
  have drains: "left (snd (sl_answer_hello S m s t)) \<le> left m" "left (snd (sl_ack S m q s p)) \<le> left m"
    "left (snd (sl_unknown_catalogue S m)) \<le> left m" for m s t q p
    using assms by (simp_all add: session_drains_def)
  have hello: "left (ig_machine (snd (answer_hello S s st))) \<le> left (ig_machine st)" for s and st :: "'a Session"
    using drains(1) [of "ig_machine st" s "fst (now_us st)"]
    by (cases "sl_answer_hello S (ig_machine st) s (fst (now_us st))")
      (simp add: answer_hello_def case_prod_beta split: option.split)
  have same: "ig_machine (snd (ingest_hello S cfg h st)) = ig_machine st" for h
    using admit_simps [of st] by (cases "admit st") (auto simp: ingest_hello_def split: option.split)
  have ack: "left (ig_machine (snd (answer_ack S q s st))) \<le> left (ig_machine st)" for q s and st :: "'a Session"
    using drains by (simp add: answer_ack_def answer_def Let_def)
  show ?thesis
  proof (cases a)
    case (HelloIn h)
    then show ?thesis
      using hello [of "fst (ingest_hello S cfg h st)" "snd (ingest_hello S cfg h st)"] same [of h]
      by (simp add: on_action_def case_prod_beta)
  next
    case (BatchIn b)
    then show ?thesis
      using ack ingest_batch_simps(1) [of S L cfg b st]
      by (auto simp: on_action_def split: prod.split option.split) (metis snd_conv)
  qed (use hello ack drains in \<open>simp_all add: on_action_def answer_def\<close>)
qed

lemma actions_return:
  assumes "session_drains S left"
  shows "\<exists>y. actions S L cfg st = Some y"
proof (induction "left (ig_machine st)" arbitrary: st rule: less_induct)
  case less
  obtain a m where poll: "sl_poll S (ig_machine st) = (a, m)"
    by fastforce
  show ?case
  proof (cases a)
    case None
    have "actions S L cfg st = Some (True, st\<lparr> ig_machine := m \<rparr>)"
      by (subst actions.simps) (simp add: poll None)
    then show ?thesis
      by blast
  next
    case (Some a')
    obtain out st1 where act: "on_action S L cfg a' (st\<lparr> ig_machine := m \<rparr>) = (out, st1)"
      by fastforce
    have "left m < left (ig_machine st)"
      using assms poll Some by (simp add: session_drains_def)
    moreover have "left (ig_machine st1) \<le> left m"
      using on_action_drains [OF assms, of L cfg a' "st\<lparr> ig_machine := m \<rparr>"] by (simp add: act)
    ultimately have lt: "left (ig_machine st1) < left (ig_machine st)"
      by simp
    show ?thesis
    proof (cases out)
      case (Send bs)
      obtain ok st2 where w: "write_all bs st1 = (ok, st2)"
        by fastforce
      have "ig_machine st2 = ig_machine st1"
        using write_all_simps(1) [of bs st1] by (simp add: w)
      then show ?thesis
        using less [of st2] lt by (subst actions.simps, cases ok) (auto simp: poll Some act Send w)
    next
      case Continue
      then show ?thesis
        using less [of st1] lt by (subst actions.simps) (simp add: poll Some act)
    qed (subst actions.simps, auto simp: poll Some act)+
  qed
qed

lemma serve_returns:
  assumes "session_drains S left"
  shows "\<exists>st'. serve_reads S L cfg rs st = Some st'"
proof (induction rs arbitrary: st)
  case (Cons r rs)
  show ?case
  proof (cases "\<exists>b bs. r = ReadBytes (b # bs)")
    case True
    then obtain b bs where r: "r = ReadBytes (b # bs)"
      by blast
    obtain on st1 where "actions S L cfg (st\<lparr> ig_machine := sl_receive S (ig_machine st) (b # bs) \<rparr>) = Some (on, st1)"
      using actions_return [OF assms] by fastforce
    then show ?thesis
      using Cons by (simp add: r)
  qed (auto split: read_event.split list.split)
qed simp

text \<open>C24: a listener with a token takes frames from nobody who has not shown it. A session always ends when
  its connection does; if it handed the archive a frame, the client had presented a token that is the
  configured one, in a \<^verbatim>\<open>HELLO\<close> the guard on wrong tokens admitted.\<close>

theorem ingest_needs_the_token:
  assumes "session_laws S up" "session_drains S left" "ic_token cfg \<noteq> []" "ig_given st = []"
  shows "\<exists>st'. ingest_serve S L cfg st = Some st' \<and>
    (ig_given st' \<noteq> [] \<longrightarrow>
       (\<exists>h. (h, Right_token) \<in> set (ig_tries st') \<and> from_utf8 (ih_token h) = Some (ic_token cfg)))"
proof -
  obtain st' where serve: "ingest_serve S L cfg st = Some st'"
    using serve_returns [OF assms(2)] unfolding ingest_serve_def by blast
  have "authenticated up cfg (st\<lparr> ig_machine := sl_new S (ic_session cfg) \<rparr>)"
    using assms(1,4) by (simp add: authenticated_def session_laws_def)
  with serve have "authenticated up cfg st'"
    using serve_keeps [OF assms(1,3)] by (auto simp: ingest_serve_def)
  with serve show ?thesis
    by (auto simp: authenticated_def)
qed

section \<open>What an acknowledgement means\<close>

lemma meanwhile_others:
  "ig_archive (meanwhile st) = fold other_step (concat (take 1 (ig_others st))) (ig_archive st)"
  "ig_others (meanwhile st) = drop 1 (ig_others st)"
  by (simp_all add: meanwhile_def split: list.split)

text \<open>Only others have touched the archive.\<close>

definition untouched :: "'m Session \<Rightarrow> 'm Session \<Rightarrow> bool" where
  "untouched st st' \<longleftrightarrow>
     ig_given st' = ig_given st \<and>
     (\<exists>n. ig_archive st' = fold other_step (concat (take n (ig_others st))) (ig_archive st) \<and>
          ig_others st' = drop n (ig_others st))"

lemma untouched_meanwhile: "untouched st (meanwhile st)"
  unfolding untouched_def by (simp add: meanwhile_others del: take_Suc) (metis One_nat_def take_0 take_Suc)

lemma untouched_trans:
  assumes "untouched a b" "untouched b c"
  shows "untouched a c"
proof -
  obtain n where n: "ig_archive b = fold other_step (concat (take n (ig_others a))) (ig_archive a)"
    "ig_others b = drop n (ig_others a)" "ig_given b = ig_given a"
    using assms(1) by (auto simp: untouched_def)
  obtain m where m: "ig_archive c = fold other_step (concat (take m (ig_others b))) (ig_archive b)"
    "ig_others c = drop m (ig_others b)" "ig_given c = ig_given b"
    using assms(2) by (auto simp: untouched_def)
  show ?thesis
    unfolding untouched_def
    by (intro conjI exI [of _ "n + m"]) (use n m in \<open>auto simp: take_add add.commute [of m n]\<close>)
qed

lemma untouched_now_us: "untouched st (snd (now_us st))"
  unfolding untouched_def by (intro conjI exI [of _ 0]) simp_all

lemma untouched_refuses: "untouched st (snd (queue_refuses st))"
  using untouched_trans [OF untouched_meanwhile untouched_meanwhile, of st]
  by (simp add: queue_refuses_def Let_def untouched_meanwhile)

text \<open>Others that leave the queue to this session: the worker takes frames, time passes.\<close>

definition yields :: "other \<Rightarrow> bool" where
  "yields x = (case x of Taken _ \<Rightarrow> True | Other (Elapse _) \<Rightarrow> True | _ \<Rightarrow> False)"

definition room :: "nat \<Rightarrow> 'm Session \<Rightarrow> bool" where
  "room r st \<longleftrightarrow>
     \<not> rx_closed (ig_archive st) \<and> length (queue (ig_archive st)) + r \<le> capacity (ig_archive st) \<and>
     (\<forall>es \<in> set (ig_others st). list_all yields es)"

text \<open>No frame accepted or refused.\<close>

definition still :: "chan \<Rightarrow> chan \<Rightarrow> bool" where
  "still c c' \<longleftrightarrow> accepted c' = accepted c \<and> counters c' = counters c \<and> rx_closed c' = rx_closed c \<and>
     capacity c' = capacity c \<and> length (queue c') \<le> length (queue c)"

lemma yields_still: "list_all yields es \<Longrightarrow> still c (fold other_step es c)"
proof (induction es arbitrary: c)
  case (Cons e es)
  then have "still c (other_step e c)"
    by (auto simp: still_def yields_def other_step_def happen_def split: other.splits event.splits)
  moreover have "still (other_step e c) (fold other_step es (other_step e c))"
    using Cons by simp
  ultimately show ?case
    by (simp add: still_def)
qed (simp add: still_def)

lemma untouched_room:
  assumes "untouched st st'" "room r st"
  shows "room r st'" "still (ig_archive st) (ig_archive st')"
proof -
  obtain n where n: "ig_archive st' = fold other_step (concat (take n (ig_others st))) (ig_archive st)"
    "ig_others st' = drop n (ig_others st)"
    using assms(1) by (auto simp: untouched_def)
  have "list_all yields (concat (take n (ig_others st)))"
    using assms(2) by (auto simp: room_def list_all_iff dest!: in_set_takeD)
  from yields_still [OF this] show st: "still (ig_archive st) (ig_archive st')"
    by (simp add: n)
  then show "room r st'"
    using assms(2) n(2) by (auto simp: room_def still_def dest!: in_set_dropD)
qed

lemma give_room:
  assumes "room (Suc r) st"
  shows "room r (give s st)" "accepted (ig_archive (give s st)) = accepted (ig_archive st) @ [s]"
    "dropped (counters (ig_archive (give s st))) = dropped (counters (ig_archive st))"
  using untouched_room [OF untouched_meanwhile assms]
  by (auto simp: give_def Let_def room_def still_def enqueue_def)

lemma fold_give_room:
  "room (length ss) st \<Longrightarrow>
     accepted (ig_archive (fold give ss st)) = accepted (ig_archive st) @ ss \<and>
     dropped (counters (ig_archive (fold give ss st))) = dropped (counters (ig_archive st))"
proof (induction ss arbitrary: st)
  case (Cons s ss)
  then have "room (length ss) (give s st)"
    by (simp add: give_room)
  with Cons.IH [OF this] Cons.prems show ?case
    by (simp add: give_room)
qed simp

text \<open>C25: an answer to a batch tells the device the truth about its frames as long as there is room for
  them. A batch refused has put no frame into the archive, and one refused as too much found the queue
  closed or at 99 percent. A batch acknowledged was handed to the archive whole, in order, without raw
  serial where nothing forwards it; with room for the batch and no other producer in between, every
  frame of it is in the queue and none is dropped.\<close>

theorem ingest_answer_is_kept:
  assumes batch: "ingest_batch S L cfg inb st = (Some status, st')"
    and differ: "sl_ACK_OK S \<noteq> sl_ACK_MALFORMED S" "sl_ACK_OK S \<noteq> sl_ACK_OVERLOADED S"
      "sl_ACK_MALFORMED S \<noteq> sl_ACK_OVERLOADED S"
  shows "(status \<noteq> sl_ACK_OK S \<longrightarrow> untouched st st') \<and>
    (status = sl_ACK_OVERLOADED S \<longrightarrow>
      is_closed (ig_archive st') \<or> REFUSE_ABOVE_PCT \<le> occupancy_pct (ig_archive st')) \<and>
    (status = sl_ACK_OK S \<longrightarrow>
      (\<exists>samples t. decoded S L inb t = Some samples \<and> ig_given st' = ig_given st @ samples \<and>
         (\<not> ic_relays_raw_serial cfg \<longrightarrow> \<not> list_ex is_serial samples) \<and>
         (room (length samples) st \<longrightarrow>
            accepted (ig_archive st') = accepted (ig_archive st) @ samples \<and>
            dropped (counters (ig_archive st')) = dropped (counters (ig_archive st)))))"
proof (intro conjI)
  obtain t st1 where n: "now_us st = (t, st1)"
    by fastforce
  obtain full st2 where f: "queue_refuses st1 = (full, st2)"
    by fastforce
  have u1: "untouched st st1"
    using untouched_now_us [of st] by (simp add: n)
  moreover have "untouched st1 st2"
    using untouched_refuses [of st1] by (simp add: f)
  ultimately have u2: "untouched st st2"
    by (rule untouched_trans)
  obtain samples where d: "decoded S L inb t = Some samples"
    using batch by (auto simp: ingest_batch_def n split: option.splits)
  have why: "full \<longrightarrow> is_closed (ig_archive st2) \<or> REFUSE_ABOVE_PCT \<le> occupancy_pct (ig_archive st2)"
    using f by (auto simp: queue_refuses_def Let_def split: if_splits)
  note cases = batch [unfolded ingest_batch_def, simplified n d f Let_def prod.case option.case]
  show "status \<noteq> sl_ACK_OK S \<longrightarrow> untouched st st'"
    using cases u1 u2 by (auto split: if_splits)
  show "status = sl_ACK_OVERLOADED S \<longrightarrow>
      is_closed (ig_archive st') \<or> REFUSE_ABOVE_PCT \<le> occupancy_pct (ig_archive st')"
    using cases why differ by (auto split: if_splits)
  have given: "ig_given st2 = ig_given st"
    using u2 by (simp add: untouched_def)
  have taken: "room (length samples) st \<longrightarrow>
      accepted (ig_archive (fold give samples st2)) = accepted (ig_archive st) @ samples \<and>
      dropped (counters (ig_archive (fold give samples st2))) = dropped (counters (ig_archive st))"
    using fold_give_room [of samples st2] untouched_room [OF u2, of "length samples"] by (auto simp: still_def)
  show "status = sl_ACK_OK S \<longrightarrow>
      (\<exists>samples t. decoded S L inb t = Some samples \<and> ig_given st' = ig_given st @ samples \<and>
         (\<not> ic_relays_raw_serial cfg \<longrightarrow> \<not> list_ex is_serial samples) \<and>
         (room (length samples) st \<longrightarrow>
            accepted (ig_archive st') = accepted (ig_archive st) @ samples \<and>
            dropped (counters (ig_archive st')) = dropped (counters (ig_archive st))))"
    using cases differ d given taken by (intro impI exI [of _ samples] exI [of _ t]) (auto split: if_splits)
qed

section \<open>A machine and a session\<close>

text \<open>A machine whose messages are single bytes: 1 is a \<^verbatim>\<open>HELLO\<close> with the token \<^verbatim>\<open>s\<close>, any other byte a batch of
  that many Modbus records.\<close>

definition ref_session :: "(bool \<times> u8 list, nat) session_lib" where
  "ref_session =
     \<lparr> sl_new = (\<lambda>_. (False, [])),
       sl_receive = (\<lambda>m bs. (fst m, snd m @ bs)),
       sl_poll = (\<lambda>m. case m of
           (up, []) \<Rightarrow> (None, m)
         | (up, b # bs) \<Rightarrow>
             (Some (if b = 1 then HelloIn \<lparr> ih_token = [115], ih_database = [] \<rparr>
                    else if up then BatchIn \<lparr> ib_batch = unat b, ib_time_relative = False \<rparr>
                    else CloseIn CloseOther), up, bs)),
       sl_answer_hello = (\<lambda>m s _. (Some [s], fst m \<or> s = 0, snd m)),
       sl_ack = (\<lambda>m q s p. ([s, p], m)),
       sl_unknown_catalogue = (\<lambda>m. ([1], m)),
       sl_seq = of_nat,
       sl_stamped = (\<lambda>n _ t. replicate n (t, \<lparr> rec_kind = 1, rec_bus = 2, rec_id_flags = 259, rec_flags = 1,
                                               rec_payload = [1, 3] \<rparr>)),
       sl_HELLO_OK = 0, sl_HELLO_BAD_AUTH = 1, sl_ACK_OK = 0, sl_ACK_OVERLOADED = 3, sl_ACK_MALFORMED = 2 \<rparr>"

lemma ref_session_laws: "session_laws ref_session fst"
  by (auto simp: session_laws_def ref_session_def split: prod.splits list.splits if_splits)

lemma ref_session_drains: "session_drains ref_session (length \<circ> snd)"
  by (auto simp: session_drains_def ref_session_def split: prod.splits list.splits)

definition ex_ingest :: IngestConfig where
  "ex_ingest = \<lparr> ic_token = ''s'', ic_session = \<lparr> sc_versions = (2, 3), sc_max_records = 256, sc_idle_limit = 90 \<rparr>,
                 ic_relays_raw_serial = False \<rparr>"

definition ex_session :: "usize \<Rightarrow> u8 list \<Rightarrow> (bool \<times> u8 list) Session" where
  "ex_session cap bytes =
     \<lparr> ig_machine = (False, []), ig_archive = fresh_chan cap [], ig_reads = [ReadBytes bytes, ReadEnd],
       ig_writes = [True, True, True, True], ig_admits = [None], ig_clock = [1000, 2000, 3000, 4000],
       ig_others = [], ig_written = [], ig_tries = [], ig_given = [] \<rparr>"

theorem ingest_needs_the_token_witness:
  "\<exists>st'. ingest_serve ref_session ref_lib ex_ingest (ex_session 5 [1, 2]) = Some st' \<and>
    (ig_given st' \<noteq> [] \<longrightarrow>
       (\<exists>h. (h, Right_token) \<in> set (ig_tries st') \<and> from_utf8 (ih_token h) = Some (ic_token ex_ingest)))"
  by (rule ingest_needs_the_token [OF ref_session_laws ref_session_drains])
    (simp_all add: ex_ingest_def ex_session_def)

text \<open>The session of the example does hand over its frames.\<close>

lemma ex_session_gives:
  "map_option (\<lambda>st. (length (ig_given st), ig_written st))
     (ingest_serve ref_session ref_lib ex_ingest (ex_session 5 [1, 2])) = Some (2, [[0], [0, 40]])"
  by code_simp

definition ex_batch :: "nat \<Rightarrow> nat IncomingBatch" where
  "ex_batch n = \<lparr> ib_batch = n, ib_time_relative = False \<rparr>"

lemma ex_batch_answer:
  "fst (ingest_batch ref_session ref_lib ex_ingest (ex_batch 2) (ex_session 5 [])) = Some 0"
  by code_simp

theorem ingest_answer_is_kept_witness:
  "\<exists>st'. ingest_batch ref_session ref_lib ex_ingest (ex_batch 2) (ex_session 5 []) = (Some (sl_ACK_OK ref_session), st') \<and>
     (\<exists>samples t. decoded ref_session ref_lib (ex_batch 2) t = Some samples \<and>
        ig_given st' = ig_given (ex_session 5 []) @ samples)"
proof -
  obtain st' where b: "ingest_batch ref_session ref_lib ex_ingest (ex_batch 2) (ex_session 5 []) =
      (Some (sl_ACK_OK ref_session), st')"
    using ex_batch_answer by (cases "ingest_batch ref_session ref_lib ex_ingest (ex_batch 2) (ex_session 5 [])")
      (simp add: ref_session_def)
  have "sl_ACK_OK ref_session \<noteq> sl_ACK_MALFORMED ref_session" "sl_ACK_OK ref_session \<noteq> sl_ACK_OVERLOADED ref_session"
    "sl_ACK_MALFORMED ref_session \<noteq> sl_ACK_OVERLOADED ref_session"
    by (simp_all add: ref_session_def)
  with ingest_answer_is_kept [OF b] b show ?thesis
    by blast
qed

text \<open>Without room for the whole batch the answer is not kept. The queue is looked at once, before the
  first frame; a batch of three frames for an empty queue of two is acknowledged, and its last frame is
  dropped.\<close>

theorem ingest_acknowledges_dropped_frames:
  "\<exists>st'. ingest_batch ref_session ref_lib ex_ingest (ex_batch 3) (ex_session 2 []) =
       (Some (sl_ACK_OK ref_session), st') \<and>
     length (ig_given st') = 3 \<and> length (queue (ig_archive st')) = 2 \<and>
     dropped (counters (ig_archive st')) = 1"
proof -
  let ?r = "ingest_batch ref_session ref_lib ex_ingest (ex_batch 3) (ex_session 2 [])"
  have "fst ?r = Some (sl_ACK_OK ref_session) \<and> length (ig_given (snd ?r)) = 3 \<and>
      length (queue (ig_archive (snd ?r))) = 2 \<and> dropped (counters (ig_archive (snd ?r))) = 1"
    by code_simp
  then show ?thesis
    by (cases ?r) simp
qed

end
