(* ===== verification/Capture_Pipeline.thy ===== *)
theory Capture_Pipeline
  imports Ui_Layer Capture_Sources Ingest_Listener
begin

text \<open>
  The assembly: \<^verbatim>\<open>crates/wiretap-server/src/pipeline.rs\<close>, with \<^verbatim>\<open>Archives\<close> of \<^verbatim>\<open>archive.rs\<close>, \<^verbatim>\<open>Live\<close> of
  \<^verbatim>\<open>status.rs\<close> and the Test Pattern responder of \<^verbatim>\<open>testpattern.rs\<close>. A start either fails with an error, or
  leaves a set of tasks running; the model gives the tasks and what each was handed. Opening a device,
  binding an address and starting a pipeline answer from a parameter; \<open>None\<close> is a panic.
\<close>

section \<open>The archives and the status\<close>

type_synonym 'r Archives = "(string \<times> 'r) list"

fun start_each :: "(bool \<Rightarrow> Forward \<Rightarrow> (string, 'r) result) \<Rightarrow> bool \<Rightarrow> Forward list
    \<Rightarrow> (path \<times> string, 'r Archives) result" where
  "start_each go tagged [] = Ok []"
| "start_each go tagged (fwd # fwds) =
     (case go tagged fwd of
        Inl e \<Rightarrow> Err (bt_cache_path (fd_batching fwd), e)
      | Inr r \<Rightarrow> map_sum id (Cons (fd_database fwd, r)) (start_each go tagged fwds))"

definition start_all :: "(bool \<Rightarrow> Forward \<Rightarrow> (string, 'r) result) \<Rightarrow> Forward list
    \<Rightarrow> (path \<times> string, 'r Archives) result" where
  "start_all go fwds = start_each go (1 < length fwds) fwds"

definition archive_handle :: "'r Archives \<Rightarrow> string \<Rightarrow> 'r option" where
  "archive_handle as database = map_of as database"

type_synonym Live = "(string \<times> DeviceStatus) list"

definition Live_new :: "('o, 'p) Settings \<Rightarrow> Live" where
  "Live_new s = map (\<lambda>d. (dd_interface d, DeviceStatus_default)) (se_devices s)"

definition live_device :: "Live \<Rightarrow> string \<Rightarrow> DeviceStatus option" where
  "live_device l interface = map_of l interface"

section \<open>What runs\<close>

record 'r machine =
  mc_linux :: bool
  mc_start :: "bool \<Rightarrow> Forward \<Rightarrow> (string, 'r) result"
  mc_open_can :: "string \<Rightarrow> bool \<Rightarrow> bool \<Rightarrow> (io_error, unit) result"
  mc_open_serial :: "string \<Rightarrow> (io_error, unit) result"
  mc_bind :: "string \<Rightarrow> u16 \<Rightarrow> (io_error, unit) result"
  mc_bitrates :: "string \<Rightarrow> (u32 option \<times> u32 option) option"

record ('o, 'p, 'r) Opened =
  op_device :: "('o, 'p) CaptureDevice"
  op_listen_only :: bool
  op_archive :: "'r option"

record 'r can_task =
  ct_index :: nat
  ct_interface :: string
  ct_bus :: SourceId
  ct_dir :: Direction
  ct_status :: DeviceStatus
  ct_archive :: "'r option"

record ('o, 'r) serial_task =
  sk_interface :: string
  sk_bus :: SourceId
  sk_status :: DeviceStatus
  sk_rules :: "'o Rules option"
  sk_raw :: bool
  sk_framed_archive :: "'r option"
  sk_raw_archive :: "'r option"

record ('o, 'p) responder_task =
  rt_device :: "('o, 'p) CaptureDevice"
  rt_fd :: bool

record ('o, 'p, 'r) capture =
  cp_readers :: "'r can_task list"
  cp_opened :: "('o, 'p, 'r) Opened list"
  cp_buses :: BusInfo
  cp_allowed :: "Cidr list"
  cp_responders :: "('o, 'p) responder_task list"
  cp_warnings :: "string list"

record ('o, 'p, 'r) running =
  rn_capture :: "('o, 'p, 'r) capture option"
  rn_taps :: "('o, 'r) serial_task list"
  rn_echo :: bool
  rn_ingest :: "('r \<times> bool) option"

section \<open>Starting\<close>

text \<open>\<^verbatim>\<open>join\<close>, and the lines \<^verbatim>\<open>start_capture\<close> logs about the responder. \<open>dash\<close> stands for the dash, which is
  not ASCII.\<close>

definition pipeline_join :: "string list \<Rightarrow> string" where
  "pipeline_join names = join_with '','' names"

definition named_warning :: "('o, 'p) CaptureDevice list \<Rightarrow> string \<Rightarrow> string option" where
  "named_warning can name =
     (case find (\<lambda>d. dd_interface d = name) can of
        None \<Rightarrow> Some (''Test Pattern: no interface named '' @ name @ '' is being captured'')
      | Some d \<Rightarrow>
          if dd_mode d = Passive then Some (''Test Pattern: '' @ name @ '' is passive, so it is not armed'') else None)"

definition test_pattern_warnings :: "string \<Rightarrow> ('o, 'p) Settings \<Rightarrow> TestPattern \<Rightarrow> string list" where
  "test_pattern_warnings dash s tp =
     (let can = can_devices s; named = List.map_filter (named_warning can) (tp_ifaces tp); armed = armed_indices s tp in
      named @
      (if armed = [] then [''Test Pattern: enabled, but no configured interface matched; nothing is armed'']
       else [''Test Pattern responder ARMED on '' @ pipeline_join (map (\<lambda>i. dd_interface (can ! i)) armed) @
               '' '' @ dash @ '' this transmits on the bus''] @
            (if any_fd s then []
             else [''Test Pattern: no device has fd on, so only the classic sweep can be answered''])))"

fun open_devices :: "'r machine \<Rightarrow> 'r Archives \<Rightarrow> ('o, 'p) CaptureDevice list
    \<Rightarrow> (RunError, (('o, 'p, 'r) Opened \<times> Bitrates) list) result" where
  "open_devices M as [] = Ok []"
| "open_devices M as (d # ds) =
     (case mc_open_can M (dd_interface d) (dd_fd d) (dd_mode d = Passive) of
        Inl e \<Rightarrow> Err (OpenCan (dd_interface d) e)
      | Inr _ \<Rightarrow>
          map_sum id
            (Cons (\<lparr> op_device = d, op_listen_only = (dd_mode d = Passive), op_archive = archive_handle as (dd_database d) \<rparr>,
                   bitrates (mc_bitrates M (dd_interface d))))
            (open_devices M as ds))"

fun spawn_readers :: "Live \<Rightarrow> Direction \<Rightarrow> nat \<Rightarrow> ('o, 'p, 'r) Opened list \<Rightarrow> 'r can_task list option" where
  "spawn_readers live d i [] = Some []"
| "spawn_readers live d i (x # xs) =
     (case live_device live (dd_interface (op_device x)) of
        None \<Rightarrow> None
      | Some st \<Rightarrow>
          map_option (Cons \<lparr> ct_index = i, ct_interface = dd_interface (op_device x), ct_bus = dd_bus (op_device x),
                             ct_dir = d, ct_status = st, ct_archive = op_archive x \<rparr>)
            (spawn_readers live d (Suc i) xs))"

definition spawn_responder :: "('o, 'p, 'r) Opened list \<Rightarrow> nat \<Rightarrow> ('o, 'p) responder_task option" where
  "spawn_responder xs i =
     (if i < length xs
      then Some \<lparr> rt_device = op_device (xs ! i), rt_fd = dd_fd (op_device (xs ! i)) \<rparr> else None)"

definition start_capture :: "'r machine \<Rightarrow> string \<Rightarrow> ('o, 'p) Settings \<Rightarrow> Live \<Rightarrow> 'r Archives
    \<Rightarrow> (RunError, ('o, 'p, 'r) capture) result option" where
  "start_capture M dash s live as =
     (case open_devices M as (can_devices s) of
        Inl e \<Rightarrow> Some (Err e)
      | Inr found \<Rightarrow>
          let xs = map fst found;
              buses = BusInfo_new (bus_count (length xs) (se_bus_offset s)) (map (nominal \<circ> snd) found)
          in case mc_bind M (se_host s) (se_port s) of
               Inl e \<Rightarrow> Some (Err (Bind (se_host s @ '':'' @ dec_digits (unat (se_port s))) e))
             | Inr _ \<Rightarrow>
                 (case spawn_readers live (se_default_dir s) 0 xs of
                    None \<Rightarrow> None
                  | Some readers \<Rightarrow>
                      (case those (map (spawn_responder xs)
                              (case se_test_pattern s of None \<Rightarrow> [] | Some tp \<Rightarrow> armed_indices s tp)) of
                         None \<Rightarrow> None
                       | Some responders \<Rightarrow>
                           Some (Ok \<lparr> cp_readers = readers, cp_opened = xs, cp_buses = buses,
                                      cp_allowed = se_allowed_clients s, cp_responders = responders,
                                      cp_warnings = (case se_test_pattern s of None \<Rightarrow> []
                                        | Some tp \<Rightarrow> test_pattern_warnings dash s tp) \<rparr>))))"

fun start_taps :: "'r machine \<Rightarrow> 'o Catalogues \<Rightarrow> Live \<Rightarrow> 'r Archives
    \<Rightarrow> (('o, 'p) CaptureDevice \<times> ('o, 'p) SerialSettings) list \<Rightarrow> (RunError, ('o, 'r) serial_task list) result option" where
  "start_taps M k live as [] = Some (Ok [])"
| "start_taps M k live as ((d, s) # ds) =
     (case mc_open_serial M (dd_interface d) of
        Inl e \<Rightarrow> Some (Err (OpenSerial (dd_interface d) e))
      | Inr _ \<Rightarrow>
          (case live_device live (dd_interface d) of
             None \<Rightarrow> None
           | Some st \<Rightarrow>
               map_option (map_sum id (Cons
                   \<lparr> sk_interface = dd_interface d, sk_bus = dd_bus d, sk_status = st,
                     sk_rules = effective k (dd_interface d), sk_raw = (ss_raw_database s \<noteq> None),
                     sk_framed_archive = archive_handle as (dd_database d),
                     sk_raw_archive = Option.bind (ss_raw_database s) (archive_handle as) \<rparr>))
                 (start_taps M k live as ds)))"

definition start_devices :: "'r machine \<Rightarrow> string \<Rightarrow> ('o, 'p) Settings \<Rightarrow> 'o Catalogues \<Rightarrow> Live \<Rightarrow> 'r Archives
    \<Rightarrow> (RunError, ('o, 'p, 'r) running) result option" where
  "start_devices M dash s k live as =
     (if \<not> mc_linux M then Some (Err NoDeviceCapture)
      else
        case (if can_devices s = [] then Some (Ok None)
              else map_option (map_sum id Some) (start_capture M dash s live as)) of
          None \<Rightarrow> None
        | Some (Inl e) \<Rightarrow> Some (Err e)
        | Some (Inr c) \<Rightarrow>
            map_option (map_sum id (\<lambda>taps. \<lparr> rn_capture = c, rn_taps = taps, rn_echo = se_echo_console s, rn_ingest = None \<rparr>))
              (start_taps M k live as (serial_devices s)))"

definition start_ingest :: "'r machine \<Rightarrow> ('o, 'p) Settings \<Rightarrow> 'r Archives \<Rightarrow> ('o, 'p, 'r) running
    \<Rightarrow> (RunError, ('o, 'p, 'r) running) result option" where
  "start_ingest M s as r =
     (case se_ingest s of
        None \<Rightarrow> Some (Ok r)
      | Some i \<Rightarrow>
          (case archive_handle as (default_database s) of
             None \<Rightarrow> None
           | Some archive \<Rightarrow>
               (case mc_bind M (in_host i) (in_port i) of
                  Inl e \<Rightarrow> Some (Err (Bind (in_host i @ '':'' @ dec_digits (unat (in_port i))) e))
                | Inr _ \<Rightarrow> Some (Ok (r\<lparr> rn_ingest := Some (archive, carries_raw_serial s (default_database s)) \<rparr>)))))"

text \<open>\<^verbatim>\<open>run\<close> up to where it waits for the stop. \<open>control\<close> is what binding the control socket answers, where
  there is one.\<close>

definition pipeline_run :: "'r machine \<Rightarrow> string \<Rightarrow> 'o Catalogues \<Rightarrow> (string \<times> io_error) option \<Rightarrow> ('o, 'p) Settings
    \<Rightarrow> (RunError, ('o, 'p, 'r) running) result option" where
  "pipeline_run M dash k control s =
     (case check (mc_linux M) s of
        Inl e \<Rightarrow> Some (Err e)
      | Inr _ \<Rightarrow>
          (let live = Live_new s in
           case control of
             Some (addr, e) \<Rightarrow> Some (Err (Bind addr e))
           | None \<Rightarrow>
               (case start_all (mc_start M) (forwards s) of
                  Inl (p, e) \<Rightarrow> Some (Err (Cache p e))
                | Inr as \<Rightarrow>
                    (case (if se_devices s = []
                           then Some (Ok \<lparr> rn_capture = None, rn_taps = [], rn_echo = False, rn_ingest = None \<rparr>)
                           else start_devices M dash s k live as) of
                       None \<Rightarrow> None
                     | Some (Inl e) \<Rightarrow> Some (Err e)
                     | Some (Inr r) \<Rightarrow> start_ingest M s as r))))"

section \<open>Transmitting\<close>

text \<open>What becomes of a request to transmit: dropped, refused, or a frame handed to an interface's writer.\<close>

datatype ('o, 'p, 'f) transmitted =
    NoSuchBus | RefusedPassive "('o, 'p) CaptureDevice" | SentOn "('o, 'p) CaptureDevice" 'f

definition transmit_one :: "('f, 'k) wslib \<Rightarrow> ('o, 'p, 'r) Opened list \<Rightarrow> u8 \<Rightarrow> Transmit \<Rightarrow> ('o, 'p, 'f) transmitted" where
  "transmit_one L xs bus_offset t =
     (case index_for_bus (t_bus t) bus_offset (length xs) of
        None \<Rightarrow> NoSuchBus
      | Some i \<Rightarrow>
          let d = op_device (xs ! i) in
          if dd_mode d = Passive then RefusedPassive d
          else SentOn d (cf_data_frame L 0 (t_arb_id t) (t_extended t) False False (t_data t)))"

definition transmit_loop :: "('f, 'k) wslib \<Rightarrow> ('o, 'p, 'r) Opened list \<Rightarrow> u8 \<Rightarrow> Transmit list
    \<Rightarrow> ('o, 'p, 'f) transmitted list" where
  "transmit_loop L xs bus_offset ts = map (transmit_one L xs bus_offset) ts"

section \<open>The Test Pattern responder\<close>

record TpReply =
  rp_arb_id :: u32
  rp_extended :: bool
  rp_fd :: bool
  rp_data :: "u8 list"

record 'q tplib =
  tq_is_frame :: "u32 \<Rightarrow> bool \<Rightarrow> bool"
  tq_EXTENDED :: u8
  tq_FD :: u8
  tq_new :: "u8 \<Rightarrow> u8 \<Rightarrow> 'q"
  tq_on_frame :: "'q \<Rightarrow> u32 \<Rightarrow> bool \<Rightarrow> bool \<Rightarrow> u8 list \<Rightarrow> u64 \<Rightarrow> TpReply list \<times> 'q"

definition reply_frame :: "('f, 'k) wslib \<Rightarrow> TpReply \<Rightarrow> 'f" where
  "reply_frame L r = cf_data_frame L 0 (rp_arb_id r) (rp_extended r) (rp_fd r) False (rp_data r)"

definition capabilities :: "'q tplib \<Rightarrow> bool \<Rightarrow> u8" where
  "capabilities Q can_fd = or (tq_EXTENDED Q) (if can_fd then tq_FD Q else 0)"

fun respond :: "('f, 'k) wslib \<Rightarrow> 'q tplib \<Rightarrow> SourceId \<Rightarrow> 'q \<Rightarrow> recv_event list \<Rightarrow> 'f list" where
  "respond L Q bus q [] = []"
| "respond L Q bus q (e # es) =
     (case e of
        Got _ s \<Rightarrow>
          (case s of
             Can c \<Rightarrow>
               if c_bus c \<noteq> bus \<or> c_rtr c \<noteq> None \<or> \<not> tq_is_frame Q (c_arb_id c) (c_extended c) then respond L Q bus q es
               else let (replies, q) = tq_on_frame Q q (c_arb_id c) (c_extended c) (c_is_fd c) (c_data c)
                          (word_of_int (max (c_ts_us c) 0))
                    in map (reply_frame L) replies @ respond L Q bus q es
           | _ \<Rightarrow> respond L Q bus q es)
      | Lagged _ \<Rightarrow> respond L Q bus q es
      | NothingYet \<Rightarrow> respond L Q bus q es
      | SendersDropped \<Rightarrow> [])"

definition responder_loop :: "('f, 'k) wslib \<Rightarrow> 'q tplib \<Rightarrow> SourceId \<Rightarrow> bool \<Rightarrow> recv_event list \<Rightarrow> 'f list" where
  "responder_loop L Q bus can_fd rx = respond L Q bus (tq_new Q (capabilities Q can_fd) (bus_no bus)) rx"

section \<open>What a start hands to whom\<close>

lemma start_each_databases: "start_each go tagged fwds = Inr as \<Longrightarrow> map fst as = map fd_database fwds"
proof (induction fwds arbitrary: as)
  case (Cons f fwds)
  then show ?case
    by (cases "start_each go tagged fwds") (auto split: sum.splits)
qed simp

lemma archive_found:
  assumes "se_forward s = Some f" "start_all go (forwards s) = Inr as" "db \<in> set (databases s)"
  shows "\<exists>a. archive_handle as db = Some a"
proof -
  have "set (map fst as) = set (databases s)"
    using start_each_databases [of go _ "forwards s" as] assms(2) forwards_facts(1) [OF assms(1)]
    by (simp add: start_all_def)
  with assms(3) show ?thesis
    by (cases "map_of as db") (simp_all add: archive_handle_def map_of_eq_None_iff)
qed

lemma map_of_named: "map_of (map (\<lambda>d. (f d, x)) ds) i = (if i \<in> f ` set ds then Some x else None)"
  by (induction ds) auto

lemma live_device_found: "d \<in> set (se_devices s) \<Longrightarrow> live_device (Live_new s) (dd_interface d) = Some DeviceStatus_default"
  by (simp add: live_device_def Live_new_def map_of_named)

lemma open_devices_found:
  "open_devices M as ds = Inr found \<Longrightarrow>
     map (op_device \<circ> fst) found = ds \<and> map (op_archive \<circ> fst) found = map (archive_handle as \<circ> dd_database) ds \<and>
     map (op_listen_only \<circ> fst) found = map (\<lambda>d. dd_mode d = Passive) ds"
proof (induction ds arbitrary: found)
  case (Cons d ds)
  then show ?case
    by (cases "open_devices M as ds") (auto split: sum.splits)
qed simp

lemma spawn_readers_found:
  assumes "\<forall>x \<in> set xs. live_device live (dd_interface (op_device x)) \<noteq> None"
  shows "\<exists>ts. spawn_readers live d i xs = Some ts \<and> map ct_index ts = [i ..< i + length xs] \<and>
    map (\<lambda>t. (ct_interface t, ct_bus t, ct_archive t)) ts =
      map (\<lambda>x. (dd_interface (op_device x), dd_bus (op_device x), op_archive x)) xs"
  using assms
proof (induction xs arbitrary: i)
  case (Cons x xs)
  then have "\<forall>x \<in> set xs. live_device live (dd_interface (op_device x)) \<noteq> None"
    by simp
  then obtain ts where ts: "spawn_readers live d (Suc i) xs = Some ts" "map ct_index ts = [Suc i ..< Suc i + length xs]"
    "map (\<lambda>t. (ct_interface t, ct_bus t, ct_archive t)) ts =
      map (\<lambda>x. (dd_interface (op_device x), dd_bus (op_device x), op_archive x)) xs"
    using Cons.IH by blast
  obtain st where "live_device live (dd_interface (op_device x)) = Some st"
    using Cons.prems by auto
  moreover have "i # [Suc i ..< Suc i + length xs] = [i ..< i + length (x # xs)]"
    by (simp add: upt_conv_Cons del: upt_Suc)
  ultimately show ?case
    using ts by (simp del: upt_Suc)
qed simp

lemma armed_in_range: "i \<in> set (armed_indices s tp) \<Longrightarrow> i < length (can_devices s) \<and> dd_mode (can_devices s ! i) = Active"
  by (auto simp: armed_indices_def in_set_enumerate_eq)

lemma those_all: "(\<And>x. x \<in> set xs \<Longrightarrow> f x \<noteq> None) \<Longrightarrow> those (map f xs) = Some (map (the \<circ> f) xs)"
proof (induction xs)
  case (Cons a xs)
  then show ?case
    by (cases "f a") (auto simp del: not_None_eq)
qed simp

text \<open>A capture that was started: its readers are the CAN devices in order, each with its archive; its
  responders are the armed devices.\<close>

definition captures :: "('o, 'p) Settings \<Rightarrow> 'r Archives \<Rightarrow> ('o, 'p, 'r) capture \<Rightarrow> bool" where
  "captures s as c \<longleftrightarrow>
     map op_device (cp_opened c) = can_devices s \<and>
     map op_listen_only (cp_opened c) = map (\<lambda>d. dd_mode d = Passive) (can_devices s) \<and>
     map (\<lambda>t. (ct_interface t, ct_bus t, ct_archive t)) (cp_readers c) =
       map (\<lambda>d. (dd_interface d, dd_bus d, archive_handle as (dd_database d))) (can_devices s) \<and>
     map ct_index (cp_readers c) = [0 ..< length (bi_speeds (cp_buses c))] \<and>
     cp_allowed c = se_allowed_clients s \<and>
     map rt_device (cp_responders c) =
       (case se_test_pattern s of None \<Rightarrow> [] | Some tp \<Rightarrow> map (\<lambda>i. can_devices s ! i) (armed_indices s tp)) \<and>
     (\<forall>t \<in> set (cp_responders c). rt_fd t = dd_fd (rt_device t))"

lemma start_capture_returns: "\<exists>res. start_capture M dash s (Live_new s) as = Some res \<and> (\<forall>c. res = Inr c \<longrightarrow> captures s as c)"
proof (cases "open_devices M as (can_devices s)")
  case (Inr found)
  let ?xs = "map fst found"
  note f = open_devices_found [OF Inr]
  have devs: "map op_device ?xs = can_devices s" "map op_archive ?xs = map (archive_handle as \<circ> dd_database) (can_devices s)"
    "map op_listen_only ?xs = map (\<lambda>d. dd_mode d = Passive) (can_devices s)"
    using f by simp_all
  have len: "length ?xs = length (can_devices s)"
    using devs(1) by (metis length_map)
  have known: "\<forall>x \<in> set ?xs. live_device (Live_new s) (dd_interface (op_device x)) \<noteq> None"
  proof
    fix x
    assume "x \<in> set ?xs"
    then have "op_device x \<in> set (can_devices s)"
      unfolding devs(1) [symmetric] by (simp only: set_map imageI)
    then show "live_device (Live_new s) (dd_interface (op_device x)) \<noteq> None"
      using live_device_found [of "op_device x" s] by (auto simp: can_devices_def)
  qed
  obtain ts where ts: "spawn_readers (Live_new s) (se_default_dir s) 0 ?xs = Some ts" "map ct_index ts = [0 ..< length ?xs]"
    "map (\<lambda>t. (ct_interface t, ct_bus t, ct_archive t)) ts =
      map (\<lambda>x. (dd_interface (op_device x), dd_bus (op_device x), op_archive x)) ?xs"
    using spawn_readers_found [OF known, of "se_default_dir s" 0] by auto
  let ?is = "case se_test_pattern s of None \<Rightarrow> [] | Some tp \<Rightarrow> armed_indices s tp"
  have rng: "i < length ?xs" if "i \<in> set ?is" for i
    using that armed_in_range len by (auto split: option.splits)
  have resp: "those (map (spawn_responder ?xs) ?is) = Some (map (the \<circ> spawn_responder ?xs) ?is)"
    by (rule those_all) (use rng in \<open>fastforce simp: spawn_responder_def\<close>)
  have zip: "map (\<lambda>x. (dd_interface (op_device x), dd_bus (op_device x), op_archive x)) ?xs =
      map (\<lambda>d. (dd_interface d, dd_bus d, archive_handle as (dd_database d))) (can_devices s)"
    using devs(1,2) len by (auto simp: list_eq_iff_nth_eq)
  have one: "rt_device (the (spawn_responder ?xs i)) = can_devices s ! i" if "i < length ?xs" for i
    using that unfolding devs(1) [symmetric] by (simp add: spawn_responder_def)
  have rd: "map rt_device (map (the \<circ> spawn_responder ?xs) ?is) = map (\<lambda>i. can_devices s ! i) ?is"
    unfolding map_map comp_def
    by (rule map_cong [OF refl]) (rule one [OF rng])
  have fd: "rt_fd t = dd_fd (rt_device t)" if "t \<in> set (map (the \<circ> spawn_responder ?xs) ?is)" for t
    using that rng by (auto simp: spawn_responder_def split: option.splits)
  show ?thesis
  proof (cases "mc_bind M (se_host s) (se_port s)")
    case (Inr u)
    show ?thesis
      using \<open>open_devices M as (can_devices s) = Inr found\<close> Inr ts resp devs zip rd fd
      by (auto simp: start_capture_def captures_def Let_def BusInfo_new_def split: option.splits)
  qed (simp add: start_capture_def Inr Let_def)
qed (simp add: start_capture_def)

text \<open>The serial lines in order, each stream with its archive.\<close>

definition tapped :: "'r Archives \<Rightarrow> (('o, 'p) CaptureDevice \<times> ('o, 'p) SerialSettings) list \<Rightarrow> ('o, 'r) serial_task list \<Rightarrow> bool" where
  "tapped as ds ts \<longleftrightarrow>
     map (\<lambda>t. (sk_interface t, sk_bus t, sk_framed_archive t, sk_raw t, sk_raw_archive t)) ts =
     map (\<lambda>(d, x). (dd_interface d, dd_bus d, archive_handle as (dd_database d), ss_raw_database x \<noteq> None,
                     Option.bind (ss_raw_database x) (archive_handle as))) ds"

lemma start_taps_returns:
  assumes "\<forall>(d, x) \<in> set ds. live_device live (dd_interface d) \<noteq> None"
  shows "\<exists>res. start_taps M k live as ds = Some res \<and> (\<forall>ts. res = Inr ts \<longrightarrow> tapped as ds ts)"
  using assms
proof (induction ds)
  case (Cons dx ds)
  obtain d x where dx: "dx = (d, x)"
    by fastforce
  obtain st where st: "live_device live (dd_interface d) = Some st"
    using Cons.prems dx by auto
  obtain res where res: "start_taps M k live as ds = Some res" "\<forall>ts. res = Inr ts \<longrightarrow> tapped as ds ts"
    using Cons by auto
  show ?case
    using st res by (cases res; cases "mc_open_serial M (dd_interface d)") (auto simp: dx tapped_def)
qed (simp add: tapped_def)

lemma serial_devices_in: "(d, x) \<in> set (serial_devices s) \<Longrightarrow> d \<in> set (se_devices s)"
  unfolding serial_devices_def set_map_filter
  by (elim CollectE bexE) (auto split: DeviceKind.splits option.splits)

lemma serial_known: "\<forall>(d, x) \<in> set (serial_devices s). live_device (Live_new s) (dd_interface d) \<noteq> None"
  using live_device_found serial_devices_in by force

definition runs :: "('o, 'p) Settings \<Rightarrow> 'r Archives \<Rightarrow> ('o, 'p, 'r) running \<Rightarrow> bool" where
  "runs s as rn \<longleftrightarrow>
     (case rn_capture rn of None \<Rightarrow> can_devices s = [] | Some c \<Rightarrow> captures s as c) \<and>
     tapped as (serial_devices s) (rn_taps rn)"

lemma start_devices_returns:
  "\<exists>res. start_devices M dash s k (Live_new s) as = Some res \<and>
     (\<forall>rn. res = Inr rn \<longrightarrow> runs s as rn \<and> rn_ingest rn = None)"
proof (cases "mc_linux M")
  case True
  obtain t where t: "start_taps M k (Live_new s) as (serial_devices s) = Some t"
    "\<forall>ts. t = Inr ts \<longrightarrow> tapped as (serial_devices s) ts"
    using start_taps_returns [OF serial_known] by blast
  obtain c where c: "start_capture M dash s (Live_new s) as = Some c" "\<forall>x. c = Inr x \<longrightarrow> captures s as x"
    using start_capture_returns [of M dash s as] by blast
  show ?thesis
    using t c True by (cases t; cases c) (auto simp: start_devices_def runs_def)
qed (simp add: start_devices_def)

lemma fed_databases:
  assumes "d \<in> set (se_devices s)" "db \<in> set (device_databases d)"
  shows "db \<in> set (databases s)"
  using assms databases_facts(2) [of s] by (auto simp: fed_def)

lemma start_wires:
  "\<exists>res. pipeline_run M dash k control s = Some res \<and>
     (\<forall>rn. res = Inr rn \<longrightarrow>
        (\<exists>as. start_all (mc_start M) (forwards s) = Inr as \<and> runs s as rn \<and>
           (se_forward s \<noteq> None \<longrightarrow>
              (\<forall>d \<in> set (se_devices s). \<forall>db \<in> set (device_databases d). archive_handle as db \<noteq> None)) \<and>
           (se_ingest s \<noteq> None \<longrightarrow>
              map_option fst (rn_ingest rn) = archive_handle as (default_database s) \<and> rn_ingest rn \<noteq> None)))"
proof (cases "check (mc_linux M) s = Inr () \<and> control = None \<and> (\<exists>as. start_all (mc_start M) (forwards s) = Inr as)")
  case False
  then have "\<exists>e. pipeline_run M dash k control s = Some (Inl e)"
    by (cases "check (mc_linux M) s"; cases control; cases "start_all (mc_start M) (forwards s)")
      (auto simp: pipeline_run_def split: prod.split)
  then show ?thesis
    by auto
next
  case True
  then obtain as where ok: "check (mc_linux M) s = Inr ()" "control = None" "start_all (mc_start M) (forwards s) = Inr as"
    by blast
  have found: "archive_handle as db \<noteq> None" if "se_forward s \<noteq> None" "db \<in> set (databases s)" for db
    using archive_found [OF _ ok(3) that(2)] that(1) by auto
  have ing: "archive_handle as (default_database s) \<noteq> None" if "se_ingest s \<noteq> None"
  proof -
    have "se_forward s \<noteq> None"
      using ok(1) that by (auto simp: check_def split: if_splits)
    then show ?thesis
      using found databases_facts(2) [of s] that by auto
  qed
  let ?dev = "if se_devices s = [] then Some (Ok \<lparr> rn_capture = None, rn_taps = [], rn_echo = False, rn_ingest = None \<rparr>)
    else start_devices M dash s k (Live_new s) as"
  have "\<exists>res. ?dev = Some res \<and> (\<forall>rn. res = Inr rn \<longrightarrow> runs s as rn \<and> rn_ingest rn = None)"
  proof (cases "se_devices s = []")
    case True
    then show ?thesis
      by (simp add: runs_def tapped_def can_devices_def serial_devices_def)
  next
    case False
    then show ?thesis
      using start_devices_returns [of M dash s k as] by simp
  qed
  then obtain res where dev: "?dev = Some res" "\<forall>rn. res = Inr rn \<longrightarrow> runs s as rn \<and> rn_ingest rn = None"
    by blast
  show ?thesis
  proof (cases res)
    case (Inl e)
    then show ?thesis
      using ok dev(1) by (simp add: pipeline_run_def)
  next
    case (Inr rn)
    then have rn: "runs s as rn" "rn_ingest rn = None"
      using dev(2) by auto
    have p: "pipeline_run M dash k control s = start_ingest M s as rn"
      using ok dev(1) Inr by (simp add: pipeline_run_def)
    have keep: "runs s as (rn\<lparr> rn_ingest := i \<rparr>)" for i
      using rn(1) by (simp add: runs_def)
    show ?thesis
      unfolding p using rn keep ing ok(3) found fed_databases [of _ s]
      by (cases "se_ingest s"; cases "archive_handle as (default_database s)")
        (auto simp: start_ingest_def split: sum.split)
  qed
qed

text \<open>C11: a start reaches none of its panics and loses no stream. Whatever can be opened, bound and started,
  \<^verbatim>\<open>run\<close> comes to an error or to running tasks. Then every CAN device has its reader, in order, on an index
  the bridge has a rate for, and every serial line its tap; each stream is handed the archive of its
  database, which exists when there is a gateway; the responder runs for exactly the armed devices; and
  the ingest listener, where configured, has the default database's archive.\<close>

theorem start_wires_every_stream:
  "\<exists>res. pipeline_run M dash k control s = Some res \<and>
     (\<forall>rn. res = Inr rn \<longrightarrow>
        (\<exists>as. start_all (mc_start M) (forwards s) = Inr as \<and> runs s as rn \<and>
           (se_forward s \<noteq> None \<longrightarrow>
              (\<forall>d \<in> set (se_devices s). \<forall>db \<in> set (device_databases d). archive_handle as db \<noteq> None)) \<and>
           (se_ingest s \<noteq> None \<longrightarrow>
              map_option fst (rn_ingest rn) = archive_handle as (default_database s) \<and> rn_ingest rn \<noteq> None)))"
  by (rule start_wires)

section \<open>Nothing is transmitted on a passive device\<close>

lemma can_device_bus:
  assumes "devices_ok off (se_devices s)" "i < length (can_devices s)"
  shows "unat (bus_no (dd_bus (can_devices s ! i))) = unat off + i"
proof -
  let ?cs = "filter is_can (se_devices s)" and ?rest = "filter (\<lambda>d. \<not> is_can d) (se_devices s)"
  have all: "map bus_number (?cs @ ?rest) = [unat off ..< unat off + length (se_devices s)]"
    using assms(1) by (simp add: devices_ok_def)
  have i: "i < length ?cs" "i < length (se_devices s)"
    using assms(2) length_filter_le [of is_can "se_devices s"] by (simp_all add: can_devices_def del: length_filter_le)
  have "bus_number (?cs ! i) = map bus_number (?cs @ ?rest) ! i"
    using i(1) by (simp add: nth_append)
  also have "\<dots> = unat off + i"
    unfolding all using i(2) by simp
  finally show ?thesis
    by (simp add: can_devices_def)
qed

lemma bus_no_inject: "unat (bus_no a) = unat (bus_no b) \<Longrightarrow> a = b"
  by (cases a; cases b) (simp add: word_unat_eq_iff)

lemma can_device_known: "i < length (can_devices s) \<Longrightarrow> can_devices s ! i \<in> set (se_devices s) \<and> is_can (can_devices s ! i)"
  using nth_mem [of i "can_devices s"] by (simp add: can_devices_def)

lemma index_of_can_device:
  assumes "devices_ok off (se_devices s)" and "i < length (can_devices s)"
  shows "index_for_bus b off (length (can_devices s)) = Some i \<longleftrightarrow> dd_bus (can_devices s ! i) = b"
  using can_device_bus [OF assms] assms(2) bus_no_inject [of "dd_bus (can_devices s ! i)" b] by (auto simp: index_for_bus_Some_iff)

lemma transmit_one_device:
  assumes ok: "devices_ok (se_bus_offset s) (se_devices s)" and opened: "map op_device os = can_devices s"
  shows "case transmit_one L os (se_bus_offset s) t of
       SentOn d f \<Rightarrow> d \<in> set (se_devices s) \<and> is_can d \<and> dd_mode d = Active \<and> dd_bus d = t_bus t
     | RefusedPassive d \<Rightarrow> d \<in> set (se_devices s) \<and> dd_mode d = Passive \<and> dd_bus d = t_bus t
     | NoSuchBus \<Rightarrow> \<forall>d \<in> set (se_devices s). is_can d \<longrightarrow> dd_bus d \<noteq> t_bus t"
proof (cases "index_for_bus (t_bus t) (se_bus_offset s) (length os)")
  have len: "length os = length (can_devices s)"
    using opened by (metis length_map)
  {
    case None
    have "dd_bus (can_devices s ! i) \<noteq> t_bus t" if "i < length (can_devices s)" for i
      using index_of_can_device [OF ok that, of "t_bus t"] None len by simp
    then have "\<forall>d \<in> set (can_devices s). dd_bus d \<noteq> t_bus t"
      by (auto simp: in_set_conv_nth)
    then show ?thesis
      by (simp add: transmit_one_def None can_devices_def)
  next
    case (Some i)
    then have i: "i < length (can_devices s)"
      using len index_for_bus_Some_iff [of "t_bus t" "se_bus_offset s" "length os" i] by simp
    then have "op_device (os ! i) = can_devices s ! i" "dd_bus (can_devices s ! i) = t_bus t"
      using opened len index_of_can_device [OF ok i, of "t_bus t"] Some by (metis nth_map, simp)
    then show ?thesis
      using can_device_known [OF i] by (cases "dd_mode (can_devices s ! i)") (auto simp: transmit_one_def Some Let_def)
  }
qed

lemma responders_active:
  assumes "map rt_device rs =
      (case se_test_pattern s of None \<Rightarrow> [] | Some tp \<Rightarrow> map (\<lambda>i. can_devices s ! i) (armed_indices s tp))"
    and "x \<in> set rs"
  shows "rt_device x \<in> set (se_devices s) \<and> is_can (rt_device x) \<and> dd_mode (rt_device x) = Active"
proof -
  have "rt_device x \<in> set (map rt_device rs)"
    using assms(2) by simp
  then obtain tp i where "i \<in> set (armed_indices s tp)" "rt_device x = can_devices s ! i"
    unfolding assms(1) by (auto split: option.splits)
  then show ?thesis
    using can_device_known [of i s] armed_in_range [of i s tp] by simp
qed


section \<open>A machine\<close>

definition ex_machine :: "nat machine" where
  "ex_machine =
     \<lparr> mc_linux = True, mc_start = (\<lambda>_ f. Ok (length (fd_database f))), mc_open_can = (\<lambda>_ _ _. Ok ()),
       mc_open_serial = (\<lambda>_. Ok ()), mc_bind = (\<lambda>_ _. Ok ()), mc_bitrates = (\<lambda>_. None) \<rparr>"

lemma ex_machine_opens:
  "\<exists>as. start_each (mc_start ex_machine) tagged fwds = Inr as" "\<exists>xs. open_devices ex_machine as ds = Inr xs"
  by (induction fwds; auto simp: ex_machine_def) (induction ds; auto simp: ex_machine_def)

lemma ex_machine_taps: "start_taps ex_machine k live as ds \<noteq> Some (Inl e)"
proof (induction ds arbitrary: e)
  case (Cons dx ds)
  then show ?case
    by (cases dx; cases "start_taps ex_machine k live as ds") (auto simp: ex_machine_def map_sum_def split: option.splits sum.splits)
qed simp

lemma ex_machine_starts:
  assumes "check True s = Inr ()" "can_devices s \<noteq> []"
  shows "\<exists>rn c. pipeline_run ex_machine dash k None s = Some (Inr rn) \<and> rn_capture rn = Some c"
proof -
  obtain as where as: "start_all (mc_start ex_machine) (forwards s) = Inr as"
    using ex_machine_opens(1) by (auto simp: start_all_def)
  obtain c0 where c0: "start_capture ex_machine dash s (Live_new s) as = Some c0"
    using start_capture_returns [of ex_machine dash s as] by blast
  moreover have "start_capture ex_machine dash s (Live_new s) as \<noteq> Some (Inl e)" for e
    using ex_machine_opens(2) [of as "can_devices s"]
    by (auto simp: start_capture_def Let_def ex_machine_def split: option.splits)
  ultimately obtain c where c: "start_capture ex_machine dash s (Live_new s) as = Some (Inr c)"
    by (metis old.sum.exhaust)
  obtain t where t: "start_taps ex_machine k (Live_new s) as (serial_devices s) = Some (Inr t)"
    using start_taps_returns [OF serial_known [of s], of ex_machine k as] ex_machine_taps [of k "Live_new s" as "serial_devices s"]
    by (metis old.sum.exhaust)
  have dev: "se_devices s \<noteq> []" "mc_linux ex_machine"
    using assms(2) by (auto simp: can_devices_def ex_machine_def)
  have "\<exists>rn. start_devices ex_machine dash s k (Live_new s) as = Some (Inr rn) \<and> rn_capture rn = Some c"
    using assms(2) c t dev by (simp add: start_devices_def)
  then obtain rn where rn: "start_devices ex_machine dash s k (Live_new s) as = Some (Inr rn)" "rn_capture rn = Some c"
    by blast
  obtain res where res: "pipeline_run ex_machine dash k None s = Some res"
    using start_wires [of ex_machine dash k None s] by blast
  have "check (mc_linux ex_machine) s = Inr ()"
    using assms(1) dev(2) by simp
  then have "pipeline_run ex_machine dash k None s = start_ingest ex_machine s as rn"
    using as dev rn(1) by (simp add: pipeline_run_def)
  then show ?thesis
    using res rn(2) by (auto simp: start_ingest_def ex_machine_def split: option.splits)
qed

lemma ex_resolved:
  assumes "resolve ex_setlib ex_cli None None ex_env = Inr r"
  shows "check True (rs_settings r) = Inr ()" "can_devices (rs_settings r) \<noteq> []"
proof -
  obtain s :: "(unit, string) Settings" and sugar tables where o: "choose_devices ex_cli None None = Inr (sugar, tables)"
    "build_devices ex_setlib (se_can_fd s) (default_database (rs_settings r)) (se_bus_offset s)
       (parse_ifaces sugar) tables = Inr (se_devices (rs_settings r))"
    by (rule resolveE [OF assms]) blast
  have st: "sugar = ''can0''" "tables = []"
    using o(1) by (auto simp: choose_devices_def ex_cli_def)
  then obtain d where d: "d \<in> set (se_devices (rs_settings r))"
    using build_devices_all(1) [OF o(2), of "''can0''"] by (auto simp: ex_parts)
  from o(2) d have "is_can d"
  proof (cases rule: build_devices_origin)
    case (sugar name)
    then show ?thesis
      using unnumbered_eq(4) [OF sugar(2)] by (simp add: is_can_def Device_can_def)
  qed (simp add: st)
  with d show can: "can_devices (rs_settings r) \<noteq> []"
    by (auto simp: can_devices_def filter_empty_conv)
  have "se_ingest (rs_settings r) = None"
    using resolved_as_set [OF assms]
    by (auto simp: listener_on_def flag_or_ui_def fill_def ex_cli_def given_def split: option.splits)
  with d show "check True (rs_settings r) = Inr ()"
    by (auto simp: check_def)
qed


theorem start_wires_every_stream_witness:
  "\<exists>res. pipeline_run ex_machine [] ex_catalogues None ex_settings = Some res"
  using start_wires_every_stream [of ex_machine "[]" ex_catalogues None ex_settings] by blast

end
