(* ===== verification/Control_Socket.thy ===== *)
theory Control_Socket
  imports Ui_Layer
begin

text \<open>
  The control socket: \<^verbatim>\<open>crates/wiretap-server/src/control.rs\<close>, with \<^verbatim>\<open>merge\<close>, \<^verbatim>\<open>load\<close> and \<^verbatim>\<open>write\<close> of \<^verbatim>\<open>ui.rs\<close>. A change
  is merged into what \<^verbatim>\<open>ui.toml\<close> holds, tried as a start would try it, and written; the daemon then starts again.

  serde, TOML and atomic files are libraries: how a \<open>UiConfig\<close> becomes a JSON document and back, and what loading
  finds after a write, are parameters. A write that fails leaves the file as it was.
\<close>

section \<open>Changes\<close>

datatype json = JNull | JLeaf Value | JObj "(string \<times> json) list"

record ui_lib =
  ub_to_json :: "UiConfig \<Rightarrow> (string, json) result"
  ub_from_json :: "json \<Rightarrow> (string, UiConfig) result"
  ub_reload :: "UiConfig \<Rightarrow> (string, UiConfig) result"

fun put_entry :: "string \<Rightarrow> json \<Rightarrow> (string \<times> json) list \<Rightarrow> (string \<times> json) list" where
  "put_entry k v [] = []"
| "put_entry k v ((k', v') # kvs) = (if k' = k then (k', v) # kvs else (k', v') # put_entry k v kvs)"

text \<open>\<^verbatim>\<open>pointer_mut\<close> and the assignment: a token names an entry of an object. No key has an index or an escape.\<close>

fun pointer_set :: "string list \<Rightarrow> json \<Rightarrow> json \<Rightarrow> json option" where
  "pointer_set [] v d = Some v"
| "pointer_set (k # ks) v (JObj kvs) =
     (case map_of kvs k of
        None \<Rightarrow> None
      | Some sub \<Rightarrow> map_option (\<lambda>sub'. JObj (put_entry k sub' kvs)) (pointer_set ks v sub))"
| "pointer_set (k # ks) v d = None"

definition pointer :: "string \<Rightarrow> string list" where
  "pointer key = split_on (CHR ''/'') (map (\<lambda>c. if c = CHR ''.'' then CHR ''/'' else c) key)"

fun merge_keys :: "(string \<times> json) list \<Rightarrow> json \<Rightarrow> (string, json) result" where
  "merge_keys [] d = Ok d"
| "merge_keys ((key, v) # put) d =
     (case pointer_set (pointer key) v d of
        None \<Rightarrow> Err (key @ '' is not a UI setting'')
      | Some d' \<Rightarrow> merge_keys put d')"

definition merge :: "ui_lib \<Rightarrow> UiConfig \<Rightarrow> (string \<times> json) list \<Rightarrow> (string, UiConfig) result" where
  "merge U current put = try_res (ub_to_json U current) (\<lambda>doc. try_res (merge_keys put doc) (ub_from_json U))"

section \<open>State\<close>

definition control_socket :: "Cli \<Rightarrow> Env \<Rightarrow> path option" where
  "control_socket cli env =
     (case cl_control_socket cli of
        Some p \<Rightarrow> (if p = [] then None else Some p)
      | None \<Rightarrow> map_option (\<lambda>d. path_push d ''control.sock'') (ev_runtime_dir env))"

text \<open>What the start that made the socket left, and what loading the configuration file gives now.\<close>

record ('o, 'p) control =
  ct_lib :: "('o, 'p) setlib"
  ct_ui :: ui_lib
  ct_linux :: bool
  ct_cli :: Cli
  ct_env :: Env
  ct_ui_path :: "path option"
  ct_settings :: "('o, 'p) Settings"
  ct_file :: "(SettingsError, FileConfig option) result"

text \<open>\<open>cw_ui\<close> is what loading \<^verbatim>\<open>ui.toml\<close> gives, and \<open>cw_binds\<close> and \<open>cw_writes\<close> say whether each trial of an address and each
  write fails.\<close>

record control_world =
  cw_ui :: "(string, UiConfig) result"
  cw_applying :: bool
  cw_binds :: "io_error option list"
  cw_writes :: "string option list"

text \<open>A status, an error, the key it is about and where that is pinned.\<close>

datatype Answer = Answer_ok nat | Answer_error nat string "string option" "string option"

definition refuse :: "nat \<Rightarrow> string \<Rightarrow> Answer" where
  "refuse status e = Answer_error status e None None"

section \<open>Applying a change\<close>

definition try_bind :: "string \<times> u16 \<Rightarrow> control_world \<Rightarrow> (Answer, unit) result \<times> control_world" where
  "try_bind addr w =
     (let w1 = w\<lparr> cw_binds := tl (cw_binds w) \<rparr> in
      case cw_binds w of
        Some e # _ \<Rightarrow>
          (Err (refuse 422 (RunError_show (Bind (fst addr @ CHR '':'' # dec_digits (unat (snd addr))) e))), w1)
      | _ \<Rightarrow> (Ok (), w1))"

definition ui_write :: "ui_lib \<Rightarrow> path \<Rightarrow> UiConfig \<Rightarrow> control_world \<Rightarrow> (Answer, unit) result \<times> control_world" where
  "ui_write U p ui w =
     (let w1 = w\<lparr> cw_writes := tl (cw_writes w) \<rparr> in
      case cw_writes w of
        Some e # _ \<Rightarrow> (Err (refuse 500 (''cannot write '' @ p @ '': '' @ e)), w1)
      | _ \<Rightarrow> (Ok (), w1\<lparr> cw_ui := ub_reload U ui \<rparr>))"

text \<open>The checks before a start is tried: the keys, the file and the merge, the pins, a device list cleared.\<close>

definition check_keys :: "(string \<times> json) list \<Rightarrow> (Answer, unit) result" where
  "check_keys put =
     (if put = [] then Err (refuse 400 ''the change names no setting'')
      else case find (\<lambda>k. k \<notin> set ui_keys) (map fst put) of
             Some key \<Rightarrow> Err (Answer_error 400 (key @ '' is not a setting a UI may change'') (Some key) None)
           | None \<Rightarrow> Ok ())"

definition check_pinned :: "Cli \<Rightarrow> (string \<times> Source) list \<Rightarrow> (string \<times> json) list \<Rightarrow> (Answer, unit) result" where
  "check_pinned cli srcs put =
     (case List.map_filter (\<lambda>key. map_option (Pair key) (find (\<lambda>(k, s). k = key \<and> pinned s) srcs)) (map fst put) of
        [] \<Rightarrow> Ok ()
      | (key, _, src) # _ \<Rightarrow>
          (let place = source_place src (cl_config cli) in
           Err (Answer_error 409 (key @ '' is pinned by '' @ (case place of Some p \<Rightarrow> p | None \<Rightarrow> ''the config file''))
                  (Some key) place)))"

definition check_devices :: "(string \<times> json) list \<Rightarrow> (Answer, unit) result" where
  "check_devices put =
     (if map_of put ''devices'' = Some JNull
      then Err (Answer_error 400 ''devices cannot be cleared: the default, can0, transmits; set a device list instead''
                  (Some ''devices'') None)
      else Ok ())"

definition moved :: "('o, 'p) Settings \<Rightarrow> ('o, 'p) Settings \<Rightarrow> (string \<times> u16) option" where
  "moved running s =
     (case se_ingest s of
        None \<Rightarrow> None
      | Some i \<Rightarrow>
          (case se_ingest running of
             Some r \<Rightarrow> if in_host r = in_host i \<and> in_port r = in_port i then None else Some (in_host i, in_port i)
           | None \<Rightarrow> Some (in_host i, in_port i)))"

text \<open>The settings a body asks for and the \<open>UiConfig\<close> to write, or the refusal.\<close>

definition planned :: "('o, 'p) control \<Rightarrow> (string, (string \<times> json) list) result \<Rightarrow> control_world
    \<Rightarrow> (Answer, UiConfig \<times> ('o, 'p) Resolved) result" where
  "planned c body w =
     (case body of
        Inl e \<Rightarrow> Err (refuse 400 (''not a JSON object: '' @ e))
      | Inr put \<Rightarrow>
          try_res (check_keys put) (\<lambda>_.
          try_res (map_sum (\<lambda>e. refuse 422 (SettingsError_show e)) id (ct_file c)) (\<lambda>file.
          try_res (map_sum (refuse 400) id
             (merge (ct_ui c) (case cw_ui w of Inr u \<Rightarrow> u | Inl _ \<Rightarrow> UiConfig_default) put)) (\<lambda>ui.
          try_res (check_pinned (ct_cli c) (sources (ct_cli c) file ui (ct_env c)) put) (\<lambda>_.
          try_res (check_devices put) (\<lambda>_.
          try_res (map_sum (\<lambda>e. refuse 422 (SettingsError_show e)) id (resolve (ct_lib c) (ct_cli c) file (Some ui) (ct_env c))) (\<lambda>r.
          try_res (map_sum (\<lambda>e. refuse 422 (RunError_show e)) id (check (ct_linux c) (rs_settings r))) (\<lambda>_.
            Ok (ui, r)))))))))"

definition apply_change :: "('o, 'p) control \<Rightarrow> (string, (string \<times> json) list) result \<Rightarrow> control_world
    \<Rightarrow> (Answer, unit) result \<times> control_world" where
  "apply_change c body w =
     (case ct_ui_path c of
        None \<Rightarrow> (Err (refuse 503 ''there is no ui.toml to write: set STATE_DIRECTORY or --ui-config''), w)
      | Some p \<Rightarrow>
          (case planned c body w of
             Inl e \<Rightarrow> (Err e, w)
           | Inr (ui, r) \<Rightarrow>
               (let (bound, w1) = (case moved (ct_settings c) (rs_settings r) of None \<Rightarrow> (Ok (), w) | Some addr \<Rightarrow> try_bind addr w) in
                case bound of
                  Inl e \<Rightarrow> (Err e, w1)
                | Inr _ \<Rightarrow> ui_write (ct_ui c) p ui w1)))"

text \<open>\<^verbatim>\<open>put\<close>: the answer, and whether the daemon is to restart.\<close>

definition put_settings :: "('o, 'p) control \<Rightarrow> (string, (string \<times> json) list) result \<Rightarrow> control_world \<Rightarrow> (Answer \<times> bool) \<times> control_world" where
  "put_settings c body w =
     (if cw_applying w then ((refuse 503 ''another change is being applied'', False), w)
      else case apply_change c body (w\<lparr> cw_applying := True \<rparr>) of
             (Inr _, w1) \<Rightarrow> ((Answer_ok 202, True), w1)
           | (Inl e, w1) \<Rightarrow> ((e, False), w1\<lparr> cw_applying := False \<rparr>))"

section \<open>Requests\<close>

datatype meth = GET | PUT | Other_method string

text \<open>A request's body is too long, or what it parses to.\<close>

datatype ctl_body = Too_large string | Body "(string, (string \<times> json) list) result"

definition control_handle :: "('o, 'p) control \<Rightarrow> meth \<times> string \<times> ctl_body \<Rightarrow> control_world \<Rightarrow> (Answer \<times> bool) \<times> control_world" where
  "control_handle c req w =
     (case req of (m, p, body) \<Rightarrow>
        if m = GET \<and> (p = ''/v1/status'' \<or> p = ''/v1/settings'') then ((Answer_ok 200, False), w)
        else if m = PUT \<and> p = ''/v1/settings''
        then (case body of Too_large e \<Rightarrow> ((refuse 413 e, False), w) | Body b \<Rightarrow> put_settings c b w)
        else if p = ''/v1/status'' \<or> p = ''/v1/settings'' then ((refuse 405 ''method not allowed'', False), w)
        else ((refuse 404 ''not found'', False), w))"

section \<open>A change is what the next start runs on, or nothing\<close>

lemma check_keys_ok:
  assumes "check_keys put = Inr ()"
  shows "fst ` set put \<subseteq> set ui_keys"
proof -
  have "find (\<lambda>k. k \<notin> set ui_keys) (map fst put) = None"
    using assms by (simp add: check_keys_def split: if_splits option.splits)
  then show ?thesis
    unfolding find_None_iff by auto
qed

lemma check_pinned_ok:
  assumes "check_pinned cli srcs put = Inr ()" "k \<in> fst ` set put" "(k, s) \<in> set srcs"
  shows "\<not> pinned s"
  using assms
  by (auto simp: check_pinned_def map_filter_def filter_empty_conv find_None_iff Let_def split: list.splits)

lemma planned_ok:
  assumes "planned c body w = Inr (ui, r)"
  obtains put cfg where "body = Inr put" "ct_file c = Inr cfg" "fst ` set put \<subseteq> set ui_keys"
    "merge (ct_ui c) (case cw_ui w of Inr u \<Rightarrow> u | Inl _ \<Rightarrow> UiConfig_default) put = Inr ui"
    "check_pinned (ct_cli c) (sources (ct_cli c) cfg ui (ct_env c)) put = Inr ()" "map_of put ''devices'' \<noteq> Some JNull"
    "resolve (ct_lib c) (ct_cli c) cfg (Some ui) (ct_env c) = Inr r" "check (ct_linux c) (rs_settings r) = Inr ()"
  using assms
  by (auto simp: planned_def try_res_Inr map_sum_Inr check_devices_def dest!: check_keys_ok split: sum.splits if_splits)

lemma trials_keep:
  "try_bind addr w = (x, w1) \<Longrightarrow> cw_ui w1 = cw_ui w \<and> cw_applying w1 = cw_applying w"
  "ui_write U p ui w = (Inl e, w1) \<Longrightarrow> cw_ui w1 = cw_ui w \<and> cw_applying w1 = cw_applying w"
  "ui_write U p ui w = (Inr u, w1) \<Longrightarrow> cw_ui w1 = ub_reload U ui \<and> cw_applying w1 = cw_applying w"
  by (auto simp: try_bind_def ui_write_def Let_def split: list.splits option.splits)

lemma apply_change_ok:
  assumes "apply_change c body w = (x, w1)"
  shows "cw_applying w1 = cw_applying w \<and>
    (case x of
       Inl _ \<Rightarrow> cw_ui w1 = cw_ui w
     | Inr _ \<Rightarrow> \<exists>p ui r. ct_ui_path c = Some p \<and> planned c body w = Inr (ui, r) \<and> cw_ui w1 = ub_reload (ct_ui c) ui)"
  using assms
  by (auto simp: apply_change_def split: option.splits sum.splits prod.splits dest!: trials_keep)

text \<open>C33: a change that is accepted is the only one being applied, names only keys a UI may set and none that is pinned, and is
  what the next start runs on: it loads as it was merged and resolves, as far as flags, file and environment are what
  they were. A change that is refused, and any other request, leaves \<^verbatim>\<open>ui.toml\<close> and what is being applied as they were.\<close>

theorem accepted_change_is_what_starts:
  assumes "\<forall>u. ub_reload (ct_ui c) u = Inr u" "control_handle c (m, path, body) w = ((a, restart), w')"
  shows "if restart
    then a = Answer_ok 202 \<and> \<not> cw_applying w \<and> cw_applying w' \<and>
      (\<exists>put cfg p ui r. body = Body (Inr put) \<and> ct_file c = Inr cfg \<and> ct_ui_path c = Some p \<and>
         merge (ct_ui c) (case cw_ui w of Inr u \<Rightarrow> u | Inl _ \<Rightarrow> UiConfig_default) put = Inr ui \<and> cw_ui w' = Inr ui \<and>
         fst ` set put \<subseteq> set ui_keys \<and> map_of put ''devices'' \<noteq> Some JNull \<and>
         (\<forall>k s. k \<in> fst ` set put \<and> (k, s) \<in> set (sources (ct_cli c) cfg ui (ct_env c)) \<longrightarrow> \<not> pinned s) \<and>
         check (ct_linux c) (rs_settings r) = Inr () \<and>
         resolve_at_start (ct_lib c) (ct_linux c) (\<lambda>_. cw_ui w') (ct_cli c) cfg (Some p) (ct_env c) = Inr (r, ui))
    else cw_ui w' = cw_ui w \<and> cw_applying w' = cw_applying w"
proof (cases "m = PUT \<and> path = ''/v1/settings'' \<and> \<not> cw_applying w \<and> (\<exists>b. body = Body b)")
  case True
  then obtain b where b: "body = Body b" "m = PUT" "path = ''/v1/settings''" "\<not> cw_applying w"
    by blast
  obtain x w1 where x: "apply_change c b (w\<lparr> cw_applying := True \<rparr>) = (x, w1)"
    by fastforce
  then have h: "((a, restart), w') = (case x of Inr _ \<Rightarrow> ((Answer_ok 202, True), w1) | Inl e \<Rightarrow> ((e, False), w1\<lparr> cw_applying := False \<rparr>))"
    using assms(2) b by (auto simp: control_handle_def put_settings_def split: sum.splits)
  show ?thesis
  proof (cases x)
    case (Inl e)
    then show ?thesis
      using h b apply_change_ok [OF x] by simp
  next
    case (Inr u)
    then obtain p ui r where a: "ct_ui_path c = Some p" "planned c b (w\<lparr> cw_applying := True \<rparr>) = Inr (ui, r)" "cw_ui w1 = Inr ui" "cw_applying w1"
      using apply_change_ok [OF x] assms(1) by auto
    obtain put cfg where n: "b = Inr put" "ct_file c = Inr cfg" "fst ` set put \<subseteq> set ui_keys"
        "merge (ct_ui c) (case cw_ui w of Inr u \<Rightarrow> u | Inl _ \<Rightarrow> UiConfig_default) put = Inr ui"
        "check_pinned (ct_cli c) (sources (ct_cli c) cfg ui (ct_env c)) put = Inr ()" "map_of put ''devices'' \<noteq> Some JNull"
        "resolve (ct_lib c) (ct_cli c) cfg (Some ui) (ct_env c) = Inr r" "check (ct_linux c) (rs_settings r) = Inr ()"
      using planned_ok [OF a(2)] by auto
    have "\<forall>k s. k \<in> fst ` set put \<and> (k, s) \<in> set (sources (ct_cli c) cfg ui (ct_env c)) \<longrightarrow> \<not> pinned s"
      using check_pinned_ok [OF n(5)] by blast
    moreover have "resolve_at_start (ct_lib c) (ct_linux c) (\<lambda>_. cw_ui w1) (ct_cli c) cfg (Some p) (ct_env c) = Inr (r, ui)"
      using n(7,8) a(3) by (simp add: resolve_at_start_def)
    ultimately show ?thesis
      using h Inr b a n by auto
  qed
next
  case False
  then show ?thesis
    using assms(2) by (auto simp: control_handle_def put_settings_def split: if_splits ctl_body.splits)
qed

text \<open>A UI that names a device and a gateway, on a server started without either.\<close>

definition ex_put :: "(string \<times> json) list" where
  "ex_put = [(''devices'', JLeaf (VDevices [])), (''forward.host'', JLeaf (VStr ''gateway''))]"

definition ex_ui_lib :: ui_lib where
  "ex_ui_lib =
     \<lparr> ub_to_json = (\<lambda>u. Ok (JObj [(''devices'', JNull), (''forward'', JObj [(''host'', JNull)])])),
       ub_from_json = (\<lambda>d. case d of
          JObj [(_, JLeaf _), (_, JObj [(_, JLeaf (VStr h))])] \<Rightarrow> if h = ''gateway'' then Ok ex_ui else Err ''unknown host''
        | _ \<Rightarrow> Err ''not a UI configuration''),
       ub_reload = Ok \<rparr>"

lemma ex_merge: "merge ex_ui_lib u ex_put = Inr ex_ui"
  by (simp add: merge_def ex_ui_lib_def ex_put_def pointer_def)

lemma ex_ui_runs:
  obtains r where "resolve ex_setlib ex_cli None (Some ex_ui) ex_env = Inr r" "check True (rs_settings r) = Inr ()" "se_ingest (rs_settings r) = None"
proof -
  obtain r where r: "resolve ex_setlib ex_cli None (Some ex_ui) ex_env = Inr r"
    using ex_resolves [of "Some ex_ui"] by blast
  have "se_ingest (rs_settings r) = None"
    using resolved_as_set [OF r]
    by (cases "se_ingest (rs_settings r)") (simp_all add: listener_on_def flag_or_ui_def ex_cli_def ex_ui_def UiConfig_default_def given_def)
  moreover have "se_devices (rs_settings r) \<noteq> []"
  proof -
    obtain s :: "(unit, string) Settings" and sugar tables where s: "choose_devices ex_cli None (Some ex_ui) = Inr (sugar, tables)"
        "build_devices ex_setlib (se_can_fd s) (default_database (rs_settings r)) (se_bus_offset s)
           (parse_ifaces sugar) tables = Inr (se_devices (rs_settings r))"
      by (rule resolveE [OF r]) (auto intro: that)
    then obtain t where "t \<in> set tables"
      using ex_build(3) by (auto simp: choose_devices_def ex_cli_def ex_ui_def)
    then show ?thesis
      using build_devices_all(2) [OF s(2)] by fastforce
  qed
  ultimately show ?thesis
    using that r by (simp add: check_def)
qed

definition ex_control :: "(unit, string) Settings \<Rightarrow> (unit, string) control" where
  "ex_control s =
     \<lparr> ct_lib = ex_setlib, ct_ui = ex_ui_lib, ct_linux = True, ct_cli = ex_cli, ct_env = ex_env, ct_ui_path = Some ''ui.toml'',
       ct_settings = s, ct_file = Ok None \<rparr>"

definition ex_control_world :: control_world where
  "ex_control_world = \<lparr> cw_ui = Ok UiConfig_default, cw_applying = False, cw_binds = [], cw_writes = [] \<rparr>"

lemma ex_checks:
  "check_keys ex_put = Inr ()" "check_pinned ex_cli (sources ex_cli None ex_ui ex_env) ex_put = Inr ()" "check_devices ex_put = Inr ()"
proof -
  show "check_keys ex_put = Inr ()"
    by (simp add: check_keys_def ex_put_def ui_keys_def scalar_settings_def)
  show "check_pinned ex_cli (sources ex_cli None ex_ui ex_env) ex_put = Inr ()"
    by (simp add: check_pinned_def ex_put_def sources_def scalar_settings_def source_def in_file_def flag_def given_def ex_cli_def pinned_def
        secret_source_def ex_env_def ex_ui_def UiConfig_default_def map_filter_simps Let_def)
  show "check_devices ex_put = Inr ()"
    by (simp add: check_devices_def ex_put_def)
qed

theorem accepted_change_is_what_starts_witness:
  "\<exists>s w' r. control_handle (ex_control s) (PUT, ''/v1/settings'', Body (Inr ex_put)) ex_control_world = ((Answer_ok 202, True), w') \<and>
     resolve_at_start ex_setlib True (\<lambda>_. cw_ui w') ex_cli None (Some ''ui.toml'') ex_env = Inr (r, ex_ui)"
proof -
  obtain r where r: "resolve ex_setlib ex_cli None (Some ex_ui) ex_env = Inr r" "check True (rs_settings r) = Inr ()" "se_ingest (rs_settings r) = None"
    by (rule ex_ui_runs)
  let ?c = "ex_control (rs_settings r)"
  have "planned ?c (Inr ex_put) (ex_control_world\<lparr> cw_applying := True \<rparr>) = Inr (ex_ui, r)"
    using r(1,2) by (simp add: planned_def ex_control_def ex_checks ex_merge)
  then obtain w' where w': "control_handle ?c (PUT, ''/v1/settings'', Body (Inr ex_put)) ex_control_world = ((Answer_ok 202, True), w')"
    using r(3) by (simp add: control_handle_def put_settings_def apply_change_def moved_def ui_write_def ex_control_def ex_control_world_def Let_def)
  have "\<forall>u. ub_reload (ct_ui ?c) u = Inr u"
    by (simp add: ex_control_def ex_ui_lib_def)
  from accepted_change_is_what_starts [OF this w'] show ?thesis
    using w' by (auto simp: ex_control_def ex_merge)
qed

end
