(* ===== verification/Gateway_Rows.thy ===== *)
theory Gateway_Rows
  imports Wire Rust_Text
begin

text \<open>
  The rows the gateway stores, and the text it hands PostgreSQL: \<^verbatim>\<open>FrameRow\<close>, \<^verbatim>\<open>CopyError\<close>,
  \<^verbatim>\<open>copy_text\<close> and \<^verbatim>\<open>refused_the_rows\<close> of \<^verbatim>\<open>crates/wiretap-backend/src/ingest/writer.rs\<close>.

  Beside the record codec of \<open>Wire\<close>, the code calls \<^verbatim>\<open>hex::encode\<close> and chrono's timestamp formatter,
  which refuses a timestamp out of its range.  They are fields of \<open>gatelib\<close>, and \<open>gate_laws\<close> states what
  is used of them.
\<close>

section \<open>Rows\<close>

record ('f, 'k) gatelib =
  gl_wire :: "('f, 'k) wslib"
  gl_TX :: u8
  gl_ID_ARB_MASK :: u32
  gl_timestamp :: "i64 \<Rightarrow> string option"
  gl_hex :: "u8 list \<Rightarrow> string"

record FrameRow =
  fr_ts_us :: i64
  fr_protocol :: Protocol
  fr_id :: u32
  fr_flags :: u8
  fr_dlc :: u16
  fr_data :: "u8 list"
  fr_bus :: u8
  fr_unit :: "int option"
  fr_func :: "int option"
  fr_crc_valid :: "bool option"

text \<open>\<open>None\<close> is the panic of \<^verbatim>\<open>.expect("a CAN record")\<close>.\<close>

definition FrameRow_new :: "('f, 'k) gatelib \<Rightarrow> i64 \<Rightarrow> u8 \<Rightarrow> u32 \<Rightarrow> u8 \<Rightarrow> u8 \<Rightarrow> u8 list \<Rightarrow> FrameRow option" where
  "FrameRow_new G ts_us kind id_flags flags bus data =
     (let L = gl_wire G;
          fields = rf_from_wire L kind id_flags flags;
          tx = (\<lambda>transmitted. if transmitted then gl_TX G else 0)
      in case fields of
           RF_Can _ transmitted \<Rightarrow>
             (case rf_to_can L fields bus data of
                None \<Rightarrow> None
              | Some frame \<Rightarrow>
                  Some \<lparr> fr_ts_us = ts_us, fr_protocol = P_Can, fr_id = cf_arb_id L frame,
                         fr_flags = can_flags_of L frame transmitted, fr_dlc = ucast (cf_dlc L frame),
                         fr_data = cf_data L frame, fr_bus = bus, fr_unit = None, fr_func = None,
                         fr_crc_valid = None \<rparr>)
         | RF_Modbus unit func crc_valid transmitted \<Rightarrow>
             Some \<lparr> fr_ts_us = ts_us, fr_protocol = P_ModbusRtu, fr_id = and id_flags (gl_ID_ARB_MASK G),
                    fr_flags = tx transmitted, fr_dlc = of_nat (length data), fr_data = data, fr_bus = bus,
                    fr_unit = Some (uint unit), fr_func = Some (uint func), fr_crc_valid = Some crc_valid \<rparr>
         | RF_RawSerial _ transmitted \<Rightarrow>
             Some \<lparr> fr_ts_us = ts_us, fr_protocol = P_Serial, fr_id = 0, fr_flags = tx transmitted,
                    fr_dlc = of_nat (length data), fr_data = data, fr_bus = bus, fr_unit = None,
                    fr_func = None, fr_crc_valid = None \<rparr>)"

text \<open>The closure of \<^verbatim>\<open>rows\<close> in \<^verbatim>\<open>ingest/mod.rs\<close>: the stamp is cast to \<^verbatim>\<open>i64\<close>.\<close>

definition record_row :: "('f, 'k) gatelib \<Rightarrow> u64 \<times> Record \<Rightarrow> FrameRow option" where
  "record_row G p =
     (case p of (ts_us, r) \<Rightarrow>
        FrameRow_new G (sint ts_us) (rec_kind r) (rec_id_flags r) (rec_flags r) (rec_bus r) (rec_payload r))"

section \<open>Text\<close>

record CopyError =
  ce_code :: "string option"
  ce_message :: string

text \<open>\<^verbatim>\<open>Display\<close> of an integer.\<close>

definition show_int :: "int \<Rightarrow> string" where
  "show_int i = (if i < 0 then CHR ''-'' # dec_digits (nat (- i)) else dec_digits (nat i))"

definition copy_bool :: "bool \<Rightarrow> char" where
  "copy_bool v = (if v then CHR ''t'' else CHR ''f'')"

text \<open>\<^verbatim>\<open>Nullable\<close>: the value, or backslash N.\<close>

definition backslash :: char where
  "backslash = char_of (92 :: nat)"

definition Nullable :: "string option \<Rightarrow> string" where
  "Nullable v = (case v of Some s \<Rightarrow> s | None \<Rightarrow> [backslash, CHR ''N''])"

definition refused_the_rows :: "string option \<Rightarrow> bool" where
  "refused_the_rows code = (case code of None \<Rightarrow> False | Some c \<Rightarrow> take 2 c \<in> {''22'', ''23''})"

definition tab :: char where
  "tab = char_of (9 :: nat)"

definition newline :: char where
  "newline = char_of (10 :: nat)"

text \<open>The arguments of the row's \<^verbatim>\<open>writeln!\<close>, as its format string lays them out.\<close>

definition columns :: "('f, 'k) gatelib \<Rightarrow> string \<Rightarrow> FrameRow \<Rightarrow> string list" where
  "columns G ts row =
     [ts, proto_as_str (gl_wire G) (fr_protocol row), dec_digits (unat (fr_id row)),
      dec_digits (unat (fr_flags row)), dec_digits (unat (fr_dlc row)),
      [backslash, backslash, CHR ''x''] @ gl_hex G (fr_data row), dec_digits (unat (fr_bus row)),
      Nullable (map_option show_int (fr_unit row)), Nullable (map_option show_int (fr_func row)),
      Nullable (map_option (\<lambda>v. [copy_bool v]) (fr_crc_valid row))]"

primrec copy_rows_text :: "('f, 'k) gatelib \<Rightarrow> string \<Rightarrow> FrameRow list \<Rightarrow> (CopyError, string) result" where
  "copy_rows_text G buf [] = Inr buf"
| "copy_rows_text G buf (row # rest) =
     (case gl_timestamp G (fr_ts_us row) of
        None \<Rightarrow> Inl \<lparr> ce_code = Some ''22008'',
                      ce_message = ''timestamp out of range: '' @ show_int (fr_ts_us row) \<rparr>
      | Some ts \<Rightarrow> copy_rows_text G (buf @ join_with [tab] (columns G ts row) @ [newline]) rest)"

definition copy_text :: "('f, 'k) gatelib \<Rightarrow> FrameRow list \<Rightarrow> (CopyError, string) result" where
  "copy_text G batch = copy_rows_text G [] batch"

section \<open>What the code relies on\<close>

text \<open>A formatted timestamp, a protocol's name and hex digits hold no separator, and each tells what it
  was made from.\<close>

definition plain :: "string \<Rightarrow> bool" where
  "plain s \<longleftrightarrow> tab \<notin> set s \<and> newline \<notin> set s"

definition gate_laws :: "('f, 'k) gatelib \<Rightarrow> bool" where
  "gate_laws G \<longleftrightarrow>
     (\<forall>t s. gl_timestamp G t = Some s \<longrightarrow> plain s \<and> (\<forall>t'. gl_timestamp G t' = Some s \<longrightarrow> t' = t)) \<and>
     (\<forall>d. plain (gl_hex G d)) \<and> inj (gl_hex G) \<and>
     (\<forall>p. plain (proto_as_str (gl_wire G) p) \<and> proto_parse (gl_wire G) (proto_as_str (gl_wire G) p) = Some p)"

section \<open>Reading the text back\<close>

lemma plain_simps [simp]:
  "plain []" "plain (c # s) \<longleftrightarrow> c \<noteq> tab \<and> c \<noteq> newline \<and> plain s" "plain (s @ t) \<longleftrightarrow> plain s \<and> plain t"
  by (auto simp: plain_def)

lemma char_codes [simp]:
  "backslash \<noteq> tab" "backslash \<noteq> newline" "tab \<noteq> newline" "newline \<noteq> tab"
  "CHR ''x'' \<noteq> tab" "CHR ''x'' \<noteq> newline" "CHR ''N'' \<noteq> tab" "CHR ''N'' \<noteq> newline" "CHR ''-'' \<noteq> tab"
  "CHR ''-'' \<noteq> newline" "copy_bool v \<noteq> tab" "copy_bool v \<noteq> newline"
  by (simp_all add: backslash_def tab_def newline_def copy_bool_def char_of_def bit_0)

lemma digits_plain [simp]: "plain (dec_digits n)"
proof -
  have "\<not> to_digit 10 tab \<noteq> None" "\<not> to_digit 10 newline \<noteq> None"
    by (simp_all add: to_digit_def tab_def newline_def)
  then show ?thesis
    using dec_digits_all [of n] by (auto simp: plain_def all_digits_def list_all_iff)
qed

lemma show_int_plain [simp]: "plain (show_int i)"
  by (simp add: show_int_def)

lemma Nullable_plain [simp]: "plain (Nullable v) \<longleftrightarrow> (\<forall>s. v = Some s \<longrightarrow> plain s)"
  by (simp add: Nullable_def split: option.splits)

lemma columns_plain:
  assumes "gate_laws G" "gl_timestamp G (fr_ts_us r) = Some ts" "c \<in> set (columns G ts r)"
  shows "plain c"
  using assms by (auto simp: columns_def gate_laws_def)

lemma dec_digits_inj [simp]: "dec_digits m = dec_digits n \<longleftrightarrow> m = n"
  using dec_value_digits by metis

lemma first_digit: "dec_digits n = c # s \<Longrightarrow> to_digit 10 c \<noteq> None"
  using dec_digits_all [of n] by (simp add: all_digits_def)

lemma no_sign [simp]: "CHR ''-'' # s \<noteq> dec_digits n" "dec_digits n \<noteq> CHR ''-'' # s" "dec_digits n \<noteq> backslash # s"
proof -
  have "to_digit 10 (CHR ''-'') = None" "to_digit 10 backslash = None"
    by (simp_all add: to_digit_def backslash_def)
  then show "dec_digits n \<noteq> CHR ''-'' # s" "dec_digits n \<noteq> backslash # s"
    using first_digit [of n "CHR ''-''" s] first_digit [of n backslash s] by blast+
  then show "CHR ''-'' # s \<noteq> dec_digits n"
    by metis
qed

lemma show_int_inj [simp]: "show_int i = show_int j \<longleftrightarrow> i = j"
  by (auto simp: show_int_def)

lemma Nullable_int_inj [simp]:
  "Nullable (map_option show_int u) = Nullable (map_option show_int v) \<longleftrightarrow> u = v"
proof -
  have "show_int i \<noteq> [backslash, CHR ''N'']" for i
    by (auto simp: show_int_def) (simp add: backslash_def char_of_def bit_0)
  from this this [symmetric] show ?thesis
    by (cases u; cases v) (simp_all add: Nullable_def)
qed

lemma Nullable_bool_inj [simp]:
  "Nullable (map_option (\<lambda>v. [copy_bool v]) u) = Nullable (map_option (\<lambda>v. [copy_bool v]) v) \<longleftrightarrow> u = v"
  by (cases u; cases v) (auto simp: Nullable_def copy_bool_def split: if_splits)

lemma columns_determine:
  assumes "gate_laws G" "gl_timestamp G (fr_ts_us r) = Some ts" "gl_timestamp G (fr_ts_us r') = Some ts'"
    and "columns G ts r = columns G ts' r'"
  shows "r = r'"
proof -
  have "fr_ts_us r = fr_ts_us r'" "fr_data r = fr_data r'"
    using assms by (auto simp: gate_laws_def columns_def dest: injD)
  moreover have "Some (fr_protocol r) = Some (fr_protocol r')"
    using assms unfolding gate_laws_def columns_def by (metis list.inject)
  ultimately show ?thesis
    using assms(4) by (cases r; cases r') (simp add: columns_def word_unat_eq_iff)
qed

definition copy_line :: "('f, 'k) gatelib \<Rightarrow> FrameRow \<Rightarrow> string" where
  "copy_line G r = join_with [tab] (columns G (the (gl_timestamp G (fr_ts_us r))) r)"

lemma copy_rows_text_Inr:
  "copy_rows_text G buf rows = Inr t \<longleftrightarrow>
     (\<forall>r \<in> set rows. gl_timestamp G (fr_ts_us r) \<noteq> None) \<and> t = buf @ concat (map (\<lambda>r. copy_line G r @ [newline]) rows)"
  by (induction rows arbitrary: buf) (auto simp: copy_line_def split: option.splits)

lemma newline_free:
  assumes "gate_laws G" "gl_timestamp G (fr_ts_us r) \<noteq> None"
  shows "newline \<notin> set (copy_line G r)" "split_on tab (copy_line G r) = columns G (the (gl_timestamp G (fr_ts_us r))) r"
proof -
  have p: "\<forall>c \<in> set (columns G (the (gl_timestamp G (fr_ts_us r))) r). plain c"
    using columns_plain [OF assms(1)] assms(2) by auto
  have "newline \<notin> set (join_with [tab] cs)" if "\<forall>c \<in> set cs. plain c" for cs
    using that by (induction "[tab]" cs rule: join_with.induct) (auto simp: plain_def)
  with p show "newline \<notin> set (copy_line G r)"
    by (simp add: copy_line_def)
  show "split_on tab (copy_line G r) = columns G (the (gl_timestamp G (fr_ts_us r))) r"
    unfolding copy_line_def using p by (intro split_join) (auto simp: plain_def columns_def)
qed

lemma split_lines:
  assumes "\<forall>r \<in> set rs. newline \<notin> set (f r)"
  shows "split_on newline (concat (map (\<lambda>r. f r @ [newline]) rs)) = map f rs @ [[]]"
  using assms by (induction rs) (auto simp: split_on_append)

text \<open>C36: the text of a batch has one line per row, in order, each of ten columns, and says all of the row:
  no other batch has that text.\<close>

theorem copy_text_is_lossless:
  assumes "gate_laws G" "copy_text G rows = Inr t"
  shows "map (split_on tab) (split_on newline t) =
      map (\<lambda>r. columns G (the (gl_timestamp G (fr_ts_us r))) r) rows @ [[[]]] \<and>
    (copy_text G rows' = Inr t \<longrightarrow> rows' = rows)"
proof -
  have lines: "map (split_on tab) (split_on newline u) =
      map (\<lambda>r. columns G (the (gl_timestamp G (fr_ts_us r))) r) rs @ [[[]]]"
    if "copy_text G rs = Inr u" for rs u
  proof -
    have ok: "\<forall>r \<in> set rs. gl_timestamp G (fr_ts_us r) \<noteq> None" and u: "u = concat (map (\<lambda>r. copy_line G r @ [newline]) rs)"
      using that by (simp_all add: copy_text_def copy_rows_text_Inr)
    have "split_on newline u = map (copy_line G) rs @ [[]]"
      unfolding u using newline_free(1) [OF assms(1)] ok by (intro split_lines) blast
    then show ?thesis
      using newline_free(2) [OF assms(1)] ok by simp
  qed
  have "rows' = rows" if rows': "copy_text G rows' = Inr t"
  proof (rule list.inj_map_strong [of _ _ "\<lambda>r. columns G (the (gl_timestamp G (fr_ts_us r))) r"
        "\<lambda>r. columns G (the (gl_timestamp G (fr_ts_us r))) r"])
    show "map (\<lambda>r. columns G (the (gl_timestamp G (fr_ts_us r))) r) rows' =
        map (\<lambda>r. columns G (the (gl_timestamp G (fr_ts_us r))) r) rows"
      using lines [OF assms(2)] lines [OF rows'] by simp
    fix a b
    assume "a \<in> set rows'" "b \<in> set rows"
      "columns G (the (gl_timestamp G (fr_ts_us a))) a = columns G (the (gl_timestamp G (fr_ts_us b))) b"
    moreover from this have "gl_timestamp G (fr_ts_us a) \<noteq> None" "gl_timestamp G (fr_ts_us b) \<noteq> None"
      using rows' assms(2) by (auto simp: copy_text_def copy_rows_text_Inr)
    ultimately show "a = b"
      by (intro columns_determine [OF assms(1)]) auto
  qed
  then show ?thesis
    using lines [OF assms(2)] by blast
qed

section \<open>From a sample to its row\<close>

text \<open>\<^verbatim>\<open>capture_frame_protocol_columns_check\<close> of the schema.\<close>

definition columns_check :: "('f, 'k) gatelib \<Rightarrow> FrameRow \<Rightarrow> bool" where
  "columns_check G row =
     (case fr_protocol row of
        P_Can \<Rightarrow> fr_unit row = None \<and> fr_func row = None \<and> fr_crc_valid row = None
      | P_ModbusRtu \<Rightarrow> fr_flags row \<in> {0, gl_TX G} \<and> fr_unit row \<noteq> None \<and> fr_func row \<noteq> None \<and> fr_crc_valid row \<noteq> None
      | P_Serial \<Rightarrow> fr_flags row \<in> {0, gl_TX G} \<and> fr_unit row = None \<and> fr_func row = None \<and> fr_crc_valid row = None)"

definition row_of :: "('f, 'k) gatelib \<Rightarrow> Sample \<Rightarrow> FrameRow \<Rightarrow> bool" where
  "row_of G s row \<longleftrightarrow>
     fr_ts_us row = max (sample_ts_us s) 0 \<and> fr_protocol row = sample_protocol s \<and> fr_bus row = bus_no (sample_bus s) \<and>
     (case s of
        Can c \<Rightarrow> fr_id row = c_arb_id c \<and> fr_data row = c_data c \<and>
          fr_dlc row = ucast (cf_dlc (gl_wire G) (can_frame (gl_wire G) c)) \<and>
          (\<exists>g. same_frame (gl_wire G) g (can_frame (gl_wire G) c) \<and>
               fr_flags row = can_flags_of (gl_wire G) g (c_dir c = Tx))
      | Modbus m \<Rightarrow> fr_data row = m_raw m \<and> fr_dlc row = of_nat (length (m_raw m)) \<and> fr_flags row = 0 \<and>
          fr_unit row = Some (uint (m_unit m)) \<and> fr_func row = Some (uint (m_func m)) \<and>
          fr_crc_valid row = Some (m_crc_valid m)
      | Serial r \<Rightarrow> fr_data row = r_data r \<and> fr_dlc row = of_nat (length (r_data r)) \<and> fr_id row = 0 \<and> fr_flags row = 0)"

lemma wire_ts_sint:
  assumes "in_i64 (sample_ts_us s)"
  shows "sint (wire_ts_us s) = max (sample_ts_us s) 0"
  using assms
  by (simp add: wire_ts_us_def in_i64_def i64_max_def sint_sbintrunc' signed_take_bit_int_eq_self)

lemma FrameRow_new_check: "FrameRow_new G t k i f b d = Some row \<Longrightarrow> columns_check G row"
  by (auto simp: FrameRow_new_def columns_check_def Let_def split: RecordFields.splits option.splits if_splits)

lemma record_row_carried:
  assumes "carries (gl_wire G) b p" "br_ts_us b = wire_ts_us s" "in_i64 (sample_ts_us s)"
  shows "record_row G p = FrameRow_new G (max (sample_ts_us s) 0) (rec_kind (snd p)) (rec_id_flags (snd p))
      (rec_flags (snd p)) (br_bus b) (br_payload b)"
    "rf_from_wire (gl_wire G) (rec_kind (snd p)) (rec_id_flags (snd p)) (rec_flags (snd p)) = br_fields b"
  using assms wire_ts_sint [OF assms(3)] by (auto simp: record_row_def carries_def split: prod.splits)

lemmas row_simps = FrameRow_new_def row_of_def wire_record_def parts_def sample_protocol_def sample_bus_def Let_def

lemma record_row_of:
  assumes "can_laws (gl_wire G)" "record_laws (gl_wire G)" "sample_ok s" "in_i64 (sample_ts_us s)"
    and "carries (gl_wire G) (wire_record (gl_wire G) s) p"
  shows "\<exists>row. record_row G p = Some row \<and> row_of G s row"
proof (cases s)
  case (Can c)
  let ?L = "gl_wire G" and ?tx = "c_dir c = Tx"
  have ok: "can_ok c"
    using assms(3) Can by (simp add: sample_ok_def)
  note f = can_frame_fields [OF assms(1) ok]
  obtain k where k: "rf_from_can ?L (can_frame ?L c) ?tx = RF_Can k ?tx"
    using assms(2) unfolding record_laws_def by metis
  obtain g where g: "rf_to_can ?L (RF_Can k ?tx) (bus_no (c_bus c)) (c_data c) = Some g" "same_frame ?L g (can_frame ?L c)"
    using assms(2) k f(7) unfolding record_laws_def by metis
  have fields: "cf_arb_id ?L g = c_arb_id c" "cf_data ?L g = c_data c" "cf_dlc ?L g = cf_dlc ?L (can_frame ?L c)"
    using g(2) f by (simp_all add: same_frame_def)
  have b: "br_ts_us (wire_record ?L s) = wire_ts_us s"
    by (simp add: wire_record_def split: prod.splits)
  note row = record_row_carried [OF assms(5) b assms(4)]
  show ?thesis
    unfolding row(1) using row(2) g Can k fields by (auto simp: row_simps)
next
  case (Modbus m)
  have b: "br_ts_us (wire_record (gl_wire G) s) = wire_ts_us s"
    by (simp add: wire_record_def split: prod.splits)
  note row = record_row_carried [OF assms(5) b assms(4)]
  show ?thesis
    unfolding row(1) using row(2) Modbus by (simp add: row_simps)
next
  case (Serial x)
  have b: "br_ts_us (wire_record (gl_wire G) s) = wire_ts_us s"
    by (simp add: wire_record_def split: prod.splits)
  note row = record_row_carried [OF assms(5) b assms(4)]
  show ?thesis
    unfolding row(1) using row(2) Serial by (simp add: row_simps)
qed


section \<open>A gateway's libraries\<close>

text \<open>For the witnesses: a timestamp is its decimal number, up to the year 9999.\<close>

definition hex_byte :: "u8 \<Rightarrow> string" where
  "hex_byte b = [hex_digit (unat b div 16), hex_digit (unat b mod 16)]"

definition ref_gatelib :: "(RefFrame, RefFrame) gatelib" where
  "ref_gatelib =
     \<lparr> gl_wire = ref_lib, gl_TX = 32, gl_ID_ARB_MASK = 536870911,
       gl_timestamp = (\<lambda>t. if 0 \<le> t \<and> t < 253402300800000000 then Some (dec_digits (nat t)) else None),
       gl_hex = (\<lambda>d. concat (map hex_byte d)) \<rparr>"

lemma high_digit [simp]: "unat b div 16 < 16" for b :: u8
  using unat_lt_u8 [of b] by (simp only: less_mult_imp_div_less)

lemma hex_byte_inj [simp]: "hex_byte a = hex_byte b \<longleftrightarrow> a = b"
proof
  have inj: "m = n" if "hex_digit m = hex_digit n" "m < 16" "n < 16" for m n
    using arg_cong [OF that(1), of "of_char :: char \<Rightarrow> nat"] that(2,3) by (auto simp: hex_digit_def split: if_splits)
  assume "hex_byte a = hex_byte b"
  then have "unat a div 16 = unat b div 16" "unat a mod 16 = unat b mod 16"
    by (auto simp: hex_byte_def intro!: inj)
  then have "unat a = unat b"
    by (metis div_mult_mod_eq)
  then show "a = b"
    by (simp add: word_unat_eq_iff)
qed simp

lemma hex_bytes_inj: "concat (map hex_byte d) = concat (map hex_byte e) \<Longrightarrow> d = e"
proof (induction d arbitrary: e)
  case Nil
  then show ?case
    by (cases e) (auto simp: hex_byte_def)
next
  case (Cons a d)
  then obtain b e' where "e = b # e'"
    by (cases e) (auto simp: hex_byte_def)
  then show ?case
    using Cons hex_byte_inj [of a b] by (auto simp: hex_byte_def)
qed

lemma hex_digit_plain [simp]: "n < 16 \<Longrightarrow> hex_digit n \<noteq> tab \<and> hex_digit n \<noteq> newline"
proof -
  assume "n < 16"
  then have "(of_char (hex_digit n) :: nat) \<ge> 48"
    by (simp add: hex_digit_def)
  then show ?thesis
    by (auto simp: tab_def newline_def)
qed

lemma ref_gate_laws: "gate_laws ref_gatelib"
proof -
  have "plain (concat (map hex_byte d))" for d
  proof (induction d)
    case (Cons b d)
    then show ?case
      by (simp add: hex_byte_def)
  qed simp
  moreover have "plain (proto_as_str ref_lib p) \<and> proto_parse ref_lib (proto_as_str ref_lib p) = Some p" for p
    by (cases p) (simp_all add: ref_lib_def tab_def newline_def char_of_def bit_0)
  ultimately show ?thesis
    by (auto simp: gate_laws_def ref_gatelib_def hex_bytes_inj intro!: injI)
qed

definition ex_row :: FrameRow where
  "ex_row = \<lparr> fr_ts_us = 5, fr_protocol = P_ModbusRtu, fr_id = 288, fr_flags = 0, fr_dlc = 2, fr_data = [1, 32], fr_bus = 2,
              fr_unit = Some 1, fr_func = Some 32, fr_crc_valid = Some True \<rparr>"

lemma ex_copy_text:
  "copy_text ref_gatelib [ex_row] = Inr (''5'' @ [tab] @ ''modbus_rtu'' @ [tab] @ ''288'' @ [tab] @ ''0'' @ [tab] @ ''2'' @ [tab] @
     [backslash, backslash] @ ''x0120'' @ [tab] @ ''2'' @ [tab] @ ''1'' @ [tab] @ ''32'' @ [tab] @ ''t'' @ [newline])"
  by (simp add: copy_text_def ref_gatelib_def ref_lib_def ex_row_def columns_def dec_digits.simps hex_byte_def hex_digit_def
      Nullable_def show_int_def copy_bool_def char_of_def bit_0)

theorem copy_text_is_lossless_witness:
  "map (split_on tab) (split_on newline (projr (copy_text ref_gatelib [ex_row]))) =
     [columns ref_gatelib ''5'' ex_row, [[]]] \<and>
   copy_text ref_gatelib [ex_row\<lparr> fr_crc_valid := None \<rparr>] \<noteq> copy_text ref_gatelib [ex_row]"
proof -
  have ts: "gl_timestamp ref_gatelib 5 = Some ''5''"
    by (simp add: ref_gatelib_def dec_digits.simps char_of_def bit_0)
  show ?thesis
    using copy_text_is_lossless [OF ref_gate_laws ex_copy_text, of "[ex_row\<lparr> fr_crc_valid := None \<rparr>]"] ts ex_copy_text
    by (auto simp: ex_row_def)
qed


end
