(* ===== verification/Gateway_Buffer.thy ===== *)
theory Gateway_Buffer
  imports Gateway_Rows
begin

text \<open>
  How a batch waits for a database that is behind, and how the buffer is drained: \<^verbatim>\<open>copy_rows\<close>,
  \<^verbatim>\<open>buffer_rows\<close>, \<^verbatim>\<open>has_pending\<close>, \<^verbatim>\<open>drain_owed\<close>, \<^verbatim>\<open>drain_pending\<close>, \<^verbatim>\<open>move_pending\<close> and \<^verbatim>\<open>refresh_drained\<close> of
  \<^verbatim>\<open>crates/wiretap-backend/src/ingest/writer.rs\<close>.

  Every \<^verbatim>\<open>.await\<close> on PostgreSQL is one step, so that transactions interleave as they do on a server. The
  database is modelled as far as the statements of this file ask it, at PostgreSQL's default isolation: a
  statement sees what is committed when it starts and its own transaction's changes, an advisory lock is
  held to the end of the transaction, and a transaction's changes appear when it commits. Each answer
  comes from a script: the statement is carried out, or it fails with whatever error the server or the
  connection gave, or a commit is carried out and its answer lost.
\<close>

section \<open>A capture database\<close>

definition SCHEMA_VERSION :: int where
  "SCHEMA_VERSION = 5"

text \<open>A stored row has its \<^verbatim>\<open>ingest_ts\<close>, the start of the transaction that wrote it. \<open>None\<close> is a table that does
  not exist. The locks are named by the transactions that hold them.\<close>

type_synonym stored = "int \<times> FrameRow"

record pg =
  pg_version :: "int option"
  pg_frame :: "stored list"
  pg_pending :: "stored list option"
  pg_drained :: "(i64 \<times> i64) list option"
  pg_shared :: "nat list"
  pg_exclusive :: "nat option"
  pg_creating :: "nat option"

datatype answer = Answers | Busy | Fails "string option" string | Lost "string option" string

definition CopyError_postgres :: "string \<Rightarrow> string option \<Rightarrow> string \<Rightarrow> CopyError" where
  "CopyError_postgres what code e = \<lparr> ce_code = code, ce_message = what @ '': '' @ e \<rparr>"

definition pool_error :: "string \<Rightarrow> CopyError" where
  "pool_error e = \<lparr> ce_code = None, ce_message = ''pool: '' @ e \<rparr>"

section \<open>One batch\<close>

datatype table = Frame_table | Pending_table

datatype copy_stage = Copy_in | Copy_send | Copy_finish

datatype Written = Buffered | Live

text \<open>Where \<^verbatim>\<open>buffer_rows\<close> has got to: what it awaits next, or what it returned.\<close>

datatype wpc =
    W_Text | W_Pool | W_Begin | W_Lock | W_Version | W_Has_pending | W_Create_lock | W_Create
  | W_Copy copy_stage table | W_Commit table | W_Ok Written | W_Err CopyError

record writer =
  wr_rows :: "FrameRow list"
  wr_held :: bool
  wr_now :: int
  wr_creates :: bool
  wr_pc :: wpc

definition W_release :: "nat \<Rightarrow> pg \<Rightarrow> pg" where
  "W_release t p =
     p\<lparr> pg_shared := removeAll t (pg_shared p),
        pg_creating := (if pg_creating p = Some t then None else pg_creating p) \<rparr>"

definition stored_rows :: "writer \<Rightarrow> stored list" where
  "stored_rows w = map (Pair (wr_now w)) (wr_rows w)"

definition W_store :: "table \<Rightarrow> writer \<Rightarrow> pg \<Rightarrow> pg" where
  "W_store tbl w p =
     (case tbl of
        Frame_table \<Rightarrow> p\<lparr> pg_frame := pg_frame p @ stored_rows w \<rparr>
      | Pending_table \<Rightarrow>
          p\<lparr> pg_pending := Some ((case pg_pending p of Some rows \<Rightarrow> rows | None \<Rightarrow> []) @ stored_rows w) \<rparr>)"

definition W_fail :: "nat \<Rightarrow> CopyError \<Rightarrow> pg \<times> writer \<Rightarrow> (pg \<times> writer) option" where
  "W_fail t e s = (case s of (p, w) \<Rightarrow> Some (W_release t p, w\<lparr> wr_pc := W_Err e \<rparr>))"

definition W_goto :: "wpc \<Rightarrow> pg \<times> writer \<Rightarrow> (pg \<times> writer) option" where
  "W_goto pc s = (case s of (p, w) \<Rightarrow> Some (p, w\<lparr> wr_pc := pc \<rparr>))"

definition Written_of :: "table \<Rightarrow> Written" where
  "Written_of tbl = (case tbl of Frame_table \<Rightarrow> Live | Pending_table \<Rightarrow> Buffered)"

text \<open>What an error becomes: \<^verbatim>\<open>map_err\<close> of the statement awaited.\<close>

definition W_error :: "wpc \<Rightarrow> string option \<Rightarrow> string \<Rightarrow> CopyError" where
  "W_error pc code e =
     (case pc of
        W_Begin \<Rightarrow> CopyError_postgres ''begin'' code e
      | W_Lock \<Rightarrow> CopyError_postgres ''buffer lock'' code e
      | W_Create_lock \<Rightarrow> CopyError_postgres ''create lock'' code e
      | W_Create \<Rightarrow> CopyError_postgres ''create buffer'' code e
      | W_Copy Copy_in _ \<Rightarrow> CopyError_postgres ''copy_in'' code e
      | W_Copy Copy_send _ \<Rightarrow> CopyError_postgres ''copy send'' code e
      | W_Copy Copy_finish _ \<Rightarrow> CopyError_postgres ''copy finish'' code e
      | W_Commit _ \<Rightarrow> CopyError_postgres ''commit'' code e
      | _ \<Rightarrow> pool_error e)"

text \<open>The statement a batch awaits, carried out. \<open>None\<close> where it waits for a lock, and once it has returned.
  \<^verbatim>\<open>COPY\<close> into a table that is not there is an error.\<close>

definition buffer_carry_out :: "('f, 'k) gatelib \<Rightarrow> nat \<Rightarrow> pg \<times> writer \<Rightarrow> (pg \<times> writer) option" where
  "buffer_carry_out G t s =
     (case s of (p, w) \<Rightarrow>
      case wr_pc w of
        W_Text \<Rightarrow> (case copy_text G (wr_rows w) of Inl e \<Rightarrow> W_fail t e s | Inr _ \<Rightarrow> W_goto W_Pool s)
      | W_Pool \<Rightarrow> W_goto W_Begin s
      | W_Begin \<Rightarrow> W_goto W_Lock s
      | W_Lock \<Rightarrow>
          if pg_exclusive p \<noteq> None
          then W_fail t \<lparr> ce_code = None, ce_message = ''the buffer is being drained; retry shortly'' \<rparr> s
          else W_goto (if wr_held w then W_Has_pending else W_Version) (p\<lparr> pg_shared := t # pg_shared p \<rparr>, w)
      | W_Version \<Rightarrow> W_goto (if pg_version p = Some SCHEMA_VERSION then W_Copy Copy_in Frame_table else W_Has_pending) s
      | W_Has_pending \<Rightarrow> W_goto (if pg_pending p \<noteq> None then W_Copy Copy_in Pending_table else W_Create_lock) s
      | W_Create_lock \<Rightarrow>
          if pg_creating p = None then W_goto W_Create (p\<lparr> pg_creating := Some t \<rparr>, w) else None
      | W_Create \<Rightarrow> W_goto (W_Copy Copy_in Pending_table) (p, w\<lparr> wr_creates := True \<rparr>)
      | W_Copy Copy_in tbl \<Rightarrow>
          if tbl = Pending_table \<and> pg_pending p = None \<and> \<not> wr_creates w
          then W_fail t (W_error (W_Copy Copy_in tbl) (Some ''42P01'') ''relation does not exist'') s
          else W_goto (W_Copy Copy_send tbl) s
      | W_Copy Copy_send tbl \<Rightarrow> W_goto (W_Copy Copy_finish tbl) s
      | W_Copy Copy_finish tbl \<Rightarrow> W_goto (W_Commit tbl) s
      | W_Commit tbl \<Rightarrow> W_goto (W_Ok (Written_of tbl)) (W_release t (W_store tbl w p), w)
      | W_Ok _ \<Rightarrow> None
      | W_Err _ \<Rightarrow> None)"

text \<open>\<open>Busy\<close>: \<^verbatim>\<open>pg_try_advisory_xact_lock_shared\<close> also refuses a lock a drain waits for.\<close>

definition buffer_step :: "('f, 'k) gatelib \<Rightarrow> nat \<Rightarrow> answer \<Rightarrow> pg \<times> writer \<Rightarrow> (pg \<times> writer) option" where
  "buffer_step G t a s =
     (case s of (p, w) \<Rightarrow>
      case wr_pc w of
        W_Ok _ \<Rightarrow> None
      | W_Err _ \<Rightarrow> None
      | pc \<Rightarrow>
          (case a of
             Answers \<Rightarrow> buffer_carry_out G t s
           | Busy \<Rightarrow>
               if pc = W_Lock
               then W_fail t \<lparr> ce_code = None, ce_message = ''the buffer is being drained; retry shortly'' \<rparr> s
               else None
           | Fails code e \<Rightarrow> if pc = W_Text then None else W_fail t (W_error pc code e) s
           | Lost code e \<Rightarrow>
               (case pc of
                  W_Commit tbl \<Rightarrow> W_fail t (W_error pc code e) (W_store tbl w p, w)
                | _ \<Rightarrow> None)))"

section \<open>A drain\<close>

datatype dpc =
    D_Check | D_Begin | D_Lock | D_Check_again | D_Span | D_Insert | D_Drop | D_Commit | D_Ok nat | D_Err string

record drainer =
  dr_span :: "(i64 \<times> i64) list"
  dr_rows :: "stored list"
  dr_pc :: dpc

definition D_release :: "nat \<Rightarrow> pg \<Rightarrow> pg" where
  "D_release t p = p\<lparr> pg_exclusive := (if pg_exclusive p = Some t then None else pg_exclusive p) \<rparr>"

definition D_goto :: "dpc \<Rightarrow> pg \<times> drainer \<Rightarrow> (pg \<times> drainer) option" where
  "D_goto pc s = (case s of (p, d) \<Rightarrow> Some (p, d\<lparr> dr_pc := pc \<rparr>))"

definition D_return :: "nat \<Rightarrow> dpc \<Rightarrow> pg \<times> drainer \<Rightarrow> (pg \<times> drainer) option" where
  "D_return t pc s = (case s of (p, d) \<Rightarrow> Some (D_release t p, d\<lparr> dr_pc := pc \<rparr>))"

text \<open>\<^verbatim>\<open>SELECT min(ts), max(ts) ... HAVING count(*) > 0\<close>.\<close>

definition span_of :: "stored list \<Rightarrow> (i64 \<times> i64) list" where
  "span_of rows =
     (let ts = map (\<lambda>r. fr_ts_us (snd r)) rows in
      case ts of [] \<Rightarrow> [] | t # rest \<Rightarrow> [(fold min rest t, fold max rest t)])"

definition drain_commit :: "drainer \<Rightarrow> pg \<Rightarrow> pg" where
  "drain_commit d p =
     p\<lparr> pg_frame := pg_frame p @ dr_rows d, pg_pending := None,
        pg_drained := Some ((case pg_drained p of Some spans \<Rightarrow> spans | None \<Rightarrow> []) @ dr_span d) \<rparr>"

definition D_error :: "dpc \<Rightarrow> string \<Rightarrow> string" where
  "D_error pc e =
     (case pc of
        D_Begin \<Rightarrow> ''drain begin: '' @ e
      | D_Lock \<Rightarrow> ''drain lock: '' @ e
      | D_Span \<Rightarrow> ''drain span: '' @ e
      | D_Insert \<Rightarrow> ''drain: '' @ e
      | D_Drop \<Rightarrow> ''drain drop: '' @ e
      | D_Commit \<Rightarrow> ''drain commit: '' @ e
      | _ \<Rightarrow> ''buffer check: '' @ e)"

definition drain_carry_out :: "nat \<Rightarrow> pg \<times> drainer \<Rightarrow> (pg \<times> drainer) option" where
  "drain_carry_out t s =
     (case s of (p, d) \<Rightarrow>
      case dr_pc d of
        D_Check \<Rightarrow> D_goto (if pg_pending p = None then D_Ok 0 else D_Begin) s
      | D_Begin \<Rightarrow> D_goto D_Lock s
      | D_Lock \<Rightarrow>
          if pg_shared p = [] \<and> pg_exclusive p = None then D_goto D_Check_again (p\<lparr> pg_exclusive := Some t \<rparr>, d)
          else None
      | D_Check_again \<Rightarrow> if pg_pending p = None then D_return t (D_Ok 0) s else D_goto D_Span s
      | D_Span \<Rightarrow>
          (case pg_pending p of
             Some rows \<Rightarrow> D_goto D_Insert (p, d\<lparr> dr_span := span_of rows \<rparr>)
           | None \<Rightarrow> D_return t (D_Err (D_error D_Span ''relation does not exist'')) s)
      | D_Insert \<Rightarrow>
          (case pg_pending p of
             Some rows \<Rightarrow> D_goto D_Drop (p, d\<lparr> dr_rows := rows \<rparr>)
           | None \<Rightarrow> D_return t (D_Err (D_error D_Insert ''relation does not exist'')) s)
      | D_Drop \<Rightarrow> D_goto D_Commit s
      | D_Commit \<Rightarrow> D_return t (D_Ok (length (dr_rows d))) (drain_commit d p, d)
      | D_Ok _ \<Rightarrow> None
      | D_Err _ \<Rightarrow> None)"

definition drain_step :: "nat \<Rightarrow> answer \<Rightarrow> pg \<times> drainer \<Rightarrow> (pg \<times> drainer) option" where
  "drain_step t a s =
     (case s of (p, d) \<Rightarrow>
      case dr_pc d of
        D_Ok _ \<Rightarrow> None
      | D_Err _ \<Rightarrow> None
      | pc \<Rightarrow>
          (case a of
             Answers \<Rightarrow> drain_carry_out t s
           | Busy \<Rightarrow> None
           | Fails code e \<Rightarrow> D_return t (D_Err (D_error pc e)) s
           | Lost code e \<Rightarrow> if pc = D_Commit then D_return t (D_Err (D_error pc e)) (drain_commit d p, d) else None))"

section \<open>The rest of the file\<close>

text \<open>\<^verbatim>\<open>copy_rows\<close>, straight into \<^verbatim>\<open>capture_frame\<close> and outside any transaction of its own: \<open>stage\<close> is the call an
  error answers.\<close>

definition copy_rows :: "('f, 'k) gatelib \<Rightarrow> int \<Rightarrow> FrameRow list \<Rightarrow> wpc \<Rightarrow> answer \<Rightarrow> pg \<Rightarrow> (CopyError, unit) result \<times> pg" where
  "copy_rows G now_us rows stage a p =
     (case copy_text G rows of
        Inl e \<Rightarrow> (Inl e, p)
      | Inr _ \<Rightarrow>
          (case a of
             Answers \<Rightarrow> (Inr (), p\<lparr> pg_frame := pg_frame p @ map (Pair now_us) rows \<rparr>)
           | Lost code e \<Rightarrow> (Inl (W_error (W_Copy Copy_finish Frame_table) code e), p\<lparr> pg_frame := pg_frame p @ map (Pair now_us) rows \<rparr>)
           | Fails code e \<Rightarrow> (Inl (W_error stage code e), p)
           | Busy \<Rightarrow> (Inl (W_error stage None []), p)))"

definition has_pending :: "pg \<Rightarrow> bool" where
  "has_pending p \<longleftrightarrow> pg_pending p \<noteq> None"

definition drain_owed :: "pg \<Rightarrow> bool" where
  "drain_owed p \<longleftrightarrow> pg_pending p \<noteq> None \<or> pg_drained p \<noteq> None"

text \<open>\<^verbatim>\<open>move_pending\<close>: the buffer is copied, not emptied, and the copy is all or nothing.\<close>

definition move_pending :: "answer \<Rightarrow> pg \<Rightarrow> pg \<Rightarrow> (string, nat) result \<times> pg" where
  "move_pending a source target =
     (case pg_pending source of
        None \<Rightarrow> (Inr 0, target)
      | Some rows \<Rightarrow>
          (let created = target\<lparr> pg_pending := Some (case pg_pending target of Some ps \<Rightarrow> ps | None \<Rightarrow> []) \<rparr>;
               moved = created\<lparr> pg_pending := Some (the (pg_pending created) @ rows) \<rparr>
           in case a of
                Answers \<Rightarrow> (Inr (length rows), moved)
              | Lost code e \<Rightarrow> (Inl (''move write: '' @ e), moved)
              | Fails code e \<Rightarrow> (Inl (''move write: '' @ e), created)
              | Busy \<Rightarrow> (Inl (''move create: ''), target)))"

text \<open>\<^verbatim>\<open>refresh_drained\<close>: \<open>refresh\<close> is \<^verbatim>\<open>schema::refresh_rollup_span\<close>.\<close>

definition refresh_drained :: "(i64 \<Rightarrow> i64 \<Rightarrow> (string, unit) result) \<Rightarrow> pg \<Rightarrow> (string, unit) result \<times> pg" where
  "refresh_drained refresh p =
     (case pg_drained p of
        None \<Rightarrow> (Inr (), p)
      | Some spans \<Rightarrow>
          (let r = (case spans of
                      [] \<Rightarrow> Inr ()
                    | (a, b) # rest \<Rightarrow> refresh (fold min (map fst rest) a) (fold max (map snd rest) b))
           in case r of Inl e \<Rightarrow> (Inl e, p) | Inr _ \<Rightarrow> (Inr (), p\<lparr> pg_drained := None \<rparr>)))"

section \<open>Interleavings\<close>

text \<open>A database with the batches and drains under way on it. \<open>sy_log\<close> is history: what each batch committed.
  \<open>sy_swept\<close> too: a drain has found, under its lock, that nothing is left in the buffer. A drain starts only
  once the database is at this build's schema, as both its callers make sure, and a database never goes
  back a version.\<close>

record sys =
  sy_pg :: pg
  sy_writers :: "nat \<Rightarrow> writer option"
  sy_drainers :: "nat \<Rightarrow> drainer option"
  sy_log :: "(nat \<times> table \<times> stored list) list"
  sy_swept :: bool

datatype act =
    Start_write nat "FrameRow list" bool int
  | Start_drain nat
  | Write nat answer
  | Drain nat answer
  | Migrated int

definition write_commits :: "answer \<Rightarrow> writer \<Rightarrow> table option" where
  "write_commits a w =
     (case (wr_pc w, a) of
        (W_Commit tbl, Answers) \<Rightarrow> Some tbl
      | (W_Commit tbl, Lost _ _) \<Rightarrow> Some tbl
      | _ \<Rightarrow> None)"

definition drain_sweeps :: "answer \<Rightarrow> pg \<Rightarrow> drainer \<Rightarrow> bool" where
  "drain_sweeps a p d \<longleftrightarrow>
     dr_pc d = D_Check_again \<and> a = Answers \<and> pg_pending p = None \<or>
     dr_pc d = D_Commit \<and> (case a of Answers \<Rightarrow> True | Lost _ _ \<Rightarrow> True | _ \<Rightarrow> False)"

fun act_step :: "('f, 'k) gatelib \<Rightarrow> act \<Rightarrow> sys \<Rightarrow> sys option" where
  "act_step G (Start_write t rows held now_us) s =
     (if sy_writers s t = None
      then Some (s\<lparr> sy_writers := (sy_writers s)(t \<mapsto>
             \<lparr> wr_rows = rows, wr_held = held, wr_now = now_us, wr_creates = False, wr_pc = W_Text \<rparr>) \<rparr>)
      else None)"
| "act_step G (Start_drain t) s =
     (if sy_drainers s t = None \<and> pg_version (sy_pg s) = Some SCHEMA_VERSION
      then Some (s\<lparr> sy_drainers := (sy_drainers s)(t \<mapsto> \<lparr> dr_span = [], dr_rows = [], dr_pc = D_Check \<rparr>) \<rparr>)
      else None)"
| "act_step G (Write t a) s =
     (case sy_writers s t of
        None \<Rightarrow> None
      | Some w \<Rightarrow>
          (case buffer_step G t a (sy_pg s, w) of
             None \<Rightarrow> None
           | Some (p, w') \<Rightarrow>
               Some (s\<lparr> sy_pg := p, sy_writers := (sy_writers s)(t \<mapsto> w'),
                        sy_log := (case write_commits a w of
                                     Some tbl \<Rightarrow> sy_log s @ [(t, tbl, stored_rows w)]
                                   | None \<Rightarrow> sy_log s) \<rparr>)))"
| "act_step G (Drain t a) s =
     (case sy_drainers s t of
        None \<Rightarrow> None
      | Some d \<Rightarrow>
          (case drain_step t a (sy_pg s, d) of
             None \<Rightarrow> None
           | Some (p, d') \<Rightarrow>
               Some (s\<lparr> sy_pg := p, sy_drainers := (sy_drainers s)(t \<mapsto> d'),
                        sy_swept := (sy_swept s \<or> drain_sweeps a (sy_pg s) d) \<rparr>)))"
| "act_step G (Migrated v) s =
     (if v \<le> SCHEMA_VERSION \<and> (case pg_version (sy_pg s) of Some u \<Rightarrow> u \<le> v | None \<Rightarrow> True)
      then Some (s\<lparr> sy_pg := (sy_pg s)\<lparr> pg_version := Some v \<rparr> \<rparr>)
      else None)"

inductive sys_reach :: "('f, 'k) gatelib \<Rightarrow> sys \<Rightarrow> sys \<Rightarrow> bool" for G s0 where
  start: "sys_reach G s0 s0"
| step: "sys_reach G s0 s \<Longrightarrow> act_step G a s = Some s' \<Longrightarrow> sys_reach G s0 s'"

definition fresh_sys :: "pg \<Rightarrow> sys" where
  "fresh_sys p =
     \<lparr> sy_pg = p\<lparr> pg_shared := [], pg_exclusive := None, pg_creating := None \<rparr>,
       sy_writers = (\<lambda>_. None), sy_drainers = (\<lambda>_. None), sy_log = [], sy_swept = False \<rparr>"

inductive_cases sys_reachE: "sys_reach G s0 s"

section \<open>What a step does\<close>

fun in_tx :: "wpc \<Rightarrow> bool" where
  "in_tx W_Text = False" | "in_tx W_Pool = False" | "in_tx W_Begin = False" | "in_tx W_Lock = False"
| "in_tx (W_Ok _) = False" | "in_tx (W_Err _) = False" | "in_tx _ = True"

fun to_buffer :: "wpc \<Rightarrow> bool" where
  "to_buffer W_Has_pending = True" | "to_buffer W_Create_lock = True" | "to_buffer W_Create = True"
| "to_buffer (W_Copy _ tbl) = (tbl = Pending_table)" | "to_buffer (W_Commit tbl) = (tbl = Pending_table)"
| "to_buffer _ = False"

fun returned :: "wpc \<Rightarrow> bool" where
  "returned (W_Ok _) = True" | "returned (W_Err _) = True" | "returned _ = False"

lemmas W_defs = W_fail_def W_goto_def W_release_def

lemma W_store_simps [simp]:
  "pg_version (W_store tbl w p) = pg_version p" "pg_shared (W_store tbl w p) = pg_shared p"
  "pg_exclusive (W_store tbl w p) = pg_exclusive p" "pg_drained (W_store tbl w p) = pg_drained p"
  by (simp_all add: W_store_def split: table.splits)

lemma W_release_simps [simp]:
  "pg_version (W_release t p) = pg_version p" "pg_frame (W_release t p) = pg_frame p"
  "pg_pending (W_release t p) = pg_pending p" "pg_drained (W_release t p) = pg_drained p"
  "pg_exclusive (W_release t p) = pg_exclusive p" "pg_shared (W_release t p) = removeAll t (pg_shared p)"
  by (simp_all add: W_release_def)

text \<open>A step of a batch commits, or leaves the tables alone.\<close>

lemma buffer_step_tables:
  assumes "buffer_step G t a (p, w) = Some (p', w')"
  shows "case write_commits a w of
      None \<Rightarrow> pg_frame p' = pg_frame p \<and> pg_pending p' = pg_pending p \<and> (\<forall>x. wr_pc w' \<noteq> W_Ok x)
    | Some tbl \<Rightarrow> p' = W_release t (W_store tbl w p) \<and> wr_pc w = W_Commit tbl \<and>
        (wr_pc w' = W_Ok (Written_of tbl) \<or> (\<exists>e. wr_pc w' = W_Err e))"
  using assms
  by (cases "wr_pc w"; cases a)
    (auto simp: buffer_step_def buffer_carry_out_def write_commits_def W_fail_def W_goto_def split: sum.splits copy_stage.splits if_splits)

lemma buffer_step_keeps:
  assumes "buffer_step G t a (p, w) = Some (p', w')"
  shows "pg_version p' = pg_version p \<and> pg_exclusive p' = pg_exclusive p \<and> pg_drained p' = pg_drained p \<and>
    wr_rows w' = wr_rows w \<and> wr_held w' = wr_held w \<and> wr_now w' = wr_now w \<and> \<not> returned (wr_pc w)"
  using assms
  by (cases "wr_pc w"; cases a)
    (auto simp: buffer_step_def buffer_carry_out_def W_fail_def W_goto_def split: sum.splits copy_stage.splits if_splits)

text \<open>A batch in its transaction holds the lock, and takes it only while no drain has it.\<close>

lemma buffer_step_lock:
  assumes "buffer_step G t a (p, w) = Some (p', w')" "in_tx (wr_pc w) \<longrightarrow> t \<in> set (pg_shared p)"
  shows "(in_tx (wr_pc w') \<longrightarrow> t \<in> set (pg_shared p')) \<and>
    (\<forall>u. u \<noteq> t \<longrightarrow> u \<in> set (pg_shared p') \<longleftrightarrow> u \<in> set (pg_shared p)) \<and>
    (pg_exclusive p \<noteq> None \<longrightarrow> set (pg_shared p') \<subseteq> set (pg_shared p))"
  using assms
  by (cases "wr_pc w"; cases a)
    (auto simp: buffer_step_def buffer_carry_out_def W_fail_def W_goto_def split: sum.splits copy_stage.splits if_splits)

text \<open>It turns to the buffer only if it is held, or has found the schema behind.\<close>

lemma buffer_step_route:
  assumes "buffer_step G t a (p, w) = Some (p', w')" "to_buffer (wr_pc w')"
  shows "to_buffer (wr_pc w) \<or> wr_held w \<or> pg_version p \<noteq> Some SCHEMA_VERSION"
  using assms
  by (cases "wr_pc w"; cases a)
    (auto simp: buffer_step_def buffer_carry_out_def W_fail_def W_goto_def split: sum.splits copy_stage.splits if_splits)

fun locked :: "dpc \<Rightarrow> bool" where
  "locked D_Check = False" | "locked D_Begin = False" | "locked D_Lock = False" | "locked (D_Ok _) = False"
| "locked (D_Err _) = False" | "locked _ = True"

text \<open>A drain changes the tables by committing what it read, and only under its lock.\<close>

lemma drain_step_tables:
  assumes "drain_step t a (p, d) = Some (p', d')"
  shows "(if dr_pc d = D_Commit \<and> drain_sweeps a p d then p' = D_release t (drain_commit d p)
      else pg_frame p' = pg_frame p \<and> pg_pending p' = pg_pending p) \<and>
    (drain_sweeps a p d \<longrightarrow> locked (dr_pc d) \<and> \<not> locked (dr_pc d')) \<and>
    (dr_pc d' \<in> {D_Drop, D_Commit} \<longrightarrow> dr_pc d = D_Drop \<and> dr_rows d' = dr_rows d \<or> Some (dr_rows d') = pg_pending p \<and> locked (dr_pc d)) \<and>
    pg_version p' = pg_version p \<and> pg_shared p' = pg_shared p"
  using assms
  by (cases "dr_pc d"; cases a)
    (auto simp: drain_step_def drain_carry_out_def drain_sweeps_def D_return_def D_goto_def D_release_def drain_commit_def
      split: option.splits if_splits)

lemma drain_step_lock:
  assumes "drain_step t a (p, d) = Some (p', d')" "locked (dr_pc d) \<longrightarrow> pg_exclusive p = Some t"
  shows "(locked (dr_pc d') \<longrightarrow> pg_exclusive p' = Some t) \<and>
    (pg_exclusive p' \<noteq> None \<longrightarrow> pg_exclusive p' = pg_exclusive p \<or> pg_shared p = [] \<and> pg_exclusive p = None) \<and>
    (\<forall>u. u \<noteq> t \<longrightarrow> pg_exclusive p = Some u \<longrightarrow> pg_exclusive p' = Some u)"
  using assms
  by (cases "dr_pc d"; cases a)
    (auto simp: drain_step_def drain_carry_out_def D_return_def D_goto_def D_release_def drain_commit_def
      split: option.splits if_splits)

section \<open>Invariants\<close>

definition pending_rows :: "pg \<Rightarrow> stored list" where
  "pending_rows p = (case pg_pending p of Some rows \<Rightarrow> rows | None \<Rightarrow> [])"

definition locks_ok :: "sys \<Rightarrow> bool" where
  "locks_ok s \<longleftrightarrow>
     (\<forall>t w. sy_writers s t = Some w \<longrightarrow> in_tx (wr_pc w) \<longrightarrow> t \<in> set (pg_shared (sy_pg s))) \<and>
     (\<forall>t d. sy_drainers s t = Some d \<longrightarrow> locked (dr_pc d) \<longrightarrow> pg_exclusive (sy_pg s) = Some t) \<and>
     (pg_exclusive (sy_pg s) \<noteq> None \<longrightarrow> pg_shared (sy_pg s) = [])"

definition has_returned :: "sys \<Rightarrow> nat \<Rightarrow> bool" where
  "has_returned s t = (case sy_writers s t of Some w \<Rightarrow> returned (wr_pc w) | None \<Rightarrow> False)"

definition log_ok :: "sys \<Rightarrow> bool" where
  "log_ok s \<longleftrightarrow>
     distinct (map fst (sy_log s)) \<and>
     list_all (\<lambda>e. has_returned s (fst e)) (sy_log s) \<and>
     (\<forall>t w x. sy_writers s t = Some w \<longrightarrow> wr_pc w = W_Ok x \<longrightarrow> (\<exists>tbl. x = Written_of tbl \<and> (t, tbl, stored_rows w) \<in> set (sy_log s)))"

text \<open>What a drain has read is what the buffer holds, until it commits.\<close>

definition read_ok :: "sys \<Rightarrow> bool" where
  "read_ok s \<longleftrightarrow>
     (\<forall>t d. sy_drainers s t = Some d \<longrightarrow> dr_pc d \<in> {D_Drop, D_Commit} \<longrightarrow> pg_pending (sy_pg s) = Some (dr_rows d))"

definition conserved :: "sys \<Rightarrow> sys \<Rightarrow> bool" where
  "conserved s0 s \<longleftrightarrow>
     mset (pg_frame (sy_pg s)) + mset (pending_rows (sy_pg s)) =
     mset (pg_frame (sy_pg s0)) + mset (pending_rows (sy_pg s0)) + mset (concat (map (\<lambda>e. snd (snd e)) (sy_log s)))"

definition none_held :: "sys \<Rightarrow> bool" where
  "none_held s \<longleftrightarrow> (\<forall>t w. sy_writers s t = Some w \<longrightarrow> \<not> wr_held w)"

definition swept_ok :: "sys \<Rightarrow> bool" where
  "swept_ok s \<longleftrightarrow>
     (\<forall>t d. sy_drainers s t = Some d \<longrightarrow> pg_version (sy_pg s) = Some SCHEMA_VERSION) \<and>
     (sy_swept s \<longrightarrow> none_held s \<longrightarrow>
        pg_version (sy_pg s) = Some SCHEMA_VERSION \<and> pg_pending (sy_pg s) = None \<and>
        (\<forall>t w. sy_writers s t = Some w \<longrightarrow> \<not> to_buffer (wr_pc w)))"

lemma locks_ok_step:
  assumes "locks_ok s" "act_step G a s = Some s'"
  shows "locks_ok s'"
proof (cases a)
  case (Write t b)
  then obtain w p' w' where w: "sy_writers s t = Some w" "buffer_step G t b (sy_pg s, w) = Some (p', w')"
      "sy_writers s' = (sy_writers s)(t \<mapsto> w')" "sy_pg s' = p'" "sy_drainers s' = sy_drainers s"
    using assms(2) by (auto split: option.splits)
  have "in_tx (wr_pc w) \<longrightarrow> t \<in> set (pg_shared (sy_pg s))"
    using assms(1) w(1) by (auto simp: locks_ok_def)
  then show ?thesis
    using assms(1) w buffer_step_lock [OF w(2)] buffer_step_keeps [OF w(2)] by (auto simp: locks_ok_def)
next
  case (Drain t b)
  then obtain d p' d' where d: "sy_drainers s t = Some d" "drain_step t b (sy_pg s, d) = Some (p', d')"
      "sy_drainers s' = (sy_drainers s)(t \<mapsto> d')" "sy_pg s' = p'" "sy_writers s' = sy_writers s"
    using assms(2) by (auto split: option.splits)
  have "locked (dr_pc d) \<longrightarrow> pg_exclusive (sy_pg s) = Some t"
    using assms(1) d(1) by (auto simp: locks_ok_def)
  then show ?thesis
    using assms(1) d drain_step_lock [OF d(2)] drain_step_tables [OF d(2)] by (auto simp: locks_ok_def)
qed (use assms in \<open>auto simp: locks_ok_def split: if_splits\<close>)

text \<open>Under a drain's lock no batch is in its transaction, and no other drain has read the buffer.\<close>

lemma drain_alone:
  assumes "locks_ok s" "sy_drainers s t = Some d" "locked (dr_pc d)"
  shows "sy_writers s u = Some w \<Longrightarrow> \<not> in_tx (wr_pc w)"
    and "sy_drainers s u = Some e \<Longrightarrow> locked (dr_pc e) \<Longrightarrow> u = t"
  using assms by (auto simp: locks_ok_def) (metis option.inject)

lemma to_buffer_in_tx: "to_buffer pc \<Longrightarrow> in_tx pc"
  by (cases pc) auto

lemma commit_in_tx: "write_commits a w = Some tbl \<Longrightarrow> in_tx (wr_pc w)"
  by (auto simp: write_commits_def split: wpc.splits answer.splits)

lemma read_ok_step:
  assumes "locks_ok s" "read_ok s" "act_step G a s = Some s'"
  shows "read_ok s'"
proof (cases a)
  case (Write t b)
  then obtain w p' w' where w: "sy_writers s t = Some w" "buffer_step G t b (sy_pg s, w) = Some (p', w')"
      "sy_pg s' = p'" "sy_drainers s' = sy_drainers s"
    using assms(3) by (auto split: option.splits)
  show ?thesis
  proof (cases "write_commits b w")
    case None
    then show ?thesis
      using assms(2) w buffer_step_tables [OF w(2)] by (auto simp: read_ok_def)
  next
    case (Some tbl)
    then have "\<not> locked (dr_pc d)" if "sy_drainers s u = Some d" for u d
      using drain_alone(1) [OF assms(1) that _ w(1)] commit_in_tx by blast
    then show ?thesis
      using w(4) by (fastforce simp: read_ok_def)
  qed
next
  case (Drain t b)
  then obtain d p' d' where d: "sy_drainers s t = Some d" "drain_step t b (sy_pg s, d) = Some (p', d')"
      "sy_drainers s' = (sy_drainers s)(t \<mapsto> d')" "sy_pg s' = p'"
    using assms(3) by (auto split: option.splits)
  show ?thesis
  proof (cases "dr_pc d = D_Commit \<and> drain_sweeps b (sy_pg s) d")
    case True
    then have "\<not> locked (dr_pc e)" if "sy_drainers s' u = Some e" for u e
      using drain_alone(2) [OF assms(1) d(1), of u e] that d drain_step_tables [OF d(2)] by (auto split: if_splits)
    then show ?thesis
      by (fastforce simp: read_ok_def)
  next
    case False
    note e = drain_step_tables [OF d(2), unfolded if_not_P [OF False]]
    have "pg_pending p' = Some (dr_rows x)" if "sy_drainers s' u = Some x" "dr_pc x \<in> {D_Drop, D_Commit}" for u x
    proof (cases "u = t")
      case True
      then show ?thesis
        using that d(1,3) e assms(2) by (auto simp: read_ok_def)
    next
      case False
      then show ?thesis
        using that d(3) e assms(2) by (auto simp: read_ok_def)
    qed
    then show ?thesis
      using d(4) by (auto simp: read_ok_def)
  qed
qed (use assms in \<open>auto simp: read_ok_def split: if_splits\<close>)

lemma pending_rows_store:
  "mset (pg_frame (W_store tbl w p)) + mset (pending_rows (W_store tbl w p)) =
     mset (pg_frame p) + mset (pending_rows p) + mset (stored_rows w)"
  by (cases tbl) (auto simp: W_store_def pending_rows_def split: option.splits)

lemma pending_rows_cong: "pg_pending p = pg_pending q \<Longrightarrow> pending_rows p = pending_rows q"
  by (simp add: pending_rows_def)

lemma conserved_step:
  assumes "read_ok s" "conserved s0 s" "act_step G a s = Some s'"
  shows "conserved s0 s'"
proof (cases a)
  case (Write t b)
  then obtain w p' w' where w: "sy_writers s t = Some w" "buffer_step G t b (sy_pg s, w) = Some (p', w')" "sy_pg s' = p'"
      "sy_log s' = (case write_commits b w of Some tbl \<Rightarrow> sy_log s @ [(t, tbl, stored_rows w)] | None \<Rightarrow> sy_log s)"
    using assms(3) by (auto split: option.splits)
  have "mset (pg_frame p') + mset (pending_rows p') = mset (pg_frame (sy_pg s)) + mset (pending_rows (sy_pg s)) +
      (case write_commits b w of Some tbl \<Rightarrow> mset (stored_rows w) | None \<Rightarrow> {#})"
    using buffer_step_tables [OF w(2)] pending_rows_store pending_rows_cong [of p' "sy_pg s"]
      pending_rows_cong [of p' "W_store _ w (sy_pg s)"] by (auto split: option.splits)
  then show ?thesis
    using assms(2) w(3,4) by (auto simp: conserved_def ac_simps split: option.splits)
next
  case (Drain t b)
  then obtain d p' d' where d: "sy_drainers s t = Some d" "drain_step t b (sy_pg s, d) = Some (p', d')" "sy_pg s' = p'"
      "sy_log s' = sy_log s"
    using assms(3) by (auto split: option.splits)
  have "mset (pg_frame p') + mset (pending_rows p') = mset (pg_frame (sy_pg s)) + mset (pending_rows (sy_pg s))"
  proof (cases "dr_pc d = D_Commit \<and> drain_sweeps b (sy_pg s) d")
    case True
    then have "pending_rows (sy_pg s) = dr_rows d" "p' = D_release t (drain_commit d (sy_pg s))"
      using assms(1) d(1) drain_step_tables [OF d(2)] by (auto simp: read_ok_def pending_rows_def)
    then show ?thesis
      by (simp add: D_release_def drain_commit_def pending_rows_def)
  next
    case False
    then show ?thesis
      using drain_step_tables [OF d(2)] by (auto simp: pending_rows_def)
  qed
  then show ?thesis
    using assms(2) d(3,4) by (simp add: conserved_def)
qed (use assms in \<open>auto simp: conserved_def pending_rows_def split: if_splits\<close>)

lemma has_returned_mono: "act_step G a s = Some s' \<Longrightarrow> has_returned s t \<Longrightarrow> has_returned s' t"
  by (cases a) (auto simp: has_returned_def split: if_splits option.splits dest!: buffer_step_keeps)

lemma log_ok_step:
  assumes "log_ok s" "act_step G a s = Some s'"
  shows "log_ok s'"
proof -
  have old: "list_all (\<lambda>e. has_returned s' (fst e)) (sy_log s)"
    using assms(1) has_returned_mono [OF assms(2)] by (auto simp: log_ok_def list_all_iff)
  show ?thesis
  proof (cases a)
  case (Write t b)
  then obtain w p' w' where w: "sy_writers s t = Some w" "buffer_step G t b (sy_pg s, w) = Some (p', w')"
      "sy_writers s' = (sy_writers s)(t \<mapsto> w')"
      "sy_log s' = (case write_commits b w of Some tbl \<Rightarrow> sy_log s @ [(t, tbl, stored_rows w)] | None \<Rightarrow> sy_log s)"
    using assms(2) by (auto split: option.splits)
  note k = buffer_step_keeps [OF w(2)]
  have same: "stored_rows w' = stored_rows w"
    using k by (simp add: stored_rows_def)
  have "\<not> has_returned s t"
    using w(1) k by (simp add: has_returned_def)
  then have fresh: "t \<notin> fst ` set (sy_log s)"
    using assms(1) by (auto simp: log_ok_def list_all_iff)
  show ?thesis
  proof (cases "write_commits b w")
    case None
    then show ?thesis
      using assms(1) w old buffer_step_tables [OF w(2)] by (auto simp: log_ok_def)
  next
    case (Some tbl)
    then have "wr_pc w' = W_Ok (Written_of tbl) \<or> (\<exists>e. wr_pc w' = W_Err e)"
      using buffer_step_tables [OF w(2)] by simp
    then show ?thesis
      using assms(1) w old fresh same Some by (auto simp: log_ok_def has_returned_def)
  qed
qed (use assms old in \<open>auto simp: log_ok_def split: if_splits option.splits\<close>)
qed

lemma none_held_before:
  assumes "act_step G a s = Some s'" "none_held s'"
  shows "none_held s"
proof -
  have "\<exists>w'. sy_writers s' t = Some w' \<and> wr_held w' = wr_held w" if "sy_writers s t = Some w" for t w
    using assms(1) that by (cases a) (auto split: if_splits option.splits dest!: buffer_step_keeps)
  then show ?thesis
    using assms(2) unfolding none_held_def by blast
qed

lemma swept_ok_step:
  assumes "locks_ok s" "swept_ok s" "act_step G a s = Some s'"
  shows "swept_ok s'"
proof (cases a)
  case (Start_write t rows held n)
  then show ?thesis
    using assms(2,3) none_held_before [OF assms(3)] by (auto simp: swept_ok_def split: if_splits)
next
  case (Write t b)
  then obtain w p' w' where w: "sy_writers s t = Some w" "buffer_step G t b (sy_pg s, w) = Some (p', w')"
      "sy_writers s' = (sy_writers s)(t \<mapsto> w')" "sy_pg s' = p'" "sy_drainers s' = sy_drainers s" "sy_swept s' = sy_swept s"
    using assms(3) by (auto split: option.splits)
  note k = buffer_step_keeps [OF w(2)]
  have "pg_pending p' = None \<and> \<not> to_buffer (wr_pc w')"
    if "\<not> wr_held w" "pg_version (sy_pg s) = Some SCHEMA_VERSION" "pg_pending (sy_pg s) = None" "\<not> to_buffer (wr_pc w)"
  proof -
    have "\<not> to_buffer (wr_pc w')"
      using buffer_step_route [OF w(2)] that by blast
    moreover have "pg_pending p' = None"
      using buffer_step_tables [OF w(2)] that(3,4) by (auto simp: W_store_def split: option.splits table.splits)
    ultimately show ?thesis
      by simp
  qed
  moreover have "\<not> wr_held w" if "none_held s"
    using that w(1) by (auto simp: none_held_def)
  ultimately show ?thesis
    using assms(2) w k none_held_before [OF assms(3)] by (auto simp: swept_ok_def)
next
  case (Drain t b)
  then obtain d p' d' where d: "sy_drainers s t = Some d" "drain_step t b (sy_pg s, d) = Some (p', d')"
      "sy_drainers s' = (sy_drainers s)(t \<mapsto> d')" "sy_pg s' = p'" "sy_writers s' = sy_writers s"
      "sy_swept s' = (sy_swept s \<or> drain_sweeps b (sy_pg s) d)"
    using assms(3) by (auto split: option.splits)
  note e = drain_step_tables [OF d(2)]
  have v: "pg_version p' = Some SCHEMA_VERSION"
    using assms(2) d(1) e by (auto simp: swept_ok_def)
  have "pg_pending p' = None \<and> \<not> to_buffer (wr_pc w)" if "drain_sweeps b (sy_pg s) d" "sy_writers s u = Some w" for u w
    using that e drain_alone(1) [OF assms(1) d(1) _ that(2)] to_buffer_in_tx
    by (auto simp: drain_sweeps_def D_release_def drain_commit_def split: if_splits)
  moreover have "pg_pending p' = None" if "drain_sweeps b (sy_pg s) d"
    using that e by (auto simp: drain_sweeps_def D_release_def drain_commit_def split: if_splits)
  moreover have "pg_pending p' = None" if "pg_pending (sy_pg s) = None"
    using that e by (auto simp: D_release_def drain_commit_def split: if_splits)
  ultimately show ?thesis
    using assms(2) d v none_held_before [OF assms(3)] by (auto simp: swept_ok_def)
next
  case (Migrated v)
  then show ?thesis
    using assms(2,3) none_held_before [OF assms(3)] by (auto simp: swept_ok_def split: if_splits option.splits)
next
  case (Start_drain t)
  then show ?thesis
    using assms(2,3) none_held_before [OF assms(3)] by (auto simp: swept_ok_def split: if_splits)
qed

lemma reach_ok:
  assumes "sys_reach G (fresh_sys p) s"
  shows "locks_ok s \<and> read_ok s \<and> log_ok s \<and> conserved (fresh_sys p) s \<and> swept_ok s"
  using assms
proof (induction rule: sys_reach.induct)
  case start
  then show ?case
    by (simp add: locks_ok_def read_ok_def log_ok_def conserved_def swept_ok_def fresh_sys_def)
next
  case (step s a s')
  then show ?case
    using locks_ok_step [OF _ step.hyps(2)] read_ok_step [OF _ _ step.hyps(2)] log_ok_step [OF _ step.hyps(2)]
      conserved_step [OF _ _ step.hyps(2)] swept_ok_step [OF _ _ step.hyps(2)] by blast
qed

section \<open>Properties\<close>

text \<open>C7: however batches, drains and migrations interleave, and wherever a statement fails, no row is lost or
  stored twice: \<^verbatim>\<open>capture_frame\<close> and the buffer together hold what they held at the start and the rows of
  the batches that committed, each batch once. A batch answered as stored is one of them.\<close>

theorem buffered_batches_are_stored_once:
  assumes "sys_reach G (fresh_sys p) s"
  shows "mset (pg_frame (sy_pg s)) + mset (pending_rows (sy_pg s)) =
      mset (pg_frame p) + mset (pending_rows p) + mset (concat (map (\<lambda>e. snd (snd e)) (sy_log s))) \<and>
    distinct (map fst (sy_log s)) \<and>
    (\<forall>t w x. sy_writers s t = Some w \<longrightarrow> wr_pc w = W_Ok x \<longrightarrow>
       (\<exists>tbl. x = Written_of tbl \<and> (t, tbl, stored_rows w) \<in> set (sy_log s)))"
  using reach_ok [OF assms] by (simp add: conserved_def log_ok_def fresh_sys_def pending_rows_def)

text \<open>Once a drain has emptied the buffer under its lock, or found none there, the database is at the current
  schema and no buffer appears again: every batch finds it current and goes to \<^verbatim>\<open>capture_frame\<close>, unless
  an import holds batches back.\<close>

theorem swept_buffer_stays_empty:
  assumes "sys_reach G (fresh_sys p) s" "sy_swept s" "none_held s"
  shows "pg_version (sy_pg s) = Some SCHEMA_VERSION \<and> pg_pending (sy_pg s) = None"
  using reach_ok [OF assms(1)] assms(2,3) by (simp add: swept_ok_def)

fun runs :: "('f, 'k) gatelib \<Rightarrow> act list \<Rightarrow> sys \<Rightarrow> sys option" where
  "runs G [] s = Some s"
| "runs G (a # as) s = (case act_step G a s of None \<Rightarrow> None | Some s' \<Rightarrow> runs G as s')"

lemma runs_reach: "sys_reach G s0 s \<Longrightarrow> runs G as s = Some s' \<Longrightarrow> sys_reach G s0 s'"
  by (induction as arbitrary: s) (auto split: option.splits intro: sys_reach.step)

text \<open>A database one version behind. The first batch since starts while it is migrated: it reads the old
  version, creates the buffer, and commits after the drain that follows the migration has looked for
  one.\<close>

definition ex_behind :: pg where
  "ex_behind = \<lparr> pg_version = Some 4, pg_frame = [], pg_pending = None, pg_drained = None, pg_shared = [],
                 pg_exclusive = None, pg_creating = None \<rparr>"

definition ex_race :: "act list" where
  "ex_race =
     [Start_write 0 [ex_row] False 7] @ replicate 6 (Write 0 Answers) @
     [Migrated 5, Start_drain 0] @ replicate 2 (Write 0 Answers) @ [Drain 0 Answers] @ replicate 4 (Write 0 Answers)"

definition ex_race_end :: sys where
  "ex_race_end =
     \<lparr> sy_pg = ex_behind\<lparr> pg_version := Some 5, pg_pending := Some [(7, ex_row)] \<rparr>,
       sy_writers = [0 \<mapsto> \<lparr> wr_rows = [ex_row], wr_held = False, wr_now = 7, wr_creates = True, wr_pc = W_Ok Buffered \<rparr>],
       sy_drainers = [0 \<mapsto> \<lparr> dr_span = [], dr_rows = [], dr_pc = D_Ok 0 \<rparr>],
       sy_log = [(0, Pending_table, [(7, ex_row)])], sy_swept = False \<rparr>"

lemma ex_race_runs: "runs ref_gatelib ex_race (fresh_sys ex_behind) = Some ex_race_end"
  by (simp add: ex_race_def ex_race_end_def fresh_sys_def ex_behind_def buffer_step_def buffer_carry_out_def drain_step_def
      drain_carry_out_def ex_copy_text W_goto_def D_goto_def W_release_def W_store_def stored_rows_def write_commits_def
      drain_sweeps_def Written_of_def SCHEMA_VERSION_def numeral_eq_Suc)


theorem buffered_batches_are_stored_once_witness:
  "mset (pg_frame (sy_pg ex_race_end)) + mset (pending_rows (sy_pg ex_race_end)) = {#(7, ex_row)#} \<and>
   (\<exists>tbl. Buffered = Written_of tbl \<and> (0, tbl, [(7, ex_row)]) \<in> set (sy_log ex_race_end))"
proof -
  have "sys_reach ref_gatelib (fresh_sys ex_behind) ex_race_end"
    by (rule runs_reach [OF sys_reach.start ex_race_runs])
  from buffered_batches_are_stored_once [OF this] show ?thesis
    by (auto simp: ex_race_end_def ex_behind_def pending_rows_def Written_of_def)
qed

text \<open>A database migrated with two rows in its buffer is drained, and a batch that comes after goes to
  \<^verbatim>\<open>capture_frame\<close>.\<close>

definition ex_buffered :: pg where
  "ex_buffered = ex_behind\<lparr> pg_version := Some 5, pg_pending := Some [(3, ex_row), (4, ex_row\<lparr> fr_ts_us := 9 \<rparr>)] \<rparr>"

definition ex_drain_run :: "act list" where
  "ex_drain_run =
     Start_drain 0 # replicate 8 (Drain 0 Answers) @ Start_write 1 [ex_row] False 8 # replicate 9 (Write 1 Answers)"

lemma ex_row_ts: "fr_ts_us ex_row = 5"
  by (simp add: ex_row_def)

lemma ex_drain_runs:
  "\<exists>s. runs ref_gatelib ex_drain_run (fresh_sys ex_buffered) = Some s \<and> sy_swept s \<and> none_held s \<and>
     pg_drained (sy_pg s) = Some [(5, 9)] \<and> length (pg_frame (sy_pg s)) = 3"
  by (simp add: ex_drain_run_def ex_buffered_def fresh_sys_def ex_behind_def buffer_step_def buffer_carry_out_def drain_step_def
      drain_carry_out_def ex_copy_text W_goto_def D_goto_def D_return_def D_release_def W_release_def W_store_def stored_rows_def
      write_commits_def drain_sweeps_def drain_commit_def Written_of_def SCHEMA_VERSION_def span_of_def ex_row_ts none_held_def
      numeral_eq_Suc)

theorem swept_buffer_stays_empty_witness:
  "\<exists>s. runs ref_gatelib ex_drain_run (fresh_sys ex_buffered) = Some s \<and> length (pg_frame (sy_pg s)) = 3 \<and>
     pg_version (sy_pg s) = Some SCHEMA_VERSION \<and> pg_pending (sy_pg s) = None"
proof -
  obtain s where s: "runs ref_gatelib ex_drain_run (fresh_sys ex_buffered) = Some s" "sy_swept s" "none_held s"
      "length (pg_frame (sy_pg s)) = 3"
    using ex_drain_runs by blast
  show ?thesis
    using swept_buffer_stays_empty [OF runs_reach [OF sys_reach.start s(1)] s(2,3)] s(1,4) by blast
qed

end
