(* ===== verification/Gateway_Databases.thy ===== *)
theory Gateway_Databases
  imports Gateway_Buffer
begin

text \<open>
  The gateway's databases: \<^verbatim>\<open>crates/wiretap-backend/src/db.rs\<close>. What version each is at, which may be
  read, where a batch goes, and how an archive is swapped in.

  Requests and background tasks share one \<open>Databases\<close>. What the cluster answers, what the clock reads and
  what the writer of \<open>Gateway_Buffer\<close> returns come from scripts, and so does what other tasks do between
  two lock acquisitions of an operation: each is one of the sections of \<open>dbact\<close>, the pieces of this file
  that run under one lock. A task a request spawns is recorded.
\<close>

section \<open>State\<close>

datatype DbSchemaState =
    Current int
  | Pending int
  | Migrating nat
  | Failed int string nat

definition label :: "DbSchemaState \<Rightarrow> string" where
  "label s =
     (case s of Current _ \<Rightarrow> ''current'' | Pending _ \<Rightarrow> ''pending'' | Migrating _ \<Rightarrow> ''migrating'' | Failed _ _ _ \<Rightarrow> ''failed'')"

definition state_version :: "DbSchemaState \<Rightarrow> int option" where
  "state_version s = (case s of Current v \<Rightarrow> Some v | Pending v \<Rightarrow> Some v | Failed v _ _ \<Rightarrow> Some v | Migrating _ \<Rightarrow> None)"

definition busy_secs :: "nat \<Rightarrow> DbSchemaState \<Rightarrow> nat option" where
  "busy_secs t s = (case s of Migrating since \<Rightarrow> Some ((t - since) div 1000) | _ \<Rightarrow> None)"

fun is_current :: "DbSchemaState \<Rightarrow> bool" where
  "is_current (Current _) = True"
| "is_current _ = False"

text \<open>Clocks count milliseconds.\<close>

definition FAILED_RETRY_INTERVAL :: nat where
  "FAILED_RETRY_INTERVAL = 30000"

datatype DbError = RefusedDb string | Unavailable string

datatype MigrateRefusal = NotFound string | Conflict string | MigrateUnavailable string

datatype WriteError = WriteDb DbError | WriteCopy CopyError

text \<open>An import's gate is shared by reference with the batches it holds back: it is named, and \<open>db_swapped\<close>
  are the gates that are true.\<close>

record Import =
  im_staging :: string
  im_since :: nat
  im_held :: "nat option"

datatype Route = Route_Live | Route_Buffered | Route_Held nat

datatype task = Migrate_one string | Migrate_holding string "int option" | Recheck string

record GatewayConfig =
  gc_auto_migrate :: bool
  gc_auto_create_databases :: bool
  gc_default_database :: string
  gc_valid_name :: "string \<Rightarrow> bool"

text \<open>The sections other tasks run: \<^verbatim>\<open>set_state\<close>, the claim of a migration, the verdict of a recheck, a pool
  built, an import's entry made or removed, its pools dropped, its gate opened.\<close>

datatype dbact =
    A_Set_state string DbSchemaState
  | A_Claim string nat
  | A_Recheck string nat DbSchemaState
  | A_Pool string
  | A_Import string Import
  | A_Import_over string
  | A_Drop_pools string
  | A_Gate nat

text \<open>\<open>db_readers\<close> are the gates held shared, and \<open>db_stored\<close> is history: the batches a writer answered as
  written.\<close>

record Databases =
  db_pools :: "string list"
  db_buffer_pools :: "string list"
  db_states :: "string \<Rightarrow> DbSchemaState option"
  db_buffered :: "string \<Rightarrow> nat option"
  db_imports :: "string \<Rightarrow> Import option"
  db_swapped :: "nat list"
  db_readers :: "nat list"
  db_tasks :: "task list"
  db_stored :: "(string \<times> FrameRow list \<times> Route) list"
  db_exists :: "(string, bool) result list"
  db_probes :: "(string, int option) result list"
  db_drains :: "(string, nat) result list"
  db_writes :: "(CopyError, Written) result list"
  db_runs :: "(string, nat) result list"
  db_admin :: "(string, unit) result list"
  db_try_locks :: "bool list"
  db_builds :: "(string, unit) result list"
  db_clock :: "nat list"
  db_others :: "dbact list list"

section \<open>Scripts\<close>

definition db_now :: "Databases \<Rightarrow> nat \<times> Databases" where
  "db_now d = (case db_clock d of [] \<Rightarrow> (0, d) | t # rest \<Rightarrow> (t, d\<lparr> db_clock := rest \<rparr>))"

definition build_pool :: "Databases \<Rightarrow> (string, unit) result \<times> Databases" where
  "build_pool d =
     (case db_builds d of [] \<Rightarrow> (Inl ''pool build failed: '', d) | r # rest \<Rightarrow> (r, d\<lparr> db_builds := rest \<rparr>))"

definition quoted :: "string \<Rightarrow> string" where
  "quoted name = [CHR 0x27] @ name @ [CHR 0x27]"

section \<open>Sections\<close>

definition set_state :: "string \<Rightarrow> DbSchemaState \<Rightarrow> Databases \<Rightarrow> Databases" where
  "set_state name st d =
     (let d' = (if is_current st then d\<lparr> db_buffer_pools := removeAll name (db_buffer_pools d) \<rparr>
                else d\<lparr> db_pools := removeAll name (db_pools d) \<rparr>)
      in d'\<lparr> db_states := (db_states d')(name \<mapsto> st) \<rparr>)"

text \<open>\<^verbatim>\<open>recheck_if_behind\<close>'s question of a state.\<close>

definition behind :: "GatewayConfig \<Rightarrow> nat \<Rightarrow> DbSchemaState option \<Rightarrow> bool" where
  "behind C t st =
     (case st of
        Some (Pending _) \<Rightarrow> True
      | Some (Failed _ _ since) \<Rightarrow> \<not> gc_auto_migrate C \<and> FAILED_RETRY_INTERVAL \<le> t - since
      | None \<Rightarrow> \<not> gc_auto_migrate C
      | _ \<Rightarrow> False)"

definition retries :: "GatewayConfig \<Rightarrow> nat \<Rightarrow> DbSchemaState option \<Rightarrow> bool" where
  "retries C t st =
     (case st of Some (Failed _ _ since) \<Rightarrow> gc_auto_migrate C \<and> FAILED_RETRY_INTERVAL \<le> t - since | _ \<Rightarrow> False)"

definition require_current :: "GatewayConfig \<Rightarrow> string \<Rightarrow> Databases \<Rightarrow> (string, unit) result \<times> Databases" where
  "require_current C name d =
     (case db_states d name of
        Some (Current _) \<Rightarrow> (Inr (), d)
      | st \<Rightarrow>
          (let (t, d1) = db_now d;
               claimed = d1\<lparr> db_states := (db_states d1)(name \<mapsto> Migrating t) \<rparr>;
               checked = (\<lambda>d. (Inl (''database '' @ quoted name @ '' is being checked; retry shortly''),
                               d\<lparr> db_tasks := db_tasks d @ [Migrate_one name] \<rparr>))
           in if retries C t st then checked claimed
              else case st of
                     Some (Pending version) \<Rightarrow>
                       (Inl (''database '' @ quoted name @ '' is at schema v'' @ show_int version @
                             '' and waiting to be migrated to v'' @ show_int SCHEMA_VERSION @ '': Migrate now on the admin UI'' @
                             [CHR 0x27] @ ''s Databases page, or POST /v1/databases/'' @ name @ ''/migrate''), d1)
                   | Some st' \<Rightarrow>
                       (Inl (''database '' @ quoted name @ '' is not ready: schema '' @ label st'), d1)
                   | None \<Rightarrow>
                       if gc_auto_migrate C then checked d1
                       else (Inl (''database '' @ quoted name @
                                  '' has not been checked and WIRETAP_AUTO_MIGRATE is off''), d1)))"

definition insert_name :: "string \<Rightarrow> string list \<Rightarrow> string list" where
  "insert_name name xs = (if name \<in> set xs then xs else name # xs)"

definition pool_if_current :: "GatewayConfig \<Rightarrow> string \<Rightarrow> Databases \<Rightarrow> (DbError, unit) result \<times> Databases" where
  "pool_if_current C name d =
     (case require_current C name d of
        (Inl e, d1) \<Rightarrow> (Inl (Unavailable e), d1)
      | (Inr _, d1) \<Rightarrow>
          (case build_pool d1 of
             (Inl e, d2) \<Rightarrow> (Inl (Unavailable e), d2)
           | (Inr _, d2) \<Rightarrow> (Inr (), d2\<lparr> db_pools := insert_name name (db_pools d2) \<rparr>)))"

text \<open>\<^verbatim>\<open>start_migration\<close>'s last section, and \<^verbatim>\<open>recheck_if_behind\<close>'s.\<close>

definition claim_migration :: "string \<Rightarrow> nat \<Rightarrow> Databases \<Rightarrow> Databases" where
  "claim_migration name t d =
     (case db_states d name of
        Some (Current _) \<Rightarrow> d
      | Some (Migrating _) \<Rightarrow> d
      | _ \<Rightarrow> d\<lparr> db_states := (db_states d)(name \<mapsto> Migrating t) \<rparr>)"

definition settle_recheck :: "GatewayConfig \<Rightarrow> string \<Rightarrow> nat \<Rightarrow> DbSchemaState \<Rightarrow> Databases \<Rightarrow> Databases" where
  "settle_recheck C name t st d =
     (if behind C t (db_states d name) then d\<lparr> db_states := (db_states d)(name \<mapsto> st) \<rparr> else d)"

definition drop_pools :: "string \<Rightarrow> Databases \<Rightarrow> Databases" where
  "drop_pools name d =
     d\<lparr> db_pools := removeAll name (db_pools d), db_buffer_pools := removeAll name (db_buffer_pools d) \<rparr>"

text \<open>The write lock of a gate waits for the batches that hold it.\<close>

definition dbact_step :: "GatewayConfig \<Rightarrow> dbact \<Rightarrow> Databases \<Rightarrow> Databases" where
  "dbact_step C a d =
     (case a of
        A_Set_state name st \<Rightarrow> set_state name st d
      | A_Claim name t \<Rightarrow> claim_migration name t d
      | A_Recheck name t st \<Rightarrow> settle_recheck C name t st d
      | A_Pool name \<Rightarrow> snd (pool_if_current C name d)
      | A_Import name im \<Rightarrow> if db_imports d name = None then d\<lparr> db_imports := (db_imports d)(name \<mapsto> im) \<rparr> else d
      | A_Import_over name \<Rightarrow> d\<lparr> db_imports := (db_imports d)(name := None) \<rparr>
      | A_Drop_pools name \<Rightarrow> drop_pools name d
      | A_Gate g \<Rightarrow> if g \<in> set (db_readers d) then d else d\<lparr> db_swapped := g # db_swapped d \<rparr>)"

definition meanwhile_db :: "GatewayConfig \<Rightarrow> Databases \<Rightarrow> Databases" where
  "meanwhile_db C d =
     (case db_others d of [] \<Rightarrow> d | as # rest \<Rightarrow> fold (dbact_step C) as (d\<lparr> db_others := rest \<rparr>))"

section \<open>What an operation awaits\<close>

definition database_exists :: "GatewayConfig \<Rightarrow> Databases \<Rightarrow> (string, bool) result \<times> Databases" where
  "database_exists C d =
     (case db_exists d of
        [] \<Rightarrow> (Inl ''pg_database lookup failed: '', meanwhile_db C d)
      | r # rest \<Rightarrow> (r, meanwhile_db C (d\<lparr> db_exists := rest \<rparr>)))"

definition probe_version :: "GatewayConfig \<Rightarrow> Databases \<Rightarrow> (string, int option) result \<times> Databases" where
  "probe_version C d =
     (case db_probes d of
        [] \<Rightarrow> (Inl ''schema version probe failed: '', meanwhile_db C d)
      | r # rest \<Rightarrow> (r, meanwhile_db C (d\<lparr> db_probes := rest \<rparr>)))"

definition drain_db :: "GatewayConfig \<Rightarrow> Databases \<Rightarrow> (string, nat) result \<times> Databases" where
  "drain_db C d =
     (case db_drains d of
        [] \<Rightarrow> (Inl ''drain begin: '', meanwhile_db C d)
      | r # rest \<Rightarrow> (r, meanwhile_db C (d\<lparr> db_drains := rest \<rparr>)))"

definition write_db :: "GatewayConfig \<Rightarrow> Databases \<Rightarrow> (CopyError, Written) result \<times> Databases" where
  "write_db C d =
     (case db_writes d of
        [] \<Rightarrow> (Inl (pool_error ''closed''), meanwhile_db C d)
      | r # rest \<Rightarrow> (r, meanwhile_db C (d\<lparr> db_writes := rest \<rparr>)))"

text \<open>The \<^verbatim>\<open>async\<close> block of \<^verbatim>\<open>migrate_holding\<close>: migrate, drain, refresh.\<close>

definition run_migration :: "GatewayConfig \<Rightarrow> Databases \<Rightarrow> (string, nat) result \<times> Databases" where
  "run_migration C d =
     (case db_runs d of
        [] \<Rightarrow> (Inl ''could not connect'', meanwhile_db C d)
      | r # rest \<Rightarrow> (r, meanwhile_db C (d\<lparr> db_runs := rest \<rparr>)))"

text \<open>A statement of the \<^verbatim>\<open>postgres\<close> database: \<^verbatim>\<open>CREATE\<close>, \<^verbatim>\<open>DROP\<close> or \<^verbatim>\<open>ALTER DATABASE\<close>, or an import's lock.\<close>

definition admin_db :: "GatewayConfig \<Rightarrow> Databases \<Rightarrow> (string, unit) result \<times> Databases" where
  "admin_db C d =
     (case db_admin d of
        [] \<Rightarrow> (Inl ''could not connect'', meanwhile_db C d)
      | r # rest \<Rightarrow> (r, meanwhile_db C (d\<lparr> db_admin := rest \<rparr>)))"

section \<open>Serving\<close>

definition note_drained :: "string \<Rightarrow> Databases \<Rightarrow> Databases" where
  "note_drained name d = d\<lparr> db_buffered := (db_buffered d)(name := None) \<rparr>"

definition note_buffered :: "string \<Rightarrow> nat \<Rightarrow> Databases \<Rightarrow> Databases" where
  "note_buffered name n d =
     d\<lparr> db_buffered := (db_buffered d)(name \<mapsto> (case db_buffered d name of Some k \<Rightarrow> k | None \<Rightarrow> 0) + n) \<rparr>"

definition is_gateway_database :: "GatewayConfig \<Rightarrow> string \<Rightarrow> bool" where
  "is_gateway_database C name \<longleftrightarrow> name = gc_default_database C"

definition protected :: "string \<Rightarrow> string" where
  "protected name =
     quoted name @ '' is the gateway'' @ [CHR 0x27] @ ''s own database (WIRETAP_DEFAULT_DB): it holds keys and '' @
     ''catalogues, and takes no captures''"

definition importing :: "string \<Rightarrow> Databases \<Rightarrow> bool" where
  "importing name d \<longleftrightarrow> db_imports d name \<noteq> None"

definition held :: "string \<Rightarrow> Databases \<Rightarrow> nat option" where
  "held name d = (case db_imports d name of None \<Rightarrow> None | Some im \<Rightarrow> im_held im)"

definition being_imported :: "string \<Rightarrow> string" where
  "being_imported name = ''database '' @ quoted name @ '' is being imported from an archive''"

definition owes_migration :: "string \<Rightarrow> bool \<Rightarrow> Databases \<Rightarrow> bool" where
  "owes_migration name failed_too d =
     (case db_states d name of
        Some (Pending _) \<Rightarrow> True
      | Some (Migrating _) \<Rightarrow> True
      | Some (Failed _ _ _) \<Rightarrow> failed_too
      | _ \<Rightarrow> False)"

definition recheck_if_behind :: "GatewayConfig \<Rightarrow> string \<Rightarrow> Databases \<Rightarrow> Databases" where
  "recheck_if_behind C name d =
     (let (t, d1) = db_now d in
      if \<not> behind C t (db_states d1 name) then d1
      else case probe_version C d1 of
             (Inr (Some version), d2) \<Rightarrow>
               if version = SCHEMA_VERSION
               then case drain_db C d2 of
                      (Inl _, d3) \<Rightarrow> d3
                    | (Inr _, d3) \<Rightarrow>
                        (let (t', d4) = db_now (note_drained name d3) in settle_recheck C name t' (Current version) d4)
               else (let (t', d3) = db_now d2 in settle_recheck C name t' (Pending version) d3)
           | (_, d2) \<Rightarrow> d2)"

definition pool :: "GatewayConfig \<Rightarrow> string \<Rightarrow> Databases \<Rightarrow> (DbError, unit) result \<times> Databases" where
  "pool C name d =
     (if \<not> gc_valid_name C name then (Inl (RefusedDb (''invalid database name '' @ quoted name)), d)
      else if importing name d then (Inl (Unavailable (being_imported name)), d)
      else if name \<in> set (db_pools d) then (Inr (), d)
      else case database_exists C d of
             (Inl e, d1) \<Rightarrow> (Inl (Unavailable e), d1)
           | (Inr False, d1) \<Rightarrow> (Inl (RefusedDb (''database '' @ quoted name @ '' does not exist'')), d1)
           | (Inr True, d1) \<Rightarrow> pool_if_current C name (recheck_if_behind C name d1))"

definition buffer_pool :: "string \<Rightarrow> Databases \<Rightarrow> (DbError, unit) result \<times> Databases" where
  "buffer_pool name d =
     (if name \<in> set (db_buffer_pools d) then (Inr (), d)
      else case build_pool d of
             (Inl e, d1) \<Rightarrow> (Inl (Unavailable e), d1)
           | (Inr _, d1) \<Rightarrow> (Inr (), d1\<lparr> db_buffer_pools := insert_name name (db_buffer_pools d1) \<rparr>))"

definition to_the_buffer :: "string \<Rightarrow> Databases \<Rightarrow> (DbError, Route) result \<times> Databases" where
  "to_the_buffer name d =
     (case buffer_pool name d of (Inl e, d1) \<Rightarrow> (Inl e, d1) | (Inr _, d1) \<Rightarrow> (Inr Route_Buffered, d1))"

definition route :: "GatewayConfig \<Rightarrow> string \<Rightarrow> Databases \<Rightarrow> (DbError, Route) result \<times> Databases" where
  "route C name d =
     (case held name d of
        Some gate \<Rightarrow> (Inr (Route_Held gate), d)
      | None \<Rightarrow>
          if \<not> owes_migration name (\<not> gc_auto_migrate C) d
          then case pool C name d of
                 (Inr _, d1) \<Rightarrow> (Inr Route_Live, d1)
               | (Inl e, d1) \<Rightarrow> if \<not> owes_migration name True d1 then (Inl e, d1) else to_the_buffer name d1
          else to_the_buffer name d)"

definition store :: "string \<Rightarrow> FrameRow list \<Rightarrow> Route \<Rightarrow> Databases \<Rightarrow> Databases" where
  "store name rows r d = d\<lparr> db_stored := db_stored d @ [(name, rows, r)] \<rparr>"

definition release_gate :: "nat \<Rightarrow> Databases \<Rightarrow> Databases" where
  "release_gate g d = d\<lparr> db_readers := remove1 g (db_readers d) \<rparr>"

text \<open>A batch held for an import: the gate is read, and stays read until the batch is written.\<close>

definition write_held :: "GatewayConfig \<Rightarrow> string \<Rightarrow> FrameRow list \<Rightarrow> nat \<Rightarrow> Databases \<Rightarrow> (WriteError, unit) result \<times> Databases" where
  "write_held C name rows g d =
     (let d0 = meanwhile_db C d in
      if g \<in> set (db_swapped d0)
      then (Inl (WriteDb (Unavailable (''database '' @ quoted name @
              '' is being swapped for an imported archive; retry shortly''))), d0)
      else case buffer_pool name (d0\<lparr> db_readers := g # db_readers d0 \<rparr>) of
             (Inl e, d1) \<Rightarrow> (Inl (WriteDb e), release_gate g d1)
           | (Inr _, d1) \<Rightarrow>
               (case write_db C d1 of
                  (Inl e, d2) \<Rightarrow> (Inl (WriteCopy e), release_gate g d2)
                | (Inr _, d2) \<Rightarrow>
                    (Inr (), release_gate g (note_buffered name (length rows) (store name rows (Route_Held g) d2)))))"

definition write_rows :: "GatewayConfig \<Rightarrow> string \<Rightarrow> FrameRow list \<Rightarrow> Databases \<Rightarrow> (WriteError, unit) result \<times> Databases" where
  "write_rows C name rows d =
     (case route C name d of
        (Inl e, d1) \<Rightarrow> (Inl (WriteDb e), d1)
      | (Inr Route_Live, d1) \<Rightarrow>
          (case write_db C d1 of
             (Inl e, d2) \<Rightarrow> (Inl (WriteCopy e), d2)
           | (Inr _, d2) \<Rightarrow> (Inr (), store name rows Route_Live d2))
      | (Inr (Route_Held g), d1) \<Rightarrow> write_held C name rows g d1
      | (Inr Route_Buffered, d1) \<Rightarrow>
          (case write_db C d1 of
             (Inl e, d2) \<Rightarrow> (Inl (WriteCopy e), d2)
           | (Inr Buffered, d2) \<Rightarrow> (Inr (), note_buffered name (length rows) (store name rows Route_Buffered d2))
           | (Inr Live, d2) \<Rightarrow>
               (Inr (), (store name rows Route_Buffered d2)\<lparr> db_tasks := db_tasks d2 @ [Recheck name] \<rparr>)))"

section \<open>Migrating\<close>

text \<open>\<^verbatim>\<open>start_background_workers\<close> only logs an error.\<close>

definition start_background_workers :: "GatewayConfig \<Rightarrow> Databases \<Rightarrow> Databases" where
  "start_background_workers C d = snd (admin_db C d)"

definition migrate_holding :: "GatewayConfig \<Rightarrow> string \<Rightarrow> int option \<Rightarrow> Databases \<Rightarrow> (string, unit) result \<times> Databases" where
  "migrate_holding C name version d =
     (let (t, d0) = db_now d;
          d1 = (if version \<noteq> Some SCHEMA_VERSION then set_state name (Migrating t) d0 else d0)
      in case run_migration C d1 of
           (Inr drained, d2) \<Rightarrow>
             (Inr (), set_state name (Current SCHEMA_VERSION) (start_background_workers C (note_drained name d2)))
         | (Inl e, d2) \<Rightarrow>
             (let (t', d3) = db_now d2 in
              (Inl e, set_state name (Failed (case version of Some v \<Rightarrow> v | None \<Rightarrow> 0) e t') d3)))"

text \<open>The lock one migration of a database holds is waited for: what happens meanwhile is other tasks'.\<close>

definition migrate_from :: "GatewayConfig \<Rightarrow> string \<Rightarrow> int option \<Rightarrow> Databases \<Rightarrow> (string, unit) result \<times> Databases" where
  "migrate_from C name version d =
     (let d0 = meanwhile_db C d in
      if version = Some SCHEMA_VERSION then migrate_holding C name version d0
      else case probe_version C d0 of
             (Inr found, d1) \<Rightarrow> migrate_holding C name found d1
           | (Inl e, d1) \<Rightarrow>
               (let (t, d2) = db_now d1 in
                (Inl e, set_state name (Failed (case version of Some v \<Rightarrow> v | None \<Rightarrow> 0) e t) d2)))"

definition migrate_one :: "GatewayConfig \<Rightarrow> string \<Rightarrow> Databases \<Rightarrow> (string, unit) result \<times> Databases" where
  "migrate_one C name d = migrate_from C name None d"

definition refuse_settled :: "string \<Rightarrow> Databases \<Rightarrow> MigrateRefusal option" where
  "refuse_settled name d =
     (case db_states d name of
        Some (Current v) \<Rightarrow> Some (Conflict (''database '' @ quoted name @ '' is '' @ label (Current v)))
      | Some (Migrating t) \<Rightarrow> Some (Conflict (''database '' @ quoted name @ '' is '' @ label (Migrating t)))
      | _ \<Rightarrow> None)"

definition try_migration_lock :: "Databases \<Rightarrow> bool \<times> Databases" where
  "try_migration_lock d = (case db_try_locks d of [] \<Rightarrow> (False, d) | b # rest \<Rightarrow> (b, d\<lparr> db_try_locks := rest \<rparr>))"

definition start_migration :: "GatewayConfig \<Rightarrow> string \<Rightarrow> Databases \<Rightarrow> (MigrateRefusal, unit) result \<times> Databases" where
  "start_migration C name d =
     (let missing = Inl (NotFound (''database '' @ quoted name @ '' does not exist'')) in
      if \<not> gc_valid_name C name then (missing, d)
      else case database_exists C d of
             (Inl e, d1) \<Rightarrow> (Inl (MigrateUnavailable e), d1)
           | (Inr False, d1) \<Rightarrow> (missing, d1)
           | (Inr True, d1) \<Rightarrow>
               (case refuse_settled name d1 of
                  Some r \<Rightarrow> (Inl r, d1)
                | None \<Rightarrow>
                    (case try_migration_lock d1 of
                       (False, d2) \<Rightarrow> (Inl (Conflict (''database '' @ quoted name @ '' is migrating'')), d2)
                     | (True, d2) \<Rightarrow>
                         (case probe_version C d2 of
                            (Inl e, d3) \<Rightarrow> (Inl (MigrateUnavailable e), d3)
                          | (Inr None, d3) \<Rightarrow> (Inl (Conflict (''database '' @ quoted name @ '' holds no capture schema'')), d3)
                          | (Inr (Some v), d3) \<Rightarrow>
                              (case refuse_settled name d3 of
                                 Some r \<Rightarrow> (Inl r, d3)
                               | None \<Rightarrow>
                                   (let (t, d4) = db_now d3; d5 = claim_migration name t d4
                                    in (Inr (), d5\<lparr> db_tasks := db_tasks d5 @ [Migrate_holding name (Some v)] \<rparr>)))))))"

section \<open>Creating and resolving\<close>

text \<open>Under \<^verbatim>\<open>create_lock\<close>; \<open>Inr True\<close> when the database was made.\<close>

definition create_if_missing :: "GatewayConfig \<Rightarrow> string \<Rightarrow> Databases \<Rightarrow> (string, bool) result \<times> Databases" where
  "create_if_missing C name d =
     (case database_exists C (meanwhile_db C d) of
        (Inl e, d1) \<Rightarrow> (Inl e, d1)
      | (Inr True, d1) \<Rightarrow> (Inr False, d1)
      | (Inr False, d1) \<Rightarrow>
          (case admin_db C d1 of
             (Inl e, d2) \<Rightarrow> (Inl (''CREATE DATABASE '' @ name @ '' failed: '' @ e), d2)
           | (Inr _, d2) \<Rightarrow> (Inr True, d2)))"

definition create_database :: "GatewayConfig \<Rightarrow> string \<Rightarrow> Databases \<Rightarrow> (string, unit) result \<times> Databases" where
  "create_database C name d =
     (if \<not> gc_valid_name C name then (Inl (''invalid database name '' @ quoted name), d)
      else if importing name d then (Inl (being_imported name), d)
      else case create_if_missing C name d of
             (Inl e, d1) \<Rightarrow> (Inl e, d1)
           | (Inr created, d1) \<Rightarrow>
               if created \<or> gc_auto_migrate C then migrate_one C name d1
               else case probe_version C d1 of
                      (Inl e, d2) \<Rightarrow> (Inl e, d2)
                    | (Inr found, d2) \<Rightarrow>
                        (case found of
                           Some version \<Rightarrow>
                             if version \<noteq> SCHEMA_VERSION then (Inr (), set_state name (Pending version) d2)
                             else migrate_from C name found d2
                         | None \<Rightarrow> migrate_from C name found d2))"

definition route_exists :: "GatewayConfig \<Rightarrow> string \<Rightarrow> Databases \<Rightarrow> (DbError, unit) result \<times> Databases" where
  "route_exists C name d = (case route C name d of (Inl e, d1) \<Rightarrow> (Inl e, d1) | (Inr _, d1) \<Rightarrow> (Inr (), d1))"

definition ensure_database :: "GatewayConfig \<Rightarrow> string \<Rightarrow> bool \<Rightarrow> Databases \<Rightarrow> (DbError, unit) result \<times> Databases" where
  "ensure_database C name allow_create d =
     (if \<not> gc_valid_name C name then (Inl (RefusedDb (''invalid database name '' @ quoted name)), d)
      else if is_gateway_database C name then (Inl (RefusedDb (protected name)), d)
      else if held name d \<noteq> None then (Inr (), d)
      else if importing name d then (Inl (Unavailable (being_imported name)), d)
      else case database_exists C d of
             (Inl e, d1) \<Rightarrow> (Inl (Unavailable e), d1)
           | (Inr True, d1) \<Rightarrow> route_exists C name d1
           | (Inr False, d1) \<Rightarrow>
               if \<not> (allow_create \<and> gc_auto_create_databases C)
               then (Inl (RefusedDb (''database '' @ quoted name @ '' does not exist (auto-create disabled)'')), d1)
               else case create_database C name d1 of
                      (Inl e, d2) \<Rightarrow> (Inl (Unavailable e), d2)
                    | (Inr _, d2) \<Rightarrow> route_exists C name d2)"

section \<open>Imports\<close>

datatype ImportError = ImportBadRequest string | ImportConflict string | ImportNotFound string | ImportUnavailable string

definition abandon_import :: "GatewayConfig \<Rightarrow> string \<Rightarrow> Databases \<Rightarrow> Databases" where
  "abandon_import C target d =
     (case db_imports d target of
        None \<Rightarrow> d
      | Some im \<Rightarrow>
          (let d1 = (case im_held im of
                       None \<Rightarrow> d
                     | Some g \<Rightarrow> (let m = meanwhile_db C d in m\<lparr> db_swapped := g # db_swapped m \<rparr>));
               d2 = d1\<lparr> db_imports := (db_imports d1)(target := None) \<rparr>;
               d3 = (if im_held im \<noteq> None
                     then case drain_db C d2 of
                            (Inr n, e) \<Rightarrow> note_drained target e
                          | (Inl _, e) \<Rightarrow> set_state target (Pending SCHEMA_VERSION) e
                     else d2)
           in snd (admin_db C d3)))"

definition begin_import :: "GatewayConfig \<Rightarrow> string \<Rightarrow> nat \<Rightarrow> string \<Rightarrow> bool \<Rightarrow> Databases \<Rightarrow> (ImportError, string) result \<times> Databases" where
  "begin_import C staging gate target replace d =
     (if \<not> gc_valid_name C target then (Inl (ImportBadRequest (''invalid database name '' @ quoted target)), d)
      else case database_exists C d of
        (Inl e, d1) \<Rightarrow> (Inl (ImportUnavailable e), d1)
      | (Inr found, d1) \<Rightarrow>
          if \<not> replace \<and> found
          then (Inl (ImportConflict (''database '' @ quoted target @ '' already exists; import under a new name, or replace it'')), d1)
          else if replace \<and> \<not> found then (Inl (ImportNotFound (''database '' @ quoted target @ '' does not exist'')), d1)
          else case admin_db C d1 of
            (Inl e, d2) \<Rightarrow> (Inl (ImportUnavailable e), d2)
          | (Inr _, d2) \<Rightarrow>
              if replace \<and> \<not> (case db_states d2 target of Some st \<Rightarrow> is_current st | None \<Rightarrow> False)
              then (Inl (ImportConflict (''database '' @ quoted target @ '' is not at the current schema; migrate it first'')), d2)
              else if importing target d2 then (Inl (ImportConflict (being_imported target)), d2)
              else (let (t, d3) = db_now d2;
                        d4 = d3\<lparr> db_imports := (db_imports d3)(target \<mapsto>
                               \<lparr> im_staging = staging, im_since = t, im_held = (if replace then Some gate else None) \<rparr>) \<rparr>
                    in case admin_db C d4 of
                         (Inl e, d5) \<Rightarrow> (Inl (ImportUnavailable e), abandon_import C target d5)
                       | (Inr _, d5) \<Rightarrow> (Inr staging, d5)))"

text \<open>\<^verbatim>\<open>swap_in\<close>: \<open>True\<close> for a replace. The gate is written once no held batch has it, and the pools dropped; a
  failure from there on leaves the import to be abandoned.\<close>

definition swap_in :: "GatewayConfig \<Rightarrow> string \<Rightarrow> Databases \<Rightarrow> (ImportError, bool) result \<times> Databases" where
  "swap_in C target d =
     (case db_imports d target of
        None \<Rightarrow> (Inl (ImportUnavailable (''no import into '' @ quoted target)), d)
      | Some im \<Rightarrow>
          (case im_held im of
             None \<Rightarrow>
               (case admin_db C d of
                  (Inl e, d1) \<Rightarrow> (Inl (ImportUnavailable e), d1)
                | (Inr _, d1) \<Rightarrow> (Inr False, d1\<lparr> db_imports := (db_imports d1)(target := None) \<rparr>))
           | Some g \<Rightarrow>
               (let d1 = meanwhile_db C d;
                    d2 = drop_pools target (d1\<lparr> db_swapped := g # db_swapped d1 \<rparr>)
                in case admin_db C d2 of
                     (Inl e, d3) \<Rightarrow> (Inl (ImportUnavailable e), d3)
                   | (Inr _, d3) \<Rightarrow>
                       (case admin_db C d3 of
                          (Inl e, d4) \<Rightarrow> (Inl (ImportUnavailable e), d4)
                        | (Inr _, d4) \<Rightarrow>
                            (let (t, d5) = db_now d4; d6 = set_state target (Migrating t) d5
                             in (Inr True, d6\<lparr> db_imports := (db_imports d6)(target := None) \<rparr>))))))"

definition finish_import :: "GatewayConfig \<Rightarrow> string \<Rightarrow> Databases \<Rightarrow> (ImportError, string option) result \<times> Databases" where
  "finish_import C target d =
     (case swap_in C target d of
        (Inl e, d1) \<Rightarrow> (Inl e, abandon_import C target d1)
      | (Inr replaced, d1) \<Rightarrow>
          (case migrate_one C target (start_background_workers C d1) of
             (served, d2) \<Rightarrow>
               (let d3 = (if replaced then snd (admin_db C d2) else d2) in
                (Inr (case served of
                        Inr _ \<Rightarrow> None
                      | Inl e \<Rightarrow> Some (quoted target @ '' now holds the archive, but is not serving yet: '' @ e @
                                        ''. It is retried; or migrate it from the Databases page'')), d3))))"

section \<open>Removing\<close>

text \<open>\<^verbatim>\<open>delete_database\<close> takes one lock after another. What it forgets beside the pools and the state is not modelled.\<close>

definition delete_database :: "GatewayConfig \<Rightarrow> string \<Rightarrow> Databases \<Rightarrow> (string, unit) result \<times> Databases" where
  "delete_database C name d =
     (if \<not> gc_valid_name C name then (Inl (''invalid database name '' @ quoted name), d)
      else if is_gateway_database C name then (Inl (protected name), d)
      else
        (let d1 = meanwhile_db C (d\<lparr> db_pools := removeAll name (db_pools d) \<rparr>);
             d2 = meanwhile_db C (d1\<lparr> db_buffer_pools := removeAll name (db_buffer_pools d1) \<rparr>);
             d3 = meanwhile_db C (note_drained name d2);
             d4 = meanwhile_db C (d3\<lparr> db_states := (db_states d3)(name := None) \<rparr>)
         in case database_exists C d4 of
              (Inl e, d5) \<Rightarrow> (Inl e, d5)
            | (Inr False, d5) \<Rightarrow> (Inr (), d5)
            | (Inr True, d5) \<Rightarrow>
                (case admin_db C d5 of
                   (Inl e, d6) \<Rightarrow> (Inl (''DROP DATABASE '' @ name @ '' failed: '' @ e), d6)
                 | (Inr _, d6) \<Rightarrow> (Inr (), d6))))"

definition connect_current :: "GatewayConfig \<Rightarrow> string \<Rightarrow> Databases \<Rightarrow> (DbError, unit) result \<times> Databases" where
  "connect_current C name d =
     (case pool C name d of
        (Inl e, d1) \<Rightarrow> (Inl e, d1)
      | (Inr _, d1) \<Rightarrow> (case admin_db C d1 of (Inl e, d2) \<Rightarrow> (Inl (Unavailable e), d2) | (Inr _, d2) \<Rightarrow> (Inr (), d2)))"

section \<open>The sweep at start\<close>

text \<open>\<^verbatim>\<open>buffer_left\<close>: a database that cannot be asked counts as one with a buffer.\<close>

definition buffer_left :: "GatewayConfig \<Rightarrow> Databases \<Rightarrow> bool \<times> Databases" where
  "buffer_left C d = (case database_exists C d of (Inr b, d1) \<Rightarrow> (b, d1) | (Inl _, d1) \<Rightarrow> (True, d1))"

text \<open>The first pass: each name's state, and the databases that are the gateway's, with their versions.\<close>

fun sweep_probe :: "GatewayConfig \<Rightarrow> string list \<Rightarrow> Databases \<Rightarrow> (string \<times> int) list \<times> Databases" where
  "sweep_probe C [] d = ([], d)"
| "sweep_probe C (name # names) d =
     (case probe_version C d of
        (Inr None, d1) \<Rightarrow> sweep_probe C names d1
      | (Inr (Some v), d1) \<Rightarrow>
          (let (left, d2) = (if v = SCHEMA_VERSION then buffer_left C d1 else (True, d1));
               d3 = set_state name (if left then Pending v else Current v) d2;
               (ours, d4) = sweep_probe C names d3
           in ((name, v) # ours, d4))
      | (Inl e, d1) \<Rightarrow> (let (t, d2) = db_now d1 in sweep_probe C names (set_state name (Failed 0 e t) d2)))"

fun sweep_migrate :: "GatewayConfig \<Rightarrow> (string \<times> int) list \<Rightarrow> Databases \<Rightarrow> Databases" where
  "sweep_migrate C [] d = d"
| "sweep_migrate C ((name, v) # ours) d = sweep_migrate C ours (snd (migrate_from C name (Some v) d))"

text \<open>\<^verbatim>\<open>migrate_all\<close>, up to the repair of the rollups. The names are those \<^verbatim>\<open>list_names\<close> gives.\<close>

definition migrate_all :: "GatewayConfig \<Rightarrow> (string, string list) result \<Rightarrow> Databases \<Rightarrow> Databases" where
  "migrate_all C listed d =
     (case listed of
        Inl _ \<Rightarrow> d
      | Inr names \<Rightarrow>
          (let (ours, d1) = sweep_probe C names d;
               todo = (if gc_auto_migrate C then ours else filter (\<lambda>x. snd x = SCHEMA_VERSION) ours)
           in sweep_migrate C todo d1))"

section \<open>What every section keeps, every operation keeps\<close>

lemma require_current_ok:
  "require_current C name d = (Inr u, d') \<Longrightarrow> d' = d \<and> (\<exists>v. db_states d name = Some (Current v))"
  by (auto simp: require_current_def Let_def case_prod_beta split: option.splits DbSchemaState.splits if_splits)

lemma build_pool_states: "db_states (snd (build_pool d)) = db_states d" "db_pools (snd (build_pool d)) = db_pools d"
  by (simp_all add: build_pool_def split: list.split)

text \<open>\<open>P\<close> is about the pools, the states and the batches stored, and is kept by the three ways this file
  changes them: \<^verbatim>\<open>set_state\<close>, a state inserted for a database that is not current, a pool cached for one that
  is or dropped.\<close>

locale kept_by_sections =
  fixes P :: "Databases \<Rightarrow> bool"
  assumes same: "P d \<Longrightarrow> db_pools e = db_pools d \<Longrightarrow> db_states e = db_states d \<Longrightarrow> db_stored e = db_stored d \<Longrightarrow> P e"
    and set_state: "P d \<Longrightarrow> P (set_state name st d)"
    and claim: "P d \<Longrightarrow> (\<And>v. db_states d name \<noteq> Some (Current v)) \<Longrightarrow> P (d\<lparr> db_states := (db_states d)(name \<mapsto> st) \<rparr>)"
    and cache: "P d \<Longrightarrow> db_states d name = Some (Current v) \<Longrightarrow> P (d\<lparr> db_pools := insert_name name (db_pools d) \<rparr>)"
    and uncache: "P d \<Longrightarrow> P (d\<lparr> db_pools := removeAll name (db_pools d) \<rparr>)"
begin

lemma rest [simp]:
  "P d \<Longrightarrow> P (d\<lparr> db_buffer_pools := b \<rparr>)" "P d \<Longrightarrow> P (d\<lparr> db_buffered := u \<rparr>)" "P d \<Longrightarrow> P (d\<lparr> db_imports := i \<rparr>)"
  "P d \<Longrightarrow> P (d\<lparr> db_swapped := w \<rparr>)" "P d \<Longrightarrow> P (d\<lparr> db_readers := w \<rparr>)" "P d \<Longrightarrow> P (d\<lparr> db_tasks := k \<rparr>)"
  "P d \<Longrightarrow> P (d\<lparr> db_exists := x1 \<rparr>)" "P d \<Longrightarrow> P (d\<lparr> db_probes := x2 \<rparr>)" "P d \<Longrightarrow> P (d\<lparr> db_drains := x3 \<rparr>)"
  "P d \<Longrightarrow> P (d\<lparr> db_writes := x4 \<rparr>)" "P d \<Longrightarrow> P (d\<lparr> db_runs := x3 \<rparr>)" "P d \<Longrightarrow> P (d\<lparr> db_admin := x5 \<rparr>)"
  "P d \<Longrightarrow> P (d\<lparr> db_builds := x5 \<rparr>)" "P d \<Longrightarrow> P (d\<lparr> db_try_locks := x6 \<rparr>)" "P d \<Longrightarrow> P (d\<lparr> db_clock := w \<rparr>)"
  "P d \<Longrightarrow> P (d\<lparr> db_others := x7 \<rparr>)"
  by (erule same; simp)+

lemma clock [simp]: "P d \<Longrightarrow> P (snd (db_now d))"
  by (simp add: db_now_def split: list.split)

lemma built [simp]: "P d \<Longrightarrow> P (snd (build_pool d))"
  by (simp add: build_pool_def split: list.split)

lemma required [simp]: "P d \<Longrightarrow> P (snd (require_current C name d))"
proof (cases "\<exists>v. db_states d name = Some (Current v)")
  case False
  assume "P d"
  moreover have "db_states (snd (db_now d)) = db_states d"
    by (simp add: db_now_def split: list.split)
  ultimately have "P ((snd (db_now d))\<lparr> db_states := (db_states (snd (db_now d)))(name \<mapsto> st) \<rparr>)" for st
    using False by (intro claim) simp_all
  then show ?thesis
    using \<open>P d\<close> False
    by (simp add: require_current_def Let_def case_prod_beta split: option.split DbSchemaState.split)
qed (auto simp: require_current_def)

lemma pooled [simp]: "P d \<Longrightarrow> P (snd (pool_if_current C name d))"
proof (cases "require_current C name d")
  case (Pair q d1)
  assume "P d"
  then have P1: "P d1"
    using required [of d C name] Pair by simp
  show ?thesis
  proof (cases q)
    case (Inl e)
    then show ?thesis
      using Pair P1 by (simp add: pool_if_current_def)
  next
    case (Inr u)
    then obtain v where v: "db_states d1 name = Some (Current v)"
      using Pair require_current_ok by blast
    then have "db_states (snd (build_pool d1)) name = Some (Current v)"
      by (simp add: build_pool_states)
    then show ?thesis
      using Pair P1 Inr cache [of "snd (build_pool d1)"] by (simp add: pool_if_current_def case_prod_beta split: sum.split)
  qed
qed

lemma settled [simp]: "P d \<Longrightarrow> P (settle_recheck C name t st d)"
  by (auto simp: settle_recheck_def behind_def intro!: claim split: option.splits DbSchemaState.splits)

lemma claimed [simp]: "P d \<Longrightarrow> P (claim_migration name t d)"
  by (auto simp: claim_migration_def intro!: claim split: option.splits DbSchemaState.splits)

lemma dropped [simp]: "P d \<Longrightarrow> P (drop_pools name d)"
  using rest(1) [OF uncache [of d name]] by (simp add: drop_pools_def)

lemma acted [simp]: "P d \<Longrightarrow> P (dbact_step C a d)"
  by (cases a) (simp_all add: dbact_step_def set_state)

lemma interfered [simp]: "P d \<Longrightarrow> P (meanwhile_db C d)"
proof -
  have "P e \<Longrightarrow> P (fold (dbact_step C) as e)" for as e
    by (induction as arbitrary: e) simp_all
  then show "P d \<Longrightarrow> P (meanwhile_db C d)"
    by (simp add: meanwhile_db_def split: list.split)
qed

lemma awaited [simp]:
  "P d \<Longrightarrow> P (snd (database_exists C d))" "P d \<Longrightarrow> P (snd (probe_version C d))" "P d \<Longrightarrow> P (snd (drain_db C d))"
  "P d \<Longrightarrow> P (snd (write_db C d))" "P d \<Longrightarrow> P (snd (run_migration C d))" "P d \<Longrightarrow> P (snd (admin_db C d))"
  "P d \<Longrightarrow> P (snd (try_migration_lock d))" "P d \<Longrightarrow> P (start_background_workers C d)"
  by (simp_all add: database_exists_def probe_version_def drain_db_def write_db_def run_migration_def admin_db_def
      try_migration_lock_def start_background_workers_def split: list.split)

lemma noted [simp]: "P d \<Longrightarrow> P (note_drained name d)" "P d \<Longrightarrow> P (note_buffered name n d)" "P d \<Longrightarrow> P (release_gate g d)"
  by (simp_all add: note_drained_def note_buffered_def release_gate_def)

lemma rechecked [simp]: "P d \<Longrightarrow> P (recheck_if_behind C name d)"
  by (simp add: recheck_if_behind_def Let_def case_prod_beta split: sum.split option.split)

lemma resolved [simp]: "P d \<Longrightarrow> P (snd (pool C name d))"
  by (simp add: pool_def case_prod_beta split: sum.split bool.split)

lemma buffer_resolved [simp]: "P d \<Longrightarrow> P (snd (buffer_pool name d))"
  by (simp add: buffer_pool_def case_prod_beta split: sum.split)

lemma routed [simp]: "P d \<Longrightarrow> P (snd (route C name d))" "P d \<Longrightarrow> P (snd (route_exists C name d))"
  by (simp_all add: route_def route_exists_def to_the_buffer_def case_prod_beta split: sum.split option.split)

lemma migrated [simp]:
  "P d \<Longrightarrow> P (snd (migrate_holding C name version d))" "P d \<Longrightarrow> P (snd (migrate_from C name version d))"
  "P d \<Longrightarrow> P (snd (migrate_one C name d))"
proof -
  show 1: "P d \<Longrightarrow> P (snd (migrate_holding C name version d))" for version d
    by (simp add: migrate_holding_def Let_def case_prod_beta set_state split: sum.split)
  show 2: "P d \<Longrightarrow> P (snd (migrate_from C name version d))" for version d
    by (simp add: migrate_from_def Let_def case_prod_beta set_state 1 split: sum.split)
  show "P d \<Longrightarrow> P (snd (migrate_one C name d))"
    by (simp add: migrate_one_def 2)
qed

lemma started [simp]: "P d \<Longrightarrow> P (snd (start_migration C name d))"
  by (simp add: start_migration_def Let_def case_prod_beta split: sum.split option.split bool.split)

lemma created [simp]: "P d \<Longrightarrow> P (snd (create_database C name d))"
  by (simp add: create_database_def create_if_missing_def case_prod_beta set_state split: sum.split option.split bool.split)

lemma ensured [simp]: "P d \<Longrightarrow> P (snd (ensure_database C name allow d))"
  by (simp add: ensure_database_def case_prod_beta split: sum.split bool.split)

lemma abandoned [simp]: "P d \<Longrightarrow> P (abandon_import C target d)"
  by (simp add: abandon_import_def Let_def case_prod_beta set_state split: sum.split option.split)

lemma begun [simp]: "P d \<Longrightarrow> P (snd (begin_import C staging g target replace d))"
  by (simp add: begin_import_def Let_def case_prod_beta split: sum.split)

lemma swapped [simp]: "P d \<Longrightarrow> P (snd (swap_in C target d))"
  by (simp add: swap_in_def Let_def case_prod_beta set_state split: sum.split option.split)

lemma finished [simp]: "P d \<Longrightarrow> P (snd (finish_import C target d))"
  by (simp add: finish_import_def Let_def case_prod_beta split: sum.split)

lemma connected [simp]: "P d \<Longrightarrow> P (snd (connect_current C name d))"
  by (simp add: connect_current_def case_prod_beta split: sum.split)

lemma swept [simp]: "P d \<Longrightarrow> P (migrate_all C listed d)"
proof -
  have left: "P d \<Longrightarrow> P (snd (buffer_left C d))" for d
    by (simp add: buffer_left_def case_prod_beta split: sum.split)
  have probe: "P d \<Longrightarrow> P (snd (sweep_probe C names d))" for names d
    by (induction names arbitrary: d) (simp_all add: Let_def case_prod_beta set_state left split: sum.split option.split)
  have migrate: "P d \<Longrightarrow> P (sweep_migrate C ours d)" for ours d
    by (induction ours arbitrary: d) auto
  show "P d \<Longrightarrow> P (migrate_all C listed d)"
    by (simp add: migrate_all_def Let_def case_prod_beta probe migrate split: sum.split)
qed

end

text \<open>A pool is cached only for a database that is at the current schema.\<close>

definition cached_ok :: "Databases \<Rightarrow> bool" where
  "cached_ok d \<longleftrightarrow> (\<forall>name \<in> set (db_pools d). \<exists>v. db_states d name = Some (Current v))"

interpretation cached: kept_by_sections cached_ok
proof
  fix d name st
  assume "cached_ok d"
  then show "cached_ok (set_state name st d)"
    by (cases st) (auto simp: cached_ok_def set_state_def)
qed (auto simp: cached_ok_def insert_name_def)

text \<open>No section stores a batch.\<close>

definition stored_so_far :: "(string \<times> FrameRow list \<times> Route) list \<Rightarrow> Databases \<Rightarrow> bool" where
  "stored_so_far log d \<longleftrightarrow> db_stored d = log"

interpretation unstored: kept_by_sections "stored_so_far log" for log
  by standard (simp_all add: stored_so_far_def set_state_def)

section \<open>Properties\<close>

lemma written_cached: "cached_ok d \<Longrightarrow> cached_ok (snd (write_rows C name rows d))"
proof -
  have store: "cached_ok e \<Longrightarrow> cached_ok (store name rows r e)" for e r
    by (simp add: cached_ok_def store_def)
  have "cached_ok e \<Longrightarrow> cached_ok (snd (write_held C name rows g e))" for e g
    by (simp add: write_held_def Let_def case_prod_beta store split: sum.split)
  then show "cached_ok d \<Longrightarrow> cached_ok (snd (write_rows C name rows d))"
    by (simp add: write_rows_def case_prod_beta store split: sum.split Route.split Written.split)
qed

lemma pool_if_current_ok:
  assumes "fst (pool_if_current C name d) = Inr u"
  shows "\<exists>v. db_states (snd (pool_if_current C name d)) name = Some (Current v)"
proof (cases "require_current C name d")
  case (Pair q d1)
  with assms obtain v where q: "q = Inr ()" "db_states d1 name = Some (Current v)"
    using require_current_ok [of C name d "()" d1] by (cases q) (auto simp: pool_if_current_def)
  then show ?thesis
    using Pair build_pool_states by (simp add: pool_if_current_def case_prod_beta split: sum.split)
qed


text \<open>A gate that is read is not opened, whatever other tasks do.\<close>

definition gate_shut :: "nat \<Rightarrow> Databases \<Rightarrow> bool" where
  "gate_shut g d \<longleftrightarrow> g \<in> set (db_readers d) \<and> g \<notin> set (db_swapped d)"

lemma gate_same: "gate_shut g d \<Longrightarrow> db_readers e = db_readers d \<Longrightarrow> db_swapped e = db_swapped d \<Longrightarrow> gate_shut g e"
  by (simp add: gate_shut_def)

lemma section_gates:
  "db_readers (snd (db_now d)) = db_readers d" "db_swapped (snd (db_now d)) = db_swapped d"
  "db_readers (snd (build_pool d)) = db_readers d" "db_swapped (snd (build_pool d)) = db_swapped d"
  "db_readers (set_state name st d) = db_readers d" "db_swapped (set_state name st d) = db_swapped d"
  "db_readers (settle_recheck C name t st d) = db_readers d" "db_swapped (settle_recheck C name t st d) = db_swapped d"
  "db_readers (claim_migration name t d) = db_readers d" "db_swapped (claim_migration name t d) = db_swapped d"
  by (simp_all add: db_now_def build_pool_def set_state_def settle_recheck_def claim_migration_def Let_def
      split: list.split option.split DbSchemaState.split)

lemma pool_gates:
  "db_readers (snd (pool_if_current C name d)) = db_readers d" "db_swapped (snd (pool_if_current C name d)) = db_swapped d"
proof -
  have "db_readers (snd (require_current C name d)) = db_readers d \<and> db_swapped (snd (require_current C name d)) = db_swapped d"
    by (simp add: require_current_def Let_def case_prod_beta section_gates split: option.split DbSchemaState.split)
  then show "db_readers (snd (pool_if_current C name d)) = db_readers d" "db_swapped (snd (pool_if_current C name d)) = db_swapped d"
    by (simp_all add: pool_if_current_def case_prod_beta section_gates split: sum.split)
qed

lemma gate_stays_shut: "gate_shut g d \<Longrightarrow> gate_shut g (meanwhile_db C d)"
proof -
  have step: "gate_shut g (dbact_step C a e)" if "gate_shut g e" for a e
    using that by (cases a) (auto simp: dbact_step_def drop_pools_def section_gates pool_gates gate_shut_def)
  have fold: "gate_shut g (fold (dbact_step C) as e)" if "gate_shut g e" for as e
    using that by (induction as arbitrary: e) (simp_all add: step)
  assume "gate_shut g d"
  then show ?thesis
    using fold [OF gate_same [OF \<open>gate_shut g d\<close>]] by (simp add: meanwhile_db_def split: list.split)
qed

lemma stored_now: "stored_so_far (db_stored d) d"
  by (simp add: stored_so_far_def)

lemma write_held_stores:
  "case write_held C name rows g d of
     (Inr _, d') \<Rightarrow> db_stored d' = db_stored d @ [(name, rows, Route_Held g)] \<and> g \<notin> set (db_swapped d')
   | (Inl _, d') \<Rightarrow> db_stored d' = db_stored d"
proof -
  define e where "e = (meanwhile_db C d)\<lparr> db_readers := g # db_readers (meanwhile_db C d) \<rparr>"
  have log: "stored_so_far (db_stored d) (meanwhile_db C d)" "stored_so_far (db_stored d) e"
    using stored_now [of d] by (simp_all add: e_def)
  have "stored_so_far (db_stored d) (snd (buffer_pool name e))"
    "stored_so_far (db_stored d) (snd (write_db C (snd (buffer_pool name e))))"
    using log(2) by simp_all
  moreover have "gate_shut g (snd (write_db C (snd (buffer_pool name e))))" if "g \<notin> set (db_swapped (meanwhile_db C d))"
  proof -
    have "gate_shut g e"
      using that by (simp add: e_def gate_shut_def)
    then have shut: "gate_shut g (snd (buffer_pool name e))"
      by (rule gate_same) (simp_all add: buffer_pool_def case_prod_beta section_gates split: sum.split)
    show ?thesis
      unfolding write_db_def using gate_stays_shut [OF gate_same [OF shut]] by (simp split: list.split)
  qed
  ultimately show ?thesis
    using log(1) unfolding write_held_def Let_def e_def [symmetric]
    by (auto simp: case_prod_beta stored_so_far_def gate_shut_def release_gate_def note_buffered_def store_def split: sum.split)
qed

text \<open>A batch is answered as stored exactly when a writer said it wrote it: into \<^verbatim>\<open>capture_frame\<close> or the buffer of
  the database it was for. One held back for an import is written before the import's gate opens, so the
  swap that follows carries it across.\<close>

lemma write_rows_stored:
  "case write_rows C name rows d of
     (Inr _, d') \<Rightarrow> \<exists>r. db_stored d' = db_stored d @ [(name, rows, r)] \<and> (\<forall>g. r = Route_Held g \<longrightarrow> g \<notin> set (db_swapped d'))
   | (Inl _, d') \<Rightarrow> db_stored d' = db_stored d"
proof (cases "route C name d")
  case (Pair r d1)
  have "stored_so_far (db_stored d) (snd (route C name d))"
    using stored_now by simp
  then have "stored_so_far (db_stored d) d1"
    using Pair by simp
  moreover from this have "stored_so_far (db_stored d) (snd (write_db C d1))"
    by simp
  ultimately have log: "db_stored d1 = db_stored d" "db_stored (snd (write_db C d1)) = db_stored d"
    by (simp_all add: stored_so_far_def)
  show ?thesis
  proof (cases "\<exists>g. r = Inr (Route_Held g)")
    case True
    then obtain g where g: "r = Inr (Route_Held g)" ..
    show ?thesis
      using write_held_stores [where C = C and name = name and rows = rows and g = g and d = d1] Pair log g
      by (auto simp: write_rows_def split: prod.splits sum.splits)
  next
    case False
    then show ?thesis
      using Pair log
      by (auto simp: write_rows_def case_prod_beta note_buffered_def store_def split: sum.split Route.split Written.split)
  qed
qed

text \<open>A database that waits for its migration, or is being migrated, still takes batches: they go to its buffer
  without asking the cluster whether it can be read, and the rows are counted.\<close>

theorem a_database_behind_takes_batches:
  assumes "db_states d name \<in> {Some (Pending v), Some (Migrating t)}" "held name d = None"
    and "name \<in> set (db_buffer_pools d) \<or> (\<exists>rest. db_builds d = Inr () # rest)"
    and "db_writes d = Inr Buffered # ws" "db_others d = []"
  shows "fst (write_rows C name rows d) = Inr () \<and>
    db_stored (snd (write_rows C name rows d)) = db_stored d @ [(name, rows, Route_Buffered)] \<and>
    db_buffered (snd (write_rows C name rows d)) name =
      Some ((case db_buffered d name of Some k \<Rightarrow> k | None \<Rightarrow> 0) + length rows)"
proof -
  have "owes_migration name x d" for x
    using assms(1) by (auto simp: owes_migration_def)
  then show ?thesis
    using assms(2-5)
    by (auto simp: write_rows_def route_def to_the_buffer_def buffer_pool_def build_pool_def write_db_def meanwhile_db_def
        note_buffered_def store_def)
qed

text \<open>A session is opened on a capture database only: a valid name, and never the gateway's own.\<close>

lemma ensured_name: "fst (ensure_database C name allow d) = Inr () \<Longrightarrow> gc_valid_name C name \<and> name \<noteq> gc_default_database C"
  by (auto simp: ensure_database_def is_gateway_database_def split: if_splits)

text \<open>A gateway with one database current and one behind, whose buffer has a pool.\<close>

definition ex_databases :: Databases where
  "ex_databases =
     \<lparr> db_pools = [''van1''], db_buffer_pools = [''van2''],
       db_states = [''van1'' \<mapsto> Current SCHEMA_VERSION, ''van2'' \<mapsto> Pending 1],
       db_buffered = (\<lambda>_. None), db_imports = (\<lambda>_. None), db_swapped = [], db_readers = [], db_tasks = [], db_stored = [],
       db_exists = [Inr True], db_probes = [Inr (Some 1)], db_drains = [], db_writes = [Inr Buffered], db_runs = [], db_admin = [],
       db_try_locks = [], db_builds = [Inr ()], db_clock = [5, 6], db_others = [] \<rparr>"

definition ex_gateway_config :: GatewayConfig where
  "ex_gateway_config =
     \<lparr> gc_auto_migrate = False, gc_auto_create_databases = True, gc_default_database = ''wiretap'',
       gc_valid_name = (\<lambda>name. name \<noteq> []) \<rparr>"


theorem a_database_behind_takes_batches_witness:
  "fst (write_rows ex_gateway_config ''van2'' [ex_row] ex_databases) = Inr () \<and>
   db_stored (snd (write_rows ex_gateway_config ''van2'' [ex_row] ex_databases)) = [(''van2'', [ex_row], Route_Buffered)] \<and>
   db_buffered (snd (write_rows ex_gateway_config ''van2'' [ex_row] ex_databases)) ''van2'' = Some 1"
  using a_database_behind_takes_batches [of ex_databases "''van2''" 1 0 "[]" ex_gateway_config "[ex_row]"]
  by (simp add: ex_databases_def held_def)

text \<open>A pool that a request builds between two locks of a removal outlives the removal.\<close>

lemma removal_may_leave_a_pool:
  "let d = snd (delete_database ex_gateway_config ''van1'' (ex_databases\<lparr> db_others := [[A_Pool ''van1'']], db_exists := [Inr False] \<rparr>))
   in ''van1'' \<in> set (db_pools d) \<and> db_states d ''van1'' = None"
  by (simp add: delete_database_def ex_databases_def ex_gateway_config_def is_gateway_database_def meanwhile_db_def dbact_step_def
      pool_if_current_def require_current_def build_pool_def insert_name_def note_drained_def database_exists_def Let_def)

end
