(* ===== verification/Gateway_Keys.thy ===== *)
theory Gateway_Keys
  imports Rust_Text
begin

text \<open>
  The gateway's API keys: \<^verbatim>\<open>crates/wiretap-backend/src/keys.rs\<close>.

  The tables \<^verbatim>\<open>api_keys\<close> and \<^verbatim>\<open>bootstrap_keys\<close> are modelled as far as the statements of this file go, with
  their keys and their unique indexes. The hash, \<^verbatim>\<open>hex\<close> of SHA-256, is a parameter. Whether a connection or a
  statement fails, the random keys, the clock and the guard on wrong keys are scripts; a transaction that
  fails leaves the tables as they were.
\<close>

section \<open>Roles\<close>

datatype Role = Role_Read | Role_Ingest | Role_Admin

definition Role_parse :: "string \<Rightarrow> Role option" where
  "Role_parse s =
     (if s = ''read'' then Some Role_Read else if s = ''ingest'' then Some Role_Ingest
      else if s = ''admin'' then Some Role_Admin else None)"

definition Role_as_str :: "Role \<Rightarrow> string" where
  "Role_as_str r = (case r of Role_Read \<Rightarrow> ''read'' | Role_Ingest \<Rightarrow> ''ingest'' | Role_Admin \<Rightarrow> ''admin'')"

definition allows_read :: "Role \<Rightarrow> bool" where
  "allows_read r \<longleftrightarrow> r = Role_Read \<or> r = Role_Admin"

definition allows_ingest :: "Role \<Rightarrow> bool" where
  "allows_ingest r \<longleftrightarrow> r = Role_Ingest \<or> r = Role_Admin"

definition allows_admin :: "Role \<Rightarrow> bool" where
  "allows_admin r \<longleftrightarrow> r = Role_Admin"

record KeyInfo =
  ki_id :: int
  ki_name :: string
  ki_role :: Role
  ki_pin :: "string option"

datatype KeyRotation = Rotated string | RotateNotFound | RotateDisabled

record KeySummary =
  sm_id :: int
  sm_name :: string
  sm_role :: Role
  sm_pin :: "string option"
  sm_created :: nat
  sm_last_used :: "nat option"
  sm_disabled :: bool

section \<open>State\<close>

record key_row =
  kr_id :: int
  kr_name :: string
  kr_hash :: string
  kr_role :: string
  kr_pin :: "string option"
  kr_created :: nat
  kr_last_used :: "nat option"
  kr_disabled_at :: "nat option"

record meta =
  mt_keys :: "key_row list"
  mt_next :: int
  mt_boot :: "(string \<times> nat option) list"

text \<open>\<^verbatim>\<open>Bootstrap\<close> and the cache of enabled keys, and the world they run in. \<open>kw_answers\<close> says of each connection
  and statement whether it succeeds.\<close>

record KeyStore =
  ks_configured :: "string option"
  ks_current :: "string option"
  ks_cache :: "string \<Rightarrow> KeyInfo option"

record kworld =
  kw_meta :: meta
  kw_store :: KeyStore
  kw_answers :: "string option list"
  kw_new :: "string list"
  kw_clock :: "nat list"
  kw_admits :: "bool list"
  kw_file :: "string option"
  kw_touched :: "int list"

definition KeyStore_new :: "(string \<Rightarrow> string) \<Rightarrow> string option \<Rightarrow> KeyStore" where
  "KeyStore_new H bootstrap_admin_key =
     \<lparr> ks_configured = map_option H bootstrap_admin_key, ks_current = map_option H bootstrap_admin_key,
       ks_cache = (\<lambda>_. None) \<rparr>"

definition stale_config :: "KeyStore \<Rightarrow> bool" where
  "stale_config s \<longleftrightarrow> ks_configured s \<noteq> None \<and> ks_configured s \<noteq> ks_current s"

definition bootstrap_configured :: "KeyStore \<Rightarrow> bool" where
  "bootstrap_configured s \<longleftrightarrow> ks_configured s \<noteq> None"

text \<open>\<open>ask\<close> is a connection or a statement: \<open>None\<close> when it succeeds.\<close>

definition ask :: "kworld \<Rightarrow> string option \<times> kworld" where
  "ask w = (case kw_answers w of [] \<Rightarrow> (Some ''closed'', w) | a # rest \<Rightarrow> (a, w\<lparr> kw_answers := rest \<rparr>))"

definition key_now :: "kworld \<Rightarrow> nat \<times> kworld" where
  "key_now w = (case kw_clock w of [] \<Rightarrow> (0, w) | t # rest \<Rightarrow> (t, w\<lparr> kw_clock := rest \<rparr>))"

definition new_key :: "kworld \<Rightarrow> string \<times> kworld" where
  "new_key w = (case kw_new w of [] \<Rightarrow> (''wt_'', w) | k # rest \<Rightarrow> (''wt_'' @ k, w\<lparr> kw_new := rest \<rparr>))"

section \<open>The cache\<close>

definition info_of :: "key_row \<Rightarrow> KeyInfo" where
  "info_of r =
     \<lparr> ki_id = kr_id r, ki_name = kr_name r,
       ki_role = (case Role_parse (kr_role r) of Some x \<Rightarrow> x | None \<Rightarrow> Role_Read), ki_pin = kr_pin r \<rparr>"

definition enabled :: "meta \<Rightarrow> key_row list" where
  "enabled m = filter (\<lambda>r. kr_disabled_at r = None) (mt_keys m)"

definition reload :: "kworld \<Rightarrow> (string, unit) result \<times> kworld" where
  "reload w =
     (case ask w of
        (Some e, w) \<Rightarrow> (Inl e, w)
      | (None, w) \<Rightarrow>
          (case ask w of
             (Some e, w) \<Rightarrow> (Inl (''key load failed: '' @ e), w)
           | (None, w) \<Rightarrow>
               (Inr (), w\<lparr> kw_store := (kw_store w)\<lparr> ks_cache :=
                  fold (\<lambda>r m. m(kr_hash r \<mapsto> info_of r)) (enabled (kw_meta w)) (\<lambda>_. None) \<rparr> \<rparr>)))"

definition validate :: "(string \<Rightarrow> string) \<Rightarrow> string \<Rightarrow> kworld \<Rightarrow> KeyInfo option \<times> kworld" where
  "validate H key w =
     (let h = H key in
      if ks_current (kw_store w) = Some h
      then (Some \<lparr> ki_id = 0, ki_name = ''bootstrap-admin'', ki_role = Role_Admin, ki_pin = None \<rparr>, w)
      else case ks_cache (kw_store w) h of
             None \<Rightarrow> (None, w)
           | Some info \<Rightarrow> (Some info, w\<lparr> kw_touched := kw_touched w @ [ki_id info] \<rparr>))"

text \<open>\<^verbatim>\<open>TooManyAttempts\<close> is the \<open>Inl\<close> of the result.\<close>

definition validate_from :: "(string \<Rightarrow> string) \<Rightarrow> string \<Rightarrow> kworld \<Rightarrow> (unit, KeyInfo option) result \<times> kworld" where
  "validate_from H key w =
     (case validate H key w of
        (Some info, w) \<Rightarrow> (Inr (Some info), w)
      | (None, w) \<Rightarrow>
          (case kw_admits w of
             True # rest \<Rightarrow> (Inr None, w\<lparr> kw_admits := rest \<rparr>)
           | False # rest \<Rightarrow> (Inl (), w\<lparr> kw_admits := rest \<rparr>)
           | [] \<Rightarrow> (Inl (), w)))"

section \<open>Changes\<close>

text \<open>Connect, run one statement, reload: \<open>f\<close> is the statement, its answer and the tables after it, or the
  violation of a unique index.\<close>

definition with_client :: "string \<Rightarrow> (meta \<Rightarrow> 'a option \<times> meta) \<Rightarrow> kworld \<Rightarrow> (string, 'a) result \<times> kworld" where
  "with_client what f w =
     (case ask w of
        (Some e, w) \<Rightarrow> (Inl e, w)
      | (None, w) \<Rightarrow>
          (case ask w of
             (Some e, w) \<Rightarrow> (Inl (what @ '' failed: '' @ e), w)
           | (None, w) \<Rightarrow>
               (case f (kw_meta w) of
                  (None, _) \<Rightarrow> (Inl (what @ '' failed: duplicate key''), w)
                | (Some x, m) \<Rightarrow>
                    (case reload (w\<lparr> kw_meta := m \<rparr>) of
                       (Inl e, w) \<Rightarrow> (Inl e, w)
                     | (Inr _, w) \<Rightarrow> (Inr x, w)))))"

definition answering :: "('a \<Rightarrow> 'b) \<Rightarrow> (string, 'a) result \<times> kworld \<Rightarrow> (string, 'b) result \<times> kworld" where
  "answering f p = (case p of (Inl e, w) \<Rightarrow> (Inl e, w) | (Inr x, w) \<Rightarrow> (Inr (f x), w))"

definition hash_taken :: "string \<Rightarrow> meta \<Rightarrow> bool" where
  "hash_taken h m \<longleftrightarrow> h \<in> set (map kr_hash (mt_keys m))"

definition insert_key :: "string \<Rightarrow> Role \<Rightarrow> string option \<Rightarrow> string \<Rightarrow> nat \<Rightarrow> meta \<Rightarrow> int option \<times> meta" where
  "insert_key name role pin h t m =
     (if hash_taken h m then (None, m)
      else (Some (mt_next m),
            m\<lparr> mt_keys := mt_keys m @
                 [\<lparr> kr_id = mt_next m, kr_name = name, kr_hash = h, kr_role = Role_as_str role, kr_pin = pin, kr_created = t,
                    kr_last_used = None, kr_disabled_at = None \<rparr>],
               mt_next := mt_next m + 1 \<rparr>))"

definition key_create :: "(string \<Rightarrow> string) \<Rightarrow> string \<Rightarrow> Role \<Rightarrow> string option \<Rightarrow> kworld \<Rightarrow> (string, int \<times> string) result \<times> kworld" where
  "key_create H name role pin w =
     (let (plaintext, w1) = new_key w; (t, w2) = key_now w1 in
      answering (\<lambda>i. (i, plaintext)) (with_client ''key create'' (insert_key name role pin (H plaintext) t) w2))"

text \<open>\<^verbatim>\<open>UPDATE ... WHERE\<close>: the rows that match, and how many.\<close>

definition update_keys :: "(key_row \<Rightarrow> bool) \<Rightarrow> (key_row \<Rightarrow> key_row) \<Rightarrow> meta \<Rightarrow> nat \<times> meta" where
  "update_keys p f m =
     (length (filter p (mt_keys m)), m\<lparr> mt_keys := map (\<lambda>r. if p r then f r else r) (mt_keys m) \<rparr>)"

definition set_disabled :: "int \<Rightarrow> bool \<Rightarrow> kworld \<Rightarrow> (string, bool) result \<times> kworld" where
  "set_disabled i disabled w =
     (let (t, w1) = key_now w in
      answering (\<lambda>n. 0 < n)
        (with_client ''key update''
           (\<lambda>m. map_prod Some id (update_keys (\<lambda>r. kr_id r = i \<and> (kr_disabled_at r = None) = disabled)
              (\<lambda>r. r\<lparr> kr_disabled_at := (if disabled then Some t else None) \<rparr>) m)) w1))"

definition rotate_rows :: "int \<Rightarrow> string \<Rightarrow> meta \<Rightarrow> bool option option \<times> meta" where
  "rotate_rows i h m =
     (let found = (case filter (\<lambda>r. kr_id r = i) (mt_keys m) of [] \<Rightarrow> None | r # _ \<Rightarrow> Some (kr_disabled_at r \<noteq> None))
      in if found = Some False \<and> hash_taken h m then (None, m)
         else (Some found, snd (update_keys (\<lambda>r. kr_id r = i \<and> kr_disabled_at r = None) (\<lambda>r. r\<lparr> kr_hash := h \<rparr>) m)))"

definition key_rotate :: "(string \<Rightarrow> string) \<Rightarrow> int \<Rightarrow> kworld \<Rightarrow> (string, KeyRotation) result \<times> kworld" where
  "key_rotate H i w =
     (let (plaintext, w1) = new_key w in
      answering (\<lambda>found. case found of None \<Rightarrow> RotateNotFound | Some True \<Rightarrow> RotateDisabled | Some False \<Rightarrow> Rotated plaintext)
        (with_client ''key rotate'' (rotate_rows i (H plaintext)) w1))"

definition key_edit :: "int \<Rightarrow> string option \<Rightarrow> string option option \<Rightarrow> kworld \<Rightarrow> (string, bool) result \<times> kworld" where
  "key_edit i name pin w =
     answering (\<lambda>n. 0 < n)
       (with_client ''key edit''
          (\<lambda>m. map_prod Some id (update_keys (\<lambda>r. kr_id r = i)
             (\<lambda>r. r\<lparr> kr_name := (case name of Some n \<Rightarrow> n | None \<Rightarrow> kr_name r),
                     kr_pin := (case pin of Some p \<Rightarrow> p | None \<Rightarrow> kr_pin r) \<rparr>) m)) w)"

definition key_delete :: "int \<Rightarrow> kworld \<Rightarrow> (string, bool) result \<times> kworld" where
  "key_delete i w =
     answering (\<lambda>n. 0 < n)
       (with_client ''key delete''
          (\<lambda>m. (Some (length (filter (\<lambda>r. kr_id r = i) (mt_keys m))),
                m\<lparr> mt_keys := filter (\<lambda>r. kr_id r \<noteq> i) (mt_keys m) \<rparr>)) w)"

definition summary_of :: "key_row \<Rightarrow> KeySummary" where
  "summary_of r =
     \<lparr> sm_id = kr_id r, sm_name = kr_name r,
       sm_role = (case Role_parse (kr_role r) of Some x \<Rightarrow> x | None \<Rightarrow> Role_Read), sm_pin = kr_pin r,
       sm_created = kr_created r, sm_last_used = kr_last_used r, sm_disabled = (kr_disabled_at r \<noteq> None) \<rparr>"

definition key_list :: "kworld \<Rightarrow> (string, KeySummary list) result \<times> kworld" where
  "key_list w =
     (case ask w of
        (Some e, w) \<Rightarrow> (Inl e, w)
      | (None, w) \<Rightarrow>
          (case ask w of
             (Some e, w) \<Rightarrow> (Inl (''key list failed: '' @ e), w)
           | (None, w) \<Rightarrow> (Inr (map summary_of (sort_key kr_id (mt_keys (kw_meta w)))), w)))"

section \<open>The admin key\<close>

datatype Standing = Standing_Current | Standing_Retired nat "string option" | Standing_Unknown

definition standing :: "string \<Rightarrow> (string \<times> nat option) list \<Rightarrow> Standing" where
  "standing configured rows =
     (case find (\<lambda>r. fst r = configured) rows of
        None \<Rightarrow> Standing_Unknown
      | Some (_, None) \<Rightarrow> Standing_Current
      | Some (_, Some t) \<Rightarrow> Standing_Retired t (map_option fst (find (\<lambda>r. snd r = None) rows)))"

text \<open>\<open>None\<close> where the last \<^verbatim>\<open>INSERT\<close> meets a row with its hash.\<close>

definition make_current :: "nat \<Rightarrow> string option \<Rightarrow> string \<Rightarrow> (string \<times> nat option) list \<Rightarrow> (string \<times> nat option) list option" where
  "make_current t outgoing h rows =
     (let rows1 = map (\<lambda>(k, retired). (k, case retired of None \<Rightarrow> Some t | Some u \<Rightarrow> Some u)) rows;
          rows2 = (case outgoing of
                     None \<Rightarrow> rows1
                   | Some out \<Rightarrow> if out \<in> set (map fst rows1) then rows1 else rows1 @ [(out, Some t)])
      in if h \<in> set (map fst rows2) then None else Some (rows2 @ [(h, None)]))"

text \<open>Connect, begin and lock: \<open>meta_transaction\<close>.\<close>

definition meta_transaction :: "string \<Rightarrow> kworld \<Rightarrow> string option \<times> kworld" where
  "meta_transaction what w =
     (case ask w of
        (Some e, w) \<Rightarrow> (Some e, w)
      | (None, w) \<Rightarrow> (case ask w of (Some e, w) \<Rightarrow> (Some (what @ e), w) | (None, w) \<Rightarrow> (None, w)))"

definition rotate_bootstrap_key :: "(string \<Rightarrow> string) \<Rightarrow> bool \<Rightarrow> kworld \<Rightarrow> (string, string option) result \<times> kworld" where
  "rotate_bootstrap_key H to_file w =
     (let failed = ''admin key rotation failed: '' in
      if ks_configured (kw_store w) = None then (Inr None, w)
      else
        (let outgoing = ks_current (kw_store w); (key, w1) = new_key w; h = H key in
         case meta_transaction failed w1 of
           (Some e, w2) \<Rightarrow> (Inl e, w2)
         | (None, w2) \<Rightarrow>
             (let (t, w3) = key_now w2; (a, w4) = ask w3 in
              case (a, make_current t outgoing h (mt_boot (kw_meta w4))) of
                (Some e, _) \<Rightarrow> (Inl (failed @ e), w4)
              | (None, None) \<Rightarrow> (Inl (failed @ ''duplicate key''), w4)
              | (None, Some boot) \<Rightarrow>
                  (let (saved, w5) = (if to_file then ask w4 else (None, w4)) in
                   case saved of
                     Some e \<Rightarrow> (Inl e, w5)
                   | None \<Rightarrow>
                       (let w6 = (if to_file then w5\<lparr> kw_file := Some key \<rparr> else w5); (c, w7) = ask w6 in
                        case c of
                          Some e \<Rightarrow> (Inl (failed @ e), w7)
                        | None \<Rightarrow>
                            (Inr (Some key),
                             w7\<lparr> kw_meta := (kw_meta w7)\<lparr> mt_boot := boot \<rparr>,
                                 kw_store := (kw_store w7)\<lparr>
                                   ks_configured := (if to_file then Some h else ks_configured (kw_store w7)),
                                   ks_current := Some h \<rparr> \<rparr>))))))"

text \<open>The rows \<^verbatim>\<open>bootstrap\<close> reads, and what it makes of them: the table and the key honoured.\<close>

definition settle_bootstrap :: "nat \<Rightarrow> string \<Rightarrow> (string \<times> nat option) list \<Rightarrow> ((string \<times> nat option) list \<times> string option) option" where
  "settle_bootstrap t configured boot =
     (case standing configured (filter (\<lambda>r. fst r = configured \<or> snd r = None) boot) of
        Standing_Current \<Rightarrow> Some (boot, Some configured)
      | Standing_Retired u current \<Rightarrow> Some (boot, current)
      | Standing_Unknown \<Rightarrow> map_option (\<lambda>b. (b, Some configured)) (make_current t None configured boot))"

definition key_bootstrap :: "kworld \<Rightarrow> (string, unit) result \<times> kworld" where
  "key_bootstrap w =
     (let failed = ''meta schema failed: '' in
      case meta_transaction failed w of
        (Some e, w1) \<Rightarrow> (Inl e, w1)
      | (None, w1) \<Rightarrow>
          (let (a, w2) = ask w1; (t, w3) = key_now w2 in
           case a of
             Some e \<Rightarrow> (Inl (failed @ e), w3)
           | None \<Rightarrow>
               (let settled = (case ks_configured (kw_store w3) of
                                 None \<Rightarrow> Some (mt_boot (kw_meta w3), None)
                               | Some configured \<Rightarrow> settle_bootstrap t configured (mt_boot (kw_meta w3)));
                    (c, w4) = ask w3
                in case (settled, c) of
                     (None, _) \<Rightarrow> (Inl (failed @ ''duplicate key''), w4)
                   | (Some _, Some e) \<Rightarrow> (Inl (failed @ e), w4)
                   | (Some (boot, honoured), None) \<Rightarrow>
                       reload (w4\<lparr> kw_meta := (kw_meta w4)\<lparr> mt_boot := boot \<rparr>,
                                  kw_store := (kw_store w4)\<lparr> ks_current := honoured \<rparr> \<rparr>))))"

section \<open>Revoking a key\<close>

text \<open>The table's keys: ids from its sequence, and \<^verbatim>\<open>UNIQUE\<close> hashes.\<close>

definition keys_ok :: "meta \<Rightarrow> bool" where
  "keys_ok m \<longleftrightarrow> distinct (map kr_hash (mt_keys m)) \<and> distinct (map kr_id (mt_keys m)) \<and> (\<forall>r \<in> set (mt_keys m). kr_id r < mt_next m)"

text \<open>The cache is in step with the table.\<close>

definition in_step :: "kworld \<Rightarrow> bool" where
  "in_step w \<longleftrightarrow>
     (\<forall>h. ks_cache (kw_store w) h = map_option info_of (find (\<lambda>r. kr_hash r = h) (enabled (kw_meta w))))"

lemma ask_keeps [simp]: "kw_meta (snd (ask w)) = kw_meta w" "kw_store (snd (ask w)) = kw_store w" "kw_new (snd (ask w)) = kw_new w"
  by (simp_all add: ask_def split: list.split)

lemma key_now_keeps [simp]: "kw_meta (snd (key_now w)) = kw_meta w" "kw_store (snd (key_now w)) = kw_store w"
  by (simp_all add: key_now_def split: list.split)

lemma new_key_keeps [simp]: "kw_meta (snd (new_key w)) = kw_meta w" "kw_store (snd (new_key w)) = kw_store w"
  by (simp_all add: new_key_def split: list.split)

lemma reload_keeps [simp]: "kw_meta (snd (reload w)) = kw_meta w"
    "ks_current (kw_store (snd (reload w))) = ks_current (kw_store w)"
    "ks_configured (kw_store (snd (reload w))) = ks_configured (kw_store w)"
  by (simp_all add: reload_def case_prod_beta split: option.split)

lemma fold_rows:
  "distinct (map kr_hash rs) \<Longrightarrow>
   fold (\<lambda>r m. m(kr_hash r \<mapsto> info_of r)) rs c h =
     (case find (\<lambda>r. kr_hash r = h) rs of Some r \<Rightarrow> Some (info_of r) | None \<Rightarrow> c h)"
proof (induction rs arbitrary: c)
  case (Cons r rs)
  have "find (\<lambda>x. kr_hash x = h) rs = None" if "kr_hash r = h"
    using Cons.prems that by (auto simp: find_None_iff image_iff)
  then show ?case
    using Cons by (auto split: option.split)
qed simp

lemma reload_in_step:
  assumes "reload w = (Inr u, w')" "distinct (map kr_hash (mt_keys (kw_meta w)))"
  shows "in_step w'"
proof -
  have "distinct (map kr_hash (enabled (kw_meta w)))"
    using assms(2) by (simp add: enabled_def distinct_map_filter)
  then show ?thesis
    using assms(1) fold_rows [of "enabled (kw_meta w)" "\<lambda>_. None"]
    by (auto simp: reload_def in_step_def ask_def split: option.splits prod.splits list.splits if_splits)
qed

text \<open>A change that returns has made its statement and reloaded.\<close>

lemma with_client_ok:
  assumes "with_client what f w = (Inr x, w')"
  obtains m where "f (kw_meta w) = (Some x, m)" "kw_meta w' = m" "ks_current (kw_store w') = ks_current (kw_store w)"
    "distinct (map kr_hash (mt_keys m)) \<Longrightarrow> in_step w'"
proof -
  define w1 where "w1 = snd (ask (snd (ask w)))"
  have w1: "kw_meta w1 = kw_meta w" "kw_store w1 = kw_store w"
    by (simp_all add: w1_def)
  obtain m where m: "f (kw_meta w1) = (Some x, m)" and r: "fst (reload (w1\<lparr> kw_meta := m \<rparr>)) = Inr ()"
      "snd (reload (w1\<lparr> kw_meta := m \<rparr>)) = w'"
    using assms by (auto simp: with_client_def w1_def case_prod_beta split: option.splits sum.splits) (metis prod.collapse)
  have k: "kw_meta w' = m" "ks_current (kw_store w') = ks_current (kw_store w)"
    using reload_keeps [of "w1\<lparr> kw_meta := m \<rparr>"] r(2) w1 by auto
  have "reload (w1\<lparr> kw_meta := m \<rparr>) = (Inr (), w')"
    using r by (metis prod.collapse)
  from reload_in_step [OF this] show ?thesis
    using that [of m] m k w1 by simp
qed

lemma answering_ok: "answering f p = (Inr y, w) \<longleftrightarrow> (\<exists>x. p = (Inr x, w) \<and> y = f x)"
  by (cases p; cases "fst p") (auto simp: answering_def)

lemma validate_in_step:
  assumes "in_step w" "ks_current (kw_store w) \<noteq> Some (H key)"
  shows "fst (validate H key w) = map_option info_of (find (\<lambda>r. kr_hash r = H key) (enabled (kw_meta w)))"
  using assms by (simp add: validate_def in_step_def Let_def split: option.split)

lemma unique_row: "distinct (map f rs) \<Longrightarrow> r \<in> set rs \<Longrightarrow> r' \<in> set rs \<Longrightarrow> f r = f r' \<Longrightarrow> r = r'"
  by (metis distinct_map inj_onD)

lemma filter_unique: "distinct (map f rs) \<Longrightarrow> r \<in> set rs \<Longrightarrow> filter (\<lambda>x. f x = f r) rs = [r]"
  by (induction rs) (auto simp: image_iff filter_empty_conv)

lemma find_unique: "r \<in> set xs \<Longrightarrow> Q r \<Longrightarrow> (\<And>x. x \<in> set xs \<Longrightarrow> Q x \<Longrightarrow> x = r) \<Longrightarrow> find Q xs = Some r"
proof (induction xs)
  case (Cons a xs)
  have "r \<in> set xs \<Longrightarrow> find Q xs = Some r"
    by (rule Cons.IH [OF _ Cons.prems(2) Cons.prems(3)]) simp_all
  moreover have "Q a \<Longrightarrow> a = r"
    by (rule Cons.prems(3)) simp_all
  ultimately show ?case
    using Cons.prems(1,2) by auto
qed simp

lemma not_enabled_refused:
  assumes "in_step w" "ks_current (kw_store w) \<noteq> Some (H key)" "\<And>r. r \<in> set (mt_keys (kw_meta w)) \<Longrightarrow> kr_hash r = H key \<Longrightarrow> kr_disabled_at r \<noteq> None"
  shows "fst (validate H key w) = None"
proof -
  have "find (\<lambda>r. kr_hash r = H key) (enabled (kw_meta w)) = None"
    using assms(3) by (auto simp: enabled_def find_None_iff)
  then show ?thesis
    by (simp add: validate_in_step [where H = H, OF assms(1,2)])
qed

lemma set_disabled_revokes:
  assumes "keys_ok (kw_meta w)" "r \<in> set (mt_keys (kw_meta w))" "set_disabled (kr_id r) True w = (Inr b, w')"
    and "kr_hash r = H key" "ks_current (kw_store w) \<noteq> Some (H key)"
  shows "fst (validate H key w') = None"
proof -
  define t where "t = fst (key_now w)"
  define m where "m = snd (update_keys (\<lambda>x. kr_id x = kr_id r \<and> kr_disabled_at x = None) (\<lambda>x. x\<lparr> kr_disabled_at := Some t \<rparr>) (kw_meta w))"
  have f: "m = (kw_meta w)\<lparr> mt_keys := map (\<lambda>x. if kr_id x = kr_id r \<and> kr_disabled_at x = None then x\<lparr> kr_disabled_at := Some t \<rparr> else x)
      (mt_keys (kw_meta w)) \<rparr>"
    by (simp add: m_def update_keys_def)
  have hashes: "map kr_hash (mt_keys m) = map kr_hash (mt_keys (kw_meta w))"
    by (simp add: f)
  obtain n where "with_client ''key update'' (\<lambda>m. map_prod Some id (update_keys (\<lambda>x. kr_id x = kr_id r \<and> (kr_disabled_at x = None) = True)
      (\<lambda>x. x\<lparr> kr_disabled_at := (if True then Some t else None) \<rparr>) m)) (snd (key_now w)) = (Inr n, w')"
    using assms(3) by (auto simp: set_disabled_def t_def case_prod_beta answering_ok)
  then have w': "kw_meta w' = m" "ks_current (kw_store w') = ks_current (kw_store w)"
      "distinct (map kr_hash (mt_keys m)) \<Longrightarrow> in_step w'"
    by (rule with_client_ok; simp add: m_def map_prod_def split: prod.splits)+
  have "in_step w'"
    using w'(3) hashes assms(1) by (simp add: keys_ok_def)
  moreover have "kr_disabled_at x \<noteq> None" if x: "x \<in> set (mt_keys m)" "kr_hash x = H key" for x
  proof -
    obtain y where y: "y \<in> set (mt_keys (kw_meta w))" "x = (if kr_id y = kr_id r \<and> kr_disabled_at y = None then y\<lparr> kr_disabled_at := Some t \<rparr> else y)"
      using x(1) by (auto simp: f simp del: if_split)
    then have "kr_hash y = kr_hash r"
      using x(2) assms(4) by (auto split: if_splits)
    then have "y = r"
      using unique_row [of kr_hash "mt_keys (kw_meta w)"] assms(1,2) y(1) by (simp add: keys_ok_def)
    then show ?thesis
      using y(2) by auto
  qed
  ultimately show ?thesis
    using not_enabled_refused [of w' H key] w' assms(5) by simp
qed

lemma delete_revokes:
  assumes "keys_ok (kw_meta w)" "r \<in> set (mt_keys (kw_meta w))" "key_delete (kr_id r) w = (Inr b, w')"
    and "kr_hash r = H key" "ks_current (kw_store w) \<noteq> Some (H key)"
  shows "fst (validate H key w') = None"
proof -
  let ?m = "(kw_meta w)\<lparr> mt_keys := filter (\<lambda>x. kr_id x \<noteq> kr_id r) (mt_keys (kw_meta w)) \<rparr>"
  obtain n where "with_client ''key delete'' (\<lambda>m. (Some (length (filter (\<lambda>x. kr_id x = kr_id r) (mt_keys m))),
      m\<lparr> mt_keys := filter (\<lambda>x. kr_id x \<noteq> kr_id r) (mt_keys m) \<rparr>)) w = (Inr n, w')"
    using assms(3) by (auto simp: key_delete_def answering_ok)
  then have w': "kw_meta w' = ?m" "ks_current (kw_store w') = ks_current (kw_store w)"
      "distinct (map kr_hash (mt_keys ?m)) \<Longrightarrow> in_step w'"
    by (rule with_client_ok; simp)+
  have "in_step w'"
    using w'(3) assms(1) by (simp add: keys_ok_def distinct_map_filter)
  moreover have False if "x \<in> set (mt_keys ?m)" "kr_hash x = H key" for x
    using that assms(1,2,4) unique_row [of kr_hash "mt_keys (kw_meta w)" x r] by (auto simp: keys_ok_def)
  ultimately show ?thesis
    using not_enabled_refused [of w' H key] w' assms(5) by auto
qed

lemma rotate_replaces:
  assumes "keys_ok (kw_meta w)" "r \<in> set (mt_keys (kw_meta w))" "key_rotate H (kr_id r) w = (Inr (Rotated k), w')"
    and "kr_hash r = H key" "ks_current (kw_store w) \<noteq> Some (H key)" "ks_current (kw_store w) \<noteq> Some (H k)"
  shows "fst (validate H key w') = None \<and> fst (validate H k w') = Some (info_of r)"
proof -
  define h where "h = H (fst (new_key w))"
  let ?f = "\<lambda>x. if kr_id x = kr_id r \<and> kr_disabled_at x = None then x\<lparr> kr_hash := h \<rparr> else x"
  let ?m = "(kw_meta w)\<lparr> mt_keys := map ?f (mt_keys (kw_meta w)) \<rparr>"
  have wc: "with_client ''key rotate'' (rotate_rows (kr_id r) h) (snd (new_key w)) = (Inr (Some False), w')" and k: "H k = h"
    using assms(3) by (auto simp: key_rotate_def h_def case_prod_beta answering_ok split: option.splits bool.splits)
  obtain m where m: "rotate_rows (kr_id r) h (kw_meta w) = (Some (Some False), m)" "kw_meta w' = m"
      "ks_current (kw_store w') = ks_current (kw_store w)" "distinct (map kr_hash (mt_keys m)) \<Longrightarrow> in_step w'"
    using wc by (rule with_client_ok) simp
  have rows: "filter (\<lambda>x. kr_id x = kr_id r) (mt_keys (kw_meta w)) = [r]"
    using assms(1,2) by (intro filter_unique) (auto simp: keys_ok_def)
  have on: "kr_disabled_at r = None" and new: "h \<notin> kr_hash ` set (mt_keys (kw_meta w))" and m_eq: "m = ?m"
    using m(1) by (auto simp: rotate_rows_def Let_def rows hash_taken_def update_keys_def split: if_splits)
  have "map kr_hash (mt_keys ?m) = map (\<lambda>x. if x = r then h else kr_hash x) (mt_keys (kw_meta w))"
    using assms(1,2) on unique_row [of kr_id "mt_keys (kw_meta w)"] by (auto simp: keys_ok_def)
  moreover have "distinct (map (\<lambda>x. if x = r then h else kr_hash x) (mt_keys (kw_meta w)))"
    using assms(1) new by (auto simp: keys_ok_def distinct_map inj_on_def)
  ultimately have "distinct (map kr_hash (mt_keys ?m))"
    by (simp only:)
  then have step: "in_step w'"
    using m(4) m_eq by simp
  have hash: "?f x = x \<and> x \<noteq> r \<and> kr_hash x \<noteq> kr_hash r \<or> x = r" if "x \<in> set (mt_keys (kw_meta w))" for x
    using that assms(1,2) unique_row [of kr_id "mt_keys (kw_meta w)" x r] unique_row [of kr_hash "mt_keys (kw_meta w)" x r]
    by (auto simp: keys_ok_def)
  have fresh: "h \<noteq> H key"
    using new assms(2,4) by (metis imageI)
  have "fst (validate H key w') = None"
  proof (rule not_enabled_refused [OF step])
    show "ks_current (kw_store w') \<noteq> Some (H key)"
      using m(3) assms(5) by simp
    fix x
    assume "x \<in> set (mt_keys (kw_meta w'))" "kr_hash x = H key"
    then show "kr_disabled_at x \<noteq> None"
      using hash on fresh assms(4) m(2) m_eq by (auto split: if_splits)
  qed
  moreover have "find (\<lambda>x. kr_hash x = h) (enabled ?m) = Some (r\<lparr> kr_hash := h \<rparr>)"
  proof (rule find_unique)
    show "r\<lparr> kr_hash := h \<rparr> \<in> set (enabled ?m)"
      using on assms(2) by (force simp: enabled_def)
    fix x
    assume "x \<in> set (enabled ?m)" "kr_hash x = h"
    then obtain y where y: "y \<in> set (mt_keys (kw_meta w))" "x = ?f y"
      by (auto simp: enabled_def simp del: if_split)
    have "y = r"
      using hash [OF y(1)] new y \<open>kr_hash x = h\<close> by (metis imageI)
    then show "x = r\<lparr> kr_hash := h \<rparr>"
      using y(2) on by simp
  qed simp
  ultimately show ?thesis
    using validate_in_step [where H = H, OF step, of k] m(2,3) m_eq k assms(6) by (simp add: info_of_def)
qed


definition ex_key_row :: key_row where
  "ex_key_row = \<lparr> kr_id = 1, kr_name = ''van'', kr_hash = ''#old'', kr_role = ''ingest'', kr_pin = Some ''van1'', kr_created = 0,
                  kr_last_used = None, kr_disabled_at = None \<rparr>"

definition ex_keys :: "string option list \<Rightarrow> kworld" where
  "ex_keys answers =
     \<lparr> kw_meta = \<lparr> mt_keys = [ex_key_row], mt_next = 2, mt_boot = [] \<rparr>,
       kw_store = \<lparr> ks_configured = None, ks_current = None, ks_cache = [''#old'' \<mapsto> info_of ex_key_row] \<rparr>,
       kw_answers = answers, kw_new = [''new''], kw_clock = [7], kw_admits = [], kw_file = None, kw_touched = [] \<rparr>"

lemmas key_run_simps = key_rotate_def set_disabled_def key_delete_def with_client_def answering_def ask_def key_now_def new_key_def
  rotate_rows_def update_keys_def hash_taken_def reload_def enabled_def validate_def Let_def


text \<open>When the statement is carried out and the reload after it fails, the call returns the error and the change
  is made: the old key goes on letting its holder in, with the new one lost, until the next reload.\<close>

theorem failed_reload_keeps_the_old_key:
  "fst (key_rotate (Cons CHR ''#'') 1 (ex_keys [None, None, Some ''closed''])) = Inl ''closed'' \<and>
   map kr_hash (mt_keys (kw_meta (snd (key_rotate (Cons CHR ''#'') 1 (ex_keys [None, None, Some ''closed'']))))) = [''#wt_new''] \<and>
   fst (validate (Cons CHR ''#'') ''old'' (snd (key_rotate (Cons CHR ''#'') 1 (ex_keys [None, None, Some ''closed''])))) =
     Some (info_of ex_key_row)"
  by (simp add: ex_keys_def ex_key_row_def key_run_simps)

section \<open>The admin key outlives a restart\<close>

text \<open>The table's primary key, and its index on the one current row.\<close>

definition boot_ok :: "(string \<times> nat option) list \<Rightarrow> bool" where
  "boot_ok rows \<longleftrightarrow> distinct (map fst rows) \<and> length (filter (\<lambda>r. snd r = None) rows) \<le> 1"

definition current_is :: "string \<Rightarrow> (string \<times> nat option) list \<Rightarrow> bool" where
  "current_is h rows \<longleftrightarrow> filter (\<lambda>r. snd r = None) rows = [(h, None)] \<and> distinct (map fst rows)"

lemma make_current_ok:
  assumes "make_current t outgoing h rows = Some rows'" "distinct (map fst rows)"
  shows "current_is h rows' \<and> fst ` set rows \<subseteq> fst ` set rows' \<and> set_option outgoing \<subseteq> fst ` set rows'"
proof -
  define old where "old = map (\<lambda>(k, retired). (k, case retired of None \<Rightarrow> Some t | Some u \<Rightarrow> Some u)) rows"
  have keys: "map fst old = map fst rows"
    by (auto simp: old_def)
  have none: "filter (\<lambda>r. snd r = None) old = []"
    by (auto simp: old_def filter_empty_conv split: option.splits)
  have "fst ` set old = fst ` set rows"
    using arg_cong [OF keys, of set] by simp
  note keyset = this
  show ?thesis
    using assms(1) [symmetric] assms(2) keys none keyset unfolding make_current_def old_def [symmetric]
    by (cases outgoing) (simp_all add: Let_def current_is_def keyset subset_insertI2 split: if_splits)
qed

lemma current_row: "current_is h rows \<Longrightarrow> (c, None) \<in> set rows \<longleftrightarrow> c = h"
proof -
  assume "current_is h rows"
  then have f: "filter (\<lambda>r. snd r = None) rows = [(h, None)]"
    by (simp add: current_is_def)
  have "(c, None) \<in> set rows \<longleftrightarrow> (c, None) \<in> set (filter (\<lambda>r. snd r = None) rows)"
    by simp
  also have "\<dots> \<longleftrightarrow> c = h"
    unfolding f by simp
  finally show ?thesis .
qed

lemma find_filter: "find P (filter Q xs) = find (\<lambda>x. P x \<and> Q x) xs"
  by (induction xs) auto

lemma find_cong_eq: "(\<And>x. x \<in> set xs \<Longrightarrow> P x = Q x) \<Longrightarrow> find P xs = find Q xs"
  by (induction xs) auto

lemma find_as_filter: "find P xs = (case filter P xs of [] \<Rightarrow> None | x # _ \<Rightarrow> Some x)"
  by (induction xs) auto

text \<open>With a key of the table configured, a start leaves the table alone and honours its current key.\<close>

lemma settle_known:
  assumes "current_is h rows" "c \<in> fst ` set rows"
  shows "settle_bootstrap t c rows = Some (rows, Some h)"
proof -
  obtain x where x: "(c, x) \<in> set rows"
    using assms(2) by auto
  have "filter (\<lambda>r. fst r = c) rows = [(c, x)]"
    using filter_unique [of fst rows "(c, x)"] assms(1) x by (simp add: current_is_def)
  then have row: "find (\<lambda>r. fst r = c) rows = Some (c, x)"
    by (simp add: find_as_filter)
  have now: "find (\<lambda>r. snd r = None) rows = Some (h, None)"
    using assms(1) by (simp add: find_as_filter current_is_def)
  have f: "find (\<lambda>r. fst r = c) (filter (\<lambda>r. fst r = c \<or> snd r = None) rows) = Some (c, x)"
    "find (\<lambda>r. snd r = None) (filter (\<lambda>r. fst r = c \<or> snd r = None) rows) = Some (h, None)"
    unfolding find_filter row [symmetric] now [symmetric] by (auto intro: find_cong_eq)
  show ?thesis
  proof (cases x)
    case None
    then have "c = h"
      using x current_row [OF assms(1)] by simp
    then show ?thesis
      using f None by (simp add: settle_bootstrap_def standing_def)
  next
    case (Some u)
    then show ?thesis
      using f by (simp add: settle_bootstrap_def standing_def)
  qed
qed

lemma settle_ok:
  assumes "settle_bootstrap t c rows = Some (rows', honoured)" "boot_ok rows"
  shows "distinct (map fst rows') \<and> c \<in> fst ` set rows'"
proof (cases "c \<in> fst ` set rows")
  case True
  then obtain x where x: "(c, x) \<in> set rows"
    by auto
  have "find (\<lambda>r. fst r = c) (filter (\<lambda>r. fst r = c \<or> snd r = None) rows) \<noteq> None"
    using x by (auto simp: find_None_iff)
  then have "rows' = rows"
    using assms(1) by (auto simp: settle_bootstrap_def standing_def split: option.splits)
  then show ?thesis
    using True assms(2) by (simp add: boot_ok_def)
next
  case False
  then have "find (\<lambda>r. fst r = c) (filter (\<lambda>r. fst r = c \<or> snd r = None) rows) = None"
    by (auto simp: find_None_iff image_iff)
  then have "make_current t None c rows = Some rows'"
    using assms(1) by (auto simp: settle_bootstrap_def standing_def)
  from make_current_ok [OF this] have "current_is c rows'"
    using assms(2) by (simp add: boot_ok_def)
  then show ?thesis
    using current_row [of c rows' c] by (force simp: current_is_def)
qed

lemma key_bootstrap_ok:
  assumes "key_bootstrap w = (Inr u, w')" "ks_configured (kw_store w) = Some c"
  obtains t boot where "settle_bootstrap t c (mt_boot (kw_meta w)) = Some (boot, ks_current (kw_store w'))"
    "mt_boot (kw_meta w') = boot" "ks_configured (kw_store w') = Some c"
proof -
  obtain t w3 boot honoured where b: "settle_bootstrap t c (mt_boot (kw_meta w)) = Some (boot, honoured)"
      "reload (w3\<lparr> kw_meta := (kw_meta w)\<lparr> mt_boot := boot \<rparr>, kw_store := (kw_store w)\<lparr> ks_current := honoured \<rparr> \<rparr>) = (Inr u, w')"
    using assms
    by (auto simp: key_bootstrap_def meta_transaction_def Let_def case_prod_beta split: option.splits if_splits)
  let ?w = "w3\<lparr> kw_meta := (kw_meta w)\<lparr> mt_boot := boot \<rparr>, kw_store := (kw_store w)\<lparr> ks_current := honoured \<rparr> \<rparr>"
  have "kw_meta w' = kw_meta ?w" "ks_current (kw_store w') = honoured" "ks_configured (kw_store w') = Some c"
    using reload_keeps [of ?w] assms(2) by (simp_all add: b(2))
  then show ?thesis
    using that [of t boot] b(1) by simp
qed

lemma rotate_bootstrap_ok:
  assumes "rotate_bootstrap_key H to_file w = (Inr (Some k), w')"
  obtains t boot where "make_current t (ks_current (kw_store w)) (H k) (mt_boot (kw_meta w)) = Some boot"
    "mt_boot (kw_meta w') = boot" "ks_current (kw_store w') = Some (H k)"
    "ks_configured (kw_store w') = (if to_file then Some (H k) else ks_configured (kw_store w))"
    "to_file \<longrightarrow> kw_file w' = Some k"
  using assms
  by (auto simp: rotate_bootstrap_key_def meta_transaction_def Let_def case_prod_beta split: option.splits if_splits)
    (auto simp: ask_def split: list.splits)

text \<open>C23: an admin key rotated while the gateway runs is the one a restart honours, whether the start is configured
  with the key of the first start, since rotated away, or with the new one, as from its file: the old key never
  comes back.\<close>

theorem rotated_admin_key_outlives_a_restart:
  assumes "boot_ok (mt_boot (kw_meta w))" "ks_configured (kw_store w) = Some c" "key_bootstrap w = (Inr (), u)"
    and "rotate_bootstrap_key H to_file u = (Inr (Some k), u')"
    and "mt_boot (kw_meta v) = mt_boot (kw_meta u')" "ks_configured (kw_store v) \<in> {Some c, Some (H k)}"
    and "key_bootstrap v = (Inr (), v')"
  shows "ks_current (kw_store v') = Some (H k) \<and> mt_boot (kw_meta v') = mt_boot (kw_meta u') \<and>
    (stale_config (kw_store v') \<longleftrightarrow> ks_configured (kw_store v) \<noteq> Some (H k))"
proof -
  obtain t b1 where b1: "settle_bootstrap t c (mt_boot (kw_meta w)) = Some (b1, ks_current (kw_store u))" "mt_boot (kw_meta u) = b1"
    by (rule key_bootstrap_ok [OF assms(3,2)])
  then have d: "distinct (map fst b1)" "c \<in> fst ` set b1"
    using settle_ok [OF b1(1) assms(1)] by auto
  obtain t' b2 where b2: "make_current t' (ks_current (kw_store u)) (H k) b1 = Some b2" "mt_boot (kw_meta u') = b2"
    by (rule rotate_bootstrap_ok [OF assms(4), unfolded b1(2)])
  have cur: "current_is (H k) b2" "c \<in> fst ` set b2"
    using make_current_ok [OF b2(1) d(1)] d(2) by auto
  have "H k \<in> fst ` set b2"
    using current_row [OF cur(1), of "H k"] by force
  then obtain x where x: "ks_configured (kw_store v) = Some x" "x \<in> fst ` set b2"
    using assms(6) cur(2) by auto
  obtain t'' b3 where "settle_bootstrap t'' x (mt_boot (kw_meta v)) = Some (b3, ks_current (kw_store v'))"
      "mt_boot (kw_meta v') = b3" "ks_configured (kw_store v') = Some x"
    by (rule key_bootstrap_ok [OF assms(7) x(1)])
  then show ?thesis
    using settle_known [OF cur(1) x(2), of t''] assms(5) b2(2) x(1) by (auto simp: stale_config_def)
qed

definition ex_admin :: kworld where
  "ex_admin =
     \<lparr> kw_meta = \<lparr> mt_keys = [], mt_next = 1, mt_boot = [] \<rparr>, kw_store = KeyStore_new (Cons CHR ''#'') (Some ''first''),
       kw_answers = replicate 20 None, kw_new = [''new''], kw_clock = [7, 8, 9], kw_admits = [], kw_file = None, kw_touched = [] \<rparr>"

definition ex_admin_rotated :: kworld where
  "ex_admin_rotated = snd (rotate_bootstrap_key (Cons CHR ''#'') False (snd (key_bootstrap ex_admin)))"

definition ex_admin_restart :: kworld where
  "ex_admin_restart = ex_admin\<lparr> kw_meta := kw_meta ex_admin_rotated \<rparr>"

lemmas admin_run_simps = key_bootstrap_def rotate_bootstrap_key_def meta_transaction_def ask_def key_now_def new_key_def
  settle_bootstrap_def standing_def make_current_def reload_def enabled_def KeyStore_new_def Let_def numeral_eq_Suc

theorem rotated_admin_key_outlives_a_restart_witness:
  "ks_current (kw_store (snd (key_bootstrap ex_admin_restart))) = Some ''#wt_new'' \<and>
   stale_config (kw_store (snd (key_bootstrap ex_admin_restart)))"
proof -
  let ?H = "Cons CHR ''#''"
  have "boot_ok (mt_boot (kw_meta ex_admin))" "ks_configured (kw_store ex_admin) = Some ''#first''"
    "key_bootstrap ex_admin = (Inr (), snd (key_bootstrap ex_admin))"
    "rotate_bootstrap_key ?H False (snd (key_bootstrap ex_admin)) = (Inr (Some ''wt_new''), ex_admin_rotated)"
    by (simp_all add: boot_ok_def ex_admin_def ex_admin_rotated_def admin_run_simps)
  moreover have "key_bootstrap ex_admin_restart = (Inr (), snd (key_bootstrap ex_admin_restart))"
    "ks_configured (kw_store ex_admin_restart) = Some ''#first''"
    by (simp_all add: ex_admin_restart_def ex_admin_rotated_def ex_admin_def admin_run_simps)
  ultimately show ?thesis
    using rotated_admin_key_outlives_a_restart [where w = ex_admin and c = "''#first''" and H = ?H and to_file = False
        and k = "''wt_new''" and u' = ex_admin_rotated and v = ex_admin_restart]
    by (simp add: ex_admin_restart_def)
qed

end
