(* ===== verification/Gateway_Catalogs.thy ===== *)
theory Gateway_Catalogs
  imports Catalogues
begin

text \<open>
  Which catalogue each capture daemon frames with, as the gateway keeps it:
  \<^verbatim>\<open>crates/wiretap-backend/src/catalogs.rs\<close>, with the live sessions of \<^verbatim>\<open>ingest/mod.rs\<close> an assignment closes.

  The tables of \<^verbatim>\<open>wiretap_meta\<close> are maps on their primary keys. A transaction that fails leaves them as they
  were; whether a connection, a statement or a commit fails is a script. The catalogue library is the one of
  \<open>Catalogues\<close>, which the daemons parse with, and its validator.
\<close>

section \<open>Live sessions\<close>

text \<open>A session's \<^verbatim>\<open>Notify\<close> is its connection's, and outlives its entry here: \<open>sn_notified\<close> are the connections told
  to close.\<close>

record Live_session =
  lv_conn :: nat
  lv_database :: string
  lv_daemon_id :: string
  lv_interfaces :: "string list"
  lv_frames :: nat
  lv_batches :: nat

record Sessions =
  sn_live :: "nat \<Rightarrow> Live_session option"
  sn_order :: "nat list"
  sn_next :: nat
  sn_notified :: "nat list"

definition sessions_open :: "Live_session \<Rightarrow> Sessions \<Rightarrow> nat \<times> Sessions" where
  "sessions_open l s =
     (sn_next s, s\<lparr> sn_live := (sn_live s)(sn_next s \<mapsto> l), sn_order := sn_order s @ [sn_next s], sn_next := sn_next s + 1 \<rparr>)"

definition sessions_close :: "nat \<Rightarrow> Sessions \<Rightarrow> Sessions" where
  "sessions_close i s = s\<lparr> sn_live := (sn_live s)(i := None), sn_order := removeAll i (sn_order s) \<rparr>"

definition affected :: "string \<Rightarrow> string \<Rightarrow> Sessions \<Rightarrow> Live_session list" where
  "affected daemon_id interface s =
     filter (\<lambda>l. lv_daemon_id l = daemon_id \<and> interface \<in> set (lv_interfaces l)) (List.map_filter (sn_live s) (sn_order s))"

definition reassign :: "string \<Rightarrow> string \<Rightarrow> Sessions \<Rightarrow> nat \<times> Sessions" where
  "reassign daemon_id interface s =
     (let ls = affected daemon_id interface s in (length ls, s\<lparr> sn_notified := sn_notified s @ map lv_conn ls \<rparr>))"

section \<open>Tables\<close>

record Provenance =
  pv_blob_sha :: "string option"
  pv_rest :: string

record assigned_row =
  ar_sha :: "u8 list"
  ar_at :: nat
  ar_by :: string

record ActiveRow =
  av_interface :: string
  av_source :: string
  av_blob_sha :: "u8 list option"
  av_refused :: "(u8 list \<times> string) option"

record catalogs =
  cg_blobs :: "u8 list \<Rightarrow> (u8 list \<times> Provenance) option"
  cg_assigned :: "string \<times> string \<Rightarrow> assigned_row option"
  cg_history :: "(string \<times> string \<times> u8 list option \<times> string) list"
  cg_devices :: "string \<times> string \<Rightarrow> (u8 \<times> string \<times> nat) option"
  cg_active :: "string \<times> string \<Rightarrow> (ActiveRow \<times> nat) option"
  cg_sessions :: Sessions
  cg_answers :: "string option list"
  cg_clock :: "nat list"

record 'o gatecatlib =
  gk_lib :: "'o catlib"
  gk_validate :: "u8 list \<Rightarrow> (string \<times> string) list"
  gk_valid_daemon_id :: "string \<Rightarrow> bool"

datatype AssignError = Rejected "(string \<times> string) list" | AssignConflict "string option" | AssignDatabase string

definition cg_ask :: "catalogs \<Rightarrow> string option \<times> catalogs" where
  "cg_ask c = (case cg_answers c of [] \<Rightarrow> (Some ''closed'', c) | a # rest \<Rightarrow> (a, c\<lparr> cg_answers := rest \<rparr>))"

definition cg_now :: "catalogs \<Rightarrow> nat \<times> catalogs" where
  "cg_now c = (case cg_clock c of [] \<Rightarrow> (0, c) | t # rest \<Rightarrow> (t, c\<lparr> cg_clock := rest \<rparr>))"

section \<open>A daemon's messages\<close>

definition through_device_map :: "(string \<times> u8 list) list \<Rightarrow> Device list \<Rightarrow> (u8 \<times> u8 list) list" where
  "through_device_map found devices =
     List.map_filter (\<lambda>d. case find (\<lambda>a. fst a = dv_name d) found of
                            None \<Rightarrow> None
                          | Some (_, sha) \<Rightarrow> if length sha = 20 then Some (dv_bus d, sha) else None) devices"

definition active_source :: "ActiveCatalogue \<Rightarrow> string \<times> u8 list option" where
  "active_source a =
     (case a of None_active \<Rightarrow> (''none'', None) | Local_active sha \<Rightarrow> (''local'', Some sha) | Assigned_active sha \<Rightarrow> (''assigned'', Some sha))"

text \<open>A reported entry as the protocol carries it: a refusal this build does not know is \<open>OtherRefusal\<close>.\<close>

datatype wire_refusal = KnownRefusal Refusal | OtherRefusal u8

record WireStatus =
  ws_bus :: u8
  ws_active :: ActiveCatalogue
  ws_refused :: "(u8 list \<times> wire_refusal) option"

definition refusal_text :: "wire_refusal \<Rightarrow> string" where
  "refusal_text r =
     (case r of
        KnownRefusal HashMismatch \<Rightarrow> ''hash_mismatch''
      | KnownRefusal DidNotParse \<Rightarrow> ''did_not_parse''
      | KnownRefusal FetchFailed \<Rightarrow> ''fetch_failed''
      | OtherRefusal _ \<Rightarrow> ''other'')"

definition active_rows :: "Device list \<Rightarrow> WireStatus list \<Rightarrow> ActiveRow list" where
  "active_rows devices entries =
     List.map_filter (\<lambda>e. case find (\<lambda>d. dv_bus d = ws_bus e) devices of
                            None \<Rightarrow> None
                          | Some d \<Rightarrow>
                              (let (source, sha) = active_source (ws_active e) in
                               Some \<lparr> av_interface = dv_name d, av_source = source, av_blob_sha = sha,
                                      av_refused = map_option (\<lambda>(s, why). (s, refusal_text why)) (ws_refused e) \<rparr>)) entries"

text \<open>\<^verbatim>\<open>INSERT ... ON CONFLICT DO UPDATE\<close> of several rows: PostgreSQL refuses to touch a row twice.\<close>

definition record_hello :: "string \<Rightarrow> string \<Rightarrow> Device list \<Rightarrow> catalogs \<Rightarrow> (string, unit) result \<times> catalogs" where
  "record_hello daemon_id database devices c =
     (case cg_ask c of
        (Some e, c) \<Rightarrow> (Inl e, c)
      | (None, c) \<Rightarrow>
          (case cg_ask c of
             (Some e, c) \<Rightarrow> (Inl (''recording '' @ daemon_id @ [CHR 0x27] @ ''s devices failed: '' @ e), c)
           | (None, c) \<Rightarrow>
               if \<not> distinct (map dv_name devices)
               then (Inl (''recording '' @ daemon_id @ [CHR 0x27] @ ''s devices failed: cannot affect row a second time''), c)
               else (let (t, c) = cg_now c in
                     (Inr (), c\<lparr> cg_devices := fold (\<lambda>d m. m((daemon_id, dv_name d) \<mapsto> (dv_bus d, database, t))) devices (cg_devices c) \<rparr>))))"

definition assigned_for :: "string \<Rightarrow> Device list \<Rightarrow> catalogs \<Rightarrow> (string \<times> u8 list) list" where
  "assigned_for daemon_id devices c =
     List.map_filter (\<lambda>i. map_option (\<lambda>r. (i, ar_sha r)) (cg_assigned c (daemon_id, i))) (remdups (map dv_name devices))"

definition assignments_for :: "string \<Rightarrow> Device list \<Rightarrow> catalogs \<Rightarrow> (string, (u8 \<times> u8 list) list) result \<times> catalogs" where
  "assignments_for daemon_id devices c =
     (case cg_ask c of
        (Some e, c) \<Rightarrow> (Inl e, c)
      | (None, c) \<Rightarrow>
          (case cg_ask c of
             (Some e, c) \<Rightarrow> (Inl (''reading '' @ daemon_id @ [CHR 0x27] @ ''s assignments failed: '' @ e), c)
           | (None, c) \<Rightarrow> (Inr (through_device_map (assigned_for daemon_id devices c) devices), c)))"

text \<open>One row reported: \<open>since\<close> moves when the catalogue does.\<close>

definition put_active :: "string \<Rightarrow> nat \<Rightarrow> ActiveRow \<Rightarrow> (string \<times> string \<Rightarrow> (ActiveRow \<times> nat) option) \<Rightarrow> string \<times> string \<Rightarrow> (ActiveRow \<times> nat) option" where
  "put_active daemon_id t r m =
     m((daemon_id, av_interface r) \<mapsto>
         (r, case m (daemon_id, av_interface r) of
               Some (old, since) \<Rightarrow> if (av_source old, av_blob_sha old) = (av_source r, av_blob_sha r) then since else t
             | None \<Rightarrow> t))"

definition record_status :: "string \<Rightarrow> Device list \<Rightarrow> WireStatus list \<Rightarrow> catalogs \<Rightarrow> (string, unit) result \<times> catalogs" where
  "record_status daemon_id devices entries c =
     (let rows = active_rows devices entries; failed = ''recording '' @ daemon_id @ [CHR 0x27] @ ''s catalogues failed: '' in
      case cg_ask c of
        (Some e, c) \<Rightarrow> (Inl e, c)
      | (None, c) \<Rightarrow>
          (case cg_ask c of
             (Some e, c) \<Rightarrow> (Inl (failed @ e), c)
           | (None, c) \<Rightarrow>
               if \<not> distinct (map av_interface rows) then (Inl (failed @ ''cannot affect row a second time''), c)
               else (let (t, c) = cg_now c;
                         put = fold (put_active daemon_id t) rows (cg_active c);
                         kept = (\<lambda>k. if fst k = daemon_id \<and> snd k \<in> set (map dv_name devices) \<and> snd k \<notin> set (map av_interface rows)
                                     then None else put k)
                     in case cg_ask c of
                          (Some e, c) \<Rightarrow> (Inl (failed @ e), c)
                        | (None, c) \<Rightarrow> (Inr (), c\<lparr> cg_active := kept \<rparr>))))"

definition catalogs_blob :: "u8 list \<Rightarrow> catalogs \<Rightarrow> (string, u8 list option) result \<times> catalogs" where
  "catalogs_blob sha c =
     (case cg_ask c of
        (Some e, c) \<Rightarrow> (Inl e, c)
      | (None, c) \<Rightarrow>
          (case cg_ask c of
             (Some e, c) \<Rightarrow> (Inl (''reading catalogue '' @ blob_sha1_hex sha @ '' failed: '' @ e), c)
           | (None, c) \<Rightarrow> (Inr (map_option fst (cg_blobs c sha)), c)))"

section \<open>Assigning\<close>

definition guard :: "string option \<Rightarrow> string option \<Rightarrow> (AssignError, unit) result" where
  "guard expected current =
     (case expected of
        Some e \<Rightarrow>
          if \<not> eq_ignore_ascii_case e (case current of Some s \<Rightarrow> s | None \<Rightarrow> []) then Inl (AssignConflict current) else Inr ()
      | None \<Rightarrow> Inr ())"

definition rejected :: "string \<Rightarrow> string \<Rightarrow> AssignError" where
  "rejected field message = Rejected [(field, message)]"

definition check_key :: "'o gatecatlib \<Rightarrow> string \<Rightarrow> string \<Rightarrow> (AssignError, unit) result" where
  "check_key K daemon_id interface =
     (if \<not> gk_valid_daemon_id K daemon_id then Inl (rejected ''daemon_id'' (debug_str daemon_id @ '' is not a daemon id''))
      else if interface = [] \<or> 255 < length interface
      then Inl (rejected ''interface'' (''an interface is 1 to 255 bytes, not '' @ dec_digits (length interface)))
      else Inr ())"

definition checked_blob :: "'o gatecatlib \<Rightarrow> u8 list \<Rightarrow> Provenance \<Rightarrow> (AssignError, u8 list \<times> string) result" where
  "checked_blob K content provenance =
     (let A = gk_lib K; sha = blob_sha1 A content; hex = blob_sha1_hex sha in
      if \<not> (case pv_blob_sha provenance of Some claimed \<Rightarrow> eq_ignore_ascii_case claimed hex | None \<Rightarrow> True)
      then Inl (rejected ''provenance.blob_sha'' (the (pv_blob_sha provenance) @ '', but the content hashes to '' @ hex))
      else if gk_validate K content \<noteq> [] then Inl (Rejected (gk_validate K content))
      else case rtu_rules A content of
             Inl e \<Rightarrow> Inl (rejected ''catalogue'' (''the capture daemon would refuse it: '' @ e))
           | Inr (name, _) \<Rightarrow>
               if name = [] then Inl (rejected ''meta.name'' ''Catalogue name must not be empty'') else Inr (sha, name))"

record AssignCatalogue =
  aq_daemon_id :: string
  aq_interface :: string
  aq_content :: "u8 list"
  aq_provenance :: Provenance
  aq_expected :: "string option"

record Assignment_reply =
  as_blob_sha :: string
  as_name :: string
  as_at :: nat
  as_by :: string
  as_provenance :: Provenance

definition current_sha :: "string \<Rightarrow> string \<Rightarrow> catalogs \<Rightarrow> string option" where
  "current_sha daemon_id interface c = map_option (\<lambda>r. blob_sha1_hex (ar_sha r)) (cg_assigned c (daemon_id, interface))"

text \<open>The statements of \<^verbatim>\<open>assign\<close>'s transaction, and whether the assignment changed.\<close>

definition assign_tables :: "AssignCatalogue \<Rightarrow> u8 list \<Rightarrow> string \<Rightarrow> nat \<Rightarrow> catalogs \<Rightarrow> bool \<times> catalogs" where
  "assign_tables q sha assigned_by t c =
     (let k = (aq_daemon_id q, aq_interface q);
          blobs = (if cg_blobs c sha = None then (cg_blobs c)(sha \<mapsto> (aq_content q, aq_provenance q)) else cg_blobs c);
          changed = (case cg_assigned c k of None \<Rightarrow> True | Some r \<Rightarrow> ar_sha r \<noteq> sha);
          row = \<lparr> ar_sha = sha, ar_at = t, ar_by = assigned_by \<rparr>
      in (changed,
          c\<lparr> cg_blobs := blobs,
             cg_assigned := (if changed then (cg_assigned c)(k \<mapsto> row) else cg_assigned c),
             cg_history := (if changed then cg_history c @ [(aq_daemon_id q, aq_interface q, Some sha, assigned_by)] else cg_history c) \<rparr>))"

definition tell_sessions :: "bool \<Rightarrow> string \<Rightarrow> string \<Rightarrow> catalogs \<Rightarrow> catalogs" where
  "tell_sessions changed daemon_id interface c =
     (if changed then c\<lparr> cg_sessions := snd (reassign daemon_id interface (cg_sessions c)) \<rparr> else c)"

definition catalogs_assign :: "'o gatecatlib \<Rightarrow> AssignCatalogue \<Rightarrow> string \<Rightarrow> catalogs \<Rightarrow> (AssignError, Assignment_reply) result \<times> catalogs" where
  "catalogs_assign K q assigned_by c =
     (case check_key K (aq_daemon_id q) (aq_interface q) of
        Inl e \<Rightarrow> (Inl e, c)
      | Inr _ \<Rightarrow>
      case checked_blob K (aq_content q) (aq_provenance q) of
        Inl e \<Rightarrow> (Inl e, c)
      | Inr (sha, name) \<Rightarrow>
      case cg_ask c of
        (Some e, c) \<Rightarrow> (Inl (AssignDatabase e), c)
      | (None, c) \<Rightarrow>
      case guard (aq_expected q) (current_sha (aq_daemon_id q) (aq_interface q) c) of
        Inl e \<Rightarrow> (Inl e, c)
      | Inr _ \<Rightarrow>
          (let (t, c1) = cg_now c; (changed, c2) = assign_tables q sha assigned_by t c1 in
           case cg_ask c1 of
             (Some e, c3) \<Rightarrow> (Inl (AssignDatabase (''assign failed: '' @ e)), c3)
           | (None, c3) \<Rightarrow>
               (let row = the (cg_assigned c2 (aq_daemon_id q, aq_interface q)) in
                (Inr \<lparr> as_blob_sha = blob_sha1_hex sha, as_name = name, as_at = ar_at row, as_by = ar_by row,
                       as_provenance = snd (the (cg_blobs c2 sha)) \<rparr>,
                 tell_sessions changed (aq_daemon_id q) (aq_interface q) (c2\<lparr> cg_answers := cg_answers c3 \<rparr>)))))"

definition catalogs_clear :: "string \<Rightarrow> string \<Rightarrow> string option \<Rightarrow> string \<Rightarrow> catalogs \<Rightarrow> (AssignError, unit) result \<times> catalogs" where
  "catalogs_clear daemon_id interface expected cleared_by c =
     (case cg_ask c of
        (Some e, c) \<Rightarrow> (Inl (AssignDatabase e), c)
      | (None, c) \<Rightarrow>
          (case guard expected (current_sha daemon_id interface c) of
             Inl e \<Rightarrow> (Inl e, c)
           | Inr _ \<Rightarrow>
               (let cleared = cg_assigned c (daemon_id, interface) \<noteq> None in
                case cg_ask c of
                  (Some e, c) \<Rightarrow> (Inl (AssignDatabase (''clear failed: '' @ e)), c)
                | (None, c) \<Rightarrow>
                    (Inr (), tell_sessions cleared daemon_id interface
                       (c\<lparr> cg_assigned := (cg_assigned c)((daemon_id, interface) := None),
                          cg_history := (if cleared then cg_history c @ [(daemon_id, interface, None, cleared_by)] else cg_history c) \<rparr>)))))"

section \<open>What the gateway takes, every daemon frames with\<close>

text \<open>Every blob in the table hashes to its key, and a daemon's reader takes it.\<close>

definition blobs_ok :: "'o gatecatlib \<Rightarrow> catalogs \<Rightarrow> bool" where
  "blobs_ok K c \<longleftrightarrow>
     (\<forall>sha content p. cg_blobs c sha = Some (content, p) \<longrightarrow>
        blob_sha1 (gk_lib K) content = sha \<and> is_utf8 (gk_lib K) content \<and>
        (\<exists>name rules. rtu_rules (gk_lib K) content = Inr (name, rules) \<and> name \<noteq> []))"

text \<open>The foreign key of the assignments.\<close>

definition assigned_ok :: "catalogs \<Rightarrow> bool" where
  "assigned_ok c \<longleftrightarrow> (\<forall>k r. cg_assigned c k = Some r \<longrightarrow> cg_blobs c (ar_sha r) \<noteq> None)"

lemma cg_ask_keeps [simp]:
  "cg_blobs (snd (cg_ask c)) = cg_blobs c" "cg_assigned (snd (cg_ask c)) = cg_assigned c"
  "cg_sessions (snd (cg_ask c)) = cg_sessions c" "cg_devices (snd (cg_ask c)) = cg_devices c"
  by (simp_all add: cg_ask_def split: list.split)

lemma cg_now_keeps [simp]:
  "cg_blobs (snd (cg_now c)) = cg_blobs c" "cg_assigned (snd (cg_now c)) = cg_assigned c"
  "cg_sessions (snd (cg_now c)) = cg_sessions c"
  by (simp_all add: cg_now_def split: list.split)

lemma tell_keeps [simp]:
  "cg_blobs (tell_sessions b d i c) = cg_blobs c" "cg_assigned (tell_sessions b d i c) = cg_assigned c"
  by (simp_all add: tell_sessions_def)

lemma checked_blob_ok:
  assumes "checked_blob K content p = Inr (sha, name)"
  shows "sha = blob_sha1 (gk_lib K) content \<and> (\<exists>rules. rtu_rules (gk_lib K) content = Inr (name, rules)) \<and> name \<noteq> []"
  using assms by (auto simp: checked_blob_def Let_def split: if_splits sum.splits)

lemma accepted_by_daemons:
  assumes "blobs_ok K c" "cg_blobs c sha = Some (content, p)"
  shows "\<exists>line. checked (gk_lib K) (blob_sha1_hex sha) content path = Inr line \<and> lc_sha line = sha"
  using assms by (fastforce simp: blobs_ok_def checked_def LineCatalogue_parse_def Let_def)

text \<open>What an assignment that succeeds has done.\<close>

lemma assign_ok:
  assumes "catalogs_assign K q assigned_by c = (Inr reply, c')"
  obtains sha name t where "checked_blob K (aq_content q) (aq_provenance q) = Inr (sha, name)"
    "guard (aq_expected q) (current_sha (aq_daemon_id q) (aq_interface q) c) = Inr ()"
    "cg_blobs c' = (if cg_blobs c sha = None then (cg_blobs c)(sha \<mapsto> (aq_content q, aq_provenance q)) else cg_blobs c)"
    "\<exists>row. cg_assigned c' = (cg_assigned c)((aq_daemon_id q, aq_interface q) \<mapsto> row) \<and> ar_sha row = sha"
    "as_blob_sha reply = blob_sha1_hex sha"
    "cg_sessions c' = (if current_sha (aq_daemon_id q) (aq_interface q) c \<noteq> None \<and> ar_sha (the (cg_assigned c (aq_daemon_id q, aq_interface q))) = sha
       then cg_sessions c else snd (reassign (aq_daemon_id q) (aq_interface q) (cg_sessions c)))"
proof -
  let ?k = "(aq_daemon_id q, aq_interface q)"
  obtain sha name where b: "checked_blob K (aq_content q) (aq_provenance q) = Inr (sha, name)"
    using assms by (auto simp: catalogs_assign_def split: sum.splits)
  define t where "t = fst (cg_now (snd (cg_ask c)))"
  define c1 where "c1 = snd (cg_now (snd (cg_ask c)))"
  have c1: "cg_blobs c1 = cg_blobs c" "cg_assigned c1 = cg_assigned c" "cg_sessions c1 = cg_sessions c"
    by (simp_all add: c1_def)
  have cur: "current_sha (aq_daemon_id q) (aq_interface q) (snd (cg_ask c)) = current_sha (aq_daemon_id q) (aq_interface q) c"
    by (simp add: current_sha_def)
  have r: "guard (aq_expected q) (current_sha (aq_daemon_id q) (aq_interface q) c) = Inr ()"
    "as_blob_sha reply = blob_sha1_hex sha"
    "\<exists>as. c' = tell_sessions (fst (assign_tables q sha assigned_by t c1)) (aq_daemon_id q) (aq_interface q)
       ((snd (assign_tables q sha assigned_by t c1))\<lparr> cg_answers := as \<rparr>)"
    using assms b
    by (auto simp: catalogs_assign_def t_def c1_def cur Let_def case_prod_beta split: sum.splits option.splits)
  then obtain as where c': "c' = tell_sessions (fst (assign_tables q sha assigned_by t c1)) (aq_daemon_id q) (aq_interface q)
       ((snd (assign_tables q sha assigned_by t c1))\<lparr> cg_answers := as \<rparr>)"
    by blast
  have "\<exists>row. cg_assigned c' = (cg_assigned c)(?k \<mapsto> row) \<and> ar_sha row = sha"
  proof (cases "cg_assigned c ?k")
    case (Some old)
    then have "ar_sha old = sha \<Longrightarrow> cg_assigned c' = (cg_assigned c)(?k \<mapsto> old)"
      by (simp add: c' assign_tables_def Let_def c1 map_upd_triv)
    moreover have "ar_sha old \<noteq> sha \<Longrightarrow> ?thesis"
      by (simp add: c' assign_tables_def Let_def c1 Some exI [of _ "\<lparr> ar_sha = sha, ar_at = t, ar_by = assigned_by \<rparr>"])
    ultimately show ?thesis
      by blast
  qed (simp add: c' assign_tables_def Let_def c1 exI [of _ "\<lparr> ar_sha = sha, ar_at = t, ar_by = assigned_by \<rparr>"])
  moreover have "cg_blobs c' = (if cg_blobs c sha = None then (cg_blobs c)(sha \<mapsto> (aq_content q, aq_provenance q)) else cg_blobs c)"
    by (simp add: c' assign_tables_def Let_def c1)
  moreover have "cg_sessions c' = (if current_sha (aq_daemon_id q) (aq_interface q) c \<noteq> None \<and> ar_sha (the (cg_assigned c ?k)) = sha
       then cg_sessions c else snd (reassign (aq_daemon_id q) (aq_interface q) (cg_sessions c)))"
    by (auto simp: c' assign_tables_def Let_def c1 tell_sessions_def current_sha_def split: option.splits)
  ultimately show ?thesis
    using that b r(1,2) by blast
qed

lemma assign_blobs_ok:
  assumes "catalogs_assign K q assigned_by c = (Inr reply, c')" "blobs_ok K c" "is_utf8 (gk_lib K) (aq_content q)"
  shows "blobs_ok K c'"
proof -
  obtain sha name where s: "checked_blob K (aq_content q) (aq_provenance q) = Inr (sha, name)"
    "cg_blobs c' = (if cg_blobs c sha = None then (cg_blobs c)(sha \<mapsto> (aq_content q, aq_provenance q)) else cg_blobs c)"
    by (rule assign_ok [OF assms(1)])
  show ?thesis
    using assms(2,3) checked_blob_ok [OF s(1)] unfolding blobs_ok_def s(2) by auto
qed

lemma find_key: "(k, v) \<in> set xs \<Longrightarrow> distinct (map fst xs) \<Longrightarrow> find (\<lambda>a. fst a = k) xs = Some (k, v)"
  by (induction xs) (auto simp: rev_image_eqI)

lemma through_device_map_has:
  assumes "d \<in> set devices" "cg_assigned c (daemon_id, dv_name d) = Some r" "length (ar_sha r) = 20"
  shows "(dv_bus d, ar_sha r) \<in> set (through_device_map (assigned_for daemon_id devices c) devices)"
proof -
  have mem: "(dv_name d, ar_sha r) \<in> set (assigned_for daemon_id devices c)"
    using assms(1,2) by (force simp: assigned_for_def map_filter_def)
  have "map fst (assigned_for daemon_id devices c) = filter (\<lambda>i. cg_assigned c (daemon_id, i) \<noteq> None) (remdups (map dv_name devices))"
    unfolding assigned_for_def by (induction devices) (auto simp: map_filter_simps split: option.splits)
  then have "distinct (map fst (assigned_for daemon_id devices c))"
    by simp
  then have "find (\<lambda>a. fst a = dv_name d) (assigned_for daemon_id devices c) = Some (dv_name d, ar_sha r)"
    using find_key [OF mem] by blast
  then show ?thesis
    using assms(1,3) by (force simp: through_device_map_def map_filter_def)
qed

text \<open>C21: a catalogue the gateway takes for an interface is the one its daemon frames with: the next HELLO that names
  the interface is answered with it on the bus named, its blob is served, and the daemon's own checks take
  that blob. Every live session of the daemon that carries the interface is told to come back for it, unless
  the assignment was that catalogue already.\<close>

theorem assigned_catalogues_are_framed_with:
  assumes "catalogs_assign K q assigned_by c = (Inr reply, c')" "blobs_ok K c"
    and "is_utf8 (gk_lib K) (aq_content q)" "\<forall>x. length (sha1 (gk_lib K) x) = 20"
    and "d \<in> set devices" "dv_name d = aq_interface q"
  shows "blobs_ok K c' \<and>
    (\<exists>sha. as_blob_sha reply = blob_sha1_hex sha \<and>
      (\<forall>as e. assignments_for (aq_daemon_id q) devices c' = (Inr as, e) \<longrightarrow> (dv_bus d, sha) \<in> set as) \<and>
      (\<forall>served e. catalogs_blob sha c' = (Inr served, e) \<longrightarrow>
         (\<exists>content line. served = Some content \<and> checked (gk_lib K) (blob_sha1_hex sha) content path = Inr line \<and> lc_sha line = sha)) \<and>
      (current_sha (aq_daemon_id q) (aq_interface q) c \<noteq> Some (blob_sha1_hex sha) \<longrightarrow>
         (\<forall>l \<in> set (affected (aq_daemon_id q) (aq_interface q) (cg_sessions c)). lv_conn l \<in> set (sn_notified (cg_sessions c')))))"
proof -
  let ?k = "(aq_daemon_id q, aq_interface q)"
  obtain sha name where s: "checked_blob K (aq_content q) (aq_provenance q) = Inr (sha, name)"
    "cg_blobs c' = (if cg_blobs c sha = None then (cg_blobs c)(sha \<mapsto> (aq_content q, aq_provenance q)) else cg_blobs c)"
    "\<exists>row. cg_assigned c' = (cg_assigned c)(?k \<mapsto> row) \<and> ar_sha row = sha" "as_blob_sha reply = blob_sha1_hex sha"
    "cg_sessions c' = (if current_sha (aq_daemon_id q) (aq_interface q) c \<noteq> None \<and> ar_sha (the (cg_assigned c ?k)) = sha
       then cg_sessions c else snd (reassign (aq_daemon_id q) (aq_interface q) (cg_sessions c)))"
    by (rule assign_ok [OF assms(1)])
  have ok: "blobs_ok K c'"
    by (rule assign_blobs_ok [OF assms(1-3)])
  have len: "length sha = 20"
    using checked_blob_ok [OF s(1)] assms(4) by (simp add: blob_sha1_def)
  obtain row where row: "cg_assigned c' ?k = Some row" "ar_sha row = sha"
    using s(3) by auto
  have "(dv_bus d, sha) \<in> set as" if "assignments_for (aq_daemon_id q) devices c' = (Inr as, e)" for as e
  proof -
    define x where "x = snd (cg_ask (snd (cg_ask c')))"
    have "as = through_device_map (assigned_for (aq_daemon_id q) devices x) devices"
      using that by (auto simp: assignments_for_def x_def case_prod_beta split: option.splits)
    then show ?thesis
      using through_device_map_has [of d devices x "aq_daemon_id q" row] assms(5,6) row len by (simp add: x_def)
  qed
  moreover have "\<exists>content line. served = Some content \<and> checked (gk_lib K) (blob_sha1_hex sha) content path = Inr line \<and> lc_sha line = sha"
    if "catalogs_blob sha c' = (Inr served, e)" for served e
  proof -
    obtain content p where b: "cg_blobs c' sha = Some (content, p)"
      using s(2) by (cases "cg_blobs c sha") auto
    moreover have "served = map_option fst (cg_blobs c' sha)"
      using that by (auto simp: catalogs_blob_def case_prod_beta split: option.splits)
    ultimately show ?thesis
      using accepted_by_daemons [OF ok b, of path] by simp
  qed
  moreover have "lv_conn l \<in> set (sn_notified (cg_sessions c'))"
    if "current_sha (aq_daemon_id q) (aq_interface q) c \<noteq> Some (blob_sha1_hex sha)"
       "l \<in> set (affected (aq_daemon_id q) (aq_interface q) (cg_sessions c))" for l
    using that s(5) by (auto simp: reassign_def Let_def current_sha_def split: if_splits)
  ultimately show ?thesis
    using ok s(4) by blast
qed

definition ex_gatecatlib :: "unit gatecatlib" where
  "ex_gatecatlib =
     \<lparr> gk_lib = ref_catlib\<lparr> sha1 := (\<lambda>_. replicate 20 171) \<rparr>, gk_validate = (\<lambda>_. []), gk_valid_daemon_id = (\<lambda>i. i \<noteq> []) \<rparr>"

definition ex_session :: Live_session where
  "ex_session =
     \<lparr> lv_conn = 4, lv_database = ''van1'', lv_daemon_id = ''d1'', lv_interfaces = [''ttyUSB0''], lv_frames = 0, lv_batches = 0 \<rparr>"

definition ex_catalogs :: catalogs where
  "ex_catalogs =
     \<lparr> cg_blobs = (\<lambda>_. None), cg_assigned = (\<lambda>_. None), cg_history = [], cg_devices = (\<lambda>_. None), cg_active = (\<lambda>_. None),
       cg_sessions = \<lparr> sn_live = [7 \<mapsto> ex_session], sn_order = [7], sn_next = 8, sn_notified = [] \<rparr>,
       cg_answers = [None, None, None, None, None, None], cg_clock = [1, 2] \<rparr>"

definition ex_assign :: AssignCatalogue where
  "ex_assign =
     \<lparr> aq_daemon_id = ''d1'', aq_interface = ''ttyUSB0'', aq_content = [7, 8],
       aq_provenance = \<lparr> pv_blob_sha = None, pv_rest = [] \<rparr>, aq_expected = None \<rparr>"

lemmas assign_run_simps = catalogs_assign_def check_key_def checked_blob_def guard_def cg_ask_def cg_now_def assign_tables_def
  tell_sessions_def current_sha_def reassign_def affected_def Let_def

lemma ex_assign_ok: "\<exists>reply. catalogs_assign ex_gatecatlib ex_assign ''admin'' ex_catalogs =
    (Inr reply, snd (catalogs_assign ex_gatecatlib ex_assign ''admin'' ex_catalogs))"
  by (simp add: ex_gatecatlib_def ex_assign_def ex_catalogs_def ref_catlib_def assign_run_simps)

theorem assigned_catalogues_are_framed_with_witness:
  "blobs_ok ex_gatecatlib (snd (catalogs_assign ex_gatecatlib ex_assign ''admin'' ex_catalogs)) \<and>
   4 \<in> set (sn_notified (cg_sessions (snd (catalogs_assign ex_gatecatlib ex_assign ''admin'' ex_catalogs))))"
proof -
  obtain reply where r: "catalogs_assign ex_gatecatlib ex_assign ''admin'' ex_catalogs =
      (Inr reply, snd (catalogs_assign ex_gatecatlib ex_assign ''admin'' ex_catalogs))"
    using ex_assign_ok by blast
  have h: "blobs_ok ex_gatecatlib ex_catalogs" "is_utf8 (gk_lib ex_gatecatlib) (aq_content ex_assign)"
      "\<forall>x. length (sha1 (gk_lib ex_gatecatlib) x) = 20"
      "dv_name \<lparr> dv_bus = 2, dv_name = ''ttyUSB0'' \<rparr> = aq_interface ex_assign"
      "ex_session \<in> set (affected (aq_daemon_id ex_assign) (aq_interface ex_assign) (cg_sessions ex_catalogs))"
      "current_sha (aq_daemon_id ex_assign) (aq_interface ex_assign) ex_catalogs = None" "lv_conn ex_session = 4"
    by (simp_all add: blobs_ok_def ex_catalogs_def ex_gatecatlib_def ref_catlib_def ex_assign_def ex_session_def affected_def
        current_sha_def map_filter_simps)
  have d: "\<lparr> dv_bus = 2, dv_name = ''ttyUSB0'' \<rparr> \<in> set [\<lparr> dv_bus = 2, dv_name = ''ttyUSB0'' \<rparr>]"
    by simp
  note framed = assigned_catalogues_are_framed_with [OF r h(1-3) d h(4)]
  then have "lv_conn ex_session \<in> set (sn_notified (cg_sessions (snd (catalogs_assign ex_gatecatlib ex_assign ''admin'' ex_catalogs))))"
    using h(5,6) by fastforce
  then show ?thesis
    using framed h(7) by simp
qed

end
