(* ===== verification/Gateway_Ingest.thy ===== *)
theory Gateway_Ingest
  imports Gateway_Databases Gateway_Keys Gateway_Catalogs
begin

text \<open>
  The gateway's ingest listener: \<^verbatim>\<open>crates/wiretap-backend/src/ingest/mod.rs\<close>.

  The session machine of \<^verbatim>\<open>wslib_wiretap_protocol\<close> is a parameter, with what is used of it in \<open>machine_laws\<close>. The
  loop \<^verbatim>\<open>serve\<close> is generic in the trait \<^verbatim>\<open>Gateway\<close>, here a record of operations with the locale \<open>storing_gateway\<close>
  as its contract, and \<^verbatim>\<open>Connection\<close> is its instance. Keys, databases and catalogues are the states of
  their own theories; what the socket brings and the clock are scripts.
\<close>

section \<open>The session machine\<close>

record GHello =
  gh_token :: "u8 list"
  gh_database :: string
  gh_version :: u8
  gh_daemon_id :: string
  gh_devices :: "Device list"

record 'b GIncoming =
  gb_batch :: 'b
  gb_time_relative :: bool

datatype GClose = CloseRefused u8 | CloseReassigned | CloseBecause string

datatype 'b GAction =
    GReply "u8 list"
  | GHello_in GHello
  | GHello_refused u8
  | GBatch "'b GIncoming"
  | GNack u32 u8
  | GCatalogue_get "u8 list"
  | GCatalogue_status "WireStatus list"
  | GClose_in GClose

text \<open>\<open>gs_answer_hello\<close> gives \<open>None\<close> where there are more assignments than a message holds, which the code
  expects not to see. \<open>gs_lossy\<close> is \<^verbatim>\<open>String::from_utf8_lossy\<close>.\<close>

record ('m, 'b) gsession_lib =
  gs_receive :: "'m \<Rightarrow> u8 list \<Rightarrow> 'm"
  gs_poll :: "'m \<Rightarrow> 'b GAction option \<times> 'm"
  gs_answer_hello :: "'m \<Rightarrow> u8 \<Rightarrow> u64 \<Rightarrow> (u8 \<times> u8 list) list \<Rightarrow> u8 list option \<times> 'm"
  gs_ack :: "'m \<Rightarrow> u32 \<Rightarrow> u8 \<Rightarrow> u8 \<Rightarrow> u8 list \<times> 'm"
  gs_answer_catalogue :: "'m \<Rightarrow> (u8, u8 list) result \<Rightarrow> u8 list \<times> 'm"
  gs_close_reassigned :: "'m \<Rightarrow> 'm"
  gs_seq :: "'b \<Rightarrow> u32"
  gs_stamped :: "'b \<Rightarrow> bool \<Rightarrow> u64 \<Rightarrow> (u64 \<times> Record) list"
  gs_lossy :: "u8 list \<Rightarrow> string"
  gs_HELLO_OK :: u8
  gs_HELLO_BAD_AUTH :: u8
  gs_HELLO_BAD_DATABASE :: u8
  gs_HELLO_UNAVAILABLE :: u8
  gs_ACK_OK :: u8
  gs_ACK_OVERLOADED :: u8
  gs_ACK_MALFORMED :: u8
  gs_CATALOGUE_UNKNOWN :: u8
  gs_CATALOGUE_UNAVAILABLE :: u8

section \<open>The loop\<close>

text \<open>The trait. A batch with no session, which the machine does not hand over, panics: \<open>None\<close>.\<close>

record ('g, 'b) Gateway_ops =
  gw_hello :: "GHello \<Rightarrow> 'g \<Rightarrow> (u8 \<times> (u8 \<times> u8 list) list) \<times> 'g"
  gw_batch :: "'b GIncoming \<Rightarrow> 'g \<Rightarrow> u8 option \<times> 'g"
  gw_blob :: "u8 list \<Rightarrow> 'g \<Rightarrow> (u8, u8 list) result \<times> 'g"
  gw_status :: "WireStatus list \<Rightarrow> 'g \<Rightarrow> 'g"

datatype gevent = GRead "u8 list" | GRead_error string | GIdle | GReassigned

text \<open>\<open>wi_acked\<close> is history: how each batch was answered.\<close>

record ('m, 'g, 'b) wire =
  wi_machine :: 'm
  wi_gateway :: 'g
  wi_clock :: "u64 list"
  wi_writes :: "string option list"
  wi_written :: "u8 list list"
  wi_acked :: "('b GIncoming \<times> u8) list"

datatype gstep = GSend "u8 list" | GContinue | GReturn "(string, unit) result" | GPanic

definition wire_now :: "('m, 'g, 'b) wire \<Rightarrow> u64 \<times> ('m, 'g, 'b) wire" where
  "wire_now w = (case wi_clock w of [] \<Rightarrow> (0, w) | t # rest \<Rightarrow> (t, w\<lparr> wi_clock := rest \<rparr>))"

definition wire_answer :: "u8 list \<times> 'm \<Rightarrow> ('m, 'g, 'b) wire \<Rightarrow> gstep \<times> ('m, 'g, 'b) wire" where
  "wire_answer p w = (GSend (fst p), w\<lparr> wi_machine := snd p \<rparr>)"

definition wire_hello :: "('m, 'b) gsession_lib \<Rightarrow> u8 \<Rightarrow> (u8 \<times> u8 list) list \<Rightarrow> ('m, 'g, 'b) wire \<Rightarrow> gstep \<times> ('m, 'g, 'b) wire" where
  "wire_hello S status assignments w =
     (let (t, w1) = wire_now w in
      case gs_answer_hello S (wi_machine w1) status t assignments of
        (None, m) \<Rightarrow> (GPanic, w1\<lparr> wi_machine := m \<rparr>)
      | (Some bytes, m) \<Rightarrow> wire_answer (bytes, m) w1)"

definition gw_action :: "('m, 'b) gsession_lib \<Rightarrow> ('g, 'b) Gateway_ops \<Rightarrow> 'b GAction \<Rightarrow> ('m, 'g, 'b) wire \<Rightarrow> gstep \<times> ('m, 'g, 'b) wire" where
  "gw_action S W a w =
     (case a of
        GReply bytes \<Rightarrow> (GSend bytes, w)
      | GHello_in hello \<Rightarrow>
          (case gw_hello W hello (wi_gateway w) of
             ((status, assignments), g) \<Rightarrow> wire_hello S status assignments (w\<lparr> wi_gateway := g \<rparr>))
      | GHello_refused status \<Rightarrow> wire_hello S status [] w
      | GBatch b \<Rightarrow>
          (case gw_batch W b (wi_gateway w) of
             (None, g) \<Rightarrow> (GPanic, w\<lparr> wi_gateway := g \<rparr>)
           | (Some status, g) \<Rightarrow>
               wire_answer (gs_ack S (wi_machine w) (gs_seq S (gb_batch b)) status 0)
                 (w\<lparr> wi_gateway := g, wi_acked := wi_acked w @ [(b, status)] \<rparr>))
      | GNack q status \<Rightarrow> wire_answer (gs_ack S (wi_machine w) q status 0) w
      | GCatalogue_get sha \<Rightarrow>
          (case gw_blob W sha (wi_gateway w) of
             (r, g) \<Rightarrow> wire_answer (gs_answer_catalogue S (wi_machine w) r) (w\<lparr> wi_gateway := g \<rparr>))
      | GCatalogue_status entries \<Rightarrow> (GContinue, w\<lparr> wi_gateway := gw_status W entries (wi_gateway w) \<rparr>)
      | GClose_in (CloseRefused _) \<Rightarrow> (GReturn (Inr ()), w)
      | GClose_in CloseReassigned \<Rightarrow> (GReturn (Inr ()), w)
      | GClose_in (CloseBecause why) \<Rightarrow> (GReturn (Inl (''closed: '' @ why)), w))"

definition wire_write :: "u8 list \<Rightarrow> ('m, 'g, 'b) wire \<Rightarrow> string option \<times> ('m, 'g, 'b) wire" where
  "wire_write bytes w =
     (case wi_writes w of
        [] \<Rightarrow> (Some ''closed'', w)
      | Some e # rest \<Rightarrow> (Some e, w\<lparr> wi_writes := rest \<rparr>)
      | None # rest \<Rightarrow> (None, w\<lparr> wi_writes := rest, wi_written := wi_written w @ [bytes] \<rparr>))"

text \<open>\<open>None\<close> in the result: every action is done, and the loop selects again. A panic ends the connection's task.\<close>

partial_function (option) gw_actions :: "('m, 'b) gsession_lib \<Rightarrow> ('g, 'b) Gateway_ops \<Rightarrow> ('m, 'g, 'b) wire
    \<Rightarrow> ((string, unit) result option \<times> ('m, 'g, 'b) wire) option" where
  "gw_actions S W w =
     (case gs_poll S (wi_machine w) of
        (None, m) \<Rightarrow> Some (None, w\<lparr> wi_machine := m \<rparr>)
      | (Some a, m) \<Rightarrow>
          (case gw_action S W a (w\<lparr> wi_machine := m \<rparr>) of
             (GSend bytes, w1) \<Rightarrow>
               (case wire_write bytes w1 of
                  (e, w2) \<Rightarrow> if e = None then gw_actions S W w2 else Some (Some (Inl (''write: '' @ the e)), w2))
           | (GContinue, w1) \<Rightarrow> gw_actions S W w1
           | (GReturn r, w1) \<Rightarrow> Some (Some r, w1)
           | (GPanic, w1) \<Rightarrow> Some (Some (Inl ''panicked''), w1)))"

declare gw_actions.simps [code]

fun gw_serve :: "('m, 'b) gsession_lib \<Rightarrow> ('g, 'b) Gateway_ops \<Rightarrow> gevent list \<Rightarrow> ('m, 'g, 'b) wire
    \<Rightarrow> ((string, unit) result \<times> ('m, 'g, 'b) wire) option" where
  "gw_serve S W [] w = Some (Inr (), w)"
| "gw_serve S W (e # es) w =
     (let next = (\<lambda>m. case gw_actions S W (w\<lparr> wi_machine := m \<rparr>) of
                        None \<Rightarrow> None
                      | Some (Some r, w1) \<Rightarrow> Some (r, w1)
                      | Some (None, w1) \<Rightarrow> gw_serve S W es w1)
      in case e of
           GRead [] \<Rightarrow> Some (Inr (), w)
         | GRead (b # bs) \<Rightarrow> next (gs_receive S (wi_machine w) (b # bs))
         | GRead_error why \<Rightarrow> Some (Inl (''read: '' @ why), w)
         | GIdle \<Rightarrow> Some (Inl ''idle timeout'', w)
         | GReassigned \<Rightarrow> next (gs_close_reassigned S (wi_machine w)))"

section \<open>A connection\<close>

record GSession =
  ss_database :: string
  ss_id :: nat
  ss_daemon_id :: string
  ss_devices :: "Device list"

text \<open>\<open>cn_rekeys\<close> is what others have made of the keys by the time of each HELLO, and \<open>cn_assigns\<close> the assignments
  they make while it is answered. \<open>cn_opened\<close> is history: the sessions opened, with the keys each was
  checked against and the key it presented.\<close>

record Connection =
  cn_id :: nat
  cn_authed :: "GSession option"
  cn_served :: "(u8 list \<times> u8 list) option"
  cn_keys :: kworld
  cn_dbs :: Databases
  cn_cats :: catalogs
  cn_clock :: "u64 list"
  cn_rekeys :: "KeyStore list"
  cn_assigns :: "(AssignCatalogue \<times> string) list list"
  cn_opened :: "(GHello \<times> KeyStore \<times> KeyInfo \<times> string) list"

record ('m, 'b, 'f, 'k, 'o) gworld =
  gx_session :: "('m, 'b) gsession_lib"
  gx_lib :: "('f, 'k) gatelib"
  gx_catlib :: "'o gatecatlib"
  gx_config :: GatewayConfig
  gx_hash :: "string \<Rightarrow> string"

text \<open>The database a HELLO names, or else the key's pin; a pinned key may name no other.\<close>

definition hello_database :: "('m, 'b) gsession_lib \<Rightarrow> string option \<Rightarrow> string \<Rightarrow> (u8, string) result" where
  "hello_database S pin requested =
     (case pin of
        Some p \<Rightarrow> if requested = [] then Inr p else if requested \<noteq> p then Inl (gs_HELLO_BAD_AUTH S) else Inr p
      | None \<Rightarrow> if requested = [] then Inl (gs_HELLO_BAD_DATABASE S) else Inr requested)"

definition daemon_hello :: "GHello \<Rightarrow> string \<Rightarrow> catalogs \<Rightarrow> (u8 \<times> u8 list) list \<times> catalogs" where
  "daemon_hello h database c =
     (case record_hello (gh_daemon_id h) database (gh_devices h) c of
        (Inl _, c1) \<Rightarrow> ([], c1)
      | (Inr _, c1) \<Rightarrow>
          (case assignments_for (gh_daemon_id h) (gh_devices h) c1 of
             (Inl _, c2) \<Rightarrow> ([], c2)
           | (Inr as, c2) \<Rightarrow> (as, c2)))"

definition others_assign :: "'o gatecatlib \<Rightarrow> Connection \<Rightarrow> Connection" where
  "others_assign K n =
     (case cn_assigns n of
        [] \<Rightarrow> n
      | qs # rest \<Rightarrow>
          n\<lparr> cn_cats := fold (\<lambda>(q, by_whom) c. snd (catalogs_assign K q by_whom c)) qs (cn_cats n), cn_assigns := rest \<rparr>)"

definition others_rekey :: "Connection \<Rightarrow> Connection" where
  "others_rekey n =
     (case cn_rekeys n of
        [] \<Rightarrow> n
      | st # rest \<Rightarrow> n\<lparr> cn_keys := (cn_keys n)\<lparr> kw_store := st \<rparr>, cn_rekeys := rest \<rparr>)"

definition opened_session :: "('m, 'b, 'f, 'k, 'o) gworld \<Rightarrow> GHello \<Rightarrow> KeyInfo \<Rightarrow> string \<Rightarrow> Connection
    \<Rightarrow> (GSession \<times> (u8 \<times> u8 list) list) \<times> Connection" where
  "opened_session X h info database n =
     (let (assignments, c) = (if gh_daemon_id h = [] then ([], cn_cats n) else daemon_hello h database (cn_cats n));
          n1 = others_assign (gx_catlib X) (n\<lparr> cn_cats := c \<rparr>);
          (i, ss) = sessions_open
            \<lparr> lv_conn = cn_id n1, lv_database = database, lv_daemon_id = gh_daemon_id h,
              lv_interfaces = map dv_name (gh_devices h), lv_frames = 0, lv_batches = 0 \<rparr>
            (cg_sessions (cn_cats n1))
      in ((\<lparr> ss_database = database, ss_id = i, ss_daemon_id = gh_daemon_id h, ss_devices = gh_devices h \<rparr>, assignments),
          n1\<lparr> cn_cats := (cn_cats n1)\<lparr> cg_sessions := ss \<rparr>,
              cn_opened := cn_opened n1 @ [(h, kw_store (cn_keys n1), info, database)] \<rparr>))"

definition handle_hello :: "('m, 'b, 'f, 'k, 'o) gworld \<Rightarrow> GHello \<Rightarrow> Connection
    \<Rightarrow> (u8, GSession \<times> (u8 \<times> u8 list) list) result \<times> Connection" where
  "handle_hello X h n =
     (let S = gx_session X; n0 = others_rekey n in
      case validate_from (gx_hash X) (gs_lossy S (gh_token h)) (cn_keys n0) of
        (Inl _, k) \<Rightarrow> (Inl (gs_HELLO_BAD_AUTH S), n0\<lparr> cn_keys := k \<rparr>)
      | (Inr None, k) \<Rightarrow> (Inl (gs_HELLO_BAD_AUTH S), n0\<lparr> cn_keys := k \<rparr>)
      | (Inr (Some info), k) \<Rightarrow>
          (let n1 = n0\<lparr> cn_keys := k \<rparr> in
           if \<not> allows_ingest (ki_role info) then (Inl (gs_HELLO_BAD_AUTH S), n1)
           else case hello_database S (ki_pin info) (gh_database h) of
                  Inl status \<Rightarrow> (Inl status, n1)
                | Inr database \<Rightarrow>
                    (case ensure_database (gx_config X) database True (cn_dbs n1) of
                       (Inl (RefusedDb _), d) \<Rightarrow> (Inl (gs_HELLO_BAD_DATABASE S), n1\<lparr> cn_dbs := d \<rparr>)
                     | (Inl (Unavailable _), d) \<Rightarrow> (Inl (gs_HELLO_UNAVAILABLE S), n1\<lparr> cn_dbs := d \<rparr>)
                     | (Inr _, d) \<Rightarrow>
                         (case opened_session X h info database (n1\<lparr> cn_dbs := d \<rparr>) of (r, n2) \<Rightarrow> (Inr r, n2)))))"

definition close_session :: "nat \<Rightarrow> Connection \<Rightarrow> Connection" where
  "close_session i n = n\<lparr> cn_cats := (cn_cats n)\<lparr> cg_sessions := sessions_close i (cg_sessions (cn_cats n)) \<rparr> \<rparr>"

definition conn_hello :: "('m, 'b, 'f, 'k, 'o) gworld \<Rightarrow> GHello \<Rightarrow> Connection \<Rightarrow> (u8 \<times> (u8 \<times> u8 list) list) \<times> Connection" where
  "conn_hello X h n =
     (case handle_hello X h n of
        (Inl status, n1) \<Rightarrow> ((status, []), n1)
      | (Inr (session, assignments), n1) \<Rightarrow>
          (let n2 = n1\<lparr> cn_authed := Some session \<rparr> in
           ((gs_HELLO_OK (gx_session X), assignments),
            case cn_authed n1 of None \<Rightarrow> n2 | Some previous \<Rightarrow> close_session (ss_id previous) n2)))"

definition conn_now :: "Connection \<Rightarrow> u64 \<times> Connection" where
  "conn_now n = (case cn_clock n of [] \<Rightarrow> (0, n) | t # rest \<Rightarrow> (t, n\<lparr> cn_clock := rest \<rparr>))"

text \<open>\<^verbatim>\<open>rows\<close>; a record that does not decode panics.\<close>

definition gateway_rows :: "('m, 'b, 'f, 'k, 'o) gworld \<Rightarrow> 'b GIncoming \<Rightarrow> u64 \<Rightarrow> FrameRow list option" where
  "gateway_rows X b t = those (map (record_row (gx_lib X)) (gs_stamped (gx_session X) (gb_batch b) (gb_time_relative b) t))"

definition ack_for_copy_error :: "('m, 'b) gsession_lib \<Rightarrow> string option \<Rightarrow> u8" where
  "ack_for_copy_error S code = (if refused_the_rows code then gs_ACK_MALFORMED S else gs_ACK_OVERLOADED S)"

definition count_batch :: "nat \<Rightarrow> nat \<Rightarrow> Connection \<Rightarrow> Connection" where
  "count_batch i frames n =
     (let ss = cg_sessions (cn_cats n) in
      case sn_live ss i of
        None \<Rightarrow> n
      | Some l \<Rightarrow>
          n\<lparr> cn_cats := (cn_cats n)\<lparr> cg_sessions :=
               ss\<lparr> sn_live := (sn_live ss)(i \<mapsto> l\<lparr> lv_frames := lv_frames l + frames, lv_batches := lv_batches l + 1 \<rparr>) \<rparr> \<rparr> \<rparr>)"

definition handle_batch :: "('m, 'b, 'f, 'k, 'o) gworld \<Rightarrow> 'b GIncoming \<Rightarrow> GSession \<Rightarrow> Connection \<Rightarrow> u8 option \<times> Connection" where
  "handle_batch X b session n =
     (let (t, n1) = conn_now n in
      case gateway_rows X b t of
        None \<Rightarrow> (None, n1)
      | Some frs \<Rightarrow>
          (case write_rows (gx_config X) (ss_database session) frs (cn_dbs n1) of
             (Inr _, d) \<Rightarrow>
               (Some (gs_ACK_OK (gx_session X)), count_batch (ss_id session) (length frs) (n1\<lparr> cn_dbs := d \<rparr>))
           | (Inl (WriteCopy e), d) \<Rightarrow> (Some (ack_for_copy_error (gx_session X) (ce_code e)), n1\<lparr> cn_dbs := d \<rparr>)
           | (Inl (WriteDb _), d) \<Rightarrow> (Some (gs_ACK_OVERLOADED (gx_session X)), n1\<lparr> cn_dbs := d \<rparr>)))"

definition conn_batch :: "('m, 'b, 'f, 'k, 'o) gworld \<Rightarrow> 'b GIncoming \<Rightarrow> Connection \<Rightarrow> u8 option \<times> Connection" where
  "conn_batch X b n = (case cn_authed n of None \<Rightarrow> (None, n) | Some session \<Rightarrow> handle_batch X b session n)"

definition conn_blob_fetch :: "('m, 'b, 'f, 'k, 'o) gworld \<Rightarrow> u8 list \<Rightarrow> Connection \<Rightarrow> (u8, u8 list) result \<times> Connection" where
  "conn_blob_fetch X sha n =
     (case catalogs_blob sha (cn_cats n) of
        (Inr (Some content), c) \<Rightarrow> (Inr content, n\<lparr> cn_cats := c, cn_served := Some (sha, content) \<rparr>)
      | (Inr None, c) \<Rightarrow> (Inl (gs_CATALOGUE_UNKNOWN (gx_session X)), n\<lparr> cn_cats := c \<rparr>)
      | (Inl _, c) \<Rightarrow> (Inl (gs_CATALOGUE_UNAVAILABLE (gx_session X)), n\<lparr> cn_cats := c \<rparr>))"

definition conn_blob :: "('m, 'b, 'f, 'k, 'o) gworld \<Rightarrow> u8 list \<Rightarrow> Connection \<Rightarrow> (u8, u8 list) result \<times> Connection" where
  "conn_blob X sha n =
     (case cn_served n of
        Some (served, content) \<Rightarrow> if served = sha then (Inr content, n) else conn_blob_fetch X sha n
      | None \<Rightarrow> conn_blob_fetch X sha n)"

definition conn_catalog_status :: "WireStatus list \<Rightarrow> Connection \<Rightarrow> Connection" where
  "conn_catalog_status entries n =
     (case cn_authed n of
        None \<Rightarrow> n
      | Some s \<Rightarrow>
          if ss_daemon_id s = [] then n
          else n\<lparr> cn_cats := snd (record_status (ss_daemon_id s) (ss_devices s) entries (cn_cats n)) \<rparr>)"

definition connection_ops :: "('m, 'b, 'f, 'k, 'o) gworld \<Rightarrow> (Connection, 'b) Gateway_ops" where
  "connection_ops X =
     \<lparr> gw_hello = conn_hello X, gw_batch = conn_batch X, gw_blob = conn_blob X, gw_status = conn_catalog_status \<rparr>"

text \<open>\<^verbatim>\<open>handle_client\<close>: the session still open when the connection ends is closed.\<close>

definition handle_client :: "('m, 'b, 'f, 'k, 'o) gworld \<Rightarrow> gevent list \<Rightarrow> ('m, Connection, 'b) wire
    \<Rightarrow> ((string, unit) result \<times> ('m, Connection, 'b) wire) option" where
  "handle_client X es w =
     (case gw_serve (gx_session X) (connection_ops X) es w of
        None \<Rightarrow> None
      | Some (r, w1) \<Rightarrow>
          Some (r, case cn_authed (wi_gateway w1) of
                     None \<Rightarrow> w1
                   | Some s \<Rightarrow> w1\<lparr> wi_gateway := close_session (ss_id s) (wi_gateway w1) \<rparr>))"

section \<open>The loop over any gateway that keeps the trait's contract\<close>

text \<open>The machine's documented behaviour: an action polled is gone, an answer makes none, so that what was received
  is worked off.\<close>

definition machine_drains :: "('m, 'b) gsession_lib \<Rightarrow> ('m \<Rightarrow> nat) \<Rightarrow> bool" where
  "machine_drains S \<mu> \<longleftrightarrow>
     (\<forall>m a m'. gs_poll S m = (Some a, m') \<longrightarrow> \<mu> m' < \<mu> m) \<and>
     (\<forall>m st t as. \<mu> (snd (gs_answer_hello S m st t as)) \<le> \<mu> m) \<and>
     (\<forall>m q st k. \<mu> (snd (gs_ack S m q st k)) \<le> \<mu> m) \<and>
     (\<forall>m r. \<mu> (snd (gs_answer_catalogue S m r)) \<le> \<mu> m)"

lemma machine_after_hello:
  assumes "machine_drains S \<mu>"
  shows "\<mu> (wi_machine (snd (wire_hello S st as w))) \<le> \<mu> (wi_machine w)"
proof -
  obtain t w1 where n: "wire_now w = (t, w1)" "wi_machine w1 = wi_machine w"
    by (cases "wi_clock w") (auto simp: wire_now_def)
  have "\<mu> (snd (gs_answer_hello S (wi_machine w) st t as)) \<le> \<mu> (wi_machine w)"
    using assms by (simp add: machine_drains_def)
  then show ?thesis
    using n by (auto simp: wire_hello_def wire_answer_def split: prod.split option.split)
qed

lemma machine_after_action:
  assumes "machine_drains S \<mu>"
  shows "\<mu> (wi_machine (snd (gw_action S W a w))) \<le> \<mu> (wi_machine w)"
  using assms machine_after_hello [OF assms, of _ _ "w\<lparr> wi_gateway := g \<rparr>" for g] machine_after_hello [OF assms, of _ _ w]
  by (cases a) (auto simp: gw_action_def wire_answer_def machine_drains_def split: GClose.split prod.split option.split)

text \<open>What the trait promises: a batch answered \<open>ok\<close> is in the log, and nothing else goes there.\<close>

locale storing_gateway =
  fixes W :: "('g, 'b) Gateway_ops"
    and log :: "'g \<Rightarrow> 'x list"
    and inv :: "'g \<Rightarrow> bool"
    and stored_as :: "'b GIncoming \<Rightarrow> 'x \<Rightarrow> bool"
    and ok :: u8
  assumes hello_law: "inv g \<Longrightarrow> inv (snd (gw_hello W h g)) \<and> log (snd (gw_hello W h g)) = log g"
    and blob_law: "inv g \<Longrightarrow> inv (snd (gw_blob W sha g)) \<and> log (snd (gw_blob W sha g)) = log g"
    and status_law: "inv g \<Longrightarrow> inv (gw_status W entries g) \<and> log (gw_status W entries g) = log g"
    and batch_law: "inv g \<Longrightarrow> inv (snd (gw_batch W b g)) \<and>
      (if fst (gw_batch W b g) = Some ok then \<exists>x. log (snd (gw_batch W b g)) = log g @ [x] \<and> stored_as b x
       else log (snd (gw_batch W b g)) = log g)"
begin

definition served :: "'x list \<Rightarrow> ('m, 'g, 'b) wire \<Rightarrow> bool" where
  "served l0 w \<longleftrightarrow> inv (wi_gateway w) \<and>
     (\<exists>xs. log (wi_gateway w) = l0 @ xs \<and> list_all2 stored_as (map fst (filter (\<lambda>a. snd a = ok) (wi_acked w))) xs)"

lemma served_cong: "wi_gateway w' = wi_gateway w \<Longrightarrow> wi_acked w' = wi_acked w \<Longrightarrow> served l0 w' = served l0 w"
  by (simp add: served_def)

lemma served_now [simp]: "served l0 (snd (wire_now w)) = served l0 w"
  by (rule served_cong) (simp_all add: wire_now_def split: list.split)

lemma served_machine [simp]: "served l0 (w\<lparr> wi_machine := m \<rparr>) = served l0 w"
  by (rule served_cong) simp_all

lemma served_write [simp]: "served l0 (snd (wire_write bytes w)) = served l0 w"
  by (rule served_cong) (simp_all add: wire_write_def split: list.split option.split)

lemma served_answer [simp]: "served l0 (snd (wire_answer p w)) = served l0 w"
  by (rule served_cong) (simp_all add: wire_answer_def)

lemma served_hello [simp]: "served l0 (snd (wire_hello S st as w)) = served l0 w"
proof -
  obtain t w1 where n: "wire_now w = (t, w1)"
    by fastforce
  then have "served l0 w1 = served l0 w"
    using served_now [of l0 w] by simp
  then show ?thesis
    using n by (auto simp: wire_hello_def split: prod.split option.split)
qed

lemma served_inv: "served l0 w \<Longrightarrow> inv (wi_gateway w)"
  by (simp add: served_def)

lemma served_gateway:
  "served l0 w \<Longrightarrow> inv g \<Longrightarrow> log g = log (wi_gateway w) \<Longrightarrow> served l0 (w\<lparr> wi_gateway := g \<rparr>)"
  by (simp add: served_def)

lemma served_batch:
  assumes "served l0 w" "gw_batch W b (wi_gateway w) = (Some st, g)"
  shows "served l0 (w\<lparr> wi_gateway := g, wi_acked := wi_acked w @ [(b, st)] \<rparr>)"
proof -
  obtain xs where xs: "inv (wi_gateway w)" "log (wi_gateway w) = l0 @ xs"
      "list_all2 stored_as (map fst (filter (\<lambda>a. snd a = ok) (wi_acked w))) xs"
    using assms(1) by (auto simp: served_def)
  show ?thesis
    using batch_law [OF xs(1), of b] xs(2,3) assms(2)
    by (cases "st = ok") (auto simp: served_def intro!: list_all2_appendI)
qed

lemma served_action:
  assumes s: "served l0 w"
  shows "served l0 (snd (gw_action S W a w))"
proof (cases a)
  case (GHello_in h)
  then show ?thesis
    using s hello_law [OF served_inv [OF s], of h] served_gateway [OF s] by (auto simp: gw_action_def split: prod.split)
next
  case (GBatch b)
  obtain r g where r: "gw_batch W b (wi_gateway w) = (r, g)"
    by fastforce
  then show ?thesis
    using s GBatch served_batch [OF s, of b] batch_law [OF served_inv [OF s], of b] served_gateway [OF s]
    by (cases r) (auto simp: gw_action_def)
next
  case (GCatalogue_get sha)
  then show ?thesis
    using s blob_law [OF served_inv [OF s], of sha] served_gateway [OF s] by (auto simp: gw_action_def split: prod.split)
next
  case (GCatalogue_status es)
  then show ?thesis
    using s status_law [OF served_inv [OF s], of es] served_gateway [OF s] by (simp add: gw_action_def)
qed (simp_all add: s gw_action_def split: GClose.split)

lemma served_actions:
  assumes "machine_drains S \<mu>"
  shows "served l0 w \<Longrightarrow> \<exists>r w'. gw_actions S W w = Some (r, w') \<and> served l0 w'"
proof (induction "\<mu> (wi_machine w)" arbitrary: w rule: less_induct)
  case less
  show ?case
  proof (cases "gs_poll S (wi_machine w)")
    case (Pair ao m)
    show ?thesis
    proof (cases ao)
      case None
      then show ?thesis
        using Pair less.prems by (simp add: gw_actions.simps)
    next
      case (Some a)
      obtain st w1 where a: "gw_action S W a (w\<lparr> wi_machine := m \<rparr>) = (st, w1)"
        by fastforce
      have s1: "served l0 w1"
        using served_action [of l0 "w\<lparr> wi_machine := m \<rparr>" S a] less.prems a by simp
      have "\<mu> (wi_machine w1) \<le> \<mu> m"
        using machine_after_action [OF assms, of W a "w\<lparr> wi_machine := m \<rparr>"] a by simp
      also have "\<mu> m < \<mu> (wi_machine w)"
        using assms Pair Some by (simp add: machine_drains_def)
      finally have again: "\<exists>r w'. gw_actions S W v = Some (r, w') \<and> served l0 w'"
        if "served l0 v" "wi_machine v = wi_machine w1" for v
        using less.hyps that by simp
      show ?thesis
      proof (cases st)
        case (GSend bytes)
        obtain e w2 where e: "wire_write bytes w1 = (e, w2)"
          by fastforce
        moreover have "wi_machine (snd (wire_write bytes w1)) = wi_machine w1"
          by (simp add: wire_write_def split: list.split option.split)
        ultimately show ?thesis
          using again [of w2] served_write [of l0 bytes w1] s1 Pair Some a GSend
          by (subst gw_actions.simps) simp
      qed (use again [of w1] s1 Pair Some a in \<open>subst gw_actions.simps, simp\<close>)+
    qed
  qed
qed

lemma served_serve:
  assumes "machine_drains S \<mu>"
  shows "served l0 w \<Longrightarrow> \<exists>r w'. gw_serve S W es w = Some (r, w') \<and> served l0 w'"
proof (induction es arbitrary: w)
  case (Cons e es)
  have go: "\<exists>r w'. (case gw_actions S W (w\<lparr> wi_machine := m \<rparr>) of
                    None \<Rightarrow> None
                  | Some (Some r, w1) \<Rightarrow> Some (r, w1)
                  | Some (None, w1) \<Rightarrow> gw_serve S W es w1) = Some (r, w') \<and> served l0 w'" for m
  proof -
    obtain r w1 where "gw_actions S W (w\<lparr> wi_machine := m \<rparr>) = Some (r, w1)" "served l0 w1"
      using served_actions [OF assms, of l0 "w\<lparr> wi_machine := m \<rparr>"] Cons.prems by auto
    then show ?thesis
      using Cons.IH [of w1] by (cases r) auto
  qed
  show ?case
    using go Cons.prems by (cases e rule: gevent.exhaust) (auto simp: Let_def split: list.split)
qed simp

text \<open>Whatever the socket brings, the loop returns, and what is in the log is what it acknowledged.\<close>

lemma serving_ends:
  assumes "machine_drains S \<mu>" "inv (wi_gateway w)" "wi_acked w = []"
  shows "\<exists>r w' xs. gw_serve S W es w = Some (r, w') \<and> inv (wi_gateway w') \<and> log (wi_gateway w') = log (wi_gateway w) @ xs \<and>
    list_all2 stored_as (map fst (filter (\<lambda>a. snd a = ok) (wi_acked w'))) xs"
proof -
  have "served (log (wi_gateway w)) w"
    using assms(2,3) by (simp add: served_def)
  then obtain r w' where "gw_serve S W es w = Some (r, w')" "served (log (wi_gateway w)) w'"
    using served_serve [OF assms(1)] by blast
  then show ?thesis
    unfolding served_def by blast
qed

end

section \<open>A connection keeps the contract\<close>

text \<open>Whom a session may be opened for, and on what database.\<close>

definition permitted :: "('m, 'b, 'f, 'k, 'o) gworld \<Rightarrow> GHello \<Rightarrow> KeyStore \<Rightarrow> KeyInfo \<Rightarrow> string \<Rightarrow> bool" where
  "permitted X h st info database \<longleftrightarrow>
     (\<exists>k. kw_store k = st \<and> fst (validate (gx_hash X) (gs_lossy (gx_session X) (gh_token h)) k) = Some info) \<and>
     allows_ingest (ki_role info) \<and> database = (case ki_pin info of Some p \<Rightarrow> p | None \<Rightarrow> gh_database h) \<and>
     gc_valid_name (gx_config X) database \<and> database \<noteq> gc_default_database (gx_config X)"

definition opened_dbs :: "Connection \<Rightarrow> string set" where
  "opened_dbs n = (\<lambda>(h, st, info, database). database) ` set (cn_opened n)"

definition acks_differ :: "('m, 'b) gsession_lib \<Rightarrow> bool" where
  "acks_differ S \<longleftrightarrow> gs_ACK_OK S \<noteq> gs_ACK_OVERLOADED S \<and> gs_ACK_OK S \<noteq> gs_ACK_MALFORMED S"

definition stored_by :: "('m, 'b, 'f, 'k, 'o) gworld \<Rightarrow> 'b GIncoming \<Rightarrow> string \<times> FrameRow list \<times> Route \<Rightarrow> bool" where
  "stored_by X b x \<longleftrightarrow> (\<exists>t. gateway_rows X b t = Some (fst (snd x)))"

definition sessions_kept :: "(nat \<Rightarrow> Live_session option) \<Rightarrow> Connection \<Rightarrow> bool" where
  "sessions_kept L0 n \<longleftrightarrow>
     (let s = cg_sessions (cn_cats n) in
      (\<forall>i l. sn_live s i = Some l \<longrightarrow> i < sn_next s) \<and>
      (case cn_authed n of
         None \<Rightarrow> sn_live s = L0
       | Some a \<Rightarrow> L0 (ss_id a) = None \<and> (\<exists>l. sn_live s = L0(ss_id a \<mapsto> l))))"

definition conn_ok :: "('m, 'b, 'f, 'k, 'o) gworld \<Rightarrow> (string \<times> FrameRow list \<times> Route) list \<Rightarrow> (nat \<Rightarrow> Live_session option) \<Rightarrow> Connection \<Rightarrow> bool" where
  "conn_ok X l0 L0 n \<longleftrightarrow>
     acks_differ (gx_session X) \<and> sessions_kept L0 n \<and>
     (\<forall>(h, st, info, database) \<in> set (cn_opened n). permitted X h st info database) \<and>
     (\<forall>s. cn_authed n = Some s \<longrightarrow> ss_database s \<in> opened_dbs n) \<and>
     (\<exists>xs. db_stored (cn_dbs n) = l0 @ xs \<and> (\<forall>x \<in> set xs. fst x \<in> opened_dbs n))"

subsection \<open>Catalogues and the live sessions\<close>

lemma daemon_hello_sessions [simp]: "cg_sessions (snd (daemon_hello h database c)) = cg_sessions c"
proof -
  have "cg_sessions (snd (record_hello i database ds c)) = cg_sessions c" for i ds
    by (simp add: record_hello_def Let_def case_prod_beta split: option.split)
  moreover have "cg_sessions (snd (assignments_for i ds c)) = cg_sessions c" for i ds c
    by (simp add: assignments_for_def case_prod_beta split: option.split)
  ultimately show ?thesis
    by (simp add: daemon_hello_def case_prod_beta split: sum.split)
qed

lemma record_status_sessions [simp]: "cg_sessions (snd (record_status i ds es c)) = cg_sessions c"
  by (simp add: record_status_def Let_def case_prod_beta split: option.split)

lemma blob_sessions [simp]: "cg_sessions (snd (catalogs_blob sha c)) = cg_sessions c"
  by (simp add: catalogs_blob_def case_prod_beta split: option.split)

lemma assign_live:
  "sn_live (cg_sessions (snd (catalogs_assign K q who c))) = sn_live (cg_sessions c) \<and>
   sn_next (cg_sessions (snd (catalogs_assign K q who c))) = sn_next (cg_sessions c)"
  by (simp add: catalogs_assign_def assign_tables_def tell_sessions_def reassign_def Let_def case_prod_beta
      split: sum.split option.split prod.split)

lemma others_assign_keeps:
  "cn_keys (others_assign K n) = cn_keys n" "cn_dbs (others_assign K n) = cn_dbs n" "cn_authed (others_assign K n) = cn_authed n"
  "cn_opened (others_assign K n) = cn_opened n"
  by (simp_all add: others_assign_def split: list.split)

lemma others_assign_live:
  "sn_live (cg_sessions (cn_cats (others_assign K n))) = sn_live (cg_sessions (cn_cats n)) \<and>
   sn_next (cg_sessions (cn_cats (others_assign K n))) = sn_next (cg_sessions (cn_cats n))"
proof -
  have "sn_live (cg_sessions (fold (\<lambda>(q, who) c. snd (catalogs_assign K q who c)) qs c)) = sn_live (cg_sessions c) \<and>
      sn_next (cg_sessions (fold (\<lambda>(q, who) c. snd (catalogs_assign K q who c)) qs c)) = sn_next (cg_sessions c)" for qs c
    by (induction qs arbitrary: c) (simp_all add: case_prod_beta assign_live)
  then show ?thesis
    by (simp add: others_assign_def split: list.split)
qed

subsection \<open>HELLO\<close>

lemma conn_ok_cong:
  "conn_ok X l0 L0 n \<Longrightarrow> cn_authed n' = cn_authed n \<Longrightarrow> cg_sessions (cn_cats n') = cg_sessions (cn_cats n) \<Longrightarrow>
   cn_opened n' = cn_opened n \<Longrightarrow> db_stored (cn_dbs n') = db_stored (cn_dbs n) \<Longrightarrow> conn_ok X l0 L0 n'"
  by (simp add: conn_ok_def sessions_kept_def opened_dbs_def)

lemma opened_session_does:
  assumes "opened_session X h info database n = ((s, as), n')"
  shows "ss_database s = database \<and> cn_dbs n' = cn_dbs n \<and> cn_authed n' = cn_authed n \<and>
    cn_opened n' = cn_opened n @ [(h, kw_store (cn_keys n), info, database)] \<and>
    ss_id s = sn_next (cg_sessions (cn_cats n)) \<and> sn_next (cg_sessions (cn_cats n')) = sn_next (cg_sessions (cn_cats n)) + 1 \<and>
    (\<exists>l. sn_live (cg_sessions (cn_cats n')) = (sn_live (cg_sessions (cn_cats n)))(ss_id s \<mapsto> l))"
proof -
  define c where "c = (if gh_daemon_id h = [] then cn_cats n else snd (daemon_hello h database (cn_cats n)))"
  have c: "cg_sessions c = cg_sessions (cn_cats n)"
    by (simp add: c_def)
  have "opened_session X h info database n =
      (let n1 = others_assign (gx_catlib X) (n\<lparr> cn_cats := c \<rparr>); ss = cg_sessions (cn_cats n1) in
       ((\<lparr> ss_database = database, ss_id = sn_next ss, ss_daemon_id = gh_daemon_id h, ss_devices = gh_devices h \<rparr>,
         if gh_daemon_id h = [] then [] else fst (daemon_hello h database (cn_cats n))),
        n1\<lparr> cn_cats := (cn_cats n1)\<lparr> cg_sessions := snd (sessions_open
              \<lparr> lv_conn = cn_id n1, lv_database = database, lv_daemon_id = gh_daemon_id h,
                lv_interfaces = map dv_name (gh_devices h), lv_frames = 0, lv_batches = 0 \<rparr> ss) \<rparr>,
            cn_opened := cn_opened n1 @ [(h, kw_store (cn_keys n1), info, database)] \<rparr>))"
    by (simp add: opened_session_def c_def sessions_open_def Let_def case_prod_beta)
  then show ?thesis
    using assms others_assign_live [of "gx_catlib X" "n\<lparr> cn_cats := c \<rparr>"]
    by (auto simp: Let_def others_assign_keeps c sessions_open_def)
qed

lemma conn_ok_open:
  assumes "conn_ok X l0 L0 n" "permitted X h (kw_store (cn_keys n)) info database"
    and "opened_session X h info database n = ((s, as), n')"
  shows "conn_ok X l0 L0 (case cn_authed n' of
      None \<Rightarrow> n'\<lparr> cn_authed := Some s \<rparr> | Some previous \<Rightarrow> close_session (ss_id previous) (n'\<lparr> cn_authed := Some s \<rparr>))"
proof -
  note does = opened_session_does [OF assms(3)]
  have live: "\<forall>i l. sn_live (cg_sessions (cn_cats n)) i = Some l \<longrightarrow> i < sn_next (cg_sessions (cn_cats n))"
    using assms(1) by (simp add: conn_ok_def sessions_kept_def Let_def)
  have fresh: "sn_live (cg_sessions (cn_cats n)) (ss_id s) = None"
    using live does by (metis less_irrefl not_None_eq)
  have kept: "sessions_kept L0 (case cn_authed n' of
      None \<Rightarrow> n'\<lparr> cn_authed := Some s \<rparr> | Some previous \<Rightarrow> close_session (ss_id previous) (n'\<lparr> cn_authed := Some s \<rparr>))"
  proof (cases "cn_authed n")
    case None
    then have "sn_live (cg_sessions (cn_cats n)) = L0"
      using assms(1) by (simp add: conn_ok_def sessions_kept_def Let_def)
    then show ?thesis
      using does fresh live None by (auto simp: sessions_kept_def Let_def less_Suc_eq split: if_splits)
  next
    case (Some p)
    then obtain l where "L0 (ss_id p) = None" "sn_live (cg_sessions (cn_cats n)) = L0(ss_id p \<mapsto> l)"
      using assms(1) by (auto simp: conn_ok_def sessions_kept_def Let_def)
    moreover from this have "ss_id p \<noteq> ss_id s" "L0 (ss_id s) = None" "L0(ss_id p := None) = L0"
      using fresh by (auto split: if_splits)
    ultimately show ?thesis
      using does live Some
      by (auto simp: sessions_kept_def Let_def close_session_def sessions_close_def less_Suc_eq fun_upd_twist split: if_splits)
  qed
  define v where "v = (case cn_authed n' of
      None \<Rightarrow> n'\<lparr> cn_authed := Some s \<rparr> | Some previous \<Rightarrow> close_session (ss_id previous) (n'\<lparr> cn_authed := Some s \<rparr>))"
  have v: "cn_authed v = Some s" "cn_dbs v = cn_dbs n" "cn_opened v = cn_opened n @ [(h, kw_store (cn_keys n), info, database)]"
    using does by (simp_all add: v_def close_session_def split: option.split)
  then have "opened_dbs v = insert database (opened_dbs n)"
    by (auto simp: opened_dbs_def)
  then show ?thesis
    using assms(1,2) does v kept unfolding v_def [symmetric] conn_ok_def by auto
qed

lemma validate_from_ok:
  assumes "validate_from H key k = (Inr (Some info), k')"
  shows "fst (validate H key k) = Some info \<and> kw_store k' = kw_store k"
proof -
  have "kw_store (snd (validate H key k)) = kw_store k"
    by (simp add: validate_def Let_def split: option.split)
  then show ?thesis
    using assms by (auto simp: validate_from_def split: prod.splits option.splits list.splits bool.splits)
qed

lemma hello_database_ok: "hello_database S pin requested = Inr database \<Longrightarrow> database = (case pin of Some p \<Rightarrow> p | None \<Rightarrow> requested)"
  by (auto simp: hello_database_def split: option.splits if_splits)

lemma ensure_stores_nothing: "db_stored (snd (ensure_database C name allow d)) = db_stored d"
  using unstored.ensured [of "db_stored d" d C name allow] by (simp add: stored_so_far_def)

lemma others_rekey_keeps [simp]:
  "cn_authed (others_rekey n) = cn_authed n" "cn_cats (others_rekey n) = cn_cats n" "cn_opened (others_rekey n) = cn_opened n"
  "cn_dbs (others_rekey n) = cn_dbs n"
  by (simp_all add: others_rekey_def split: list.split)

text \<open>A HELLO is refused and changes neither sessions nor captures, or opens a session that is permitted.\<close>

lemma handle_hello_cases:
  obtains status n' where "handle_hello X h n = (Inl status, n')" "cn_authed n' = cn_authed n" "cn_cats n' = cn_cats n"
      "cn_opened n' = cn_opened n" "db_stored (cn_dbs n') = db_stored (cn_dbs n)"
  | info database n1 r n' where "handle_hello X h n = (Inr r, n')" "opened_session X h info database n1 = (r, n')"
      "permitted X h (kw_store (cn_keys n1)) info database" "cn_authed n1 = cn_authed n" "cn_cats n1 = cn_cats n"
      "cn_opened n1 = cn_opened n" "db_stored (cn_dbs n1) = db_stored (cn_dbs n)"
proof (cases "\<exists>info. fst (validate_from (gx_hash X) (gs_lossy (gx_session X) (gh_token h)) (cn_keys (others_rekey n))) = Inr (Some info)")
  case False
  then have "handle_hello X h n =
      (Inl (gs_HELLO_BAD_AUTH (gx_session X)),
       (others_rekey n)\<lparr> cn_keys := snd (validate_from (gx_hash X) (gs_lossy (gx_session X) (gh_token h)) (cn_keys (others_rekey n))) \<rparr>)"
    by (auto simp: handle_hello_def Let_def split: prod.split sum.split option.split)
  then show ?thesis
    by (rule that(1)) simp_all
next
  case True
  then obtain info k where v: "validate_from (gx_hash X) (gs_lossy (gx_session X) (gh_token h)) (cn_keys (others_rekey n)) = (Inr (Some info), k)"
    by (metis prod.collapse)
  define n1 where "n1 = (others_rekey n)\<lparr> cn_keys := k \<rparr>"
  show ?thesis
  proof (cases "allows_ingest (ki_role info) \<and> (\<exists>database. hello_database (gx_session X) (ki_pin info) (gh_database h) = Inr database)")
    case False
    then have "\<exists>status. handle_hello X h n = (Inl status, n1)"
      using v by (auto simp: handle_hello_def Let_def n1_def split: sum.split)
    then show ?thesis
      using that(1) by (auto simp: n1_def)
  next
    case True
    then obtain database where db: "allows_ingest (ki_role info)"
        "hello_database (gx_session X) (ki_pin info) (gh_database h) = Inr database"
      by blast
    obtain e d where e: "ensure_database (gx_config X) database True (cn_dbs n1) = (e, d)"
      by fastforce
    then have log: "db_stored d = db_stored (cn_dbs n)"
      using ensure_stores_nothing [of "gx_config X" database True "cn_dbs n1"] by (simp add: n1_def)
    show ?thesis
    proof (cases e)
      case (Inl err)
      then have "\<exists>status. handle_hello X h n = (Inl status, n1\<lparr> cn_dbs := d \<rparr>)"
        using v db e by (cases err) (simp_all add: handle_hello_def Let_def n1_def)
      then show ?thesis
        using that(1) log by (auto simp: n1_def)
    next
      case (Inr u)
      then have name: "gc_valid_name (gx_config X) database \<and> database \<noteq> gc_default_database (gx_config X)"
        using ensured_name [of "gx_config X" database True "cn_dbs n1"] e by simp
      obtain r n' where o: "opened_session X h info database (n1\<lparr> cn_dbs := d \<rparr>) = (r, n')"
        by fastforce
      have "permitted X h (kw_store (cn_keys (n1\<lparr> cn_dbs := d \<rparr>))) info database"
        using validate_from_ok [OF v] db name hello_database_ok [OF db(2)] by (auto simp: permitted_def n1_def)
      moreover have "handle_hello X h n = (Inr r, n')"
        using v db e o Inr by (simp add: handle_hello_def Let_def n1_def)
      ultimately show ?thesis
        using that(2) [OF _ o] log by (simp add: n1_def)
    qed
  qed
qed

lemma conn_ok_hello:
  assumes "conn_ok X l0 L0 n"
  shows "conn_ok X l0 L0 (snd (conn_hello X h n)) \<and> db_stored (cn_dbs (snd (conn_hello X h n))) = db_stored (cn_dbs n)"
proof (rule handle_hello_cases [of X h n])
  fix status n' assume "handle_hello X h n = (Inl status, n')" "cn_authed n' = cn_authed n" "cn_cats n' = cn_cats n"
      "cn_opened n' = cn_opened n" "db_stored (cn_dbs n') = db_stored (cn_dbs n)"
  then show ?thesis
    using conn_ok_cong [OF assms] by (simp add: conn_hello_def)
next
  fix info database n1 r n' assume r: "handle_hello X h n = (Inr r, n')" "opened_session X h info database n1 = (r, n')"
      "permitted X h (kw_store (cn_keys n1)) info database" "cn_authed n1 = cn_authed n" "cn_cats n1 = cn_cats n"
      "cn_opened n1 = cn_opened n" "db_stored (cn_dbs n1) = db_stored (cn_dbs n)"
  obtain s as where s: "r = (s, as)"
    by fastforce
  have "conn_ok X l0 L0 n1"
    using conn_ok_cong [OF assms] r by simp
  from conn_ok_open [OF this r(3) r(2) [unfolded s]] opened_session_does [OF r(2) [unfolded s]] show ?thesis
    using r s by (simp add: conn_hello_def Let_def close_session_def split: option.split)
qed

subsection \<open>Batches and catalogues\<close>

lemma count_batch_keeps:
  "cn_authed (count_batch i k n) = cn_authed n" "cn_opened (count_batch i k n) = cn_opened n" "cn_dbs (count_batch i k n) = cn_dbs n"
  by (simp_all add: count_batch_def Let_def split: option.split)

lemma count_batch_sessions:
  assumes "sessions_kept L0 n" "cn_authed n = Some s"
  shows "sessions_kept L0 (count_batch (ss_id s) k n)"
  using assms by (auto simp: sessions_kept_def count_batch_def Let_def split: option.split)

lemma handle_batch_does:
  assumes "acks_differ (gx_session X)" "handle_batch X b s n = (r, n')"
  obtains "cn_authed n' = cn_authed n" "cn_opened n' = cn_opened n" "cn_cats n' = cn_cats n"
      "r \<noteq> Some (gs_ACK_OK (gx_session X))" "db_stored (cn_dbs n') = db_stored (cn_dbs n)"
  | k n1 x where "r = Some (gs_ACK_OK (gx_session X))" "n' = count_batch (ss_id s) k n1" "cn_authed n1 = cn_authed n"
      "cn_opened n1 = cn_opened n" "cn_cats n1 = cn_cats n" "db_stored (cn_dbs n1) = db_stored (cn_dbs n) @ [x]"
      "fst x = ss_database s" "stored_by X b x"
proof -
  obtain t n1 where n1: "conn_now n = (t, n1)" "cn_authed n1 = cn_authed n" "cn_opened n1 = cn_opened n" "cn_cats n1 = cn_cats n"
      "cn_dbs n1 = cn_dbs n"
    by (cases "cn_clock n") (auto simp: conn_now_def)
  show ?thesis
  proof (cases "gateway_rows X b t")
    case None
    then show ?thesis
      using that(1) n1 assms(2) by (auto simp: handle_batch_def)
  next
    case (Some frs)
    obtain q d where q: "write_rows (gx_config X) (ss_database s) frs (cn_dbs n1) = (q, d)"
      by fastforce
    note stored = write_rows_stored [where C = "gx_config X" and name = "ss_database s" and rows = frs and d = "cn_dbs n1"]
    show ?thesis
    proof (cases q)
      case (Inl e)
      then show ?thesis
        using that(1) n1 assms q Some stored
        by (cases e) (auto simp: handle_batch_def ack_for_copy_error_def acks_differ_def split: if_splits)
    next
      case (Inr u)
      then obtain x where "db_stored d = db_stored (cn_dbs n) @ [(ss_database s, frs, x)]"
        using stored q n1(5) by auto
      then show ?thesis
        using that(2) [of "length frs" "n1\<lparr> cn_dbs := d \<rparr>" "(ss_database s, frs, x)"] n1 assms(2) q Some Inr
        by (auto simp: handle_batch_def stored_by_def)
    qed
  qed
qed

lemma conn_ok_batch:
  assumes "conn_ok X l0 L0 n"
  shows "conn_ok X l0 L0 (snd (conn_batch X b n)) \<and>
    (if fst (conn_batch X b n) = Some (gs_ACK_OK (gx_session X))
     then \<exists>x. db_stored (cn_dbs (snd (conn_batch X b n))) = db_stored (cn_dbs n) @ [x] \<and> stored_by X b x
     else db_stored (cn_dbs (snd (conn_batch X b n))) = db_stored (cn_dbs n))"
proof (cases "cn_authed n")
  case None
  then show ?thesis
    using assms by (simp add: conn_batch_def)
next
  case (Some s)
  obtain r n' where r: "handle_batch X b s n = (r, n')"
    by fastforce
  have "acks_differ (gx_session X)"
    using assms by (simp add: conn_ok_def)
  then show ?thesis
  proof (rule handle_batch_does [OF _ r])
    assume "cn_authed n' = cn_authed n" "cn_opened n' = cn_opened n" "cn_cats n' = cn_cats n"
      "r \<noteq> Some (gs_ACK_OK (gx_session X))" "db_stored (cn_dbs n') = db_stored (cn_dbs n)"
    then show ?thesis
      using conn_ok_cong [OF assms] Some r by (simp add: conn_batch_def)
  next
    fix k n1 x assume n1: "r = Some (gs_ACK_OK (gx_session X))" "n' = count_batch (ss_id s) k n1" "cn_authed n1 = cn_authed n"
      "cn_opened n1 = cn_opened n" "cn_cats n1 = cn_cats n" "db_stored (cn_dbs n1) = db_stored (cn_dbs n) @ [x]"
      "fst x = ss_database s" "stored_by X b x"
    have "sessions_kept L0 n'"
      using count_batch_sessions [of L0 n1 s k] n1 assms Some by (simp add: conn_ok_def sessions_kept_def)
    moreover have "opened_dbs n' = opened_dbs n" "ss_database s \<in> opened_dbs n"
      using assms n1 Some by (auto simp: conn_ok_def count_batch_keeps opened_dbs_def)
    ultimately have "conn_ok X l0 L0 n'"
      using assms n1 Some by (auto simp: conn_ok_def count_batch_keeps)
    then show ?thesis
      using n1 Some r by (auto simp: conn_batch_def count_batch_keeps)
  qed
qed

lemma conn_ok_blob:
  assumes "conn_ok X l0 L0 n"
  shows "conn_ok X l0 L0 (snd (conn_blob X sha n)) \<and> db_stored (cn_dbs (snd (conn_blob X sha n))) = db_stored (cn_dbs n)"
proof -
  have "cn_authed (snd (conn_blob_fetch X sha n)) = cn_authed n \<and> cn_opened (snd (conn_blob_fetch X sha n)) = cn_opened n \<and>
      cn_dbs (snd (conn_blob_fetch X sha n)) = cn_dbs n \<and>
      cg_sessions (cn_cats (snd (conn_blob_fetch X sha n))) = cg_sessions (cn_cats n)"
    using blob_sessions [of sha "cn_cats n"]
    by (cases "catalogs_blob sha (cn_cats n)") (simp add: conn_blob_fetch_def split: sum.split option.split)
  then show ?thesis
    using assms conn_ok_cong [OF assms] by (auto simp: conn_blob_def split: option.split)
qed

lemma conn_ok_status:
  assumes "conn_ok X l0 L0 n"
  shows "conn_ok X l0 L0 (conn_catalog_status es n) \<and> db_stored (cn_dbs (conn_catalog_status es n)) = db_stored (cn_dbs n)"
  using assms conn_ok_cong [OF assms] by (auto simp: conn_catalog_status_def split: option.split)

interpretation connection: storing_gateway "connection_ops X" "\<lambda>n. db_stored (cn_dbs n)" "conn_ok X l0 L0" "stored_by X" "gs_ACK_OK (gx_session X)"
  for X l0 L0
  unfolding connection_ops_def
  by (unfold_locales; unfold Gateway_ops.select_convs)
    (erule conn_ok_hello, erule conn_ok_blob, erule conn_ok_status, erule conn_ok_batch)

section \<open>Properties\<close>

definition fresh_connection :: "Connection \<Rightarrow> bool" where
  "fresh_connection n \<longleftrightarrow>
     cn_authed n = None \<and> cn_opened n = [] \<and>
     (\<forall>i l. sn_live (cg_sessions (cn_cats n)) i = Some l \<longrightarrow> i < sn_next (cg_sessions (cn_cats n)))"

definition stored_acks :: "('m, 'b, 'f, 'k, 'o) gworld \<Rightarrow> ('m, 'g, 'b) wire \<Rightarrow> 'b GIncoming list" where
  "stored_acks X w = map fst (filter (\<lambda>a. snd a = gs_ACK_OK (gx_session X)) (wi_acked w))"

lemma handle_client_does:
  assumes "machine_drains (gx_session X) \<mu>" "acks_differ (gx_session X)" "fresh_connection (wi_gateway w)" "wi_acked w = []"
  obtains r w' xs where "handle_client X es w = Some (r, w')"
    "db_stored (cn_dbs (wi_gateway w')) = db_stored (cn_dbs (wi_gateway w)) @ xs" "list_all2 (stored_by X) (stored_acks X w') xs"
    "\<forall>x \<in> set xs. fst x \<in> opened_dbs (wi_gateway w')"
    "\<forall>(h, st, info, database) \<in> set (cn_opened (wi_gateway w')). permitted X h st info database"
    "sn_live (cg_sessions (cn_cats (wi_gateway w'))) = sn_live (cg_sessions (cn_cats (wi_gateway w)))"
proof -
  let ?l0 = "db_stored (cn_dbs (wi_gateway w))" and ?L0 = "sn_live (cg_sessions (cn_cats (wi_gateway w)))"
  have "conn_ok X ?l0 ?L0 (wi_gateway w)"
    using assms(2,3) by (simp add: conn_ok_def sessions_kept_def fresh_connection_def Let_def)
  from connection.serving_ends [OF assms(1) this assms(4)]
  obtain r w1 xs where r: "gw_serve (gx_session X) (connection_ops X) es w = Some (r, w1)" and
      s: "db_stored (cn_dbs (wi_gateway w1)) = ?l0 @ xs" "list_all2 (stored_by X) (stored_acks X w1) xs"
      "conn_ok X ?l0 ?L0 (wi_gateway w1)"
    unfolding stored_acks_def by blast
  define w' where "w' = (case cn_authed (wi_gateway w1) of
      None \<Rightarrow> w1 | Some s \<Rightarrow> w1\<lparr> wi_gateway := close_session (ss_id s) (wi_gateway w1) \<rparr>)"
  have "handle_client X es w = Some (r, w')"
    using r by (simp add: handle_client_def w'_def)
  moreover have "cn_opened (wi_gateway w') = cn_opened (wi_gateway w1)" "cn_dbs (wi_gateway w') = cn_dbs (wi_gateway w1)"
      "wi_acked w' = wi_acked w1"
    by (simp_all add: w'_def close_session_def split: option.split)
  moreover have "sn_live (cg_sessions (cn_cats (wi_gateway w'))) = ?L0"
    using s(3) by (auto simp: w'_def close_session_def sessions_close_def conn_ok_def sessions_kept_def Let_def split: option.splits)
  ultimately show ?thesis
    using that [of r w' xs] s by (auto simp: conn_ok_def stored_acks_def opened_dbs_def)
qed


text \<open>No session outlives its connection: however it ended, the live sessions are those there were before it, so
  that no assignment tells a connection that is gone.\<close>

theorem no_session_outlives_its_connection:
  assumes "machine_drains (gx_session X) \<mu>" "acks_differ (gx_session X)" "fresh_connection (wi_gateway w)" "wi_acked w = []"
  shows "\<exists>r w'. handle_client X es w = Some (r, w') \<and>
    sn_live (cg_sessions (cn_cats (wi_gateway w'))) = sn_live (cg_sessions (cn_cats (wi_gateway w)))"
  by (rule handle_client_does [OF assms, of es]) blast

section \<open>A gateway that runs\<close>

text \<open>A machine whose messages are bytes: 1 for a HELLO, any other for a batch of one CAN frame.\<close>

definition ex_hello :: GHello where
  "ex_hello =
     \<lparr> gh_token = [111, 108, 100], gh_database = [], gh_version = 3, gh_daemon_id = ''d1'',
       gh_devices = [\<lparr> dv_bus = 2, dv_name = ''ttyUSB0'' \<rparr>] \<rparr>"

definition ex_incoming :: "(u64 \<times> Record) list GIncoming" where
  "ex_incoming = \<lparr> gb_batch = take 1 ex_records, gb_time_relative = False \<rparr>"

definition ex_gsession :: "((u64 \<times> Record) list GAction list, (u64 \<times> Record) list) gsession_lib" where
  "ex_gsession =
     \<lparr> gs_receive = (\<lambda>m bytes. m @ map (\<lambda>b. if b = 1 then GHello_in ex_hello else GBatch ex_incoming) bytes),
       gs_poll = (\<lambda>m. case m of [] \<Rightarrow> (None, []) | a # as \<Rightarrow> (Some a, as)),
       gs_answer_hello = (\<lambda>m st t as. (Some [st], m)), gs_ack = (\<lambda>m q st k. ([st], m)),
       gs_answer_catalogue = (\<lambda>m r. ([], m)), gs_close_reassigned = (\<lambda>m. [GClose_in CloseReassigned]),
       gs_seq = (\<lambda>_. 0), gs_stamped = (\<lambda>b rel t. b), gs_lossy = map (\<lambda>b. char_of (unat b)),
       gs_HELLO_OK = 0, gs_HELLO_BAD_AUTH = 1, gs_HELLO_BAD_DATABASE = 2, gs_HELLO_UNAVAILABLE = 3,
       gs_ACK_OK = 0, gs_ACK_OVERLOADED = 1, gs_ACK_MALFORMED = 2, gs_CATALOGUE_UNKNOWN = 1, gs_CATALOGUE_UNAVAILABLE = 2 \<rparr>"

definition ex_gworld :: "((u64 \<times> Record) list GAction list, (u64 \<times> Record) list, RefFrame, RefFrame, unit) gworld" where
  "ex_gworld =
     \<lparr> gx_session = ex_gsession, gx_lib = ref_gatelib, gx_catlib = ex_gatecatlib, gx_config = ex_gateway_config,
       gx_hash = Cons CHR ''#'' \<rparr>"

definition ex_connection :: Connection where
  "ex_connection =
     \<lparr> cn_id = 5, cn_authed = None, cn_served = None, cn_keys = ex_keys [], cn_dbs = ex_databases, cn_cats = ex_catalogs,
       cn_clock = [9, 10], cn_rekeys = [], cn_assigns = [[(ex_assign, ''admin'')]], cn_opened = [] \<rparr>"

definition ex_wire :: "((u64 \<times> Record) list GAction list, Connection, (u64 \<times> Record) list) wire" where
  "ex_wire = \<lparr> wi_machine = [], wi_gateway = ex_connection, wi_clock = [1, 2], wi_writes = [None, None], wi_written = [], wi_acked = [] \<rparr>"

lemma ex_drains: "machine_drains (gx_session ex_gworld) length" "acks_differ (gx_session ex_gworld)"
  by (simp_all add: machine_drains_def acks_differ_def ex_gworld_def ex_gsession_def split: list.split)

lemma ex_fresh: "fresh_connection (wi_gateway ex_wire)" "wi_acked ex_wire = []"
  by (simp_all add: fresh_connection_def ex_wire_def ex_connection_def ex_catalogs_def)

lemmas hello_run_simps = handle_hello_def others_rekey_def validate_from_def validate_def hello_database_def ensure_database_def
  held_def importing_def is_gateway_database_def database_exists_def meanwhile_db_def route_exists_def route_def pool_def
  owes_migration_def opened_session_def daemon_hello_def record_hello_def assignments_for_def assigned_for_def
  through_device_map_def others_assign_def sessions_open_def assign_run_simps

lemma ex_token: "gs_lossy ex_gsession (gh_token ex_hello) = ''old''"
  by (simp add: ex_gsession_def ex_hello_def char_of_def bit_0)

text \<open>An assignment made while a HELLO is answered, after its assignments are read and before its session is
  entered, reaches neither: the daemon is answered without it, the connection is not told to close, and the
  session goes on with what it had.\<close>

theorem assignment_missed_by_a_new_session:
  "case handle_hello ex_gworld ex_hello ex_connection of
     (Inr (session, assignments), n) \<Rightarrow>
       assignments = [] \<and> cg_assigned (cn_cats n) (''d1'', ''ttyUSB0'') \<noteq> None \<and>
       map lv_conn (affected ''d1'' ''ttyUSB0'' (cg_sessions (cn_cats n))) = [4, 5] \<and>
       sn_notified (cg_sessions (cn_cats n)) = [4]
   | (Inl _, _) \<Rightarrow> False"
  using ex_token
  by (simp add: ex_gworld_def ex_hello_def ex_connection_def ex_keys_def ex_key_row_def ex_databases_def ex_gateway_config_def
      ex_catalogs_def ex_assign_def ex_gatecatlib_def ref_catlib_def ex_session_def info_of_def Role_parse_def allows_ingest_def
      hello_run_simps map_filter_simps)

lemma ex_gworld_simps:
  "gx_session ex_gworld = ex_gsession" "gx_config ex_gworld = ex_gateway_config" "gs_ACK_OK ex_gsession = 0"
  by (simp_all add: ex_gworld_def ex_gsession_def)

lemma ex_hello_runs:
  "\<exists>s n. conn_hello ex_gworld ex_hello ex_connection = ((0, []), n) \<and> cn_authed n = Some s \<and> ss_database s = ''van1'' \<and>
     cn_dbs n = ex_databases\<lparr> db_exists := [] \<rparr>"
  using ex_token
  by (simp add: conn_hello_def ex_gworld_def ex_hello_def ex_connection_def ex_keys_def ex_key_row_def ex_databases_def
      ex_gateway_config_def ex_catalogs_def ex_assign_def ex_gatecatlib_def ref_catlib_def ex_session_def info_of_def
      Role_parse_def allows_ingest_def hello_run_simps map_filter_simps) (simp add: ex_gsession_def)

lemma ex_batch_runs:
  assumes "cn_authed n = Some s" "ss_database s = ''van1''" "cn_dbs n = ex_databases\<lparr> db_exists := [] \<rparr>"
  shows "\<exists>n' frs. conn_batch ex_gworld ex_incoming n = (Some 0, n') \<and> db_stored (cn_dbs n') = [(''van1'', frs, Route_Live)]"
proof -
  obtain t n1 where n1: "conn_now n = (t, n1)" "cn_dbs n1 = cn_dbs n"
    by (cases "cn_clock n") (auto simp: conn_now_def)
  obtain frs where "gateway_rows ex_gworld ex_incoming t = Some frs"
    by (simp add: gateway_rows_def ex_gworld_def ex_incoming_def ex_gsession_def ex_records_def record_row_def)
      (simp add: FrameRow_new_def ref_gatelib_def ref_lib_def Let_def)
  then show ?thesis
    using assms n1
    by (simp add: conn_batch_def handle_batch_def ex_gworld_simps count_batch_keeps write_rows_def write_db_def store_def route_def
        held_def owes_migration_def pool_def importing_def meanwhile_db_def ex_databases_def ex_gateway_config_def)
qed

lemma ex_serve_stores:
  "\<exists>r w' frs. handle_client ex_gworld [GRead [1, 2]] ex_wire = Some (r, w') \<and>
     db_stored (cn_dbs (wi_gateway w')) = [(''van1'', frs, Route_Live)]"
proof -
  obtain s n where h: "conn_hello ex_gworld ex_hello ex_connection = ((0, []), n)" "cn_authed n = Some s" "ss_database s = ''van1''"
      "cn_dbs n = ex_databases\<lparr> db_exists := [] \<rparr>"
    using ex_hello_runs by blast
  obtain n' frs where b: "conn_batch ex_gworld ex_incoming n = (Some 0, n')" "db_stored (cn_dbs n') = [(''van1'', frs, Route_Live)]"
    using ex_batch_runs [OF h(2-4)] by blast
  show ?thesis
    using b(2)
    by (simp add: handle_client_def gw_actions.simps ex_gworld_simps connection_ops_def ex_wire_def ex_gsession_def gw_action_def
        wire_hello_def wire_now_def wire_answer_def wire_write_def h(1) b(1) close_session_def split: option.split)
qed


theorem no_session_outlives_its_connection_witness:
  "\<exists>r w'. handle_client ex_gworld [GRead [1, 2]] ex_wire = Some (r, w') \<and>
    sn_live (cg_sessions (cn_cats (wi_gateway w'))) = [7 \<mapsto> ex_session]"
proof -
  have "sn_live (cg_sessions (cn_cats (wi_gateway ex_wire))) = [7 \<mapsto> ex_session]"
    by (simp add: ex_wire_def ex_connection_def ex_catalogs_def)
  then show ?thesis
    using no_session_outlives_its_connection [OF ex_drains ex_fresh, of "[GRead [1, 2]]"] by simp
qed

end
