(* ===== verification/Gateway_Secrets.thy ===== *)
theory Gateway_Secrets
  imports Rust_Text
begin

text \<open>
  The gateway's database password: \<^verbatim>\<open>crates/wiretap-backend/src/secrets.rs\<close>, the credentials and
  \<^verbatim>\<open>rotate_pg_password\<close>, \<^verbatim>\<open>reach_postgres\<close> of \<^verbatim>\<open>db.rs\<close>, \<^verbatim>\<open>secret_var\<close> of \<^verbatim>\<open>config.rs\<close> and the wait for
  PostgreSQL of \<^verbatim>\<open>main.rs\<close>.

  Atomic files are a library: what is used of it is that staging a value leaves the file itself as it is, that
  a promotion puts the staged value into the file or leaves both, and that discarding removes what is
  staged. Whether each call succeeds is a script, and so is whether the task goes on: a client that hangs up
  drops its handler's future, and a process may be killed. A script that is over means success.
\<close>

section \<open>State\<close>

datatype Unreached = TimedOut | Invalid_password | FailedConnect string

datatype alter = Alter_ok | Alter_lost string | Alter_failed string

datatype promotion = Promoted | Unmoved string | Unsynced string

text \<open>\<open>sw_file\<close> and \<open>sw_staged\<close> are the password file and what is staged beside it, \<open>sw_creds\<close> the password connections
  are opened with, \<open>sw_role\<close> the one the cluster takes.\<close>

record secret_world =
  sw_file :: string
  sw_staged :: "string option"
  sw_creds :: string
  sw_role :: string
  sw_reaches :: "Unreached option list"
  sw_answers :: "string option list"
  sw_stages :: "(string \<times> string option) option list"
  sw_alters :: "alter list"
  sw_promotes :: "promotion list"
  sw_reads :: "string option list"
  sw_drops :: "bool list"
  sw_new :: "string list"

definition describe :: "string \<Rightarrow> Unreached \<Rightarrow> string" where
  "describe database u =
     (case u of
        TimedOut \<Rightarrow> ''connect to '' @ [CHR 0x27] @ database @ [CHR 0x27] @ '' timed out''
      | Invalid_password \<Rightarrow> ''connect to '' @ [CHR 0x27] @ database @ [CHR 0x27] @ '' failed: password authentication failed''
      | FailedConnect e \<Rightarrow> ''connect to '' @ [CHR 0x27] @ database @ [CHR 0x27] @ '' failed: '' @ e)"

text \<open>A connection: the cluster answers, and takes the right password only, or it is not reached.\<close>

definition reach :: "secret_world \<Rightarrow> (Unreached, unit) result \<times> secret_world" where
  "reach w =
     (case sw_reaches w of
        [] \<Rightarrow> (if sw_creds w = sw_role w then Inr () else Inl Invalid_password, w)
      | Some u # rest \<Rightarrow> (Inl u, w\<lparr> sw_reaches := rest \<rparr>)
      | None # rest \<Rightarrow> (if sw_creds w = sw_role w then Inr () else Inl Invalid_password, w\<lparr> sw_reaches := rest \<rparr>))"

definition connect_raw :: "secret_world \<Rightarrow> (string, unit) result \<times> secret_world" where
  "connect_raw w = (case reach w of (Inl u, w1) \<Rightarrow> (Inl (describe ''postgres'' u), w1) | (Inr _, w1) \<Rightarrow> (Inr (), w1))"

definition sw_ask :: "secret_world \<Rightarrow> string option \<times> secret_world" where
  "sw_ask w = (case sw_answers w of [] \<Rightarrow> (None, w) | a # rest \<Rightarrow> (a, w\<lparr> sw_answers := rest \<rparr>))"

text \<open>A point where the task may be dropped.\<close>

definition dropped :: "secret_world \<Rightarrow> bool \<times> secret_world" where
  "dropped w = (case sw_drops w of [] \<Rightarrow> (False, w) | b # rest \<Rightarrow> (b, w\<lparr> sw_drops := rest \<rparr>))"

definition random_hex :: "secret_world \<Rightarrow> string \<times> secret_world" where
  "random_hex w = (case sw_new w of [] \<Rightarrow> ([], w) | p # rest \<Rightarrow> (p, w\<lparr> sw_new := rest \<rparr>))"

definition set_pg_password :: "string \<Rightarrow> secret_world \<Rightarrow> string \<times> secret_world" where
  "set_pg_password password w = (sw_creds w, w\<lparr> sw_creds := password \<rparr>)"

text \<open>\<^verbatim>\<open>stage\<close>: a failure may leave anything staged.\<close>

definition stage :: "string \<Rightarrow> secret_world \<Rightarrow> (string, unit) result \<times> secret_world" where
  "stage value w =
     (case sw_stages w of
        [] \<Rightarrow> (Inr (), w\<lparr> sw_staged := Some value \<rparr>)
      | Some (e, left) # rest \<Rightarrow> (Inl e, w\<lparr> sw_staged := left, sw_stages := rest \<rparr>)
      | None # rest \<Rightarrow> (Inr (), w\<lparr> sw_staged := Some value, sw_stages := rest \<rparr>))"

definition promote :: "secret_world \<Rightarrow> promotion \<times> secret_world" where
  "promote w =
     (let p = (case sw_promotes w of [] \<Rightarrow> Promoted | p # _ \<Rightarrow> p); w1 = w\<lparr> sw_promotes := tl (sw_promotes w) \<rparr> in
      case (p, sw_staged w) of
        (Unmoved e, _) \<Rightarrow> (Unmoved e, w1)
      | (_, None) \<Rightarrow> (Unmoved ''no such file'', w1)
      | (_, Some value) \<Rightarrow> (p, w1\<lparr> sw_file := value, sw_staged := None \<rparr>))"

definition discard :: "secret_world \<Rightarrow> (string, unit) result \<times> secret_world" where
  "discard w =
     (case sw_ask w of (Some e, w1) \<Rightarrow> (Inl e, w1) | (None, w1) \<Rightarrow> (Inr (), w1\<lparr> sw_staged := None \<rparr>))"

definition from_file :: "string \<Rightarrow> secret_world \<Rightarrow> (string, string) result \<times> secret_world" where
  "from_file content w =
     (case sw_reads w of
        [] \<Rightarrow> (Inr content, w)
      | Some e # rest \<Rightarrow> (Inl e, w\<lparr> sw_reads := rest \<rparr>)
      | None # rest \<Rightarrow> (Inr content, w\<lparr> sw_reads := rest \<rparr>))"

section \<open>Rotation\<close>

definition promote_error :: "promotion \<Rightarrow> string option" where
  "promote_error p =
     (case p of
        Promoted \<Rightarrow> None
      | Unmoved e \<Rightarrow> Some (''the password was changed but not saved ('' @ e @ ''); it is in .next, which the next start promotes'')
      | Unsynced e \<Rightarrow> Some (''the password was changed and saved, but its directory was not synced ('' @ e @ '')''))"

text \<open>From \<^verbatim>\<open>ALTER ROLE\<close> on. \<open>None\<close>: the task was dropped.\<close>

definition alter_role :: "bool \<Rightarrow> string \<Rightarrow> secret_world \<Rightarrow> (string, string) result option \<times> secret_world" where
  "alter_role to_file password w =
     (let took = w\<lparr> sw_alters := tl (sw_alters w), sw_role := password \<rparr> in
      case sw_alters w of
        Alter_failed e # rest \<Rightarrow> (Some (Inl (''ALTER ROLE failed: '' @ e)), w\<lparr> sw_alters := rest \<rparr>)
      | Alter_lost e # rest \<Rightarrow> (Some (Inl (''ALTER ROLE failed: '' @ e)), took)
      | _ \<Rightarrow>
          (case dropped took of
             (True, w1) \<Rightarrow> (None, w1)
           | (False, w1) \<Rightarrow>
               (let w2 = w1\<lparr> sw_creds := password \<rparr> in
                if to_file
                then case promote w2 of
                       (p, w3) \<Rightarrow> (Some (case promote_error p of Some e \<Rightarrow> Inl e | None \<Rightarrow> Inr password), w3)
                else (Some (Inr password), w2))))"

definition rotate_pg_password :: "bool \<Rightarrow> secret_world \<Rightarrow> (string, string) result option \<times> secret_world" where
  "rotate_pg_password to_file w =
     (case dropped w of
        (True, w1) \<Rightarrow> (None, w1)
      | (False, w1) \<Rightarrow>
      case connect_raw w1 of
        (Inl e, w2) \<Rightarrow> (Some (Inl e), w2)
      | (Inr _, w2) \<Rightarrow>
      case sw_ask w2 of
        (Some e, w3) \<Rightarrow> (Some (Inl e), w3)
      | (None, w3) \<Rightarrow>
          (let (password, w4) = random_hex w3; (staged, w5) = (if to_file then stage password w4 else (Inr (), w4)) in
           case staged of
             Inl e \<Rightarrow> (Some (Inl e), w5)
           | Inr _ \<Rightarrow>
               (case dropped w5 of
                  (True, w6) \<Rightarrow> (None, w6)
                | (False, w6) \<Rightarrow> alter_role to_file password w6)))"

section \<open>A start\<close>

text \<open>\<^verbatim>\<open>secret_var\<close>: the value, and whether a file is where it is kept.\<close>

definition secret_var :: "string option \<Rightarrow> bool \<Rightarrow> secret_world \<Rightarrow> (string, string option \<times> bool) result \<times> secret_world" where
  "secret_var env named_file w =
     (if env \<noteq> None \<and> env \<noteq> Some [] then (Inr (env, False), w)
      else if \<not> named_file then (Inr (None, False), w)
      else case from_file (sw_file w) w of
             (Inl e, w1) \<Rightarrow> (Inl e, w1)
           | (Inr v, w1) \<Rightarrow> (Inr (Some v, True), w1))"

definition reach_postgres :: "bool \<Rightarrow> secret_world \<Rightarrow> (string, unit) result \<times> secret_world" where
  "reach_postgres to_file w =
     (if \<not> to_file \<or> sw_staged w = None then connect_raw w
      else case reach w of
             (Inl Invalid_password, w1) \<Rightarrow>
               (case from_file (the (sw_staged w1)) w1 of
                  (Inl e, w2) \<Rightarrow> (Inl e, w2)
                | (Inr password, w2) \<Rightarrow>
                    (let (previous, w3) = set_pg_password password w2 in
                     case connect_raw w3 of
                       (Inl e, w4) \<Rightarrow> (Inl e, snd (set_pg_password previous w4))
                     | (Inr _, w4) \<Rightarrow>
                         (case promote w4 of
                            (Promoted, w5) \<Rightarrow> (Inr (), w5)
                          | (Unmoved e, w5) \<Rightarrow> (Inl e, w5)
                          | (Unsynced e, w5) \<Rightarrow> (Inl e, w5))))
           | (Inl e, w1) \<Rightarrow> (Inl (describe ''postgres'' e), w1)
           | (Inr _, w1) \<Rightarrow> discard w1)"

text \<open>The wait in \<^verbatim>\<open>run\<close>: \<open>attempts\<close> more tries, of 60 at first.\<close>

fun wait_for_postgres :: "bool \<Rightarrow> nat \<Rightarrow> secret_world \<Rightarrow> (string, unit) result \<times> secret_world" where
  "wait_for_postgres to_file attempts w =
     (case reach_postgres to_file w of
        (Inr _, w1) \<Rightarrow> (Inr (), w1)
      | (Inl e, w1) \<Rightarrow>
          (case attempts of
             0 \<Rightarrow> (Inl (''postgres unreachable: '' @ e), w1)
           | Suc k \<Rightarrow> wait_for_postgres to_file k w1))"

text \<open>A start whose password is in the file: the configuration is read, then the cluster waited for.\<close>

definition gateway_start :: "secret_world \<Rightarrow> (string, unit) result \<times> secret_world" where
  "gateway_start w =
     (case secret_var None True w of
        (Inl e, w1) \<Rightarrow> (Inl e, w1)
      | (Inr (password, to_file), w1) \<Rightarrow> wait_for_postgres to_file 60 (w1\<lparr> sw_creds := the password \<rparr>))"

section \<open>Properties\<close>

text \<open>The password the cluster takes is in the file, or it is staged and the gateway is not using it.\<close>

definition recoverable :: "secret_world \<Rightarrow> bool" where
  "recoverable w \<longleftrightarrow> sw_file w = sw_role w \<or> sw_staged w = Some (sw_role w) \<and> sw_creds w \<noteq> sw_role w"

definition moves :: "secret_world \<Rightarrow> bool" where
  "moves w \<longleftrightarrow> (\<forall>e. Unmoved e \<notin> set (sw_promotes w))"

text \<open>Once more what failed works.\<close>

definition calm :: "secret_world \<Rightarrow> secret_world" where
  "calm w = w\<lparr> sw_reaches := [], sw_answers := [], sw_stages := [], sw_alters := [], sw_promotes := [], sw_reads := [], sw_drops := [] \<rparr>"

lemma connect_raw_does:
  "sw_file (snd (connect_raw w)) = sw_file w" "sw_staged (snd (connect_raw w)) = sw_staged w"
  "sw_creds (snd (connect_raw w)) = sw_creds w" "sw_role (snd (connect_raw w)) = sw_role w"
  "sw_promotes (snd (connect_raw w)) = sw_promotes w"
  "fst (connect_raw w) = Inr u \<Longrightarrow> sw_creds w = sw_role w"
  by (auto simp: connect_raw_def reach_def split: list.splits option.splits if_splits)

lemma sw_scripts:
  "recoverable (snd (dropped w)) = recoverable w" "recoverable (snd (sw_ask w)) = recoverable w"
  "recoverable (snd (random_hex w)) = recoverable w"
  "sw_creds (snd (dropped w)) = sw_creds w" "sw_role (snd (dropped w)) = sw_role w" "sw_staged (snd (dropped w)) = sw_staged w"
  "sw_file (snd (dropped w)) = sw_file w" "sw_file (snd (sw_ask w)) = sw_file w" "sw_file (snd (random_hex w)) = sw_file w"
  "sw_creds (snd (sw_ask w)) = sw_creds w" "sw_role (snd (sw_ask w)) = sw_role w"
  "sw_creds (snd (random_hex w)) = sw_creds w" "sw_role (snd (random_hex w)) = sw_role w"
  "sw_promotes (snd (dropped w)) = sw_promotes w" "sw_promotes (snd (sw_ask w)) = sw_promotes w"
  "sw_promotes (snd (random_hex w)) = sw_promotes w"
  by (simp_all add: dropped_def sw_ask_def random_hex_def recoverable_def split: list.split)

lemma stage_does:
  "sw_file (snd (stage p w)) = sw_file w" "sw_creds (snd (stage p w)) = sw_creds w" "sw_role (snd (stage p w)) = sw_role w"
  "sw_promotes (snd (stage p w)) = sw_promotes w" "fst (stage p w) = Inr u \<Longrightarrow> sw_staged (snd (stage p w)) = Some p"
  by (auto simp: stage_def split: list.splits option.splits)

lemma promote_does:
  assumes "moves w" "sw_staged w = Some (sw_role w)"
  shows "sw_file (snd (promote w)) = sw_role w \<and> sw_role (snd (promote w)) = sw_role w \<and> moves (snd (promote w))"
  using assms by (cases "sw_promotes w"; cases "hd (sw_promotes w)") (auto simp: promote_def moves_def Let_def)

lemma alter_role_recoverable:
  assumes "moves w" "sw_file w = sw_role w" "sw_creds w = sw_role w" "sw_staged w = Some password"
  shows "recoverable (snd (alter_role True password w)) \<and> moves (snd (alter_role True password w))"
proof -
  define took where "took = w\<lparr> sw_alters := tl (sw_alters w), sw_role := password \<rparr>"
  obtain b w1 where d: "dropped took = (b, w1)"
    by fastforce
  then have w1: "sw_creds w1 = sw_creds w" "sw_role w1 = password" "sw_staged w1 = Some password" "sw_file w1 = sw_file w"
      "sw_promotes w1 = sw_promotes w"
    using sw_scripts(4-7,14) [of took] assms by (simp_all add: took_def)
  have lost: "recoverable took" "moves took" "recoverable w1" "moves w1"
    using assms w1 by (auto simp: recoverable_def moves_def took_def)
  have saved: "recoverable (snd (promote (w1\<lparr> sw_creds := password \<rparr>))) \<and> moves (snd (promote (w1\<lparr> sw_creds := password \<rparr>)))"
    using promote_does [of "w1\<lparr> sw_creds := password \<rparr>"] w1 assms(1) by (simp add: moves_def recoverable_def)
  have failed: "recoverable (w\<lparr> sw_alters := rest \<rparr>) \<and> moves (w\<lparr> sw_alters := rest \<rparr>)" for rest
    using assms by (simp add: recoverable_def moves_def)
  show ?thesis
    using lost saved failed d by (auto simp: alter_role_def took_def [symmetric] Let_def case_prod_beta split: list.split alter.split bool.split)
qed

lemma rotate_recoverable:
  assumes "recoverable w" "moves w"
  shows "recoverable (snd (rotate_pg_password True w)) \<and> moves (snd (rotate_pg_password True w))"
proof -
  obtain b w1 where d: "dropped w = (b, w1)"
    by fastforce
  have w1: "recoverable w1" "moves w1"
    using sw_scripts(1,14) [of w] d assms by (simp_all add: moves_def)
  obtain r w2 where c: "connect_raw w1 = (r, w2)"
    by fastforce
  have w2: "recoverable w2" "moves w2" "r = Inr u \<Longrightarrow> sw_creds w2 = sw_role w2 \<and> sw_file w2 = sw_role w2" for u
    using connect_raw_does [of w1] c w1 by (auto simp: recoverable_def moves_def)
  obtain a w3 where s: "sw_ask w2 = (a, w3)"
    by fastforce
  obtain p w4 where n: "random_hex w3 = (p, w4)"
    by fastforce
  have w4: "moves w3" "recoverable w3" "moves w4" "r = Inr u \<Longrightarrow> sw_creds w4 = sw_role w4 \<and> sw_file w4 = sw_role w4" for u
    using w2 sw_scripts [of w2] sw_scripts [of w3] s n by (auto simp: moves_def recoverable_def)
  obtain q w5 where g: "stage p w4 = (q, w5)"
    by fastforce
  have w5: "moves w5" "r = Inr u \<Longrightarrow> sw_creds w5 = sw_role w5 \<and> sw_file w5 = sw_role w5" "q = Inr u \<Longrightarrow> sw_staged w5 = Some p" for u
    using w4 stage_does [of p w4] g by (auto simp: moves_def)
  obtain b' w6 where d': "dropped w5 = (b', w6)"
    by fastforce
  have w6: "moves w6" "r = Inr u \<Longrightarrow> sw_creds w6 = sw_role w6 \<and> sw_file w6 = sw_role w6" "q = Inr u \<Longrightarrow> sw_staged w6 = Some p" for u
    using w5 sw_scripts [of w5] d' by (auto simp: moves_def)
  have "recoverable v" if "sw_file v = sw_role v" for v
    using that by (simp add: recoverable_def)
  then show ?thesis
    using w1 w2 w4 w5 w6 d c s n g d' alter_role_recoverable [of w6 p]
    by (auto simp: rotate_pg_password_def Let_def split: sum.split option.split bool.split)
qed

text \<open>A start from a recoverable state, with what failed working again.\<close>

lemma calm_start:
  assumes "sw_file w = sw_role w \<or> sw_staged w = Some (sw_role w)"
  shows "fst (gateway_start (calm w)) = Inr () \<and>
    (let v = snd (gateway_start (calm w)) in sw_role v = sw_role w \<and> sw_creds v = sw_role w \<and> sw_file v = sw_role w \<and> sw_staged v = None)"
  using assms
  by (cases "sw_file w = sw_role w"; cases "sw_staged w")
    (auto simp: gateway_start_def secret_var_def from_file_def calm_def reach_postgres_def reach_def connect_raw_def set_pg_password_def
      promote_def discard_def sw_ask_def Let_def)


definition ex_secret :: secret_world where
  "ex_secret =
     \<lparr> sw_file = ''p0'', sw_staged = None, sw_creds = ''p0'', sw_role = ''p0'', sw_reaches = [], sw_answers = [], sw_stages = [],
       sw_alters = [], sw_promotes = [], sw_reads = [], sw_drops = [False, False, True], sw_new = [''p1'', ''p2''] \<rparr>"


text \<open>At a start that finds the staged password to be the one that works, a promotion that fails is tried again,
  now with that password in use: the connection succeeds, which is taken to mean that what is staged was never
  set, and the only copy on disk is discarded. The gateway starts, and does not start again.\<close>

theorem retried_promotion_discards_the_password:
  fixes e :: string and w :: secret_world
  assumes "sw_file w \<noteq> sw_role w" "sw_staged w = Some (sw_role w)"
  defines "v \<equiv> (calm w)\<lparr> sw_promotes := [Unmoved e] \<rparr>"
  shows "fst (gateway_start v) = Inr () \<and> sw_staged (snd (gateway_start v)) = None \<and>
    sw_file (snd (gateway_start v)) \<noteq> sw_role (snd (gateway_start v)) \<and> fst (gateway_start (calm (snd (gateway_start v)))) \<noteq> Inr ()"
proof -
  have waits: "fst (wait_for_postgres True k x) \<noteq> Inr ()"
    if "sw_staged x = None" "sw_creds x \<noteq> sw_role x" "sw_reaches x = []" for k x
    using that by (induction k) (simp_all add: reach_postgres_def connect_raw_def reach_def)
  have v: "gateway_start v = (Inr (), (calm w)\<lparr> sw_creds := sw_role w, sw_staged := None \<rparr>)"
    using assms(1,2)
    by (simp add: v_def gateway_start_def secret_var_def from_file_def calm_def reach_postgres_def reach_def connect_raw_def
        set_pg_password_def promote_def discard_def sw_ask_def Let_def numeral_eq_Suc)
  show ?thesis
    using assms(1) waits unfolding v by (simp add: calm_def gateway_start_def secret_var_def from_file_def)
qed

theorem retried_promotion_discards_the_password_witness:
  "fst (gateway_start (ex_secret\<lparr> sw_role := ''p1'', sw_staged := Some ''p1'', sw_promotes := [Unmoved ''EIO''], sw_drops := [] \<rparr>)) = Inr () \<and>
   sw_staged (snd (gateway_start (ex_secret\<lparr> sw_role := ''p1'', sw_staged := Some ''p1'', sw_promotes := [Unmoved ''EIO''], sw_drops := [] \<rparr>))) = None"
  using retried_promotion_discards_the_password [of "ex_secret\<lparr> sw_role := ''p1'', sw_staged := Some ''p1'' \<rparr>" "''EIO''"]
  by (simp add: ex_secret_def calm_def)

text \<open>A rotation after one whose promotion failed stages its password over the one in use: cut short before its
  \<^verbatim>\<open>ALTER ROLE\<close>, it leaves none on disk that works.\<close>

lemma rotation_overwrites_the_staged_password:
  "let w = ex_secret\<lparr> sw_role := ''p1'', sw_creds := ''p1'', sw_staged := Some ''p1'', sw_drops := [False, True], sw_new := [''p2''] \<rparr>;
       v = snd (rotate_pg_password True w)
   in sw_role v = ''p1'' \<and> sw_staged v = Some ''p2'' \<and> sw_file v = ''p0''"
  by (simp add: ex_secret_def rotate_pg_password_def dropped_def connect_raw_def reach_def sw_ask_def random_hex_def stage_def Let_def)

text \<open>A rotation whose client hangs up once its \<^verbatim>\<open>ALTER ROLE\<close> took leaves the running gateway with the old password:
  no connection is opened until a restart.\<close>

lemma dropped_rotation_locks_the_gateway_out:
  "fst (connect_raw (snd (rotate_pg_password True ex_secret))) \<noteq> Inr ()"
  by (simp add: ex_secret_def rotate_pg_password_def dropped_def connect_raw_def reach_def sw_ask_def random_hex_def stage_def
      alter_role_def Let_def)

end
