(* ===== verification/Gateway_Import.thy ===== *)
theory Gateway_Import
  imports Gateway_Buffer "HOL-Library.Sublist"
begin

text \<open>
  A capture uploaded over HTTP: the body of \<^verbatim>\<open>import_capture\<close> in \<^verbatim>\<open>crates/wiretap-backend/src/http/mod.rs\<close>, with
  \<^verbatim>\<open>import_rows\<close>. The format's parser is \<^verbatim>\<open>wslib_wiretap_protocol::import\<close>, a parameter: \<open>import_laws\<close> states what its
  documentation says of a record, cut anywhere or followed by anything.
\<close>

section \<open>Rows\<close>

record ImportRecord =
  ir_ts_us :: int
  ir_id_flags :: u32
  ir_flags :: u8
  ir_bus :: u8
  ir_payload :: "u8 list"

text \<open>\<open>il_CAN\<close> is the number of \<^verbatim>\<open>RecordKind::Can\<close>.\<close>

record import_lib =
  il_header :: "u8 list \<Rightarrow> (string, nat option) result"
  il_record :: "u8 list \<Rightarrow> (string, (ImportRecord \<times> nat) option) result"
  il_CAN :: u8
  il_BODY_HEADER :: nat

definition IMPORT_CHUNK_ROWS :: nat where "IMPORT_CHUNK_ROWS = 8192"

definition import_row :: "('f, 'k) gatelib \<Rightarrow> import_lib \<Rightarrow> ImportRecord \<Rightarrow> FrameRow option" where
  "import_row G L r = FrameRow_new G (ir_ts_us r) (il_CAN L) (ir_id_flags r) (ir_flags r) (ir_bus r) (ir_payload r)"

text \<open>The rows a buffer holds and how much of it they took. \<open>None\<close> where the loop does not end, or a row is not a
  CAN frame's, which panics.\<close>

partial_function (option) import_rows :: "('f, 'k) gatelib \<Rightarrow> import_lib \<Rightarrow> u8 list \<Rightarrow> FrameRow list \<Rightarrow> nat
    \<Rightarrow> ((string, FrameRow list \<times> nat) result) option" where
  "import_rows G L buf frs read =
     (case il_record L (drop read buf) of
        Inl e \<Rightarrow> Some (Inl e)
      | Inr None \<Rightarrow> Some (Inr (frs, read))
      | Inr (Some (r, consumed)) \<Rightarrow>
          (case import_row G L r of None \<Rightarrow> None | Some fr \<Rightarrow> import_rows G L buf (frs @ [fr]) (read + consumed)))"

declare import_rows.simps [code]

section \<open>The body\<close>

text \<open>Whether each COPY failed, and the batches that were stored.\<close>

record import_world =
  iw_copies :: "CopyError option list"
  iw_stored :: "FrameRow list list"

datatype upload_error = Import_bad string | Import_database string

definition import_copy :: "FrameRow list \<Rightarrow> import_world \<Rightarrow> upload_error option \<times> import_world" where
  "import_copy frs w =
     (case iw_copies w of
        Some e # rest \<Rightarrow>
          (Some (if refused_the_rows (ce_code e) then Import_bad (ce_message e) else Import_database (ce_message e)), w\<lparr> iw_copies := rest \<rparr>)
      | _ \<Rightarrow> (None, w\<lparr> iw_copies := tl (iw_copies w), iw_stored := iw_stored w @ [frs] \<rparr>))"

fun import_header :: "import_lib \<Rightarrow> u8 list \<Rightarrow> (string, u8 list) result list \<Rightarrow> (string, u8 list \<times> (string, u8 list) result list) result" where
  "import_header L pending chunks =
     (case il_header L pending of
        Inl e \<Rightarrow> Inl e
      | Inr (Some n) \<Rightarrow> Inr (drop n pending, chunks)
      | Inr None \<Rightarrow>
          (case chunks of
             [] \<Rightarrow> Inl (''import body ends before its '' @ dec_digits (il_BODY_HEADER L) @ ''-byte header'')
           | Inl e # _ \<Rightarrow> Inl (''body read failed: '' @ e)
           | Inr bytes # rest \<Rightarrow> import_header L (pending @ bytes) rest))"

text \<open>The loop: \<open>None\<close> where \<^verbatim>\<open>import_rows\<close> does not return.\<close>

fun import_body :: "('f, 'k) gatelib \<Rightarrow> import_lib \<Rightarrow> u8 list \<Rightarrow> (string, u8 list) result list \<Rightarrow> FrameRow list \<Rightarrow> nat \<Rightarrow> import_world
    \<Rightarrow> ((upload_error, nat) result \<times> import_world) option" where
  "import_body G L pending chunks frs imported w =
     (case import_rows G L pending frs 0 of
        None \<Rightarrow> None
      | Some (Inl e) \<Rightarrow> Some (Inl (Import_bad e), w)
      | Some (Inr (frs, read)) \<Rightarrow>
          (let pending = drop read pending in
           case chunks of
             Inl e # _ \<Rightarrow> Some (Inl (Import_bad (''body read failed: '' @ e)), w)
           | [] \<Rightarrow>
               (let (e, w1) = (if frs \<noteq> [] then import_copy frs w else (None, w)) in
                case e of
                  Some e \<Rightarrow> Some (Inl e, w1)
                | None \<Rightarrow>
                    if pending \<noteq> []
                    then Some (Inl (Import_bad (''truncated record: '' @ dec_digits (length pending) @ '' trailing bytes'')), w1)
                    else Some (Inr (imported + length frs), w1))
           | Inr bytes # rest \<Rightarrow>
               if IMPORT_CHUNK_ROWS \<le> length frs
               then (case import_copy frs w of
                       (Some e, w1) \<Rightarrow> Some (Inl e, w1)
                     | (None, w1) \<Rightarrow> import_body G L (pending @ bytes) rest [] (imported + length frs) w1)
               else import_body G L (pending @ bytes) rest frs imported w))"

declare import_header.simps [simp del] import_body.simps [simp del]

section \<open>Every record, however the body is cut\<close>

text \<open>\<open>R\<close> are the records the format can carry, \<open>enc\<close> how.\<close>

definition import_laws :: "import_lib \<Rightarrow> (ImportRecord \<Rightarrow> u8 list) \<Rightarrow> ImportRecord set \<Rightarrow> bool" where
  "import_laws L enc R \<longleftrightarrow>
     (\<forall>r \<in> R. enc r \<noteq> [] \<and> (\<forall>x. il_record L (enc r @ x) = Inr (Some (r, length (enc r)))) \<and>
        (\<forall>p. strict_prefix p (enc r) \<longrightarrow> il_record L p = Inr None))"

definition cut_record :: "(ImportRecord \<Rightarrow> u8 list) \<Rightarrow> ImportRecord set \<Rightarrow> u8 list \<Rightarrow> bool" where
  "cut_record enc R p \<longleftrightarrow> (\<exists>r \<in> R. strict_prefix p (enc r))"

abbreviation encoded :: "(ImportRecord \<Rightarrow> u8 list) \<Rightarrow> ImportRecord list \<Rightarrow> u8 list" where
  "encoded enc rs \<equiv> concat (map enc rs)"

lemma cut_none: "import_laws L enc R \<Longrightarrow> cut_record enc R p \<Longrightarrow> il_record L p = Inr None"
  by (auto simp: import_laws_def cut_record_def)

text \<open>A prefix of the body is some records and a piece of the next.\<close>

lemma body_prefix:
  assumes "prefix u (encoded enc rs @ p)" "cut_record enc R p" "set rs \<subseteq> R"
  shows "\<exists>rs1 rs2 q. rs = rs1 @ rs2 \<and> u = encoded enc rs1 @ q \<and> cut_record enc R q"
  using assms(1,3)
proof (induction rs arbitrary: u)
  case Nil
  then show ?case
    using assms(2) by (auto simp: cut_record_def intro: prefix_order.le_less_trans)
next
  case (Cons r rs)
  show ?case
  proof (cases "prefix (enc r) u")
    case True
    then obtain v where v: "u = enc r @ v"
      by (elim prefixE)
    have "set rs \<subseteq> R" "prefix v (encoded enc rs @ p)"
      using Cons.prems v by auto
    from Cons.IH [OF this(2,1)] obtain rs1 rs2 q where "rs = rs1 @ rs2" "v = encoded enc rs1 @ q" "cut_record enc R q"
      by blast
    with v have "r # rs = (r # rs1) @ rs2 \<and> u = encoded enc (r # rs1) @ q \<and> cut_record enc R q"
      by simp
    then show ?thesis
      by blast
  next
    case False
    have "prefix u (enc r @ encoded enc rs @ p)"
      using Cons.prems by simp
    then have "strict_prefix u (enc r)"
      using False by (auto simp: prefix_append strict_prefix_def)
    then show ?thesis
      using Cons.prems(2) by (intro exI [of _ "[]"] exI [of _ "r # rs"] exI [of _ u]) (auto simp: cut_record_def)
  qed
qed

lemma import_rows_reads:
  assumes "import_laws L enc R" "cut_record enc R q" "set rs \<subseteq> R" "those (map (import_row G L) rs) = Some frs"
  shows "import_rows G L (u @ encoded enc rs @ q) acc (length u) = Some (Inr (acc @ frs, length u + length (encoded enc rs)))"
  using assms(3,4)
proof (induction rs arbitrary: u acc frs)
  case Nil
  then show ?case
    using cut_none [OF assms(1,2)] by (simp add: import_rows.simps)
next
  case (Cons r rs)
  then obtain fr frs' where f: "import_row G L r = Some fr" "those (map (import_row G L) rs) = Some frs'" "frs = fr # frs'"
    by (auto split: option.splits)
  have "il_record L (enc r @ encoded enc rs @ q) = Inr (Some (r, length (enc r)))" "set rs \<subseteq> R"
    using assms(1) Cons.prems(1) by (simp_all add: import_laws_def)
  then show ?case
    using Cons.IH [OF _ f(2), of "u @ enc r" "acc @ [fr]"] f by (subst import_rows.simps) (simp add: add.assoc)
qed

lemma import_copy_ok: "iw_copies w = [] \<Longrightarrow> import_copy frs w = (None, w\<lparr> iw_stored := iw_stored w @ [frs] \<rparr>)"
  by (simp add: import_copy_def)

lemma those_append: "those (xs @ ys) = Some zs \<Longrightarrow> \<exists>us vs. those xs = Some us \<and> those ys = Some vs \<and> zs = us @ vs"
proof (induction xs arbitrary: zs)
  case (Cons x xs)
  then obtain z zs' where "x = Some z" "those (xs @ ys) = Some zs'" "zs = z # zs'"
    by (auto split: option.splits)
  then show ?case
    using Cons.IH [of zs'] by force
qed simp

lemma import_body_reads:
  assumes "import_laws L enc R"
  shows "pending @ concat bodies = encoded enc rs @ p \<Longrightarrow> cut_record enc R p \<Longrightarrow> set rs \<subseteq> R \<Longrightarrow>
    those (map (import_row G L) rs) = Some frs \<Longrightarrow> iw_copies w = [] \<Longrightarrow>
    \<exists>w'. import_body G L pending (map Inr bodies) acc k w =
        Some (if p = [] then Inr (k + length acc + length frs)
              else Inl (Import_bad (''truncated record: '' @ dec_digits (length p) @ '' trailing bytes'')), w') \<and>
      concat (iw_stored w') = concat (iw_stored w) @ acc @ frs"
proof (induction bodies arbitrary: pending rs frs acc k w)
  case Nil
  then show ?case
    using import_rows_reads [OF assms Nil(2-4), of "[]" acc] import_copy_ok [OF Nil(5), of "acc @ frs"]
    by (subst import_body.simps) auto
next
  case (Cons b bodies)
  have "prefix pending (encoded enc rs @ p)"
    using Cons.prems(1) by (metis prefixI)
  then obtain rs1 rs2 q where s: "rs = rs1 @ rs2" "pending = encoded enc rs1 @ q" "cut_record enc R q"
    using body_prefix Cons.prems(2,3) by blast
  then obtain us vs where f: "those (map (import_row G L) rs1) = Some us" "those (map (import_row G L) rs2) = Some vs" "frs = us @ vs"
    using those_append Cons.prems(4) by (metis map_append)
  have R: "set rs1 \<subseteq> R" "set rs2 \<subseteq> R"
    using Cons.prems(3) s(1) by auto
  have rows: "import_rows G L pending acc 0 = Some (Inr (acc @ us, length (encoded enc rs1)))"
    using import_rows_reads [OF assms s(3) R(1) f(1), of "[]" acc] s(2) by simp
  have rest: "(q @ b) @ concat bodies = encoded enc rs2 @ p"
    using Cons.prems(1) s by simp
  define w1 where "w1 = w\<lparr> iw_stored := iw_stored w @ [acc @ us] \<rparr>"
  have w1: "iw_copies w1 = []" "import_copy (acc @ us) w = (None, w1)"
    using import_copy_ok [OF Cons.prems(5)] Cons.prems(5) by (simp_all add: w1_def)
  show ?case
    using Cons.IH [OF rest Cons.prems(2) R(2) f(2) w1(1), of "[]" "k + length (acc @ us)"]
      Cons.IH [OF rest Cons.prems(2) R(2) f(2) Cons.prems(5), of "acc @ us" k] rows s(2) w1 f(3)
    by (subst import_body.simps) (auto simp: w1_def ac_simps)
qed

text \<open>C18: an upload is stored record by record, in order and each once, however its body is cut into pieces; one whose
  last record is cut short is refused, with the records before it stored.\<close>

theorem import_stores_every_record:
  assumes "import_laws L enc R" "set rs \<subseteq> R" "concat bodies = encoded enc rs @ p" "cut_record enc R p"
    and "those (map (import_row G L) rs) = Some frs" "iw_copies w = []"
  shows "\<exists>w'. import_body G L [] (map Inr bodies) [] 0 w =
        Some (if p = [] then Inr (length frs)
              else Inl (Import_bad (''truncated record: '' @ dec_digits (length p) @ '' trailing bytes'')), w') \<and>
      concat (iw_stored w') = concat (iw_stored w) @ frs"
proof -
  have "[] @ concat bodies = encoded enc rs @ p"
    using assms(3) by simp
  from import_body_reads [OF assms(1) this assms(4,2,5,6), of "[]" 0] show ?thesis
    by (cases "p = []") simp_all
qed

text \<open>A format of one record, of two bytes.\<close>

definition ex_import_record :: ImportRecord where
  "ex_import_record = \<lparr> ir_ts_us = 5, ir_id_flags = 291, ir_flags = 0, ir_bus = 1, ir_payload = [170] \<rparr>"

definition ex_import_lib :: import_lib where
  "ex_import_lib =
     \<lparr> il_header = (\<lambda>_. Inr (Some 0)),
       il_record = (\<lambda>b. case b of x # y # _ \<Rightarrow> if x = 7 \<and> y = 9 then Inr (Some (ex_import_record, 2)) else Inl ''corrupt'' | _ \<Rightarrow> Inr None),
       il_CAN = 0, il_BODY_HEADER = 0 \<rparr>"

lemma ex_import_laws: "import_laws ex_import_lib (\<lambda>_. [7, 9]) {ex_import_record}"
  by (auto simp: import_laws_def ex_import_lib_def strict_prefix_def prefix_def Cons_eq_append_conv split: list.splits)

lemma ex_import_row: "\<exists>fr. import_row ref_gatelib ex_import_lib ex_import_record = Some fr"
  by (simp add: import_row_def FrameRow_new_def ref_gatelib_def ref_lib_def ex_import_lib_def ex_import_record_def Let_def)

theorem import_stores_every_record_witness:
  "\<exists>w' fr. import_body ref_gatelib ex_import_lib [] (map Inr [[7], [9, 7, 9], [7]]) [] 0 \<lparr> iw_copies = [], iw_stored = [] \<rparr> =
     Some (Inl (Import_bad (''truncated record: '' @ dec_digits 1 @ '' trailing bytes'')), w') \<and> concat (iw_stored w') = [fr, fr]"
proof -
  obtain fr where fr: "import_row ref_gatelib ex_import_lib ex_import_record = Some fr"
    using ex_import_row by blast
  have "cut_record (\<lambda>_. [7, 9]) {ex_import_record} [7]"
    by (simp add: cut_record_def strict_prefix_def)
  then show ?thesis
    using import_stores_every_record [OF ex_import_laws, of "[ex_import_record, ex_import_record]" "[[7], [9, 7, 9], [7]]" "[7]"
        ref_gatelib "[fr, fr]" "\<lparr> iw_copies = [], iw_stored = [] \<rparr>"] fr by auto
qed

end
