(* ===== verification/Gateway_Http.thy ===== *)
theory Gateway_Http
  imports Gateway_Databases Gateway_Keys Gateway_Catalogs Gateway_Secrets Gateway_Import
begin

text \<open>
  The gateway's HTTP API: who a caller is and what each route lets them do,
  \<^verbatim>\<open>crates/wiretap-backend/src/http/mod.rs\<close> and \<^verbatim>\<open>http/console.rs\<close>, with the links of \<^verbatim>\<open>archive.rs\<close> and the queries
  of \<^verbatim>\<open>running.rs\<close>.

  A request is a constructor of \<open>request\<close>, its path and body already extracted; routing and JSON are libraries.
  What a query of a capture database returns is not modelled: a script says whether it succeeded. \<open>st_touched\<close>
  is history: the databases a handler was given a connection to.
\<close>

section \<open>Callers\<close>

datatype ConsoleRole = Console_Admin | Console_HostAdmin | Console_Viewer | Console_Operator

text \<open>\<open>ci_reauthenticated\<close> is the answer of \<^verbatim>\<open>reauthenticated_within\<close>, a library's, at the time of the request.\<close>

record ConsoleIdentity =
  ci_username :: string
  ci_role :: ConsoleRole
  ci_reauthenticated :: bool

record Caller = KeyInfo +
  cl_console :: "ConsoleIdentity option"

definition gateway_role :: "ConsoleRole \<Rightarrow> Role" where
  "gateway_role r =
     (case r of
        Console_Admin \<Rightarrow> Role_Admin
      | Console_HostAdmin \<Rightarrow> Role_Admin
      | Console_Viewer \<Rightarrow> Role_Read
      | Console_Operator \<Rightarrow> Role_Read)"

datatype ApiError = ApiError nat string

definition api_bad :: "string \<Rightarrow> ApiError" where "api_bad m = ApiError 400 m"

definition forbidden :: "string \<Rightarrow> ApiError" where "forbidden m = ApiError 403 m"

definition not_found :: "string \<Rightarrow> ApiError" where "not_found m = ApiError 404 m"

definition unavailable :: "string \<Rightarrow> ApiError" where "unavailable m = ApiError 503 m"

definition unauthorised :: "string \<Rightarrow> ApiError" where "unauthorised m = ApiError 401 m"

text \<open>The headers that count: the bearer token, when the header is visible ASCII and has the prefix, and the
  identities asserted, each parsed or why it does not parse.\<close>

record headers =
  hd_authorization :: "string option"
  hd_identity :: "(string, ConsoleIdentity) result list"

text \<open>Where a request comes from: the TCP listener, or the app socket, by the console's uid or not.\<close>

datatype origin = On_tcp | On_app_socket bool

definition bearer :: "string option \<Rightarrow> string option" where
  "bearer h = (case h of None \<Rightarrow> None | Some v \<Rightarrow> if take 7 v = ''Bearer '' then Some (drop 7 v) else None)"

definition asserted :: "headers \<Rightarrow> (string, ConsoleIdentity option) result" where
  "asserted h =
     (case hd_identity h of
        [] \<Rightarrow> Inr None
      | _ # _ # _ \<Rightarrow> Inl ''the Appliance-Identity header is malformed: sent more than once''
      | [Inl e] \<Rightarrow> Inl e
      | [Inr i] \<Rightarrow> Inr (Some i))"

definition console_caller :: "bool \<Rightarrow> headers \<Rightarrow> (ApiError, Caller) result" where
  "console_caller from_console h =
     (if \<not> from_console then Inl (unauthorised ''only the console may call this on the app socket'')
      else case asserted h of
             Inl e \<Rightarrow> Inl (api_bad e)
           | Inr None \<Rightarrow> Inl (unauthorised ''missing Appliance-Identity'')
           | Inr (Some i) \<Rightarrow>
               Inr \<lparr> ki_id = 0, ki_name = ''console:'' @ ci_username i, ki_role = gateway_role (ci_role i), ki_pin = None,
                     cl_console = Some i \<rparr>)"

definition by_key :: "KeyInfo \<Rightarrow> Caller" where
  "by_key k = \<lparr> ki_id = ki_id k, ki_name = ki_name k, ki_role = ki_role k, ki_pin = ki_pin k, cl_console = None \<rparr>"

text \<open>What the guard on wrong keys says is a library's.\<close>

definition key_caller :: "(string \<Rightarrow> string) \<Rightarrow> headers \<Rightarrow> kworld \<Rightarrow> (ApiError, Caller) result \<times> kworld" where
  "key_caller H h k =
     (case bearer (hd_authorization h) of
        None \<Rightarrow> (Inl (unauthorised ''missing bearer token''), k)
      | Some key \<Rightarrow>
          (case validate_from H key k of
             (Inl _, k1) \<Rightarrow> (Inl (ApiError 429 []), k1)
           | (Inr None, k1) \<Rightarrow> (Inl (unauthorised ''invalid API key''), k1)
           | (Inr (Some info), k1) \<Rightarrow> (Inr (by_key info), k1)))"

section \<open>Checks\<close>

definition check_pin :: "Caller \<Rightarrow> string \<Rightarrow> (ApiError, unit) result" where
  "check_pin c db =
     (case ki_pin c of
        Some pin \<Rightarrow> if pin \<noteq> db then Inl (forbidden ''key is pinned to another database'') else Inr ()
      | None \<Rightarrow> Inr ())"

definition check_read :: "Caller \<Rightarrow> string \<Rightarrow> (ApiError, unit) result" where
  "check_read c db = (if \<not> allows_read (ki_role c) then Inl (forbidden ''key role does not allow reads'') else check_pin c db)"

definition check_admin :: "Caller \<Rightarrow> (ApiError, unit) result" where
  "check_admin c = (if \<not> allows_admin (ki_role c) then Inl (forbidden ''admin role required'') else Inr ())"

text \<open>\<open>minutes\<close> are those of \<^verbatim>\<open>REAUTHENTICATION_WINDOW\<close>.\<close>

definition check_admin_reauthenticated :: "nat \<Rightarrow> Caller \<Rightarrow> (ApiError, unit) result" where
  "check_admin_reauthenticated minutes c =
     (case check_admin c of
        Inl e \<Rightarrow> Inl e
      | Inr _ \<Rightarrow>
          (case cl_console c of
             Some user \<Rightarrow>
               if \<not> ci_reauthenticated user then Inl (forbidden (''this needs the password confirmed in the last '' @ dec_digits minutes @ '' minutes''))
               else Inr ()
           | None \<Rightarrow> Inr ()))"

section \<open>State\<close>

type_synonym window = "(int \<times> int) option"

record Link =
  lk_database :: string
  lk_window :: window
  lk_issued :: nat

definition LINK_LIFE :: nat where "LINK_LIFE = 60000"

record AppState =
  st_dbs :: Databases
  st_keys :: kworld
  st_cats :: catalogs
  st_secret :: secret_world
  st_files :: "bool \<times> bool"
  st_links :: "string \<Rightarrow> Link option"
  st_tokens :: "string list"
  st_running :: "string \<Rightarrow> nat option"
  st_cancelled :: "nat list"
  st_sql :: "(bool \<times> string, bool) result list"
  st_clock :: "nat list"
  st_next :: nat
  st_spawned :: "string list"
  st_import :: import_world
  st_logs :: "(nat \<times> string) list"
  st_touched :: "string list"

text \<open>What a handler answers: its status, or a key or a secret in full, a link, the databases, what was imported,
  the log. The rows of the capture databases are not followed.\<close>

record DatabaseRow =
  dr_name :: string
  dr_size :: nat
  dr_state :: string
  dr_version :: "int option"
  dr_error :: "string option"
  dr_buffered :: "nat option"
  dr_importing :: bool
  dr_asked :: bool

datatype reply =
    Reply nat
  | Reply_key int string
  | Reply_secret string bool
  | Reply_url string
  | Reply_databases "DatabaseRow list"
  | Reply_imported nat
  | Reply_logs "(nat \<times> string) list"
  | Reply_health bool string
  | Reply_who bool string Role
  | Reply_gone

type_synonym outcome = "(ApiError, reply) result \<times> AppState"

text \<open>The configuration and the libraries: \<open>ax_level\<close> is where a name stands on the ladder of the log's levels.\<close>

record ('o, 'f, 'k) api_world =
  ax_config :: GatewayConfig
  ax_hash :: "string \<Rightarrow> string"
  ax_catlib :: "'o gatecatlib"
  ax_minutes :: nat
  ax_gatelib :: "('f, 'k) gatelib"
  ax_import :: import_lib
  ax_level :: "string \<Rightarrow> nat option"

definition if_allowed :: "(ApiError, unit) result \<Rightarrow> (AppState \<Rightarrow> outcome) \<Rightarrow> AppState \<Rightarrow> outcome" where
  "if_allowed g k s = (case g of Inl e \<Rightarrow> (Inl e, s) | Inr _ \<Rightarrow> k s)"

definition st_time :: "AppState \<Rightarrow> nat \<times> AppState" where
  "st_time s = (case st_clock s of [] \<Rightarrow> (0, s) | t # rest \<Rightarrow> (t, s\<lparr> st_clock := rest \<rparr>))"

definition on_dbs :: "(Databases \<Rightarrow> 'a \<times> Databases) \<Rightarrow> AppState \<Rightarrow> 'a \<times> AppState" where
  "on_dbs f s = (case f (st_dbs s) of (r, d) \<Rightarrow> (r, s\<lparr> st_dbs := d \<rparr>))"

definition on_keys :: "(kworld \<Rightarrow> 'a \<times> kworld) \<Rightarrow> AppState \<Rightarrow> 'a \<times> AppState" where
  "on_keys f s = (case f (st_keys s) of (r, k) \<Rightarrow> (r, s\<lparr> st_keys := k \<rparr>))"

definition on_cats :: "(catalogs \<Rightarrow> 'a \<times> catalogs) \<Rightarrow> AppState \<Rightarrow> 'a \<times> AppState" where
  "on_cats f s = (case f (st_cats s) of (r, c) \<Rightarrow> (r, s\<lparr> st_cats := c \<rparr>))"

text \<open>A query: \<open>Inl\<close> the request's fault or the database's, \<open>Inr\<close> whether it met what it was for.\<close>

definition run_sql :: "AppState \<Rightarrow> (ApiError, bool) result \<times> AppState" where
  "run_sql s =
     (case st_sql s of
        [] \<Rightarrow> (Inl (unavailable ''closed''), s)
      | Inl (True, m) # rest \<Rightarrow> (Inl (api_bad m), s\<lparr> st_sql := rest \<rparr>)
      | Inl (False, m) # rest \<Rightarrow> (Inl (unavailable m), s\<lparr> st_sql := rest \<rparr>)
      | Inr b # rest \<Rightarrow> (Inr b, s\<lparr> st_sql := rest \<rparr>))"

definition db_error_text :: "DbError \<Rightarrow> string" where
  "db_error_text e = (case e of RefusedDb m \<Rightarrow> m | Unavailable m \<Rightarrow> m)"

definition touch :: "string \<Rightarrow> AppState \<Rightarrow> AppState" where
  "touch db s = s\<lparr> st_touched := st_touched s @ [db] \<rparr>"

definition client_for :: "('o, 'f, 'k) api_world \<Rightarrow> string \<Rightarrow> AppState \<Rightarrow> (ApiError, unit) result \<times> AppState" where
  "client_for X db s =
     (case on_dbs (pool (ax_config X) db) s of
        (Inl e, s1) \<Rightarrow> (Inl (not_found (db_error_text e)), s1)
      | (Inr _, s1) \<Rightarrow>
          (case run_sql s1 of
             (Inl (ApiError _ m), s2) \<Rightarrow> (Inl (unavailable (''pool: '' @ m)), s2)
           | (Inr _, s2) \<Rightarrow> (Inr (), touch db s2)))"

text \<open>A connection to \<open>db\<close>, a query, and the answer: \<open>k\<close> of what the query met.\<close>

definition queried :: "('o, 'f, 'k) api_world \<Rightarrow> string \<Rightarrow> (bool \<Rightarrow> (ApiError, reply) result) \<Rightarrow> AppState \<Rightarrow> outcome" where
  "queried X db k s =
     (case client_for X db s of
        (Inl e, s1) \<Rightarrow> (Inl e, s1)
      | (Inr _, s1) \<Rightarrow> (case run_sql s1 of (Inl e, s2) \<Rightarrow> (Inl e, s2) | (Inr b, s2) \<Rightarrow> (k b, s2)))"

section \<open>Databases\<close>

definition schema_consensus :: "DbSchemaState list \<Rightarrow> string" where
  "schema_consensus states =
     (if states = [] then ''unknown''
      else if list_ex (\<lambda>s. case s of Failed _ _ _ \<Rightarrow> True | _ \<Rightarrow> False) states then ''failed''
      else if list_ex (\<lambda>s. case s of Migrating _ \<Rightarrow> True | _ \<Rightarrow> False) states then ''migrating''
      else if list_ex (\<lambda>s. case s of Pending _ \<Rightarrow> True | _ \<Rightarrow> False) states then ''behind''
      else case remdups (sort (List.map_filter state_version states)) of
             [v] \<Rightarrow> CHR ''v'' # show_int v
           | _ \<Rightarrow> ''mixed'')"

definition refresh_rollup :: "Caller \<Rightarrow> string \<Rightarrow> AppState \<Rightarrow> outcome" where
  "refresh_rollup c db =
     if_allowed (check_admin c)
       (\<lambda>s. case db_states (st_dbs s) db of
              Some (Current _) \<Rightarrow> (Inr (Reply 200), s\<lparr> st_spawned := st_spawned s @ [db] \<rparr>)
            | _ \<Rightarrow> (Inl (ApiError 409 (''database '' @ quoted db @ '' is not at the current schema'')), s))"

definition migrate_database :: "('o, 'f, 'k) api_world \<Rightarrow> Caller \<Rightarrow> string \<Rightarrow> AppState \<Rightarrow> outcome" where
  "migrate_database X c db =
     if_allowed (check_admin c)
       (\<lambda>s. case on_dbs (start_migration (ax_config X) db) s of
              (Inl (NotFound m), s1) \<Rightarrow> (Inl (not_found m), s1)
            | (Inl (Conflict m), s1) \<Rightarrow> (Inl (ApiError 409 m), s1)
            | (Inl (MigrateUnavailable m), s1) \<Rightarrow> (Inl (unavailable m), s1)
            | (Inr _, s1) \<Rightarrow> (Inr (Reply 200), s1))"

text \<open>\<^verbatim>\<open>rollup_state\<close> and \<^verbatim>\<open>migration_progress\<close>: an unpooled connection and a query, nothing when either fails.
  \<open>dr_asked\<close> is whether there was an answer; the seconds of the answer are left out.\<close>

definition ask_database :: "string \<Rightarrow> AppState \<Rightarrow> bool \<times> AppState" where
  "ask_database name s =
     (case run_sql s of
        (Inl _, s1) \<Rightarrow> (False, s1)
      | (Inr _, s1) \<Rightarrow> (case run_sql (touch name s1) of (Inl _, s2) \<Rightarrow> (False, s2) | (Inr b, s2) \<Rightarrow> (b, s2)))"

text \<open>\<open>d\<close> is what was read of the databases before the loop, \<open>listed\<close> are those of the cluster with their sizes, or
  none where one was dropped meanwhile.\<close>

fun database_rows :: "('o, 'f, 'k) api_world \<Rightarrow> Caller \<Rightarrow> Databases \<Rightarrow> (string \<times> nat option) list \<Rightarrow> AppState \<Rightarrow> DatabaseRow list \<times> AppState" where
  "database_rows X c d [] s = ([], s)"
| "database_rows X c d ((name, size_bytes) # listed) s =
     (case size_bytes of
        None \<Rightarrow> database_rows X c d listed s
      | Some bytes \<Rightarrow>
          if \<not> gc_valid_name (ax_config X) name \<or> is_gateway_database (ax_config X) name then database_rows X c d listed s
          else if ki_pin c \<noteq> None \<and> ki_pin c \<noteq> Some name then database_rows X c d listed s
          else (let schema = db_states d name;
                    (asked, s1) = (if schema \<noteq> None then ask_database name s else (False, s));
                    (drs, s2) = database_rows X c d listed s1
                in (\<lparr> dr_name = name, dr_size = bytes,
                      dr_state = (case schema of None \<Rightarrow> ''unknown'' | Some st \<Rightarrow> label st),
                      dr_version = Option.bind schema state_version,
                      dr_error = (case schema of Some (Failed _ e _) \<Rightarrow> Some e | _ \<Rightarrow> None),
                      dr_buffered = db_buffered d name, dr_importing = importing name d, dr_asked = asked \<rparr> # drs, s2)))"

definition list_databases :: "('o, 'f, 'k) api_world \<Rightarrow> (string \<times> nat option) list \<Rightarrow> Caller \<Rightarrow> AppState \<Rightarrow> outcome" where
  "list_databases X listed c s =
     (if \<not> allows_read (ki_role c) then (Inl (forbidden ''key role does not allow reads''), s)
      else case run_sql s of
             (Inl (ApiError _ m), s1) \<Rightarrow> (Inl (api_bad m), s1)
           | (Inr _, s1) \<Rightarrow>
               (case run_sql s1 of
                  (Inl (ApiError _ m), s2) \<Rightarrow> (Inl (api_bad (''database list failed: '' @ m)), s2)
                | (Inr _, s2) \<Rightarrow> (case database_rows X c (st_dbs s2) listed s2 of (drs, s3) \<Rightarrow> (Inr (Reply_databases drs), s3))))"

definition api_create_database :: "('o, 'f, 'k) api_world \<Rightarrow> Caller \<Rightarrow> string \<Rightarrow> AppState \<Rightarrow> outcome" where
  "api_create_database X c name =
     if_allowed (check_admin c)
       (\<lambda>s. if is_gateway_database (ax_config X) name then (Inl (forbidden (protected name)), s)
            else case on_dbs (create_database (ax_config X) name) s of
                   (Inl m, s1) \<Rightarrow> (Inl (api_bad m), s1)
                 | (Inr _, s1) \<Rightarrow> (Inr (Reply 200), s1))"

definition ingesting :: "string \<Rightarrow> catalogs \<Rightarrow> bool" where
  "ingesting db c \<longleftrightarrow> list_ex (\<lambda>l. lv_database l = db) (List.map_filter (sn_live (cg_sessions c)) (sn_order (cg_sessions c)))"

text \<open>The dash of the first message is a colon here.\<close>

definition api_delete_database :: "('o, 'f, 'k) api_world \<Rightarrow> Caller \<Rightarrow> string \<Rightarrow> AppState \<Rightarrow> outcome" where
  "api_delete_database X c db =
     if_allowed (check_admin_reauthenticated (ax_minutes X) c)
       (\<lambda>s. if ingesting db (st_cats s)
            then (Inl (ApiError 409 (''database '' @ quoted db @ '' is being ingested: stop the device first'')), s)
            else case db_states (st_dbs s) db of
                   Some (Migrating _) \<Rightarrow> (Inl (ApiError 409 (''database '' @ quoted db @ '' is migrating'')), s)
                 | _ \<Rightarrow>
                     if importing db (st_dbs s) then (Inl (ApiError 409 (being_imported db)), s)
                     else case on_dbs (delete_database (ax_config X) db) s of
                            (Inl m, s1) \<Rightarrow> (Inl (api_bad m), s1)
                          | (Inr _, s1) \<Rightarrow> (Inr (Reply 200), s1))"

section \<open>Reading and annotating\<close>

text \<open>\<^verbatim>\<open>time_bounds\<close>, \<^verbatim>\<open>inventory\<close>, \<^verbatim>\<open>frames\<close>, \<^verbatim>\<open>payloads\<close>, \<^verbatim>\<open>events_list\<close> and \<^verbatim>\<open>events_create\<close> differ in their query and in
  the status of a success.\<close>

definition read_handler :: "('o, 'f, 'k) api_world \<Rightarrow> nat \<Rightarrow> Caller \<Rightarrow> string \<Rightarrow> AppState \<Rightarrow> outcome" where
  "read_handler X success c db = if_allowed (check_read c db) (queried X db (\<lambda>_. Inr (Reply success)))"

definition frames_limit :: "nat option \<Rightarrow> nat" where
  "frames_limit limit = min (case limit of Some n \<Rightarrow> n | None \<Rightarrow> 1000) 5000"

text \<open>\<^verbatim>\<open>events_update\<close> and \<^verbatim>\<open>events_delete\<close>: the query says whether the event was there.\<close>

definition event_handler :: "('o, 'f, 'k) api_world \<Rightarrow> nat \<Rightarrow> Caller \<Rightarrow> string \<Rightarrow> AppState \<Rightarrow> outcome" where
  "event_handler X success c db =
     if_allowed (check_read c db)
       (queried X db (\<lambda>found. if found then Inr (Reply success) else Inl (not_found ''event not found'')))"

text \<open>\<^verbatim>\<open>query_handler!\<close>: the query runs registered under its id, the client's or one made of the time; the guard's
  drop takes the entry of that id away.\<close>

definition query_handler :: "('o, 'f, 'k) api_world \<Rightarrow> string \<Rightarrow> Caller \<Rightarrow> string \<Rightarrow> string option \<Rightarrow> AppState \<Rightarrow> outcome" where
  "query_handler X kind c db query_id =
     if_allowed (check_read c db)
       (\<lambda>s. case client_for X db s of
              (Inl e, s1) \<Rightarrow> (Inl e, s1)
            | (Inr _, s1) \<Rightarrow>
                (let (t, s2) = st_time s1;
                     i = (case query_id of Some i \<Rightarrow> i | None \<Rightarrow> kind @ ''_'' @ dec_digits t);
                     s3 = s2\<lparr> st_running := (st_running s2)(i \<mapsto> st_next s2), st_next := st_next s2 + 1 \<rparr>;
                     (r, s4) = run_sql s3
                 in (case r of Inl e \<Rightarrow> Inl e | Inr _ \<Rightarrow> Inr (Reply 200), s4\<lparr> st_running := (st_running s4)(i := None) \<rparr>)))"

definition cancel_query :: "Caller \<Rightarrow> string \<Rightarrow> AppState \<Rightarrow> outcome" where
  "cancel_query c i s =
     (if \<not> allows_read (ki_role c) then (Inl (forbidden ''key role does not allow reads''), s)
      else case st_running s i of
             None \<Rightarrow> (Inl (not_found (''query not found: '' @ i)), s)
           | Some token \<Rightarrow>
               (case run_sql (s\<lparr> st_running := (st_running s)(i := None) \<rparr>) of
                  (Inl (ApiError _ m), s1) \<Rightarrow> (Inl (api_bad (''cancel failed: '' @ m)), s1)
                | (Inr _, s1) \<Rightarrow> (Inr (Reply 200), s1\<lparr> st_cancelled := st_cancelled s1 @ [token] \<rparr>)))"

text \<open>\<^verbatim>\<open>activity\<close>, \<^verbatim>\<open>activity_cancel\<close> and \<^verbatim>\<open>activity_terminate\<close>.\<close>

definition activity_handler :: "('o, 'f, 'k) api_world \<Rightarrow> Caller \<Rightarrow> string \<Rightarrow> AppState \<Rightarrow> outcome" where
  "activity_handler X c db = if_allowed (check_admin c) (queried X db (\<lambda>_. Inr (Reply 200)))"

section \<open>Exports and imports\<close>

definition WindowQuery_window :: "int option \<Rightarrow> int option \<Rightarrow> (ApiError, window) result" where
  "WindowQuery_window from_us to_us =
     (case (from_us, to_us) of
        (None, None) \<Rightarrow> Inr None
      | (Some a, Some b) \<Rightarrow>
          if a < b then Inr (Some (a, b)) else Inl (api_bad (''the window'' @ [CHR 0x27] @ ''s from_us must be before its to_us''))
      | _ \<Rightarrow> Inl (api_bad ''a window needs both from_us and to_us''))"

text \<open>One reading of the clock serves a link's issue and the sweep of the old ones.\<close>

definition links_issue :: "string \<Rightarrow> window \<Rightarrow> AppState \<Rightarrow> string \<times> AppState" where
  "links_issue db win s =
     (let (t, s1) = st_time s;
          token = (case st_tokens s1 of [] \<Rightarrow> [] | k # _ \<Rightarrow> k);
          live = (\<lambda>k. case st_links s1 k of Some l \<Rightarrow> if t - lk_issued l < LINK_LIFE then Some l else None | None \<Rightarrow> None)
      in (token,
          s1\<lparr> st_tokens := tl (st_tokens s1),
              st_links := live(token \<mapsto> \<lparr> lk_database = db, lk_window = win, lk_issued = t \<rparr>) \<rparr>))"

definition links_redeem :: "string \<Rightarrow> AppState \<Rightarrow> Link option \<times> AppState" where
  "links_redeem token s =
     (case st_links s token of
        None \<Rightarrow> (None, s)
      | Some l \<Rightarrow>
          (let (t, s1) = st_time s in
           (if t - lk_issued l < LINK_LIFE then Some l else None, s1\<lparr> st_links := (st_links s1)(token := None) \<rparr>)))"

definition export_estimate :: "('o, 'f, 'k) api_world \<Rightarrow> Caller \<Rightarrow> string \<Rightarrow> int option \<Rightarrow> int option \<Rightarrow> AppState \<Rightarrow> outcome" where
  "export_estimate X c db from_us to_us =
     if_allowed (check_admin c)
       (\<lambda>s. case WindowQuery_window from_us to_us of
              Inl e \<Rightarrow> (Inl e, s)
            | Inr _ \<Rightarrow>
                (case client_for X db s of
                   (Inl e, s1) \<Rightarrow> (Inl e, s1)
                 | (Inr _, s1) \<Rightarrow>
                     (case run_sql s1 of (Inl (ApiError _ m), s2) \<Rightarrow> (Inl (unavailable m), s2) | (Inr _, s2) \<Rightarrow> (Inr (Reply 200), s2))))"

text \<open>The estimate's query says whether the window holds anything.\<close>

definition export_start :: "('o, 'f, 'k) api_world \<Rightarrow> Caller \<Rightarrow> string \<Rightarrow> int option \<Rightarrow> int option \<Rightarrow> AppState \<Rightarrow> outcome" where
  "export_start X c db from_us to_us =
     if_allowed (check_admin c)
       (\<lambda>s. case WindowQuery_window from_us to_us of
              Inl e \<Rightarrow> (Inl e, s)
            | Inr win \<Rightarrow>
                (case client_for X db s of
                   (Inl e, s1) \<Rightarrow> (Inl e, s1)
                 | (Inr _, s1) \<Rightarrow>
                     (case run_sql s1 of
                        (Inl (ApiError _ m), s2) \<Rightarrow> (Inl (unavailable m), s2)
                      | (Inr False, s2) \<Rightarrow>
                          (Inl (api_bad (''database '' @ quoted db @ '' holds nothing in that window to export'')), s2)
                      | (Inr True, s2) \<Rightarrow>
                          (case links_issue db win s2 of (token, s3) \<Rightarrow> (Inr (Reply_url (''/v1/exports/'' @ token)), s3)))))"

definition export_download :: "('o, 'f, 'k) api_world \<Rightarrow> string \<Rightarrow> AppState \<Rightarrow> outcome" where
  "export_download X token s =
     (case links_redeem token s of
        (None, s1) \<Rightarrow> (Inl (not_found ''this export link is unknown, used or expired''), s1)
      | (Some l, s1) \<Rightarrow>
          (case on_dbs (connect_current (ax_config X) (lk_database l)) s1 of
             (Inl (RefusedDb m), s2) \<Rightarrow> (Inl (not_found m), s2)
           | (Inl (Unavailable m), s2) \<Rightarrow> (Inl (unavailable m), s2)
           | (Inr _, s2) \<Rightarrow> (Inr (Reply 200), touch (lk_database l) s2)))"

definition refused_import :: "string \<Rightarrow> DbError \<Rightarrow> Databases \<Rightarrow> ApiError" where
  "refused_import name e d =
     (case db_states d name of
        Some (Migrating _) \<Rightarrow> ApiError 409 (''database '' @ quoted name @ '' is migrating'')
      | Some (Pending _) \<Rightarrow> ApiError 409 (''database '' @ quoted name @ '' is waiting for migration; migrate it first'')
      | Some (Failed _ _ _) \<Rightarrow> ApiError 409 (''database '' @ quoted name @ '' is waiting for migration; migrate it first'')
      | _ \<Rightarrow> (case e of RefusedDb m \<Rightarrow> not_found m | Unavailable m \<Rightarrow> unavailable m))"

text \<open>\<open>chunks\<close> is the body as it arrives. A body the parser loops on or a row that is no frame's ends with nobody
  answered, and what was copied before is not followed.\<close>

definition import_capture :: "('o, 'f, 'k) api_world \<Rightarrow> Caller \<Rightarrow> string \<Rightarrow> bool \<Rightarrow> (string, u8 list) result list \<Rightarrow> AppState \<Rightarrow> outcome" where
  "import_capture X c db create chunks s =
     (if \<not> (allows_ingest (ki_role c) \<or> allows_admin (ki_role c)) then (Inl (forbidden ''ingest or admin role required''), s)
      else if_allowed (check_pin c db)
        (\<lambda>s. case import_header (ax_import X) [] chunks of
               Inl e \<Rightarrow> (Inl (api_bad e), s)
             | Inr (pending, rest) \<Rightarrow>
                 (case on_dbs (ensure_database (ax_config X) db create) s of
                    (Inl e, s1) \<Rightarrow> (Inl (not_found (db_error_text e)), s1)
                  | (Inr _, s1) \<Rightarrow>
                      (case on_dbs (pool (ax_config X) db) s1 of
                         (Inl e, s2) \<Rightarrow> (Inl (refused_import db e (st_dbs s2)), s2)
                       | (Inr _, s2) \<Rightarrow>
                           (case import_body (ax_gatelib X) (ax_import X) pending rest [] 0 (st_import s2) of
                              None \<Rightarrow> (Inr Reply_gone, touch db s2)
                            | Some (Inl (Import_bad e), w) \<Rightarrow> (Inl (api_bad e), touch db (s2\<lparr> st_import := w \<rparr>))
                            | Some (Inl (Import_database e), w) \<Rightarrow> (Inl (unavailable e), touch db (s2\<lparr> st_import := w \<rparr>))
                            | Some (Inr n, w) \<Rightarrow> (Inr (Reply_imported n), touch db (s2\<lparr> st_import := w \<rparr>)))))) s)"

text \<open>\<^verbatim>\<open>import_archive\<close>: the archive's manifest is right or why it is not, and \<^verbatim>\<open>archive::import\<close> loads between
  \<^verbatim>\<open>begin_import\<close> and \<^verbatim>\<open>finish_import\<close>.\<close>

definition import_error :: "ImportError \<Rightarrow> ApiError" where
  "import_error e =
     (case e of
        ImportBadRequest m \<Rightarrow> api_bad m
      | ImportNotFound m \<Rightarrow> not_found m
      | ImportConflict m \<Rightarrow> ApiError 409 m
      | ImportUnavailable m \<Rightarrow> unavailable m)"

definition archive_import :: "GatewayConfig \<Rightarrow> string \<Rightarrow> nat \<Rightarrow> string \<Rightarrow> bool \<Rightarrow> (ImportError, unit) result \<Rightarrow> (ImportError, unit) result
    \<Rightarrow> Databases \<Rightarrow> (ImportError, string option) result \<times> Databases" where
  "archive_import C staging gate target replace manifest loaded d =
     (case manifest of
        Inl e \<Rightarrow> (Inl e, d)
      | Inr _ \<Rightarrow>
          (case begin_import C staging gate target replace d of
             (Inl e, d1) \<Rightarrow> (Inl e, d1)
           | (Inr _, d1) \<Rightarrow>
               (case loaded of
                  Inl e \<Rightarrow> (Inl e, abandon_import C target d1)
                | Inr _ \<Rightarrow> finish_import C target d1)))"

definition import_archive :: "('o, 'f, 'k) api_world \<Rightarrow> Caller \<Rightarrow> string \<Rightarrow> bool \<Rightarrow> string \<times> nat \<Rightarrow> (ImportError, unit) result \<Rightarrow> (ImportError, unit) result
    \<Rightarrow> AppState \<Rightarrow> outcome" where
  "import_archive X c db replace names manifest loaded =
     if_allowed (check_admin c)
       (if_allowed (if replace then check_admin_reauthenticated (ax_minutes X) c else Inr ())
          (\<lambda>s. case on_dbs (archive_import (ax_config X) (fst names) (snd names) db replace manifest loaded) s of
                 (Inl e, s1) \<Rightarrow> (Inl (import_error e), s1)
               | (Inr _, s1) \<Rightarrow> (Inr (Reply 200), s1)))"

section \<open>Keys and secrets\<close>

text \<open>An operation on the keys, and what its answer becomes; an error of the store is the request's.\<close>

definition keyed :: "(kworld \<Rightarrow> (string, 'a) result \<times> kworld) \<Rightarrow> ('a \<Rightarrow> (ApiError, reply) result) \<Rightarrow> AppState \<Rightarrow> outcome" where
  "keyed f k s = (case on_keys f s of (Inl m, s1) \<Rightarrow> (Inl (api_bad m), s1) | (Inr x, s1) \<Rightarrow> (k x, s1))"

definition keys_list :: "Caller \<Rightarrow> AppState \<Rightarrow> outcome" where
  "keys_list c = if_allowed (check_admin c) (keyed key_list (\<lambda>_. Inr (Reply 200)))"

definition keys_create :: "('o, 'f, 'k) api_world \<Rightarrow> Caller \<Rightarrow> string \<Rightarrow> string \<Rightarrow> string option \<Rightarrow> AppState \<Rightarrow> outcome" where
  "keys_create X c name role pin =
     if_allowed (check_admin_reauthenticated (ax_minutes X) c)
       (\<lambda>s. case Role_parse role of
              None \<Rightarrow> (Inl (api_bad (''unknown role '' @ quoted role)), s)
            | Some r \<Rightarrow> keyed (key_create (ax_hash X) name r pin) (\<lambda>(i, plaintext). Inr (Reply_key i plaintext)) s)"

definition keys_disable :: "Caller \<Rightarrow> int \<Rightarrow> AppState \<Rightarrow> outcome" where
  "keys_disable c i =
     if_allowed (check_admin c)
       (keyed (set_disabled i True)
          (\<lambda>done. if done then Inr (Reply 200) else Inl (not_found (''key not found or already disabled: '' @ show_int i))))"

definition keys_enable :: "Caller \<Rightarrow> int \<Rightarrow> AppState \<Rightarrow> outcome" where
  "keys_enable c i =
     if_allowed (check_admin c)
       (keyed (set_disabled i False)
          (\<lambda>done. if done then Inr (Reply 200) else Inl (not_found (''key not found or not disabled: '' @ show_int i))))"

definition keys_rotate :: "('o, 'f, 'k) api_world \<Rightarrow> Caller \<Rightarrow> int \<Rightarrow> AppState \<Rightarrow> outcome" where
  "keys_rotate X c i =
     if_allowed (check_admin_reauthenticated (ax_minutes X) c)
       (keyed (key_rotate (ax_hash X) i)
          (\<lambda>r. case r of
                 Rotated plaintext \<Rightarrow> Inr (Reply_key i plaintext)
               | RotateNotFound \<Rightarrow> Inl (not_found (''key not found: '' @ show_int i))
               | RotateDisabled \<Rightarrow> Inl (ApiError 409 (''key '' @ show_int i @ '' is disabled; enable it before rotating it''))))"

definition keys_edit :: "Caller \<Rightarrow> int \<Rightarrow> string option \<Rightarrow> string option option \<Rightarrow> AppState \<Rightarrow> outcome" where
  "keys_edit c i name pin =
     if_allowed (check_admin c)
       (keyed (key_edit i name pin) (\<lambda>done. if done then Inr (Reply 200) else Inl (not_found (''key not found: '' @ show_int i))))"

definition keys_delete :: "('o, 'f, 'k) api_world \<Rightarrow> Caller \<Rightarrow> int \<Rightarrow> AppState \<Rightarrow> outcome" where
  "keys_delete X c i =
     if_allowed (check_admin_reauthenticated (ax_minutes X) c)
       (keyed (key_delete i) (\<lambda>done. if done then Inr (Reply 200) else Inl (not_found (''key not found: '' @ show_int i))))"

text \<open>\<open>None\<close> from a rotation: the client hung up, and nobody is answered.\<close>

definition rotate_db_password :: "('o, 'f, 'k) api_world \<Rightarrow> Caller \<Rightarrow> AppState \<Rightarrow> outcome" where
  "rotate_db_password X c =
     if_allowed (check_admin_reauthenticated (ax_minutes X) c)
       (\<lambda>s. case rotate_pg_password (fst (st_files s)) (st_secret s) of
              (None, w) \<Rightarrow> (Inr Reply_gone, s\<lparr> st_secret := w \<rparr>)
            | (Some (Inl e), w) \<Rightarrow> (Inl (ApiError 500 e), s\<lparr> st_secret := w \<rparr>)
            | (Some (Inr p), w) \<Rightarrow> (Inr (Reply_secret p (fst (st_files s))), s\<lparr> st_secret := w \<rparr>))"

definition rotate_admin_key :: "('o, 'f, 'k) api_world \<Rightarrow> Caller \<Rightarrow> AppState \<Rightarrow> outcome" where
  "rotate_admin_key X c =
     if_allowed (check_admin_reauthenticated (ax_minutes X) c)
       (\<lambda>s. case on_keys (rotate_bootstrap_key (ax_hash X) (snd (st_files s))) s of
              (Inl e, s1) \<Rightarrow> (Inl (ApiError 500 e), s1)
            | (Inr None, s1) \<Rightarrow>
                (Inl (ApiError 409 (''no admin key is configured (WIRETAP_ADMIN_KEY or WIRETAP_ADMIN_KEY_FILE) '' @
                                    ''for a new one to replace'')), s1)
            | (Inr (Some key), s1) \<Rightarrow> (Inr (Reply_secret key (snd (st_files s))), s1))"

section \<open>Daemons, catalogues and logs\<close>

text \<open>\<^verbatim>\<open>secrets_list\<close>, \<^verbatim>\<open>ingest_sessions\<close> and \<^verbatim>\<open>daemons\<close> only read.\<close>

definition admin_list :: "Caller \<Rightarrow> AppState \<Rightarrow> outcome" where
  "admin_list c = if_allowed (check_admin c) (\<lambda>s. (Inr (Reply 200), s))"

definition daemons :: "Caller \<Rightarrow> AppState \<Rightarrow> outcome" where
  "daemons c =
     if_allowed (check_admin c)
       (\<lambda>s. case run_sql s of (Inl (ApiError _ m), s1) \<Rightarrow> (Inl (unavailable m), s1) | (Inr _, s1) \<Rightarrow> (Inr (Reply 200), s1))"

definition assign_error :: "AssignError \<Rightarrow> ApiError" where
  "assign_error e =
     (case e of
        Rejected fs \<Rightarrow> api_bad (join_with ''; '' (map (\<lambda>(field, message). field @ '': '' @ message) fs))
      | AssignConflict _ \<Rightarrow> ApiError 409 ''the assignment changed since it was read''
      | AssignDatabase m \<Rightarrow> unavailable m)"

definition assignments_put :: "('o, 'f, 'k) api_world \<Rightarrow> Caller \<Rightarrow> AssignCatalogue \<Rightarrow> AppState \<Rightarrow> outcome" where
  "assignments_put X c q =
     if_allowed (check_admin c)
       (\<lambda>s. case on_cats (catalogs_assign (ax_catlib X) q (ki_name c)) s of
              (Inl e, s1) \<Rightarrow> (Inl (assign_error e), s1)
            | (Inr _, s1) \<Rightarrow> (Inr (Reply 200), s1))"

definition assignments_delete :: "Caller \<Rightarrow> string \<Rightarrow> string \<Rightarrow> string option \<Rightarrow> AppState \<Rightarrow> outcome" where
  "assignments_delete c daemon_id interface expected =
     if_allowed (check_admin c)
       (\<lambda>s. case on_cats (catalogs_clear daemon_id interface expected (ki_name c)) s of
              (Inl e, s1) \<Rightarrow> (Inl (assign_error e), s1)
            | (Inr _, s1) \<Rightarrow> (Inr (Reply 204), s1))"

text \<open>\<open>sha\<close> as it was decoded: \<^verbatim>\<open>None\<close> where it is not the hex of 20 bytes.\<close>

definition catalog_get :: "Caller \<Rightarrow> string \<Rightarrow> u8 list option \<Rightarrow> AppState \<Rightarrow> outcome" where
  "catalog_get c sha decoded =
     if_allowed (check_admin c)
       (\<lambda>s. case decoded of
              None \<Rightarrow> (Inl (api_bad (debug_str sha @ '' is not a SHA-1'')), s)
            | Some b \<Rightarrow>
                (case on_cats (catalogs_blob b) s of
                   (Inl m, s1) \<Rightarrow> (Inl (unavailable m), s1)
                 | (Inr None, s1) \<Rightarrow> (Inl (not_found (''no catalogue '' @ sha)), s1)
                 | (Inr (Some _), s1) \<Rightarrow> (Inr (Reply 200), s1)))"

text \<open>\<^verbatim>\<open>keep_newest\<close>: a record's level and what it says.\<close>

definition keep_newest :: "(nat \<times> 'r) list \<Rightarrow> nat option \<Rightarrow> nat \<Rightarrow> (nat \<times> 'r) list" where
  "keep_newest records least limit =
     (let kept = filter (\<lambda>r. case least of None \<Rightarrow> True | Some m \<Rightarrow> m \<le> fst r) records in drop (length kept - limit) kept)"

definition logs :: "('o, 'f, 'k) api_world \<Rightarrow> Caller \<Rightarrow> string option \<Rightarrow> nat option \<Rightarrow> AppState \<Rightarrow> outcome" where
  "logs X c level limit =
     if_allowed (check_admin c)
       (\<lambda>s. let newest = (\<lambda>least. Inr (Reply_logs (keep_newest (st_logs s) least (case limit of Some n \<Rightarrow> n | None \<Rightarrow> 200)))) in
            case level of
              None \<Rightarrow> (newest None, s)
            | Some name \<Rightarrow>
                (case ax_level X name of
                   None \<Rightarrow> (Inl (api_bad (''unknown level '' @ quoted name)), s)
                 | Some l \<Rightarrow> (newest (Some l), s)))"

section \<open>Requests\<close>

text \<open>\<open>names\<close> are the keys of the map of states.\<close>

definition health :: "string list \<Rightarrow> AppState \<Rightarrow> outcome" where
  "health names s =
     (let (r, s1) = run_sql s; db_ok = (case r of Inr _ \<Rightarrow> True | Inl _ \<Rightarrow> False)
      in (Inr (Reply_health db_ok (schema_consensus (List.map_filter (db_states (st_dbs s1)) names))), s1))"

definition healthz :: "AppState \<Rightarrow> outcome" where
  "healthz s = (case run_sql s of (Inl _, s1) \<Rightarrow> (Inr (Reply 503), s1) | (Inr _, s1) \<Rightarrow> (Inr (Reply 200), s1))"

definition whoami :: "Caller \<Rightarrow> AppState \<Rightarrow> outcome" where
  "whoami c s =
     (case cl_console c of
        Some user \<Rightarrow> (Inr (Reply_who True (ci_username user) (ki_role c)), s)
      | None \<Rightarrow> (Inr (Reply_who False (ki_name c) (ki_role c)), s))"

text \<open>The routes that need a caller, by what they carry; then those that do not.\<close>

datatype request =
    R_whoami
  | R_list_databases "(string \<times> nat option) list"
  | R_create_database string
  | R_delete_database string
  | R_export_start string "int option" "int option"
  | R_export_estimate string "int option" "int option"
  | R_import_archive string bool "string \<times> nat" "(ImportError, unit) result" "(ImportError, unit) result"
  | R_migrate string
  | R_refresh_rollup string
  | R_read nat string
  | R_event nat string
  | R_query string string "string option"
  | R_cancel_query string
  | R_activity string
  | R_import_capture string bool "(string, u8 list) result list"
  | R_keys_list
  | R_keys_create string string "string option"
  | R_keys_edit int "string option" "string option option"
  | R_keys_delete int
  | R_keys_disable int
  | R_keys_enable int
  | R_keys_rotate int
  | R_rotate_db_password
  | R_rotate_admin_key
  | R_admin_list
  | R_daemons
  | R_assign AssignCatalogue
  | R_clear string string "string option"
  | R_catalog string "u8 list option"
  | R_logs "string option" "nat option"

datatype open_request = R_health "string list" | R_healthz | R_export_download string

text \<open>The \<^verbatim>\<open>{db}\<close> of the path.\<close>

definition request_db :: "request \<Rightarrow> string option" where
  "request_db q =
     (case q of
        R_delete_database db \<Rightarrow> Some db
      | R_export_start db _ _ \<Rightarrow> Some db
      | R_export_estimate db _ _ \<Rightarrow> Some db
      | R_import_archive db _ _ _ _ \<Rightarrow> Some db
      | R_migrate db \<Rightarrow> Some db
      | R_refresh_rollup db \<Rightarrow> Some db
      | R_read _ db \<Rightarrow> Some db
      | R_event _ db \<Rightarrow> Some db
      | R_query _ db _ \<Rightarrow> Some db
      | R_activity db \<Rightarrow> Some db
      | R_import_capture db _ _ \<Rightarrow> Some db
      | _ \<Rightarrow> None)"

definition routes :: "('o, 'f, 'k) api_world \<Rightarrow> request \<Rightarrow> Caller \<Rightarrow> AppState \<Rightarrow> outcome" where
  "routes X q c =
     (case q of
        R_whoami \<Rightarrow> whoami c
      | R_list_databases listed \<Rightarrow> list_databases X listed c
      | R_create_database name \<Rightarrow> api_create_database X c name
      | R_delete_database db \<Rightarrow> api_delete_database X c db
      | R_export_start db a b \<Rightarrow> export_start X c db a b
      | R_export_estimate db a b \<Rightarrow> export_estimate X c db a b
      | R_import_archive db replace names manifest loaded \<Rightarrow> import_archive X c db replace names manifest loaded
      | R_migrate db \<Rightarrow> migrate_database X c db
      | R_refresh_rollup db \<Rightarrow> refresh_rollup c db
      | R_read success db \<Rightarrow> read_handler X success c db
      | R_event success db \<Rightarrow> event_handler X success c db
      | R_query kind db i \<Rightarrow> query_handler X kind c db i
      | R_cancel_query i \<Rightarrow> cancel_query c i
      | R_activity db \<Rightarrow> activity_handler X c db
      | R_import_capture db create chunks \<Rightarrow> import_capture X c db create chunks
      | R_keys_list \<Rightarrow> keys_list c
      | R_keys_create name role pin \<Rightarrow> keys_create X c name role pin
      | R_keys_edit i name pin \<Rightarrow> keys_edit c i name pin
      | R_keys_delete i \<Rightarrow> keys_delete X c i
      | R_keys_disable i \<Rightarrow> keys_disable c i
      | R_keys_enable i \<Rightarrow> keys_enable c i
      | R_keys_rotate i \<Rightarrow> keys_rotate X c i
      | R_rotate_db_password \<Rightarrow> rotate_db_password X c
      | R_rotate_admin_key \<Rightarrow> rotate_admin_key X c
      | R_admin_list \<Rightarrow> admin_list c
      | R_daemons \<Rightarrow> daemons c
      | R_assign a \<Rightarrow> assignments_put X c a
      | R_clear d i e \<Rightarrow> assignments_delete c d i e
      | R_catalog sha decoded \<Rightarrow> catalog_get c sha decoded
      | R_logs level limit \<Rightarrow> logs X c level limit)"

definition refuse_gateway_database_mw :: "('o, 'f, 'k) api_world \<Rightarrow> request \<Rightarrow> (AppState \<Rightarrow> outcome) \<Rightarrow> AppState \<Rightarrow> outcome" where
  "refuse_gateway_database_mw X q k s =
     (case request_db q of
        Some db \<Rightarrow> if is_gateway_database (ax_config X) db then (Inl (forbidden (protected db)), s) else k s
      | None \<Rightarrow> k s)"

definition authenticate :: "('o, 'f, 'k) api_world \<Rightarrow> origin \<Rightarrow> headers \<Rightarrow> AppState \<Rightarrow> (ApiError, Caller) result \<times> AppState" where
  "authenticate X orig h s =
     (case orig of
        On_app_socket from_console \<Rightarrow> (console_caller from_console h, s)
      | On_tcp \<Rightarrow> on_keys (key_caller (ax_hash X) h) s)"

definition auth_mw :: "('o, 'f, 'k) api_world \<Rightarrow> origin \<Rightarrow> headers \<Rightarrow> request \<Rightarrow> AppState \<Rightarrow> outcome" where
  "auth_mw X orig h q s =
     (case authenticate X orig h s of
        (Inl e, s1) \<Rightarrow> (Inl e, s1)
      | (Inr c, s1) \<Rightarrow> refuse_gateway_database_mw X q (routes X q c) s1)"

definition open_routes :: "('o, 'f, 'k) api_world \<Rightarrow> open_request \<Rightarrow> AppState \<Rightarrow> outcome" where
  "open_routes X q =
     (case q of R_health names \<Rightarrow> health names | R_healthz \<Rightarrow> healthz | R_export_download token \<Rightarrow> export_download X token)"

end
