(* ===== verification/Gateway_Access.thy ===== *)
theory Gateway_Access
  imports Gateway_Http
begin

text \<open>
  What a request to the gateway's API may reach: the databases a caller's key opens, what takes an admin, and what
  takes an admin who has just confirmed their password. \<open>keeps_within\<close> relates the states before and after a request;
  every handler of \<open>Gateway_Http\<close> is shown to keep within what its checks grant, and the routes with them.
\<close>

section \<open>What a request may reach\<close>

text \<open>What only an admin changes, and what only one who has just confirmed their password does: the credentials.\<close>

definition administered :: "AppState \<Rightarrow> meta \<times> KeyStore \<times> catalogs \<times> secret_world" where
  "administered s = (kw_meta (st_keys s), kw_store (st_keys s), st_cats s, st_secret s)"

definition credentials :: "AppState \<Rightarrow> string list \<times> (string \<times> nat option) list \<times> string option \<times> secret_world" where
  "credentials s =
     (map kr_hash (mt_keys (kw_meta (st_keys s))), mt_boot (kw_meta (st_keys s)), ks_current (kw_store (st_keys s)), st_secret s)"

text \<open>\<open>D\<close> are the databases in reach, \<open>A\<close> whether the caller is an admin, \<open>B\<close> whether one who may change credentials.\<close>

definition keeps_within :: "string set \<Rightarrow> bool \<Rightarrow> bool \<Rightarrow> AppState \<Rightarrow> AppState \<Rightarrow> bool" where
  "keeps_within D A B s s' \<longleftrightarrow>
     (\<exists>ts. st_touched s' = st_touched s @ ts \<and> set ts \<subseteq> D) \<and>
     (\<forall>token l. st_links s' token = Some l \<longrightarrow> st_links s token = Some l \<or> A \<and> lk_database l \<in> D) \<and>
     (A \<or> administered s' = administered s) \<and> (B \<or> credentials s' = credentials s)"

lemma within_refl [simp]: "keeps_within D A B s s"
  by (simp add: keeps_within_def)

lemma within_trans: "keeps_within D A B s t \<Longrightarrow> keeps_within D A B t u \<Longrightarrow> keeps_within D A B s u"
  unfolding keeps_within_def by (elim conjE exE, intro conjI) (force, metis, metis, metis)

lemma within_same:
  "st_touched s' = st_touched s \<Longrightarrow> st_links s' = st_links s \<Longrightarrow> st_keys s' = st_keys s \<Longrightarrow> st_cats s' = st_cats s \<Longrightarrow>
    st_secret s' = st_secret s \<Longrightarrow> keeps_within D A B s s'"
  by (simp add: keeps_within_def administered_def credentials_def)

lemma step_within:
  "run_sql s = (r, s1) \<Longrightarrow> keeps_within D A B s s1"
  "on_dbs f s = (x, s1) \<Longrightarrow> keeps_within D A B s s1"
  "st_time s = (t, s1) \<Longrightarrow> keeps_within D A B s s1"
  by (rule within_same; auto simp: run_sql_def on_dbs_def st_time_def split: list.splits sum.splits bool.splits prod.splits)+

lemma touch_within: "db \<in> D \<Longrightarrow> keeps_within D A B s (touch db s)"
  by (simp add: keeps_within_def touch_def administered_def credentials_def)

lemma pool_valid: "pool C name d = (Inr u, d') \<Longrightarrow> gc_valid_name C name"
  by (auto simp: pool_def split: if_splits)

lemma client_for_within:
  assumes "gc_valid_name (ax_config X) db \<Longrightarrow> db \<in> D" "client_for X db s = (r, s1)"
  shows "keeps_within D A B s s1"
proof -
  obtain p s2 where p: "on_dbs (pool (ax_config X) db) s = (p, s2)"
    by (cases "on_dbs (pool (ax_config X) db) s")
  show ?thesis
  proof (cases p)
    case (Inr u)
    then have "db \<in> D"
      using p pool_valid assms(1) by (auto simp: on_dbs_def split: prod.splits)
    then show ?thesis
      using assms(2) p Inr
      by (auto simp: client_for_def split: prod.splits sum.splits ApiError.splits dest!: step_within [where D = D and A = A and B = B];
          blast intro: within_trans touch_within)
  qed (use assms(2) p step_within(2) [OF p] in \<open>auto simp: client_for_def\<close>)
qed

lemma if_allowed_within: "(g = Inr () \<Longrightarrow> keeps_within D A B s (snd (k s))) \<Longrightarrow> keeps_within D A B s (snd (if_allowed g k s))"
  by (auto simp: if_allowed_def split: sum.splits)

lemma queried_within:
  assumes "gc_valid_name (ax_config X) db \<Longrightarrow> db \<in> D"
  shows "keeps_within D A B s (snd (queried X db k s))"
  using assms
  by (auto simp: queried_def split: prod.splits sum.splits
        dest!: client_for_within [rotated, where D = D and A = A and B = B] step_within [where D = D and A = A and B = B];
      blast intro: within_trans)

lemma database_rows_within:
  assumes "\<And>name. name \<in> fst ` set listed \<Longrightarrow> gc_valid_name (ax_config X) name \<Longrightarrow> \<not> is_gateway_database (ax_config X) name \<Longrightarrow>
    ki_pin c = None \<or> ki_pin c = Some name \<Longrightarrow> name \<in> D"
  shows "keeps_within D A B s (snd (database_rows X c d listed s))"
  using assms
proof (induction listed arbitrary: s)
  case (Cons r listed)
  have asked: "name \<in> D \<Longrightarrow> ask_database name s = (b, s1) \<Longrightarrow> keeps_within D A B s s1" for name b s1
    by (auto simp: ask_database_def split: prod.splits sum.splits dest!: step_within [where D = D and A = A and B = B];
        blast intro: within_trans touch_within)
  have IH: "keeps_within D A B s (snd (database_rows X c d listed s))" for s
    using Cons by simp
  show ?case
    using Cons.prems [of "fst r"] IH [of s] asked [of "fst r"]
    by (cases r) (auto simp: Let_def split: option.splits prod.splits; metis IH snd_conv within_trans)
qed simp

lemma reading_within:
  assumes "check_read c db = Inr () \<Longrightarrow> gc_valid_name (ax_config X) db \<Longrightarrow> db \<in> D"
  shows "keeps_within D A B s (snd (read_handler X n c db s))" "keeps_within D A B s (snd (event_handler X n c db s))"
    "keeps_within D A B s (snd (query_handler X kind c db i s))"
proof -
  show "keeps_within D A B s (snd (read_handler X n c db s))" "keeps_within D A B s (snd (event_handler X n c db s))"
    unfolding read_handler_def event_handler_def by (intro if_allowed_within queried_within assms; simp)+
  have "keeps_within D A B t (t\<lparr> st_running := a, st_next := b \<rparr>)" "keeps_within D A B t (t\<lparr> st_running := a \<rparr>)" for t a b
    by (rule within_same; simp)+
  then show "keeps_within D A B s (snd (query_handler X kind c db i s))"
    unfolding query_handler_def using assms
    by (intro if_allowed_within)
      (auto simp: Let_def split: prod.splits sum.splits
        dest!: client_for_within [rotated, where D = D and A = A and B = B] step_within [where D = D and A = A and B = B];
       meson within_trans)
qed

lemma client_for_valid: "client_for X db s = (Inr u, s1) \<Longrightarrow> gc_valid_name (ax_config X) db"
  by (auto simp: client_for_def on_dbs_def split: prod.splits sum.splits ApiError.splits dest!: pool_valid)

lemma links_issue_within: "links_issue db win s = (token, s1) \<Longrightarrow> A \<Longrightarrow> db \<in> D \<Longrightarrow> keeps_within D A B s s1"
  by (auto simp: links_issue_def st_time_def keeps_within_def administered_def credentials_def Let_def
      split: list.splits option.splits if_splits)

lemma administering_within:
  assumes "check_admin c = Inr () \<Longrightarrow> A" "A \<Longrightarrow> gc_valid_name (ax_config X) db \<Longrightarrow> db \<in> D"
  shows "keeps_within D A B s (snd (activity_handler X c db s))" "keeps_within D A B s (snd (export_estimate X c db a b s))"
    "keeps_within D A B s (snd (export_start X c db a b s))"
proof -
  show "keeps_within D A B s (snd (activity_handler X c db s))"
    unfolding activity_handler_def by (intro if_allowed_within queried_within assms)
  show "keeps_within D A B s (snd (export_estimate X c db a b s))"
    unfolding export_estimate_def using assms
    by (intro if_allowed_within)
      (auto simp: Let_def split: prod.splits sum.splits ApiError.splits
        dest!: client_for_within [rotated, where D = D and A = A and B = B] step_within [where D = D and A = A and B = B];
       blast intro: within_trans)
  show "keeps_within D A B s (snd (export_start X c db a b s))"
    unfolding export_start_def
  proof (rule if_allowed_within)
    assume "check_admin c = Inr ()"
    then have client: "client_for X db t = (r, t1) \<Longrightarrow> keeps_within D A B t t1 \<and> (r = Inr () \<longrightarrow> A \<and> db \<in> D)" for t t1 r
      using assms client_for_valid [of X db t "()" t1] client_for_within [of X db D t r t1 A B] by blast
    show "keeps_within D A B s (snd (case WindowQuery_window a b of
        Inl e \<Rightarrow> (Inl e, s)
      | Inr win \<Rightarrow> (case client_for X db s of
          (Inl e, s1) \<Rightarrow> (Inl e, s1)
        | (Inr _, s1) \<Rightarrow> (case run_sql s1 of
            (Inl (ApiError _ m), s2) \<Rightarrow> (Inl (unavailable m), s2)
          | (Inr False, s2) \<Rightarrow> (Inl (api_bad (''database '' @ quoted db @ '' holds nothing in that window to export'')), s2)
          | (Inr True, s2) \<Rightarrow> (case links_issue db win s2 of (token, s3) \<Rightarrow> (Inr (Reply_url (''/v1/exports/'' @ token)), s3))))))"
      by (auto split: prod.splits sum.splits ApiError.splits bool.splits
            dest!: client step_within(1) [where D = D and A = A and B = B] links_issue_within [where D = D and A = A and B = B];
          blast intro: within_trans)
  qed
qed

lemma importing_within:
  assumes "allows_ingest (ki_role c) \<or> allows_admin (ki_role c) \<Longrightarrow> check_pin c db = Inr () \<Longrightarrow> gc_valid_name (ax_config X) db \<Longrightarrow> db \<in> D"
  shows "keeps_within D A B s (snd (import_capture X c db create chunks s))"
proof (cases "allows_ingest (ki_role c) \<or> allows_admin (ki_role c)")
  case True
  have w: "keeps_within D A B t (t\<lparr> st_import := w \<rparr>)" for t w
    by (rule within_same; simp)
  have p: "on_dbs (pool (ax_config X) db) t = (r, t1) \<Longrightarrow> check_pin c db = Inr () \<Longrightarrow> keeps_within D A B t t1 \<and> (r = Inr () \<longrightarrow> db \<in> D)" for t t1 r
    using assms True pool_valid step_within(2) [of _ t r t1 D A B] by (auto simp: on_dbs_def split: prod.splits)
  have f: "keeps_within D A B t t1 \<Longrightarrow> keeps_within D A B t1 t2 \<Longrightarrow> db \<in> D \<Longrightarrow> keeps_within D A B t (touch db t2)"
    "keeps_within D A B t t1 \<Longrightarrow> keeps_within D A B t1 t2 \<Longrightarrow> db \<in> D \<Longrightarrow> keeps_within D A B t (touch db (t2\<lparr> st_import := w \<rparr>))" for t t1 t2 w
    by (rule within_trans [OF within_trans touch_within]; assumption)
      (rule within_trans [OF within_trans [OF within_trans w] touch_within]; assumption)
  have e: "on_dbs (ensure_database (ax_config X) db create) t = (r, t1) \<Longrightarrow> keeps_within D A B t t1" for t t1 r
    by (rule step_within(2))
  show ?thesis
    unfolding import_capture_def
    by (insert True, auto intro!: if_allowed_within split: prod.splits sum.splits option.splits upload_error.splits dest!: p e;
        (erule f within_trans, assumption, assumption?))
qed (simp add: import_capture_def)

lemma cancel_within: "keeps_within D A B s (snd (cancel_query c i s))"
proof -
  have w: "keeps_within D A B t (t\<lparr> st_running := r \<rparr>)" "keeps_within D A B t (t\<lparr> st_cancelled := x \<rparr>)" for t r x
    by (rule within_same; simp)+
  have "run_sql (s\<lparr> st_running := r \<rparr>) = (x, s1) \<Longrightarrow> keeps_within D A B s s1" for r x s1
    by (rule within_trans [OF w(1) step_within(1)])
  note this and within_trans [OF this w(2)]
  then show ?thesis
    by (auto simp: cancel_query_def split: option.splits prod.splits sum.splits ApiError.splits)
qed

lemma listing_within:
  assumes "\<And>name. name \<in> fst ` set listed \<Longrightarrow> allows_read (ki_role c) \<Longrightarrow> gc_valid_name (ax_config X) name \<Longrightarrow>
    \<not> is_gateway_database (ax_config X) name \<Longrightarrow> ki_pin c = None \<or> ki_pin c = Some name \<Longrightarrow> name \<in> D"
  shows "keeps_within D A B s (snd (list_databases X listed c s))"
proof -
  have "database_rows X c d listed t = (drs, t') \<Longrightarrow> allows_read (ki_role c) \<Longrightarrow> keeps_within D A B t t'" for d t drs t'
    using database_rows_within [of listed X c D A B t d] assms by simp
  then show ?thesis
    by (auto simp: list_databases_def split: prod.splits sum.splits ApiError.splits dest!: step_within(1) [where D = D and A = A and B = B];
        blast intro: within_trans)
qed

text \<open>Enabling, disabling, renaming and pinning leave every key's hash and the admin key as they were.\<close>

definition key_creds :: "kworld \<Rightarrow> string list \<times> (string \<times> nat option) list \<times> string option" where
  "key_creds w = (map kr_hash (mt_keys (kw_meta w)), mt_boot (kw_meta w), ks_current (kw_store w))"

lemma credentials_keys: "credentials s = (fst (key_creds (st_keys s)), fst (snd (key_creds (st_keys s))), snd (snd (key_creds (st_keys s))), st_secret s)"
  by (simp add: credentials_def key_creds_def)

lemma asked_creds [simp]: "key_creds (snd (ask w)) = key_creds w" "key_creds (snd (key_now w)) = key_creds w" "key_creds (snd (reload w)) = key_creds w"
  by (auto simp: key_creds_def ask_def key_now_def reload_def split: list.splits option.splits prod.splits)

lemma ask_creds: "ask w = (a, w') \<Longrightarrow> key_creds w' = key_creds w \<and> kw_meta w' = kw_meta w"
  using asked_creds(1) [of w] ask_keeps(1) [of w] by auto

lemma reload_creds: "reload w = (a, w') \<Longrightarrow> key_creds w' = key_creds w"
  using asked_creds(3) [of w] by auto

lemma with_client_creds:
  assumes "\<And>m x m'. f m = (Some x, m') \<Longrightarrow> map kr_hash (mt_keys m') = map kr_hash (mt_keys m) \<and> mt_boot m' = mt_boot m"
  shows "key_creds (snd (answering g (with_client what f w))) = key_creds w"
proof -
  have "f (kw_meta w') = (Some x, m) \<Longrightarrow> key_creds (w'\<lparr> kw_meta := m \<rparr>) = key_creds w'" for w' x m
    using assms [of "kw_meta w'" x m] by (simp add: key_creds_def)
  then show ?thesis
    by (auto simp: with_client_def answering_def split: prod.splits option.splits sum.splits dest!: ask_creds reload_creds)
qed

lemma editing_creds:
  "key_creds (snd (set_disabled i b w)) = key_creds w" "key_creds (snd (key_edit i name pin w)) = key_creds w" "key_creds (snd (key_list w)) = key_creds w"
proof -
  have kept: "(\<And>r. kr_hash (f r) = kr_hash r) \<Longrightarrow>
      key_creds (snd (answering g (with_client what (\<lambda>m. map_prod Some id (update_keys p f m)) w'))) = key_creds w'"
    for f p what w' and g :: "nat \<Rightarrow> bool"
    by (rule with_client_creds) (auto simp: update_keys_def)
  show "key_creds (snd (set_disabled i b w)) = key_creds w"
    unfolding set_disabled_def case_prod_beta Let_def asked_creds(2) [of w, symmetric] by (rule kept) simp_all
  show "key_creds (snd (key_edit i name pin w)) = key_creds w"
    unfolding key_edit_def by (rule kept) (simp_all split: option.splits)
  show "key_creds (snd (key_list w)) = key_creds w"
    by (auto simp: key_list_def split: prod.splits option.splits dest!: ask_creds)
qed

lemma keyed_within:
  assumes "A" "B \<or> (\<forall>w. key_creds (snd (f w)) = key_creds w)"
  shows "keeps_within D A B s (snd (on_keys f s))" "keeps_within D A B s (snd (keyed f k s))"
proof -
  obtain r w where f: "f (st_keys s) = (r, w)"
    by fastforce
  then have "B \<or> key_creds w = key_creds (st_keys s)"
    using assms(2) by (metis snd_conv)
  then show "keeps_within D A B s (snd (on_keys f s))"
    using assms(1) f by (auto simp: on_keys_def keeps_within_def credentials_keys)
  then show "keeps_within D A B s (snd (keyed f k s))"
    by (auto simp: keyed_def split: prod.splits sum.splits)
qed

text \<open>Who may change credentials: an admin, by key or with the password confirmed.\<close>

definition may_rekey :: "Caller \<Rightarrow> bool" where
  "may_rekey c \<longleftrightarrow> allows_admin (ki_role c) \<and> (case cl_console c of Some user \<Rightarrow> ci_reauthenticated user | None \<Rightarrow> True)"

lemma admin_checks:
  "check_admin c = Inr () \<longleftrightarrow> allows_admin (ki_role c)"
  "check_admin_reauthenticated m c = Inr () \<longleftrightarrow> may_rekey c"
  by (auto simp: check_admin_def check_admin_reauthenticated_def may_rekey_def split: option.splits)

lemma keys_within:
  fixes c :: Caller
  defines "A \<equiv> allows_admin (ki_role c)"
  shows "keeps_within D A B s (snd (keys_list c s))" "keeps_within D A B s (snd (keys_edit c i name pin s))"
    "keeps_within D A B s (snd (keys_disable c i s))" "keeps_within D A B s (snd (keys_enable c i s))"
  unfolding keys_list_def keys_edit_def keys_disable_def keys_enable_def
  by (intro if_allowed_within keyed_within; simp add: A_def admin_checks editing_creds)+

lemma rekeying_within:
  fixes c :: Caller
  defines "A \<equiv> allows_admin (ki_role c)"
  shows "keeps_within D A (may_rekey c) s (snd (keys_create X c name role pin s))"
    "keeps_within D A (may_rekey c) s (snd (keys_delete X c i s))"
    "keeps_within D A (may_rekey c) s (snd (keys_rotate X c i s))"
    "keeps_within D A (may_rekey c) s (snd (rotate_admin_key X c s))"
    "keeps_within D A (may_rekey c) s (snd (rotate_db_password X c s))"
proof -
  have rekey: "may_rekey c \<Longrightarrow> A"
    by (simp add: A_def may_rekey_def)
  note keyed = keyed_within [of A "may_rekey c" _ D s]
  show "keeps_within D A (may_rekey c) s (snd (keys_create X c name role pin s))"
    unfolding keys_create_def by (rule if_allowed_within) (auto simp: admin_checks rekey split: option.split intro!: keyed_within)
  show "keeps_within D A (may_rekey c) s (snd (keys_delete X c i s))" "keeps_within D A (may_rekey c) s (snd (keys_rotate X c i s))"
    unfolding keys_delete_def keys_rotate_def by (rule if_allowed_within, rule keyed; simp add: admin_checks rekey)+
  have "on_keys f s = (r, s1) \<Longrightarrow> may_rekey c \<Longrightarrow> keeps_within D A (may_rekey c) s s1" for f and r :: "(string, string option) result" and s1
    using keyed(1) [of f] rekey by auto
  then show "keeps_within D A (may_rekey c) s (snd (rotate_admin_key X c s))"
    unfolding rotate_admin_key_def
    by (intro if_allowed_within) (auto simp: admin_checks split: prod.splits sum.splits option.splits)
  have "may_rekey c \<Longrightarrow> keeps_within D A (may_rekey c) s (s\<lparr> st_secret := w \<rparr>)" for w
    using rekey by (simp add: keeps_within_def)
  then show "keeps_within D A (may_rekey c) s (snd (rotate_db_password X c s))"
    unfolding rotate_db_password_def
    by (intro if_allowed_within) (auto simp: admin_checks split: prod.splits sum.splits option.splits)
qed

lemma managing_within:
  fixes c :: Caller
  defines "A \<equiv> allows_admin (ki_role c)"
  shows "keeps_within D A B s (snd (api_create_database X c name s))" "keeps_within D A B s (snd (api_delete_database X c db s))"
    "keeps_within D A B s (snd (migrate_database X c db s))" "keeps_within D A B s (snd (import_archive X c db replace ns m l s))"
    "keeps_within D A B s (snd (refresh_rollup c db s))" "keeps_within D A B s (snd (daemons c s))"
    "keeps_within D A B s (snd (assignments_put X c a s))" "keeps_within D A B s (snd (assignments_delete c d i e s))"
    "keeps_within D A B s (snd (catalog_get c sha decoded s))" "keeps_within D A B s (snd (admin_list c s))"
    "keeps_within D A B s (snd (logs X c level limit s))" "keeps_within D A B s (snd (whoami c s))"
proof -
  have cats: "on_cats f s = (r, s1) \<Longrightarrow> check_admin c = Inr () \<Longrightarrow> keeps_within D A B s s1" for f :: "catalogs \<Rightarrow> 'z \<times> catalogs" and r s1
    by (auto simp: on_cats_def keeps_within_def credentials_def admin_checks A_def split: prod.splits)
  show "keeps_within D A B s (snd (api_create_database X c name s))" "keeps_within D A B s (snd (migrate_database X c db s))"
    "keeps_within D A B s (snd (import_archive X c db replace ns m l s))"
    unfolding api_create_database_def migrate_database_def import_archive_def
    by (intro if_allowed_within; auto split: prod.splits sum.splits MigrateRefusal.splits dest!: step_within(2) [where D = D and A = A and B = B])+
  show "keeps_within D A B s (snd (api_delete_database X c db s))"
    unfolding api_delete_database_def
    by (intro if_allowed_within)
      (auto split: prod.splits sum.splits option.splits DbSchemaState.splits dest!: step_within(2) [where D = D and A = A and B = B])
  show "keeps_within D A B s (snd (refresh_rollup c db s))"
    unfolding refresh_rollup_def by (intro if_allowed_within) (auto split: option.splits DbSchemaState.splits intro: within_same)
  show "keeps_within D A B s (snd (daemons c s))"
    unfolding daemons_def
    by (intro if_allowed_within) (auto split: prod.splits sum.splits ApiError.splits dest!: step_within(1) [where D = D and A = A and B = B])
  show "keeps_within D A B s (snd (assignments_put X c a s))" "keeps_within D A B s (snd (assignments_delete c d i e s))"
    "keeps_within D A B s (snd (catalog_get c sha decoded s))"
    unfolding assignments_put_def assignments_delete_def catalog_get_def
    by (intro if_allowed_within; auto split: prod.splits sum.splits option.splits dest!: cats)+
  show "keeps_within D A B s (snd (admin_list c s))" "keeps_within D A B s (snd (logs X c level limit s))" "keeps_within D A B s (snd (whoami c s))"
    by (auto simp: admin_list_def logs_def whoami_def Let_def if_allowed_def split: option.split sum.split)
qed

text \<open>The databases a request may be given a connection to.\<close>

definition in_reach :: "('o, 'f, 'k) api_world \<Rightarrow> Caller \<Rightarrow> request \<Rightarrow> string set" where
  "in_reach X c q =
     {db. gc_valid_name (ax_config X) db \<and> \<not> is_gateway_database (ax_config X) db \<and>
        (allows_admin (ki_role c) \<or> ki_pin c = None \<or> ki_pin c = Some db) \<and>
        (case q of
           R_list_databases listed \<Rightarrow> allows_read (ki_role c) \<and> db \<in> fst ` set listed
         | R_import_capture db' _ _ \<Rightarrow> allows_ingest (ki_role c) \<and> db' = db
         | _ \<Rightarrow> allows_read (ki_role c) \<and> request_db q = Some db)}"

lemma role_checks:
  "check_read c db = Inr () \<longleftrightarrow> allows_read (ki_role c) \<and> (ki_pin c = None \<or> ki_pin c = Some db)"
  "check_pin c db = Inr () \<longleftrightarrow> ki_pin c = None \<or> ki_pin c = Some db"
  "allows_admin r \<Longrightarrow> allows_read r \<and> allows_ingest r"
  by (auto simp: check_read_def check_pin_def allows_admin_def allows_read_def allows_ingest_def split: option.splits if_splits)

lemma routes_within:
  assumes "\<And>db. request_db q = Some db \<Longrightarrow> \<not> is_gateway_database (ax_config X) db"
  shows "keeps_within (in_reach X c q) (allows_admin (ki_role c)) (may_rekey c) s (snd (routes X q c s))"
  by (cases q)
    (insert assms, auto simp: routes_def in_reach_def request_db_def admin_checks role_checks
      intro!: keys_within rekeying_within managing_within cancel_within reading_within listing_within importing_within administering_within)

lemma authenticate_within: "authenticate X orig h s = (r, s1) \<Longrightarrow> keeps_within {} False False s s1"
proof -
  have "key_caller H h k = (r, k1) \<Longrightarrow> kw_meta k1 = kw_meta k \<and> kw_store k1 = kw_store k" for H k k1
    by (auto simp: key_caller_def validate_from_def validate_def Let_def split: option.splits prod.splits sum.splits if_splits list.splits bool.splits)
  then show "authenticate X orig h s = (r, s1) \<Longrightarrow> ?thesis"
    by (auto simp: authenticate_def on_keys_def keeps_within_def administered_def credentials_def split: origin.splits prod.splits)
qed

lemma within_mono: "keeps_within {} False False s s' \<Longrightarrow> keeps_within D A B s s'"
  by (auto simp: keeps_within_def)


lemma export_download_spends:
  assumes "open_routes X (R_export_download token) s = (r, s')"
  shows "st_links s' = (st_links s)(token := None) \<and> administered s' = administered s \<and>
    open_routes X (R_export_download token) s' = (Inl (not_found ''this export link is unknown, used or expired''), s') \<and>
    (case r of
       Inl _ \<Rightarrow> st_touched s' = st_touched s
     | Inr _ \<Rightarrow> (\<exists>l. st_links s token = Some l \<and> fst (st_time s) - lk_issued l < LINK_LIFE \<and>
                 st_touched s' = st_touched s @ [lk_database l] \<and> gc_valid_name (ax_config X) (lk_database l)))"
proof -
  have time: "st_time s = (t, s1) \<Longrightarrow> st_links s1 = st_links s \<and> st_touched s1 = st_touched s \<and> administered s1 = administered s" for t s1
    by (auto simp: st_time_def administered_def split: list.splits)
  have conn: "connect_current C name d = (Inr u, d') \<Longrightarrow> gc_valid_name C name" for C name d d' u
    by (auto simp: connect_current_def split: prod.splits sum.splits dest: pool_valid)
  have gone: "st_links s' = (st_links s)(token := None)"
    using assms
    by (auto simp: open_routes_def export_download_def links_redeem_def on_dbs_def touch_def fun_upd_idem
        split: option.splits prod.splits sum.splits DbError.splits if_splits dest!: time)
  then have "links_redeem token s' = (None, s')"
    by (simp add: links_redeem_def)
  then have "open_routes X (R_export_download token) s' = (Inl (not_found ''this export link is unknown, used or expired''), s')"
    by (simp add: open_routes_def export_download_def)
  moreover have "administered s' = administered s"
    using assms
    by (auto simp: open_routes_def export_download_def links_redeem_def on_dbs_def touch_def administered_def
        split: option.splits prod.splits sum.splits DbError.splits if_splits dest!: time)
  moreover have "case r of
      Inl _ \<Rightarrow> st_touched s' = st_touched s
    | Inr _ \<Rightarrow> (\<exists>l. st_links s token = Some l \<and> fst (st_time s) - lk_issued l < LINK_LIFE \<and>
                 st_touched s' = st_touched s @ [lk_database l] \<and> gc_valid_name (ax_config X) (lk_database l))"
    using assms
    by (auto simp: open_routes_def export_download_def links_redeem_def on_dbs_def touch_def
        split: option.splits prod.splits sum.splits DbError.splits if_splits dest!: time conn)
  ultimately show ?thesis
    using gone by blast
qed

text \<open>A link to an archive is for one download: it was followed only within a minute of its issue, to the database it
  was issued for, and after it the link is gone, however the download went, so that the next one is refused.\<close>

theorem export_link_is_spent:
  "case open_routes X (R_export_download token) s of (r, s') \<Rightarrow>
     st_links s' = (st_links s)(token := None) \<and> administered s' = administered s \<and>
     open_routes X (R_export_download token) s' = (Inl (not_found ''this export link is unknown, used or expired''), s') \<and>
     (case r of
        Inl _ \<Rightarrow> st_touched s' = st_touched s
      | Inr _ \<Rightarrow> (\<exists>l. st_links s token = Some l \<and> fst (st_time s) - lk_issued l < LINK_LIFE \<and>
                  st_touched s' = st_touched s @ [lk_database l] \<and> gc_valid_name (ax_config X) (lk_database l)))"
  using export_download_spends [of X token s] by (simp split: prod.split)

end
