(* ===== verification/Gateway_Queries.thy ===== *)
theory Gateway_Queries
  imports Gateway_Rows
begin

text \<open>
  The queries of a capture database: \<^verbatim>\<open>crates/wiretap-backend/src/sql.rs\<close>. The text and the parameters of
  each, the cursor of a replay, and what is made of the rows.

  \<^verbatim>\<open>format!\<close> gives fragments: literal text of this file, the number of a placeholder, a number. PostgreSQL is a
  parameter, a function of the fragments and the parameters; base64 is a library, one too. A timestamp the server
  sends as a \<^verbatim>\<open>float8\<close> of microseconds is taken for the whole number it stands for.
\<close>

section \<open>Errors and parameters\<close>

datatype QueryError = Query_BadRequest string | Query_Database string

definition refused_for_the_request :: "string option \<Rightarrow> bool" where
  "refused_for_the_request code =
     (case code of None \<Rightarrow> False | Some c \<Rightarrow> take 2 c = ''22'' \<or> c = ''57014'' \<or> c = ''42501'')"

definition QueryError_postgres :: "string \<Rightarrow> string option \<Rightarrow> QueryError" where
  "QueryError_postgres message code = (if refused_for_the_request code then Query_BadRequest message else Query_Database message)"

datatype sql_arg = Arg_text string | Arg_int4 int | Arg_bool bool | Arg_float int

datatype frag = Lit string | Par nat | Num int | Flt string

type_synonym sql = "frag list \<times> sql_arg list"

definition args_add :: "sql_arg \<Rightarrow> sql_arg list \<Rightarrow> nat \<times> sql_arg list" where
  "args_add v args = (length args + 1, args @ [v])"

section \<open>Clauses\<close>

definition DEFAULT_PROTOCOL :: Protocol where "DEFAULT_PROTOCOL = P_Can"

definition NOT_REMOTE :: string where "NOT_REMOTE = '' AND flags & 1 = 0''"

definition EXTENDED :: string where "EXTENDED = ''flags & 8 <> 0''"

text \<open>\<open>ps\<close> is \<^verbatim>\<open>Protocol::as_str\<close>.\<close>

definition protocol_clause :: "(Protocol \<Rightarrow> string) \<Rightarrow> Protocol option \<Rightarrow> sql_arg list \<Rightarrow> sql" where
  "protocol_clause ps protocol args =
     (let (n, args) = args_add (Arg_text (ps (case protocol of Some p \<Rightarrow> p | None \<Rightarrow> DEFAULT_PROTOCOL))) args
      in ([Lit ''WHERE protocol = $'', Par n, Lit ''::text''], args))"

definition extended_clause :: "bool option \<Rightarrow> sql_arg list \<Rightarrow> sql" where
  "extended_clause is_extended args =
     (case is_extended of
        None \<Rightarrow> ([], args)
      | Some ext \<Rightarrow> (let (n, args) = args_add (Arg_bool ext) args in ([Lit ('' AND ('' @ EXTENDED @ '') = $''), Par n, Lit ''::bool''], args)))"

definition time_bound :: "string \<Rightarrow> string option \<Rightarrow> sql_arg list \<Rightarrow> sql" where
  "time_bound cmp bound args =
     (case bound of
        None \<Rightarrow> ([], args)
      | Some s \<Rightarrow> (let (n, args) = args_add (Arg_text s) args in ([Lit ('' AND ts '' @ cmp @ '' ($''), Par n, Lit ''::text)::timestamptz''], args)))"

definition time_clause :: "string option \<Rightarrow> string option \<Rightarrow> sql_arg list \<Rightarrow> sql" where
  "time_clause start_time end_time args =
     (let (a, args) = time_bound ''>='' start_time args; (b, args) = time_bound ''<'' end_time args in (a @ b, args))"

record FrameFilter =
  ff_protocol :: "Protocol option"
  ff_frame_id :: u32
  ff_is_extended :: "bool option"
  ff_start_time :: "string option"
  ff_end_time :: "string option"

definition where_clause :: "(Protocol \<Rightarrow> string) \<Rightarrow> FrameFilter \<Rightarrow> sql_arg list \<Rightarrow> sql" where
  "where_clause ps f args =
     (let (p, args) = protocol_clause ps (ff_protocol f) args;
          (i, args) = args_add (Arg_int4 (sint (ff_frame_id f))) args;
          (e, args) = extended_clause (ff_is_extended f) args;
          (t, args) = time_clause (ff_start_time f) (ff_end_time f) args
      in (p @ [Lit '' AND id = $'', Par i, Lit ''::int4''] @ e @ t @ [Lit NOT_REMOTE], args))"

section \<open>Texts\<close>

definition byte_changes_sql :: "(Protocol \<Rightarrow> string) \<Rightarrow> FrameFilter \<Rightarrow> u8 \<Rightarrow> nat option \<Rightarrow> sql" where
  "byte_changes_sql ps f byte_index limit =
     (let (b, args) = args_add (Arg_int4 (uint byte_index)) []; (w, args) = where_clause ps f args
      in ([Lit (''WITH ordered_frames AS (SELECT ts, public.get_byte_safe(data_bytes, $''), Par b,
           Lit (''::int4) AS curr_byte, LAG(public.get_byte_safe(data_bytes, $''), Par b,
           Lit (''::int4)) OVER (ORDER BY ts) AS prev_byte FROM public.capture_frame '')] @ w @
          [Lit ('' ORDER BY ts) SELECT (EXTRACT(EPOCH FROM ts) * 1000000)::float8 AS timestamp_us, prev_byte, curr_byte '' @
                ''FROM ordered_frames WHERE prev_byte IS NOT NULL AND curr_byte IS NOT NULL '' @
                ''AND prev_byte IS DISTINCT FROM curr_byte ORDER BY ts LIMIT ''), Num (int (case limit of Some n \<Rightarrow> n | None \<Rightarrow> 10000))], args))"

definition frame_changes_sql :: "(Protocol \<Rightarrow> string) \<Rightarrow> FrameFilter \<Rightarrow> nat option \<Rightarrow> sql" where
  "frame_changes_sql ps f limit =
     (let (w, args) = where_clause ps f []
      in ([Lit (''WITH ordered_frames AS (SELECT ts, data_bytes, LAG(data_bytes) OVER (ORDER BY ts) AS prev_data FROM public.capture_frame '')] @ w @
          [Lit ('' ORDER BY ts) SELECT (EXTRACT(EPOCH FROM ts) * 1000000)::float8 AS timestamp_us, prev_data, data_bytes '' @
                ''FROM ordered_frames WHERE prev_data IS NOT NULL AND prev_data IS DISTINCT FROM data_bytes ORDER BY ts LIMIT ''),
           Num (int (case limit of Some n \<Rightarrow> n | None \<Rightarrow> 10000))], args))"

record MirrorValidationParams =
  mv_protocol :: "Protocol option"
  mv_mirror_frame_id :: u32
  mv_source_frame_id :: u32
  mv_is_extended :: "bool option"
  mv_tolerance_ms :: u32
  mv_start_time :: "string option"
  mv_end_time :: "string option"
  mv_limit :: "nat option"

definition mirror_validation_sql :: "(Protocol \<Rightarrow> string) \<Rightarrow> MirrorValidationParams \<Rightarrow> sql" where
  "mirror_validation_sql ps p =
     (let (mirror, args) = args_add (Arg_int4 (sint (mv_mirror_frame_id p))) [];
          (source, args) = args_add (Arg_int4 (sint (mv_source_frame_id p))) args;
          (tolerance, args) = args_add (Arg_int4 (sint (mv_tolerance_ms p))) args;
          (proto, args) = protocol_clause ps (mv_protocol p) args;
          (e, args) = extended_clause (mv_is_extended p) args;
          (t, args) = time_clause (mv_start_time p) (mv_end_time p) args;
          extra = e @ t
      in ([Lit ''WITH mirror_frames AS (SELECT ts, data_bytes FROM public.capture_frame ''] @ proto @
          [Lit '' AND id = $'', Par mirror, Lit ''::int4''] @ extra @
          [Lit NOT_REMOTE, Lit ''), source_frames AS (SELECT ts, data_bytes FROM public.capture_frame ''] @ proto @
          [Lit '' AND id = $'', Par source, Lit ''::int4''] @ extra @
          [Lit NOT_REMOTE,
           Lit ('') SELECT (EXTRACT(EPOCH FROM m.ts) * 1000000)::float8 AS mirror_ts, '' @
                ''(EXTRACT(EPOCH FROM s.ts) * 1000000)::float8 AS source_ts, '' @
                ''m.data_bytes AS mirror_payload, s.data_bytes AS source_payload FROM mirror_frames m '' @
                ''JOIN source_frames s ON ABS(EXTRACT(EPOCH FROM (m.ts - s.ts)) * 1000) < $''), Par tolerance,
           Lit ''::int4 WHERE m.data_bytes IS DISTINCT FROM s.data_bytes ORDER BY m.ts LIMIT '',
           Num (int (case mv_limit p of Some n \<Rightarrow> n | None \<Rightarrow> 10000))], args))"

text \<open>The three queries of \<^verbatim>\<open>mux_statistics\<close> share their parameters.\<close>

definition mux_source :: "frag list \<Rightarrow> u8 \<Rightarrow> nat \<Rightarrow> frag list" where
  "mux_source w mux limit =
     [Lit ''SELECT data_bytes FROM public.capture_frame ''] @ w @
     [Lit '' AND octet_length(data_bytes) > '', Num (uint mux), Lit '' ORDER BY ts LIMIT '', Num (int limit)]"

definition mux_statistics_sql :: "(Protocol \<Rightarrow> string) \<Rightarrow> FrameFilter \<Rightarrow> u8 \<Rightarrow> nat \<Rightarrow> nat option \<Rightarrow> frag list list \<times> sql_arg list" where
  "mux_statistics_sql ps f mux plen limit =
     (let (w, args) = where_clause ps f [];
          src = mux_source w mux (case limit of Some n \<Rightarrow> n | None \<Rightarrow> 500000);
          count = [Lit ''SELECT public.get_byte_safe(data_bytes, '', Num (uint mux),
                   Lit '')::int4 AS mux_value, COUNT(*)::int8 AS frame_count FROM (''] @ src @ [Lit '') s GROUP BY 1 ORDER BY 1''];
          bytes = [Lit ''SELECT public.get_byte_safe(data_bytes, '', Num (uint mux),
                   Lit ('')::int4 AS mux_value, b.idx::int4 AS byte_index, '' @
                        ''MIN(public.get_byte_safe(data_bytes, b.idx))::int4 AS min, '' @
                        ''MAX(public.get_byte_safe(data_bytes, b.idx))::int4 AS max, '' @
                        ''AVG(public.get_byte_safe(data_bytes, b.idx))::float8 AS avg, '' @
                        ''COUNT(DISTINCT public.get_byte_safe(data_bytes, b.idx))::int8 AS distinct_count, '' @
                        ''COUNT(public.get_byte_safe(data_bytes, b.idx))::int8 AS sample_count FROM ('')] @ src @
                  [Lit '') s CROSS JOIN generate_series('', Num (uint mux + 1), Lit '', '', Num (int plen - 1),
                   Lit ('') AS b(idx) GROUP BY 1, 2 HAVING COUNT(public.get_byte_safe(data_bytes, b.idx)) > 0 ORDER BY 1, 2'')];
          words = [Lit (''SELECT mux_value::int4, start_byte::int4, MIN(le_val)::int4 AS le_min, MAX(le_val)::int4 AS le_max, '' @
                        ''AVG(le_val)::float8 AS le_avg, COUNT(DISTINCT le_val)::int8 AS le_distinct, '' @
                        ''MIN(be_val)::int4 AS be_min, MAX(be_val)::int4 AS be_max, '' @
                        ''AVG(be_val)::float8 AS be_avg, COUNT(DISTINCT be_val)::int8 AS be_distinct '' @
                        ''FROM (SELECT public.get_byte_safe(data_bytes, ''), Num (uint mux),
                   Lit ('') AS mux_value, w.idx AS start_byte, public.get_byte_safe(data_bytes, w.idx) | '' @
                        ''(public.get_byte_safe(data_bytes, w.idx + 1) << 8) AS le_val, '' @
                        ''(public.get_byte_safe(data_bytes, w.idx) << 8) | '' @
                        ''public.get_byte_safe(data_bytes, w.idx + 1) AS be_val FROM ('')] @ src @
                  [Lit '') s CROSS JOIN generate_series('', Num (uint mux + 1), Lit '', '', Num (int plen - 2),
                   Lit '', 2) AS w(idx)) t GROUP BY 1, 2 HAVING COUNT(le_val) > 0 ORDER BY 1, 2'']
      in ([count, bytes, words], args))"

definition first_last_sql :: "(Protocol \<Rightarrow> string) \<Rightarrow> FrameFilter \<Rightarrow> frag list list \<times> sql_arg list" where
  "first_last_sql ps f =
     (let (w, args) = where_clause ps f [];
          select = Lit ''SELECT (EXTRACT(EPOCH FROM ts) * 1000000)::float8 AS timestamp_us, data_bytes FROM public.capture_frame ''
      in ([[select] @ w @ [Lit '' ORDER BY ts ASC LIMIT 1''], [select] @ w @ [Lit '' ORDER BY ts DESC LIMIT 1''],
           [Lit ''SELECT COUNT(*) AS count FROM public.capture_frame ''] @ w], args))"

definition frequency_sql :: "(Protocol \<Rightarrow> string) \<Rightarrow> FrameFilter \<Rightarrow> u32 \<Rightarrow> nat option \<Rightarrow> sql" where
  "frequency_sql ps f bucket_size_ms limit =
     (let (w, args) = where_clause ps f []; bucket_us = uint bucket_size_ms * 1000
      in ([Lit ''SELECT (trunc((EXTRACT(EPOCH FROM ts) * 1000000) / '', Num bucket_us, Lit '') * '', Num bucket_us,
           Lit ('')::float8 AS bucket_start_us, COUNT(*)::int8 AS frame_count, MIN(dt_us)::float8 AS min_interval_us, '' @
                ''MAX(dt_us)::float8 AS max_interval_us, AVG(dt_us)::float8 AS avg_interval_us '' @
                ''FROM (SELECT ts, EXTRACT(EPOCH FROM ts - LAG(ts) OVER (ORDER BY ts)) * 1000000 AS dt_us '' @
                ''FROM (SELECT ts FROM public.capture_frame '')] @ w @
          [Lit '' ORDER BY ts LIMIT '', Num (int (case limit of Some n \<Rightarrow> n | None \<Rightarrow> 500000)),
           Lit '') f) s WHERE dt_us IS NOT NULL GROUP BY 1 ORDER BY 1''], args))"

definition distribution_sql :: "(Protocol \<Rightarrow> string) \<Rightarrow> FrameFilter \<Rightarrow> u8 \<Rightarrow> sql" where
  "distribution_sql ps f byte_index =
     (let (b, args) = args_add (Arg_int4 (uint byte_index)) []; (w, args) = where_clause ps f args
      in ([Lit ''SELECT public.get_byte_safe(data_bytes, $'', Par b, Lit ''::int4) AS value, COUNT(*) AS count FROM public.capture_frame ''] @ w @
          [Lit '' GROUP BY value ORDER BY count DESC''], args))"

text \<open>\<open>threshold\<close> is the number as \<^verbatim>\<open>{:?}\<close> writes it.\<close>

definition gap_analysis_sql :: "(Protocol \<Rightarrow> string) \<Rightarrow> FrameFilter \<Rightarrow> string \<Rightarrow> nat option \<Rightarrow> sql" where
  "gap_analysis_sql ps f threshold limit =
     (let (w, args) = where_clause ps f []
      in ([Lit (''SELECT (EXTRACT(EPOCH FROM prev_ts) * 1000000)::float8 AS gap_start_us, '' @
                ''(EXTRACT(EPOCH FROM ts) * 1000000)::float8 AS gap_end_us, '' @
                ''(EXTRACT(EPOCH FROM ts - prev_ts) * 1000)::float8 AS duration_ms '' @
                ''FROM (SELECT ts, LAG(ts) OVER (ORDER BY ts) AS prev_ts FROM (SELECT ts FROM public.capture_frame '')] @ w @
          [Lit '') f) s WHERE prev_ts IS NOT NULL AND (EXTRACT(EPOCH FROM ts - prev_ts) * 1000)::float8 > '', Flt threshold,
           Lit '' ORDER BY duration_ms DESC LIMIT '', Num (int (case limit of Some n \<Rightarrow> n | None \<Rightarrow> 10000))], args))"

definition pattern_search_sql :: "(Protocol \<Rightarrow> string) \<Rightarrow> Protocol option \<Rightarrow> string option \<Rightarrow> string option \<Rightarrow> sql" where
  "pattern_search_sql ps protocol start_time end_time =
     (let (proto, args) = protocol_clause ps protocol []; (w, args) = time_clause start_time end_time args
      in ([Lit (''SELECT (EXTRACT(EPOCH FROM ts) * 1000000)::float8 AS timestamp_us, id AS frame_id, '' @ EXTENDED @
                '' AS extended, data_bytes FROM public.capture_frame '')] @ proto @ w @ [Lit '' ORDER BY ts''], args))"

definition inventory_sql :: "(Protocol \<Rightarrow> string) \<Rightarrow> bool \<Rightarrow> Protocol option \<Rightarrow> string option \<Rightarrow> string option \<Rightarrow> sql" where
  "inventory_sql ps rollup protocol start_time end_time =
     (let (proto, args) = protocol_clause ps protocol []
      in if start_time = None \<and> end_time = None \<and> rollup
         then ([Lit (''SELECT id, extended, sum(frame_count)::int8 AS cnt, '' @
                     ''(EXTRACT(EPOCH FROM min(first_ts)) * 1000000)::float8 AS first_us, '' @
                     ''(EXTRACT(EPOCH FROM max(last_ts)) * 1000000)::float8 AS last_us, '' @
                     ''max(max_dlc)::int4 AS max_dlc FROM public.capture_frame_hourly '')] @ proto @
               [Lit '' GROUP BY id, extended ORDER BY id, extended''], args)
         else (let (w, args) = time_clause start_time end_time args
               in ([Lit (''SELECT id, '' @ EXTENDED @ '' AS extended, COUNT(*)::int8 AS cnt, '' @
                         ''(EXTRACT(EPOCH FROM MIN(ts)) * 1000000)::float8 AS first_us, '' @
                         ''(EXTRACT(EPOCH FROM MAX(ts)) * 1000000)::float8 AS last_us, '' @
                         ''MAX(dlc)::int4 AS max_dlc FROM public.capture_frame '')] @ proto @ w @
                   [Lit NOT_REMOTE, Lit '' GROUP BY 1, 2 ORDER BY 1, 2''], args)))"

definition time_bounds_sql :: "(Protocol \<Rightarrow> string) \<Rightarrow> bool \<Rightarrow> Protocol option \<Rightarrow> sql" where
  "time_bounds_sql ps rollup protocol =
     (let (lo, hi, table) = (if rollup then (''min(first_ts)'', ''max(last_ts)'', ''public.capture_frame_hourly'')
                             else (''min(ts)'', ''max(ts)'', ''public.capture_frame''));
          (proto, args) = protocol_clause ps protocol []
      in ([Lit (''SELECT (EXTRACT(EPOCH FROM '' @ lo @ '') * 1000000)::float8 AS min_us, (EXTRACT(EPOCH FROM '' @ hi @
                '') * 1000000)::float8 AS max_us FROM '' @ table @ '' '')] @ proto, args))"

definition payloads_sql :: "(Protocol \<Rightarrow> string) \<Rightarrow> FrameFilter \<Rightarrow> nat option \<Rightarrow> sql" where
  "payloads_sql ps f limit =
     (let (w, args) = where_clause ps f []
      in ([Lit ''SELECT data_bytes FROM public.capture_frame ''] @ w @
          [Lit '' ORDER BY ts DESC LIMIT '', Num (int (case limit of Some n \<Rightarrow> n | None \<Rightarrow> 1000))], args))"

text \<open>A batch of a replay: \<open>from\<close> is the cursor's timestamp, \<open>limit\<close> with the rows to skip added.\<close>

definition frames_sql :: "(Protocol \<Rightarrow> string) \<Rightarrow> string option \<Rightarrow> string option \<Rightarrow> Protocol option \<Rightarrow> int option \<Rightarrow> nat \<Rightarrow> sql" where
  "frames_sql ps start_time end_time protocol from limit =
     (let (proto, args) = protocol_clause ps protocol [];
          (c, args) = (case from of
             None \<Rightarrow> ([], args)
           | Some ts_us \<Rightarrow> (let (n, args) = args_add (Arg_float ts_us) args in ([Lit '' AND ts >= to_timestamp($'', Par n, Lit ''::float8 / 1000000.0)''], args)));
          (w, args) = time_clause start_time end_time args
      in ([Lit (''SELECT (EXTRACT(EPOCH FROM ts) * 1000000)::float8 AS ts_us, id, flags, dlc, data_bytes, bus, crc_valid '' @
                ''FROM public.capture_frame '')] @ proto @ c @ w @ [Lit '' ORDER BY ts ASC LIMIT '', Num (int limit)], args))"

section \<open>What is made of the rows\<close>

definition diff_indices :: "u8 list \<Rightarrow> u8 list \<Rightarrow> nat list" where
  "diff_indices a b =
     (let at = (\<lambda>xs i. if i < length xs then xs ! i else 0) in
      filter (\<lambda>i. at a i \<noteq> at b i) [0..<max (length a) (length b)])"

definition payload_len :: "(u8 \<Rightarrow> bool \<Rightarrow> nat) \<Rightarrow> Protocol \<Rightarrow> u16 \<Rightarrow> nat" where
  "payload_len dlc_to_len protocol dlc =
     (case protocol of P_Can \<Rightarrow> dlc_to_len (ucast dlc) True | P_ModbusRtu \<Rightarrow> unat dlc | P_Serial \<Rightarrow> unat dlc)"

text \<open>\<^verbatim>\<open>pattern_search\<close> over the rows that stream in, until one cannot be fetched.\<close>

definition match_positions :: "u8 list \<Rightarrow> u8 list \<Rightarrow> u8 list \<Rightarrow> nat list" where
  "match_positions pat pmask d =
     filter (\<lambda>start. list_all (\<lambda>j. and (d ! (start + j)) (pmask ! j) = and (pat ! j) (pmask ! j)) [0..<length pat])
       [0..<length d - length pat + 1]"

record PatternSearchResult =
  pr_timestamp_us :: int
  pr_frame_id :: u32
  pr_is_extended :: bool
  pr_payload :: "u8 list"
  pr_match_positions :: "nat list"

fun search_rows :: "u8 list \<Rightarrow> u8 list \<Rightarrow> nat \<Rightarrow> (QueryError, FrameRow) result list \<Rightarrow> nat \<Rightarrow> PatternSearchResult list
    \<Rightarrow> (QueryError, PatternSearchResult list \<times> nat) result" where
  "search_rows pat pmask result_limit [] scanned results = Inr (results, scanned)"
| "search_rows pat pmask result_limit (Inl e # rs) scanned results = Inl e"
| "search_rows pat pmask result_limit (Inr r # rs) scanned results =
     (if length (fr_data r) < length pat then search_rows pat pmask result_limit rs (scanned + 1) results
      else (let ms = match_positions pat pmask (fr_data r) in
            if ms \<noteq> []
            then (let results = results @ [\<lparr> pr_timestamp_us = fr_ts_us r, pr_frame_id = fr_id r,
                        pr_is_extended = (and (fr_flags r) 8 \<noteq> 0), pr_payload = fr_data r, pr_match_positions = ms \<rparr>]
                  in if result_limit \<le> length results then Inr (results, scanned + 1)
                     else search_rows pat pmask result_limit rs (scanned + 1) results)
            else search_rows pat pmask result_limit rs (scanned + 1) results))"

definition pattern_search :: "u8 list \<Rightarrow> u8 list \<Rightarrow> nat option \<Rightarrow> (QueryError, (QueryError, FrameRow) result list) result
    \<Rightarrow> (QueryError, PatternSearchResult list \<times> nat) result" where
  "pattern_search pat pmask limit answer =
     (if length pat \<noteq> length pmask then Inl (Query_BadRequest ''Pattern and mask must have the same length'')
      else if pat = [] then Inl (Query_BadRequest ''Pattern must not be empty'')
      else case answer of
             Inl e \<Rightarrow> Inl e
           | Inr rs \<Rightarrow> search_rows pat pmask (case limit of Some n \<Rightarrow> n | None \<Rightarrow> 10000) rs 0 [])"

section \<open>The cursor of a replay\<close>

text \<open>\<open>b64\<close> and \<open>unb64\<close> are \<^verbatim>\<open>URL_SAFE_NO_PAD\<close>, the second with \<^verbatim>\<open>String::from_utf8\<close>.\<close>

record cursor_lib =
  cu_b64 :: "string \<Rightarrow> string"
  cu_unb64 :: "string \<Rightarrow> string option"

definition parse_unsigned :: "nat \<Rightarrow> string \<Rightarrow> nat option" where
  "parse_unsigned bound s =
     (let ds = (if s \<noteq> [] \<and> hd s = CHR ''+'' then tl s else s) in
      if ds = [] \<or> \<not> all_digits ds \<or> bound \<le> dec_value ds then None else Some (dec_value ds))"

definition parse_i64 :: "string \<Rightarrow> int option" where
  "parse_i64 s =
     (if s \<noteq> [] \<and> hd s = CHR ''-''
      then (if tl s = [] \<or> \<not> all_digits (tl s) \<or> 2 ^ 63 < dec_value (tl s) then None else Some (- int (dec_value (tl s))))
      else map_option int (parse_unsigned (2 ^ 63) s))"

definition encode_cursor :: "cursor_lib \<Rightarrow> int \<Rightarrow> nat \<Rightarrow> string" where
  "encode_cursor C ts_us skip = cu_b64 C (show_int ts_us @ CHR '':'' # dec_digits skip)"

definition decode_cursor :: "cursor_lib \<Rightarrow> string \<Rightarrow> (string, int \<times> nat) result" where
  "decode_cursor C cursor =
     (case cu_unb64 C cursor of
        None \<Rightarrow> Inl ''bad cursor''
      | Some s \<Rightarrow>
          (case split_once (CHR '':'') s of
             None \<Rightarrow> Inl ''bad cursor''
           | Some (ts, skip) \<Rightarrow>
               (case (parse_i64 ts, parse_unsigned (2 ^ 32) skip) of
                  (Some t, Some k) \<Rightarrow> Inr (t, k)
                | _ \<Rightarrow> Inl ''bad cursor'')))"

record FrameBatchRow =
  fb_ts_us :: int
  fb_id :: u32
  fb_flags :: u8
  fb_dlc :: u16
  fb_len :: nat
  fb_bus :: u8
  fb_dir :: string
  fb_data_hex :: string
  fb_crc_valid :: "bool option"

text \<open>\<open>fb_flags\<close> are the flags the answer spells out one by one.\<close>

definition batch_row :: "('f, 'k) gatelib \<Rightarrow> FrameRow \<Rightarrow> FrameBatchRow" where
  "batch_row G r =
     \<lparr> fb_ts_us = fr_ts_us r, fb_id = fr_id r, fb_flags = fr_flags r, fb_dlc = fr_dlc r, fb_len = length (fr_data r),
       fb_bus = fr_bus r, fb_dir = (if and (fr_flags r) (gl_TX G) \<noteq> 0 then ''tx'' else ''rx''), fb_data_hex = gl_hex G (fr_data r),
       fb_crc_valid = fr_crc_valid r \<rparr>"

record replay =
  rp_start :: "string option"
  rp_end :: "string option"
  rp_protocol :: "Protocol option"
  rp_limit :: nat

text \<open>\<open>run\<close> is the database. The skip is a \<^verbatim>\<open>u32\<close>.\<close>

definition frames_batch :: "('f, 'k) gatelib \<Rightarrow> cursor_lib \<Rightarrow> (sql \<Rightarrow> (QueryError, FrameRow list) result) \<Rightarrow> replay \<Rightarrow> string option
    \<Rightarrow> (QueryError, FrameBatchRow list \<times> string option) result" where
  "frames_batch G C run q after =
     (case (case after of None \<Rightarrow> Inr None | Some c \<Rightarrow> map_sum Query_BadRequest Some (decode_cursor C c)) of
        Inl e \<Rightarrow> Inl e
      | Inr cursor \<Rightarrow>
          (let skip = (case cursor of Some (_, s) \<Rightarrow> s | None \<Rightarrow> 0);
               want = rp_limit q + skip in
           case run (frames_sql (proto_as_str (gl_wire G)) (rp_start q) (rp_end q) (rp_protocol q) (map_option fst cursor) want) of
             Inl e \<Rightarrow> Inl e
           | Inr rs \<Rightarrow>
               (let exhausted = length rs < want; frames = map (batch_row G) (drop skip rs) in
                Inr (frames,
                  if exhausted \<or> frames = [] then None
                  else (let last_ts = fb_ts_us (last frames);
                            ties = length (takeWhile (\<lambda>f. fb_ts_us f = last_ts) (rev frames));
                            carried = (case cursor of Some (ts, s) \<Rightarrow> if ts = last_ts then s else 0 | None \<Rightarrow> 0)
                        in Some (encode_cursor C last_ts ((ties + carried) mod 2 ^ 32)))))))"

text \<open>A client that follows the cursor, \<open>n\<close> batches at most: \<open>None\<close> where that is not enough.\<close>

fun replay_all :: "nat \<Rightarrow> ('f, 'k) gatelib \<Rightarrow> cursor_lib \<Rightarrow> (sql \<Rightarrow> (QueryError, FrameRow list) result) \<Rightarrow> replay \<Rightarrow> string option
    \<Rightarrow> (QueryError, FrameBatchRow list) result option" where
  "replay_all 0 G C run q after = None"
| "replay_all (Suc n) G C run q after =
     (case frames_batch G C run q after of
        Inl e \<Rightarrow> Some (Inl e)
      | Inr (frames, None) \<Rightarrow> Some (Inr frames)
      | Inr (frames, Some c) \<Rightarrow> map_option (map_sum id (\<lambda>rest. frames @ rest)) (replay_all n G C run q (Some c)))"

section \<open>A replay shows every frame once\<close>

text \<open>What is used of PostgreSQL and base64: the answer to a batch's query is the first rows of the window in the order of
  their timestamps, from the cursor's on, those of one timestamp in the same order every time; a cursor decodes.\<close>

definition replays :: "('f, 'k) gatelib \<Rightarrow> cursor_lib \<Rightarrow> (sql \<Rightarrow> (QueryError, FrameRow list) result) \<Rightarrow> replay \<Rightarrow> FrameRow list \<Rightarrow> bool" where
  "replays G C run q tbl \<longleftrightarrow>
     (\<forall>s. cu_unb64 C (cu_b64 C s) = Some s) \<and>
     (\<forall>from n. (case from of None \<Rightarrow> True | Some t \<Rightarrow> t \<in> fr_ts_us ` set tbl) \<longrightarrow>
        run (frames_sql (proto_as_str (gl_wire G)) (rp_start q) (rp_end q) (rp_protocol q) from n) =
          Inr (take n (filter (\<lambda>r. case from of None \<Rightarrow> True | Some t \<Rightarrow> t \<le> fr_ts_us r) tbl)))"

lemma parse_unsigned_digits: "n < bound \<Longrightarrow> parse_unsigned bound (dec_digits n) = Some n"
  using dec_digits_all [of n] dec_digits_hd(1) [of n] dec_digits_not_plus [of n] by (simp add: parse_unsigned_def dec_value_digits)

lemma dec_digits_not_minus: "hd (dec_digits n) \<noteq> CHR ''-''"
  using no_sign(2) [of n "tl (dec_digits n)"] dec_digits_hd(1) [of n] by (metis list.collapse)

lemma parse_i64_show: "- (2 ^ 63) \<le> i \<Longrightarrow> i < 2 ^ 63 \<Longrightarrow> parse_i64 (show_int i) = Some i"
  using dec_digits_all [of "nat (- i)"] dec_digits_hd(1) dec_digits_not_minus [of "nat i"]
  by (auto simp: parse_i64_def show_int_def dec_value_digits parse_unsigned_digits nat_le_iff nat_less_iff)

lemma no_colon: "CHR '':'' \<notin> set (show_int i)"
proof -
  have "CHR '':'' \<notin> set (dec_digits n)" for n
  proof -
    have "to_digit 10 (CHR '':'') = None"
      by (simp add: to_digit_def)
    then show ?thesis
      using dec_digits_all [of n] by (auto simp: all_digits_def list_all_iff)
  qed
  then show ?thesis
    by (simp add: show_int_def)
qed

text \<open>A cursor that is handed out is read back as it was made.\<close>

lemma cursor_decodes:
  assumes "\<forall>s. cu_unb64 C (cu_b64 C s) = Some s" "- (2 ^ 63) \<le> t" "t < 2 ^ 63" "k < 2 ^ 32"
  shows "decode_cursor C (encode_cursor C t k) = Inr (t, k)"
  using assms split_once_append [OF no_colon [of t]]
  by (simp add: decode_cursor_def encode_cursor_def parse_i64_show parse_unsigned_digits)

text \<open>Where a cursor stands: after \<open>before\<close> and \<open>at\<close>, those of its timestamp.\<close>

definition stands :: "FrameRow list \<Rightarrow> (int \<times> nat) option \<Rightarrow> FrameRow list \<Rightarrow> FrameRow list \<Rightarrow> FrameRow list \<Rightarrow> bool" where
  "stands tbl cursor bef at rest \<longleftrightarrow>
     tbl = bef @ at @ rest \<and>
     (case cursor of
        None \<Rightarrow> bef = [] \<and> at = []
      | Some (t, k) \<Rightarrow> at \<noteq> [] \<and> k = length at \<and> (\<forall>r \<in> set bef. fr_ts_us r < t) \<and> (\<forall>r \<in> set at. fr_ts_us r = t) \<and> (\<forall>r \<in> set rest. t \<le> fr_ts_us r))"

lemma stands_select:
  assumes "stands tbl cursor bef at rest"
  shows "filter (\<lambda>r. case map_option fst cursor of None \<Rightarrow> True | Some t \<Rightarrow> t \<le> fr_ts_us r) tbl = at @ rest"
    "(case cursor of Some (_, s) \<Rightarrow> s | None \<Rightarrow> 0) = length at"
    "case map_option fst cursor of None \<Rightarrow> True | Some t \<Rightarrow> t \<in> fr_ts_us ` set tbl"
proof -
  show "filter (\<lambda>r. case map_option fst cursor of None \<Rightarrow> True | Some t \<Rightarrow> t \<le> fr_ts_us r) tbl = at @ rest"
    using assms by (cases cursor) (auto simp: stands_def filter_empty_conv not_le intro: filter_True)
  show "(case cursor of Some (_, s) \<Rightarrow> s | None \<Rightarrow> 0) = length at"
    using assms by (auto simp: stands_def split: option.splits)
  show "case map_option fst cursor of None \<Rightarrow> True | Some t \<Rightarrow> t \<in> fr_ts_us ` set tbl"
    using assms by (cases cursor; cases at) (auto simp: stands_def)
qed

text \<open>The last timestamp of a page parts it in two.\<close>

lemma page_ties:
  fixes page :: "FrameRow list"
  assumes "sorted (map fr_ts_us page)" "page \<noteq> []"
  obtains xs ys where "page = xs @ ys" "ys \<noteq> []" "\<forall>r \<in> set ys. fr_ts_us r = fr_ts_us (last page)"
    "\<forall>r \<in> set xs. fr_ts_us r < fr_ts_us (last page)"
    "length ys = length (takeWhile (\<lambda>r. fr_ts_us r = fr_ts_us (last page)) (rev page))"
proof -
  let ?P = "\<lambda>r. fr_ts_us r = fr_ts_us (last page)"
  let ?ys = "rev (takeWhile ?P (rev page))" and ?xs = "rev (dropWhile ?P (rev page))"
  have p: "page = ?xs @ ?ys"
    by (metis rev_append rev_rev_ident takeWhile_dropWhile_id)
  have "?P (hd (rev page))"
    using assms(2) by (simp add: hd_rev)
  then have ne: "?ys \<noteq> []"
    using assms(2) by (cases "rev page") auto
  have "fr_ts_us r < fr_ts_us (last page)" if r: "r \<in> set ?xs" for r
  proof -
    have s: "sorted (map fr_ts_us (?xs @ ?ys))"
      using assms(1) p by metis
    have "fr_ts_us r \<le> fr_ts_us (last ?xs)"
    proof -
      obtain zs z where "?xs = zs @ [z]"
        using r by (metis empty_iff list.set(1) rev_exhaust)
      then show ?thesis
        using s r by (auto simp: sorted_append)
    qed
    moreover have "?xs \<noteq> []"
      using r by (intro notI) (simp only: list.set empty_iff)
    then have l: "fr_ts_us (last ?xs) \<noteq> fr_ts_us (last page)" "last ?xs \<in> set ?xs"
      using hd_dropWhile [of ?P "rev page"] by (simp add: last_rev, metis last_in_set)
    moreover have "last page \<in> set ?ys"
      using p ne by (metis last_appendR last_in_set)
    then have "fr_ts_us (last ?xs) \<le> fr_ts_us (last page)"
      using s l(2) by (auto simp: sorted_append)
    ultimately show ?thesis
      by linarith
  qed
  then have lt: "\<forall>r \<in> set ?xs. fr_ts_us r < fr_ts_us (last page)"
    by blast
  have "\<forall>r \<in> set ?ys. ?P r"
    by (auto dest: set_takeWhileD)
  from that [OF p ne this lt length_rev] show ?thesis .
qed

lemma next_cursor:
  assumes "stands tbl cursor bef at rest" "sorted (map fr_ts_us tbl)" "page = take n rest" "page \<noteq> []"
  defines "lt \<equiv> fr_ts_us (last page)"
  defines "k \<equiv> length (takeWhile (\<lambda>r. fr_ts_us r = lt) (rev page)) + (case cursor of Some (ts, s) \<Rightarrow> if ts = lt then s else 0 | None \<Rightarrow> 0)"
  obtains bef' at' where "stands tbl (Some (lt, k)) bef' at' (drop n rest)"
proof -
  have rest: "rest = page @ drop n rest"
    using assms(3) by simp
  have tbl: "tbl = bef @ at @ page @ drop n rest"
    using assms(1) rest by (auto simp: stands_def split: option.splits)
  then have s: "sorted (map fr_ts_us page)" "\<forall>r \<in> set (drop n rest). lt \<le> fr_ts_us r"
    using assms(2,4) by (auto simp: sorted_append lt_def)
  obtain xs ys where p: "page = xs @ ys" "ys \<noteq> []" "\<forall>r \<in> set ys. fr_ts_us r = lt" "\<forall>r \<in> set xs. fr_ts_us r < lt"
      "length ys = length (takeWhile (\<lambda>r. fr_ts_us r = lt) (rev page))"
    using page_ties [OF s(1) assms(4)] unfolding lt_def by metis
  show ?thesis
  proof (cases "\<exists>m. cursor = Some (lt, m)")
    case True
    then have c: "cursor = Some (lt, length at)" "\<forall>r \<in> set rest. lt \<le> fr_ts_us r" "\<forall>r \<in> set bef. fr_ts_us r < lt" "\<forall>r \<in> set at. fr_ts_us r = lt"
      using assms(1) by (auto simp: stands_def)
    then have "xs = []"
      using p(1,4) rest by (metis Un_iff all_not_in_conv leD set_append set_empty)
    then have "k = length (at @ page)" "\<forall>r \<in> set (at @ page). fr_ts_us r = lt"
      using c p by (auto simp: k_def)
    then show ?thesis
      using tbl c s(2) assms(4) by (intro that [of bef "at @ page"]) (simp add: stands_def)
  next
    case False
    have "\<forall>r \<in> set (bef @ at). fr_ts_us r < lt"
    proof (cases cursor)
      case (Some tk)
      moreover obtain t m where "tk = (t, m)"
        by fastforce
      moreover have "last page \<in> set rest"
        using assms(3,4) by (metis in_set_takeD last_in_set)
      ultimately have "t \<le> lt" "t \<noteq> lt" "\<forall>r \<in> set bef. fr_ts_us r < t" "\<forall>r \<in> set at. fr_ts_us r = t"
        using assms(1) False by (auto simp: stands_def lt_def)
      then show ?thesis
        by auto
    qed (use assms(1) in \<open>simp add: stands_def\<close>)
    moreover have "k = length ys"
      using p(5) False by (auto simp: k_def split: option.splits)
    ultimately show ?thesis
      using tbl p s(2) by (intro that [of "bef @ at @ xs" ys]) (auto simp: stands_def)
  qed
qed

text \<open>The cursor a request carries.\<close>

definition carries_cursor :: "cursor_lib \<Rightarrow> string option \<Rightarrow> (int \<times> nat) option \<Rightarrow> bool" where
  "carries_cursor C after cursor \<longleftrightarrow>
     (case after of None \<Rightarrow> cursor = None | Some c \<Rightarrow> (\<exists>x. cursor = Some x \<and> decode_cursor C c = Inr x))"

lemma frames_batch_page:
  assumes "replays G C run q tbl" "stands tbl cursor bef at rest" "carries_cursor C after cursor"
  shows "frames_batch G C run q after =
    Inr (map (batch_row G) (take (rp_limit q) rest),
      if length rest < rp_limit q \<or> take (rp_limit q) rest = [] then None
      else (let page = take (rp_limit q) rest; lt = fr_ts_us (last page)
            in Some (encode_cursor C lt ((length (takeWhile (\<lambda>r. fr_ts_us r = lt) (rev page)) +
                 (case cursor of Some (ts, s) \<Rightarrow> if ts = lt then s else 0 | None \<Rightarrow> 0)) mod 2 ^ 32))))"
proof -
  let ?want = "rp_limit q + length at"
  have run: "run (frames_sql (proto_as_str (gl_wire G)) (rp_start q) (rp_end q) (rp_protocol q) (map_option fst cursor) ?want) =
      Inr (at @ take (rp_limit q) rest)"
    using assms(1) stands_select [OF assms(2)] by (simp add: replays_def)
  have c: "(case after of None \<Rightarrow> Inr None | Some c \<Rightarrow> map_sum Query_BadRequest Some (decode_cursor C c)) = Inr cursor"
    using assms(3) by (auto simp: carries_cursor_def split: option.splits)
  have ties: "length (takeWhile (\<lambda>f. fb_ts_us f = lt) (rev (map (batch_row G) page))) = length (takeWhile (\<lambda>r. fr_ts_us r = lt) (rev page))"
    for page lt
    by (simp add: rev_map takeWhile_map batch_row_def comp_def)
  have lt: "page \<noteq> [] \<Longrightarrow> fb_ts_us (last (map (batch_row G) page)) = fr_ts_us (last page)" for page
    by (simp add: last_map batch_row_def)
  show ?thesis
    unfolding frames_batch_def c
    by (simp add: stands_select(2) [OF assms(2)] run Let_def ties lt del: rev_map)
qed

lemma replay_from:
  assumes "replays G C run q tbl" "sorted (map fr_ts_us tbl)" "length tbl < 2 ^ 32" "0 < rp_limit q"
    and "\<forall>r \<in> set tbl. - (2 ^ 63) \<le> fr_ts_us r \<and> fr_ts_us r < 2 ^ 63"
  shows "stands tbl cursor bef at rest \<Longrightarrow> carries_cursor C after cursor \<Longrightarrow> length rest < n \<Longrightarrow>
    replay_all n G C run q after = Some (Inr (map (batch_row G) rest))"
proof (induction n arbitrary: cursor bef at rest after)
  case (Suc n)
  let ?page = "take (rp_limit q) rest"
  note batch = frames_batch_page [OF assms(1) Suc.prems(1,2)]
  show ?case
  proof (cases "length rest < rp_limit q \<or> ?page = []")
    case True
    then show ?thesis
      using assms(4) batch by auto
  next
    case False
    define lt where "lt = fr_ts_us (last ?page)"
    define k where "k = length (takeWhile (\<lambda>r. fr_ts_us r = lt) (rev ?page)) +
      (case cursor of Some (ts, s) \<Rightarrow> if ts = lt then s else 0 | None \<Rightarrow> 0)"
    obtain bef' at' where st: "stands tbl (Some (lt, k)) bef' at' (drop (rp_limit q) rest)"
      using next_cursor [OF Suc.prems(1) assms(2) refl] False unfolding lt_def k_def by blast
    then have k: "k < 2 ^ 32" "lt \<in> fr_ts_us ` set tbl"
      using assms(3) stands_select(3) [OF st] by (auto simp: stands_def)
    then have "carries_cursor C (Some (encode_cursor C lt k)) (Some (lt, k))"
      using assms(1,5) cursor_decodes [of C lt k] by (auto simp: carries_cursor_def replays_def)
    moreover have "length (drop (rp_limit q) rest) < n"
      using Suc.prems(3) False assms(4) by auto
    ultimately have "replay_all n G C run q (Some (encode_cursor C lt k)) = Some (Inr (map (batch_row G) (drop (rp_limit q) rest)))"
      using Suc.IH [OF st] by blast
    moreover have "frames_batch G C run q after = Inr (map (batch_row G) ?page, Some (encode_cursor C lt k))"
      using batch False unfolding Let_def lt_def [symmetric] k_def [symmetric] using k(1) by simp
    ultimately show ?thesis
      by (simp flip: map_append)
  qed
qed simp


text \<open>Three frames of one timestamp and one later, two to a batch, from a database that reads the query's fragments.\<close>

definition ex_frame :: "int \<Rightarrow> u32 \<Rightarrow> FrameRow" where
  "ex_frame t i =
     \<lparr> fr_ts_us = t, fr_protocol = P_Can, fr_id = i, fr_flags = 0, fr_dlc = 1, fr_data = [7], fr_bus = 0, fr_unit = None,
       fr_func = None, fr_crc_valid = None \<rparr>"

definition ex_table :: "FrameRow list" where
  "ex_table = [ex_frame 5 1, ex_frame 5 2, ex_frame 5 3, ex_frame 9 4]"

definition ex_run :: "sql \<Rightarrow> (QueryError, FrameRow list) result" where
  "ex_run s =
     Inr (take (case last (fst s) of Num n \<Rightarrow> nat n | _ \<Rightarrow> 0)
       (filter (\<lambda>r. case snd s of [_, Arg_float t] \<Rightarrow> t \<le> fr_ts_us r | _ \<Rightarrow> True) ex_table))"

definition ex_replay :: replay where
  "ex_replay = \<lparr> rp_start = None, rp_end = None, rp_protocol = None, rp_limit = 2 \<rparr>"

definition ex_cursor_lib :: cursor_lib where
  "ex_cursor_lib = \<lparr> cu_b64 = id, cu_unb64 = Some \<rparr>"

lemma ex_replays: "replays ref_gatelib ex_cursor_lib ex_run ex_replay ex_table"
  by (auto simp: replays_def ex_cursor_lib_def ex_run_def ex_replay_def frames_sql_def protocol_clause_def args_add_def time_clause_def
      time_bound_def Let_def split: option.splits)


section \<open>No request's text is in a query's\<close>

text \<open>The queries by what they are asked with.\<close>

datatype query =
    Q_byte_changes FrameFilter u8 "nat option"
  | Q_frame_changes FrameFilter "nat option"
  | Q_mirror_validation MirrorValidationParams
  | Q_mux_statistics FrameFilter u8 nat "nat option"
  | Q_first_last FrameFilter
  | Q_frequency FrameFilter u32 "nat option"
  | Q_distribution FrameFilter u8
  | Q_gap_analysis FrameFilter string "nat option"
  | Q_pattern_search "Protocol option" "string option" "string option"
  | Q_inventory bool "Protocol option" "string option" "string option"
  | Q_time_bounds bool "Protocol option"
  | Q_payloads FrameFilter "nat option"
  | Q_frames "string option" "string option" "Protocol option" "int option" nat

definition texts :: "(Protocol \<Rightarrow> string) \<Rightarrow> query \<Rightarrow> frag list list \<times> sql_arg list" where
  "texts ps q =
     (let one = (\<lambda>(fs, args). ([fs], args)) in
      case q of
        Q_byte_changes f b n \<Rightarrow> one (byte_changes_sql ps f b n)
      | Q_frame_changes f n \<Rightarrow> one (frame_changes_sql ps f n)
      | Q_mirror_validation p \<Rightarrow> one (mirror_validation_sql ps p)
      | Q_mux_statistics f mux plen n \<Rightarrow> mux_statistics_sql ps f mux plen n
      | Q_first_last f \<Rightarrow> first_last_sql ps f
      | Q_frequency f b n \<Rightarrow> one (frequency_sql ps f b n)
      | Q_distribution f b \<Rightarrow> one (distribution_sql ps f b)
      | Q_gap_analysis f threshold n \<Rightarrow> one (gap_analysis_sql ps f threshold n)
      | Q_pattern_search p a b \<Rightarrow> one (pattern_search_sql ps p a b)
      | Q_inventory rollup p a b \<Rightarrow> one (inventory_sql ps rollup p a b)
      | Q_time_bounds rollup p \<Rightarrow> one (time_bounds_sql ps rollup p)
      | Q_payloads f n \<Rightarrow> one (payloads_sql ps f n)
      | Q_frames a b p from n \<Rightarrow> one (frames_sql ps a b p from n))"

text \<open>The same fields given, with other values: protocol, id, extended and the times.\<close>

record refill =
  re_protocol :: "Protocol option \<Rightarrow> Protocol option"
  re_id :: "u32 \<Rightarrow> u32"
  re_ext :: "bool \<Rightarrow> bool"
  re_start :: "string \<Rightarrow> string"
  re_end :: "string \<Rightarrow> string"
  re_from :: "int \<Rightarrow> int"

definition refill_filter :: "refill \<Rightarrow> FrameFilter \<Rightarrow> FrameFilter" where
  "refill_filter v f =
     \<lparr> ff_protocol = re_protocol v (ff_protocol f), ff_frame_id = re_id v (ff_frame_id f), ff_is_extended = map_option (re_ext v) (ff_is_extended f),
       ff_start_time = map_option (re_start v) (ff_start_time f), ff_end_time = map_option (re_end v) (ff_end_time f) \<rparr>"

definition refilled :: "refill \<Rightarrow> query \<Rightarrow> query" where
  "refilled v q =
     (let t0 = map_option (re_start v); t1 = map_option (re_end v); f' = refill_filter v in
      case q of
        Q_byte_changes f b n \<Rightarrow> Q_byte_changes (f' f) b n
      | Q_frame_changes f n \<Rightarrow> Q_frame_changes (f' f) n
      | Q_mirror_validation p \<Rightarrow>
          Q_mirror_validation (p\<lparr> mv_protocol := re_protocol v (mv_protocol p), mv_mirror_frame_id := re_id v (mv_mirror_frame_id p),
            mv_source_frame_id := re_id v (mv_source_frame_id p), mv_tolerance_ms := re_id v (mv_tolerance_ms p),
            mv_is_extended := map_option (re_ext v) (mv_is_extended p), mv_start_time := t0 (mv_start_time p), mv_end_time := t1 (mv_end_time p) \<rparr>)
      | Q_mux_statistics f mux plen n \<Rightarrow> Q_mux_statistics (f' f) mux plen n
      | Q_first_last f \<Rightarrow> Q_first_last (f' f)
      | Q_frequency f b n \<Rightarrow> Q_frequency (f' f) b n
      | Q_distribution f b \<Rightarrow> Q_distribution (f' f) b
      | Q_gap_analysis f threshold n \<Rightarrow> Q_gap_analysis (f' f) threshold n
      | Q_pattern_search p a b \<Rightarrow> Q_pattern_search (re_protocol v p) (t0 a) (t1 b)
      | Q_inventory rollup p a b \<Rightarrow> Q_inventory rollup (re_protocol v p) (t0 a) (t1 b)
      | Q_time_bounds rollup p \<Rightarrow> Q_time_bounds rollup (re_protocol v p)
      | Q_payloads f n \<Rightarrow> Q_payloads (f' f) n
      | Q_frames a b p from n \<Rightarrow> Q_frames (t0 a) (t1 b) (re_protocol v p) (map_option (re_from v) from) n)"

text \<open>Every placeholder stands for a parameter.\<close>

definition in_args :: "nat \<Rightarrow> frag \<Rightarrow> bool" where
  "in_args n f = (case f of Par i \<Rightarrow> 0 < i \<and> i \<le> n | _ \<Rightarrow> True)"

lemma in_args_simps [simp]: "in_args n (Lit s)" "in_args n (Num j)" "in_args n (Flt s)" "in_args n (Par i) \<longleftrightarrow> 0 < i \<and> i \<le> n"
  by (simp_all add: in_args_def)

lemma in_args_mono: "list_all (in_args m) fs \<Longrightarrow> m \<le> n \<Longrightarrow> list_all (in_args n) fs"
  by (auto simp: list_all_iff in_args_def split: frag.splits)

text \<open>A clause adds its parameters at the end, numbers its placeholders by them and reads the same whatever the values:
  \<open>n\<close> parameters before, \<open>n'\<close> after.\<close>

definition clause :: "sql \<Rightarrow> sql \<Rightarrow> nat \<Rightarrow> bool" where
  "clause s s' n \<longleftrightarrow> fst s = fst s' \<and> length (snd s) = length (snd s') \<and> n \<le> length (snd s) \<and> list_all (in_args (length (snd s))) (fst s)"

lemma clauses:
  assumes "length args = length args'"
  shows "clause (protocol_clause ps p args) (protocol_clause ps' p' args') (length args)"
    "clause (extended_clause e args) (extended_clause (map_option g e) args') (length args)"
    "clause (time_bound cmp b args) (time_bound cmp (map_option h b) args') (length args)"
  using assms by (auto simp: clause_def protocol_clause_def extended_clause_def time_bound_def args_add_def Let_def split: option.splits)

lemma time_clause_clause:
  assumes "length args = length args'"
  shows "clause (time_clause a b args) (time_clause (map_option g a) (map_option h b) args') (length args)"
  using assms by (auto simp: clause_def time_clause_def time_bound_def args_add_def Let_def split: option.splits)

lemma where_clause_clause:
  assumes "length args = length args'"
  shows "clause (where_clause ps f args) (where_clause ps' (refill_filter v f) args') (length args)"
  using assms
  by (auto simp: clause_def where_clause_def refill_filter_def protocol_clause_def extended_clause_def time_clause_def time_bound_def
      args_add_def Let_def split: option.splits)


section \<open>A search finds what matches\<close>

text \<open>A row as a search shows it, if it matches anywhere.\<close>

definition found :: "u8 list \<Rightarrow> u8 list \<Rightarrow> FrameRow \<Rightarrow> PatternSearchResult option" where
  "found pat pmask r =
     (let ms = filter (\<lambda>start. \<forall>j < length pat. and (fr_data r ! (start + j)) (pmask ! j) = and (pat ! j) (pmask ! j))
                 [0..<Suc (length (fr_data r)) - length pat]
      in if ms = [] then None
         else Some \<lparr> pr_timestamp_us = fr_ts_us r, pr_frame_id = fr_id r, pr_is_extended = (and (fr_flags r) 8 \<noteq> 0),
                     pr_payload = fr_data r, pr_match_positions = ms \<rparr>)"

lemma found_positions:
  "length (fr_data r) < length pat \<Longrightarrow> found pat pmask r = None"
  "\<not> length (fr_data r) < length pat \<Longrightarrow>
     found pat pmask r =
       (let ms = match_positions pat pmask (fr_data r) in
        if ms = [] then None
        else Some \<lparr> pr_timestamp_us = fr_ts_us r, pr_frame_id = fr_id r, pr_is_extended = (and (fr_flags r) 8 \<noteq> 0),
                    pr_payload = fr_data r, pr_match_positions = ms \<rparr>)"
proof -
  show "length (fr_data r) < length pat \<Longrightarrow> found pat pmask r = None"
    by (simp add: found_def)
  assume "\<not> length (fr_data r) < length pat"
  then have "match_positions pat pmask (fr_data r) =
      filter (\<lambda>start. \<forall>j < length pat. and (fr_data r ! (start + j)) (pmask ! j) = and (pat ! j) (pmask ! j)) [0..<Suc (length (fr_data r)) - length pat]"
    by (simp add: match_positions_def list_all_iff Ball_def Suc_diff_le not_less del: upt_Suc)
  then show "found pat pmask r =
       (let ms = match_positions pat pmask (fr_data r) in
        if ms = [] then None
        else Some \<lparr> pr_timestamp_us = fr_ts_us r, pr_frame_id = fr_id r, pr_is_extended = (and (fr_flags r) 8 \<noteq> 0),
                    pr_payload = fr_data r, pr_match_positions = ms \<rparr>)"
    by (simp add: found_def)
qed

lemma search_rows_finds:
  "length results < max 1 limit \<Longrightarrow> \<exists>scanned'. search_rows pat pmask limit (map Inr rs) scanned results =
     Inr (take (max 1 limit) (results @ List.map_filter (found pat pmask) rs), scanned')"
proof (induction rs arbitrary: scanned results)
  case (Cons r rs)
  show ?case
  proof (cases "found pat pmask r")
    case None
    then show ?thesis
      using Cons.IH [OF Cons.prems, of "scanned + 1"] found_positions [of r pat pmask]
      by (auto simp: map_filter_simps Let_def split: if_splits)
  next
    case (Some x)
    then have l: "\<not> length (fr_data r) < length pat"
      using found_positions(1) [of r pat pmask] by auto
    then have m: "match_positions pat pmask (fr_data r) \<noteq> []"
        "x = \<lparr> pr_timestamp_us = fr_ts_us r, pr_frame_id = fr_id r, pr_is_extended = (and (fr_flags r) 8 \<noteq> 0),
               pr_payload = fr_data r, pr_match_positions = match_positions pat pmask (fr_data r) \<rparr>"
      using Some found_positions(2) [OF l, of pmask] by (auto simp: Let_def split: if_splits)
    show ?thesis
    proof (cases "limit \<le> length (results @ [x])")
      case True
      then have "take (max 1 limit) (results @ x # ys) = results @ [x]" for ys
        using Cons.prems by (auto simp: take_append max_def le_Suc_eq split: if_splits)
      then show ?thesis
        using True l m Some by (auto simp: map_filter_simps Let_def)
    next
      case False
      then show ?thesis
        using Cons.IH [of "results @ [x]" "scanned + 1"] l m Some by (auto simp: map_filter_simps Let_def)
    qed
  qed
qed (simp add: map_filter_simps)

text \<open>A search of rows that all arrive gives the first of those that match, with every place where they do; it gives one
  even where none were asked for.\<close>

theorem search_finds_what_matches:
  assumes "length pat = length pmask" "pat \<noteq> []"
  shows "\<exists>scanned. pattern_search pat pmask limit (Inr (map Inr rs)) =
    Inr (take (max 1 (case limit of Some n \<Rightarrow> n | None \<Rightarrow> 10000)) (List.map_filter (found pat pmask) rs), scanned)"
  using search_rows_finds [of "[]" _ pat pmask rs 0] assms by (auto simp: pattern_search_def)

theorem search_finds_what_matches_witness:
  "\<exists>scanned. pattern_search [7] [255] (Some 0) (Inr (map Inr ex_table)) =
     Inr (take 1 (List.map_filter (found [7] [255]) ex_table), scanned)"
  using search_finds_what_matches [of "[7]" "[255]" "Some 0" ex_table] by simp

end
