(* ===== verification/Spec2Isabelle.thy ===== *)
theory Spec2Isabelle
  imports Archive_Pipeline Capture_Pipeline Control_Socket Gateway_Ingest Gateway_Access Gateway_Queries
begin

text \<open>
  \<^bold>\<open>WireTAP-Server, a verification development.\<close>

  WireTAP-Server captures frames off CAN buses and serial lines, archives them at a gateway over a
  connection that may be down for days, and shares them with GVRET clients. The daemon is
  \<^verbatim>\<open>crates/wiretap-server\<close>, the gateway \<^verbatim>\<open>crates/wiretap-backend\<close>, the types they share \<^verbatim>\<open>crates/wiretap-model\<close>.
  A frame's way is: a source reads it and makes a \<^verbatim>\<open>Sample\<close>; the pipeline of the database it belongs to
  takes it into a bounded queue; the pipeline's worker, \<^verbatim>\<open>Batcher\<close>, groups frames into batches and gives them to a sink,
  or to a disk cache while the sink is down; the sink, \<^verbatim>\<open>ForwardSink\<close>, sends a batch in chunks, waits for
  the acknowledgement of each, and writes to a dead-letter file what the gateway refuses for good. The
  gateway checks the key of a connection, writes a batch to the database its session is for, or to that
  database's buffer while its schema is behind, and acknowledges it once it is stored. What
  is captured and where it goes is decided once, at the start, from command line, file, environment and
  what a UI wrote.

  \<^bold>\<open>The theories.\<close> Each opens with the files it models; a definition has the name of the function it
  translates, with a prefix where the name is taken.

  \<^item> \<^verbatim>\<open>WT_Prelude\<close>, \<^verbatim>\<open>Rust_Text\<close>, \<^verbatim>\<open>F64\<close>: results and \<open>?\<close>, checked and saturating arithmetic, the string
    functions of the standard library the code uses, and binary64 arithmetic on rationals with rounding
    to nearest even. Results are sums, the error left.
  \<^item> \<^verbatim>\<open>Samples\<close> (\<^verbatim>\<open>sample.rs\<close>), \<^verbatim>\<open>Bus\<close> (\<^verbatim>\<open>source/mod.rs\<close>), \<^verbatim>\<open>Wire\<close> (\<^verbatim>\<open>wire.rs\<close>): the frames, the numbers of
    the buses, and the conversion to protocol records and back, which is a round trip.
  \<^item> \<^verbatim>\<open>Cache_Codec\<close>, \<^verbatim>\<open>Frame_Cache\<close>, \<^verbatim>\<open>Sqlite_Cache\<close>, \<^verbatim>\<open>Cache_Adopt\<close> (\<^verbatim>\<open>cache.rs\<close>): the row format and its
    timestamps; the contract \<^verbatim>\<open>FrameCache\<close> as a locale of a FIFO queue that may refuse; \<^verbatim>\<open>SqliteCache\<close> over
    an SQL engine, which is an interpretation of that locale; the adoption of an older install's cache.
  \<^item> \<^verbatim>\<open>Archive_Queue\<close>, \<^verbatim>\<open>Batcher\<close>, \<^verbatim>\<open>Batcher_Flow\<close>, \<^verbatim>\<open>Archive_Stop\<close>, \<^verbatim>\<open>Archive_Pipeline\<close> (\<^verbatim>\<open>archive.rs\<close>): the
    bounded queue with its counters and reports; the worker with every function it calls; where frames
    are, proved once in a locale over any sink and cache that keep their contracts; that a stop ends the
    worker; and all of it for the sink and the cache the server runs with.
  \<^item> \<^verbatim>\<open>Catalogues\<close> (\<^verbatim>\<open>catalogues.rs\<close>, \<^verbatim>\<open>blob.rs\<close>), \<^verbatim>\<open>Forward_Sink\<close>, \<^verbatim>\<open>Forward_Contract\<close> (\<^verbatim>\<open>forward.rs\<close>): the
    framing rules of serial lines, assigned by the gateway and kept for a restart; the sink, with the
    handshake, catalogue transfers, acknowledgements and quarantine; that it keeps the contract the worker
    relies on.
  \<^item> \<^verbatim>\<open>Cache_Paths\<close>, \<^verbatim>\<open>Capture_Devices\<close>, \<^verbatim>\<open>Server_Settings\<close>, \<^verbatim>\<open>Settings_Laws\<close> (\<^verbatim>\<open>settings.rs\<close>),
    \<^verbatim>\<open>Config_File\<close> (\<^verbatim>\<open>config.rs\<close>, \<^verbatim>\<open>cli.rs\<close>), \<^verbatim>\<open>Client_Ranges\<close> (\<^verbatim>\<open>cidr.rs\<close>), \<^verbatim>\<open>Ui_Config\<close>, \<^verbatim>\<open>Ui_Layer\<close> (\<^verbatim>\<open>ui.rs\<close> and
    \<^verbatim>\<open>check\<close> of \<^verbatim>\<open>pipeline.rs\<close>): how a start resolves its settings, which files each pipeline keeps,
    the devices and their checks, the order of precedence of the layers, and what a UI can do to it.
  \<^item> \<^verbatim>\<open>Ingest_Listener\<close> (\<^verbatim>\<open>ingest.rs\<close>), \<^verbatim>\<open>Gvret_Server\<close> (\<^verbatim>\<open>gvret.rs\<close>), \<^verbatim>\<open>Capture_Sources\<close> (\<^verbatim>\<open>source/\<close>, \<^verbatim>\<open>status.rs\<close>),
    \<^verbatim>\<open>Capture_Pipeline\<close> (\<^verbatim>\<open>pipeline.rs\<close>, \<^verbatim>\<open>testpattern.rs\<close>): frames taken from other servers behind a token;
    what each GVRET client is shown and told it missed; the readers of buses and serial lines; how a start
    wires all of it together, and who may transmit.
  \<^item> \<^verbatim>\<open>Control_Socket\<close> (\<^verbatim>\<open>control.rs\<close> and the rest of \<^verbatim>\<open>ui.rs\<close>): a UI's change, merged, checked as a start would and
    written; one that is accepted is what the next start runs on.
  \<^item> \<^verbatim>\<open>Gateway_Rows\<close>, \<^verbatim>\<open>Gateway_Buffer\<close> (\<^verbatim>\<open>ingest/writer.rs\<close>): the rows of a batch and their COPY text, which
    loses nothing; the buffer and its drain as transactions that interleave statement by statement, an
    inductive relation whose reachable states hold every committed batch once.
  \<^item> \<^verbatim>\<open>Gateway_Databases\<close> (\<^verbatim>\<open>db.rs\<close>): the schema state of each database, pools, routing, migrations, imports. A
    locale states what a property must be kept by, the sections that run under one lock, and gives that every
    operation keeps it; it is interpreted for the invariant of the pools and for the log of what is stored.
  \<^item> \<^verbatim>\<open>Gateway_Keys\<close> (\<^verbatim>\<open>keys.rs\<close>), \<^verbatim>\<open>Gateway_Catalogs\<close> (\<^verbatim>\<open>catalogs.rs\<close>): keys, their rotation and revocation, the
    admin key over restarts; the catalogues assigned to daemons, which the daemons' own checks take.
  \<^item> \<^verbatim>\<open>Gateway_Ingest\<close> (\<^verbatim>\<open>ingest/mod.rs\<close>): the session loop over any implementation of the trait \<^verbatim>\<open>Gateway\<close>,
    with the trait's contract as a locale, and a connection as its interpretation.
  \<^item> \<^verbatim>\<open>Gateway_Secrets\<close> (\<^verbatim>\<open>secrets.rs\<close>, with \<^verbatim>\<open>db.rs\<close> and \<^verbatim>\<open>main.rs\<close>): the rotation of the database password, cut off
    anywhere, and the start that recovers it.
  \<^item> \<^verbatim>\<open>Gateway_Import\<close>, \<^verbatim>\<open>Gateway_Http\<close>, \<^verbatim>\<open>Gateway_Access\<close> (\<^verbatim>\<open>http/\<close>, with the links of \<^verbatim>\<open>archive.rs\<close>): the upload of a
    capture, whose records are stored once however the body is cut; callers, checks, middleware and routes;
    and a relation between the states before and after a request that bounds what each caller reaches.
  \<^item> \<^verbatim>\<open>Gateway_Queries\<close> (\<^verbatim>\<open>sql.rs\<close>): the text and parameters of every query of a capture database, into which no value
    of a request gets; the cursor of a replay, which shows every frame once; the search for a pattern.

  \<^bold>\<open>What is a parameter.\<close> SQLite and the file system are a record of operations on a world, with laws
  that say what a statement that succeeds has done and that one that fails has done nothing; each
  parameter has a concrete instance the witnesses run on. Of PostgreSQL the gateway's theories model the
  statements the code runs, with whether each succeeds as a script. The protocol codec and its
  session machine, the catalogue parser, the
  serial library's line settings and the CAN frame type are parameters too: they are other crates.

  \<^bold>\<open>How time and the outside are modelled.\<close> Asynchronous code is explicit state passing. The network is a
  list of what each operation on it will meet, a frame, an error or a timeout; the queue's producers and
  the stop signal are a list of events, of which each point where the worker waits or looks takes the
  next portion. A theorem for all lists is a theorem for all interleavings at those points. The worker's
  loop is bounded by a number of passes; the theorems on stopping give a number that is enough, and
  those on where frames are hold at every number. The dead-letter file is a cache in a world of its own,
  which is what \<^verbatim>\<open>Cache_Paths\<close> justifies.

  \<^bold>\<open>What else the model changes.\<close> Strings are lists of ASCII characters; sizes are natural numbers, and
  machine integers are kept at their width, or with the wrap or the check written out, where the code
  could reach it. Floats are rationals. Log lines are kept where a theorem is about them.

  \<^bold>\<open>Not modelled.\<close> Opening devices and sockets, the console echo, signal handling and
  process start-up are I/O; TOML, JSON and command-line parsing are libraries. The server UI is glue over the
  control socket. Of the gateway's queries the text is modelled and not what PostgreSQL makes of it, but for the
  batches of a replay; its migrations are SQL, its archives COPY streams between files and PostgreSQL, and
  the access log, the activity queries and the listings for the admin UI change no state.
\<close>

end
